(* ===== verification/Prelude.thy ===== *)
theory Prelude
  imports Main "HOL-Library.Word" "HOL-Library.Char_ord" "HOL-Library.List_Lexorder"
begin

unbundle bit_operations_syntax

text \<open>
  Shared vocabulary of the development.  It holds the types every component uses (bytes, Go
  strings, results), the sequencing of fallible Go calls, the model of the few functions of
  Go's standard library that the wallet relies on (\<open>io.ReadFull\<close>, 64-bit wrap-around,
  truncated \<open>%\<close>), and the generic facts on lists that several components share.

  A Go \<open>string\<close> is a byte sequence and is an Isabelle \<open>string\<close> here (a \<open>char\<close> is a byte);
  a Go \<open>[]byte\<close> is a \<open>byte list\<close>.  A Go call that returns \<open>(T, error)\<close> is a value of a sum
  type whose left side is the error.
\<close>

section \<open>Types\<close>

type_synonym byte = "8 word"

text \<open>The fact collections the component theories extend.\<close>

named_theorems result_simps \<open>evaluation of sequenced fallible calls\<close>
named_theorems model_defs \<open>definitions of the model that a proof may unfold together\<close>

section \<open>Sequencing fallible calls\<close>

text \<open>
  \<open>rbind m f\<close> is Go's \<open>v, err := m; if err != nil { return err }; f(v)\<close>.
  \<open>check c e m\<close> is \<open>if c { return e }; m\<close>.
\<close>

definition rbind :: "'e + 'a \<Rightarrow> ('a \<Rightarrow> 'e + 'b) \<Rightarrow> 'e + 'b" where
  "rbind m f = (case m of Inl e \<Rightarrow> Inl e | Inr a \<Rightarrow> f a)"

definition check :: "bool \<Rightarrow> 'e \<Rightarrow> 'e + 'a \<Rightarrow> 'e + 'a" where
  "check c e m = (if c then Inl e else m)"

text \<open>\<open>mapErr\<close> replaces every error by one: \<open>if err != nil { return ErrX }\<close>.\<close>

definition mapErr :: "'f \<Rightarrow> 'e + 'a \<Rightarrow> 'f + 'a" where
  "mapErr e m = (case m of Inl _ \<Rightarrow> Inl e | Inr a \<Rightarrow> Inr a)"

definition is_ok :: "'e + 'a \<Rightarrow> bool" where
  "is_ok m = (case m of Inl _ \<Rightarrow> False | Inr _ \<Rightarrow> True)"

lemma rbind_Inl [simp]: "rbind (Inl e) f = Inl e"
  by (simp add: rbind_def)

lemma rbind_Inr [simp]: "rbind (Inr a) f = f a"
  by (simp add: rbind_def)

lemma check_True [simp]: "check True e m = Inl e"
  by (simp add: check_def)

lemma check_False [simp]: "check False e m = m"
  by (simp add: check_def)

lemma mapErr_Inl [simp]: "mapErr e (Inl x) = Inl e"
  by (simp add: mapErr_def)

lemma mapErr_Inr [simp]: "mapErr e (Inr x) = Inr x"
  by (simp add: mapErr_def)

lemma is_ok_simps [simp]: "is_ok (Inr a)" "\<not> is_ok (Inl e)"
  by (simp_all add: is_ok_def)

lemma rbind_eq_Inr [result_simps]: "rbind m f = Inr b \<longleftrightarrow> (\<exists>a. m = Inr a \<and> f a = Inr b)"
  by (cases m) auto

lemma rbind_eq_Inl: "rbind m f = Inl e \<longleftrightarrow> m = Inl e \<or> (\<exists>a. m = Inr a \<and> f a = Inl e)"
  by (cases m) auto

lemma check_eq_Inr [result_simps]: "check c e m = Inr b \<longleftrightarrow> \<not> c \<and> m = Inr b"
  by (simp add: check_def)

lemma check_eq_Inl: "check c e m = Inl d \<longleftrightarrow> (c \<and> d = e) \<or> (\<not> c \<and> m = Inl d)"
  by (auto simp: check_def)

lemma mapErr_eq_Inr [result_simps]: "mapErr e m = Inr b \<longleftrightarrow> m = Inr b"
  by (cases m) auto

lemma rbind_cong [fundef_cong]:
  "m = m' \<Longrightarrow> (\<And>a. m' = Inr a \<Longrightarrow> f a = f' a) \<Longrightarrow> rbind m f = rbind m' f'"
  by (cases m') auto

text \<open>Running a fallible step over a list: a Go \<open>for range\<close> that returns the first error.\<close>

fun rmap :: "('a \<Rightarrow> 'e + 'b) \<Rightarrow> 'a list \<Rightarrow> 'e + 'b list" where
  "rmap f [] = Inr []"
| "rmap f (x # xs) = rbind (f x) (\<lambda>y. rbind (rmap f xs) (\<lambda>ys. Inr (y # ys)))"

fun rfold :: "('a \<Rightarrow> 's \<Rightarrow> 'e + 's) \<Rightarrow> 'a list \<Rightarrow> 's \<Rightarrow> 'e + 's" where
  "rfold f [] s = Inr s"
| "rfold f (x # xs) s = rbind (f x s) (rfold f xs)"

lemma rmap_length: "rmap f xs = Inr ys \<Longrightarrow> length ys = length xs"
  by (induction xs arbitrary: ys) (auto simp: result_simps)

lemma rmap_nth: "rmap f xs = Inr ys \<Longrightarrow> i < length xs \<Longrightarrow> f (xs ! i) = Inr (ys ! i)"
proof (induction xs arbitrary: ys i)
  case (Cons x xs)
  then show ?case by (cases i) (auto simp: result_simps)
qed simp

lemma rmap_eq_InrI:
  assumes "length ys = length xs" and "\<And>i. i < length xs \<Longrightarrow> f (xs ! i) = Inr (ys ! i)"
  shows "rmap f xs = Inr ys"
  using assms
proof (induction xs arbitrary: ys)
  case (Cons x xs)
  then obtain y ys' where ys: "ys = y # ys'" by (cases ys) auto
  have "f x = Inr y" using Cons.prems(2) [of 0] ys by simp
  moreover have "rmap f xs = Inr ys'"
  proof (rule Cons.IH)
    show "length ys' = length xs" using Cons.prems(1) ys by simp
    show "f (xs ! i) = Inr (ys' ! i)" if "i < length xs" for i
      using Cons.prems(2) [of "Suc i"] ys that by simp
  qed
  ultimately show ?case using ys by simp
qed simp

lemma rmap_Inr: "rmap (\<lambda>x. Inr (f x)) xs = Inr (map f xs)"
  by (induction xs) auto

lemma rmap_cong_Inr: "(\<And>x. x \<in> set xs \<Longrightarrow> f x = Inr (g x)) \<Longrightarrow> rmap f xs = Inr (map g xs)"
  by (induction xs) auto

lemma rfold_invariant:
  assumes "rfold f xs s = Inr t" and "P s"
    and "\<And>x s s'. x \<in> set xs \<Longrightarrow> P s \<Longrightarrow> f x s = Inr s' \<Longrightarrow> P s'"
  shows "P t"
  using assms
proof (induction xs arbitrary: s)
  case (Cons x xs)
  then obtain s' where "f x s = Inr s'" and r: "rfold f xs s' = Inr t"
    by (auto simp: result_simps)
  then have "P s'" using Cons.prems by auto
  with r show ?case using Cons.prems(3) by (auto intro: Cons.IH)
qed simp

section \<open>Go's readers\<close>

text \<open>
  An \<open>io.Reader\<close> that is only ever drained with \<open>io.ReadFull\<close> is the list of the bytes it
  will still deliver; \<open>readFull\<close> fails when the source ends early.
\<close>

type_synonym reader = "byte list"

definition readFull :: "'e \<Rightarrow> nat \<Rightarrow> reader \<Rightarrow> 'e + (byte list \<times> reader)" where
  "readFull e n r = (if length r < n then Inl e else Inr (take n r, drop n r))"

lemma readFull_eq_Inr [result_simps]:
  "readFull e n r = Inr (bs, r') \<longleftrightarrow> length bs = n \<and> r = bs @ r'"
  by (auto simp: readFull_def)

lemma readFull_append [simp]: "length bs = n \<Longrightarrow> readFull e n (bs @ r) = Inr (bs, r)"
  by (simp add: readFull_def)

section \<open>Go's 64-bit integers\<close>

text \<open>\<open>i64\<close> is the wrap-around of \<open>int64\<close>; \<open>goRem\<close> is Go's truncated \<open>%\<close>.\<close>

definition i64 :: "int \<Rightarrow> int" where
  "i64 x = (x + 2 ^ 63) mod 2 ^ 64 - 2 ^ 63"

definition goRem :: "int \<Rightarrow> int \<Rightarrow> int" where
  "goRem a b = sgn a * (\<bar>a\<bar> mod \<bar>b\<bar>)"

lemma i64_id: "- (2 ^ 63) \<le> x \<Longrightarrow> x < 2 ^ 63 \<Longrightarrow> i64 x = x"
  by (simp add: i64_def)

lemma i64_range: "- (2 ^ 63) \<le> i64 x" "i64 x < 2 ^ 63"
  by (simp_all add: i64_def)

lemma goRem_nonneg: "0 \<le> a \<Longrightarrow> 0 < b \<Longrightarrow> goRem a b = a mod b"
  by (simp add: goRem_def sgn_if)

lemma goRem_mod:
  assumes "0 < b"
  shows "goRem a b = a mod b \<or> goRem a b + b = a mod b \<and> goRem a b < 0"
proof (cases "0 \<le> a")
  case False
  have r: "goRem a b = - ((- a) mod b)" using False assms by (simp add: goRem_def sgn_if)
  show ?thesis
  proof (cases "(- a) mod b = 0")
    case True
    then have "a mod b = 0" by (simp add: mod_eq_0_iff_dvd)
    then show ?thesis using r True by simp
  next
    case nz: False
    have "0 < (- a) mod b" using nz assms by (simp add: order_less_le)
    moreover have "a mod b = b - (- a) mod b"
      using nz zmod_zminus1_eq_if [of "- a" b] by simp
    ultimately show ?thesis using r by simp
  qed
qed (use assms in \<open>simp add: goRem_nonneg\<close>)

section \<open>Bytes\<close>

definition byte_of_char :: "char \<Rightarrow> byte" where
  "byte_of_char c = of_nat (of_char c)"

definition char_of_byte :: "byte \<Rightarrow> char" where
  "char_of_byte b = char_of (unat b)"

text \<open>Go's conversions \<open>[]byte(s)\<close> and \<open>string(b)\<close>.\<close>

definition bytes_of :: "string \<Rightarrow> byte list" where
  "bytes_of s = map byte_of_char s"

definition string_of :: "byte list \<Rightarrow> string" where
  "string_of bs = map char_of_byte bs"

lemma unat_byte_of_char [simp]: "unat (byte_of_char c) = of_char c"
  using nat_of_char_less_256 [of c] by (simp add: byte_of_char_def unat_of_nat)

lemma char_of_byte_of_char [simp]: "char_of_byte (byte_of_char c) = c"
  by (simp add: char_of_byte_def)

lemma byte_of_char_of_byte [simp]: "byte_of_char (char_of_byte b) = b"
  using unsigned_less [of b, where ?'a = nat] by (simp add: byte_of_char_def char_of_byte_def)

lemma string_of_bytes_of [simp]: "string_of (bytes_of s) = s"
  by (induction s) (simp_all add: string_of_def bytes_of_def)

lemma bytes_of_string_of [simp]: "bytes_of (string_of bs) = bs"
  by (induction bs) (simp_all add: string_of_def bytes_of_def)

lemma length_bytes_of [simp]: "length (bytes_of s) = length s"
  by (simp add: bytes_of_def)

lemma length_string_of [simp]: "length (string_of bs) = length bs"
  by (simp add: string_of_def)

end
