(* ===== verification/Encoding.thy ===== *)
theory Encoding
  imports Prelude
begin

text \<open>
  The encodings of Go's standard library that the account package is built on: fixed-width
  integers, \<open>binary.PutUvarint\<close>/\<open>ReadUvarint\<close>, \<open>hex\<close>, raw URL-safe \<open>base64\<close>, and the white-space
  functions of \<open>strings\<close>.  The locale \<open>codec\<close> states what an encoder and a decoder of a stream
  element promise each other; the stream formats of the account state and of the managed data
  are interpretations of it.
\<close>

section \<open>Stream codecs\<close>

locale codec =
  fixes enc :: "'a \<Rightarrow> byte list"
    and dec :: "reader \<Rightarrow> 'e + ('a \<times> reader)"
    and ok :: "'a \<Rightarrow> bool"
  assumes dec_enc: "ok x \<Longrightarrow> dec (enc x @ rest) = Inr (x, rest)"

text \<open>Reading \<open>n\<close> elements one after the other: the counted loops of the decoders.\<close>

fun read_n :: "(reader \<Rightarrow> 'e + ('a \<times> reader)) \<Rightarrow> nat \<Rightarrow> reader \<Rightarrow> 'e + ('a list \<times> reader)" where
  "read_n dec 0 r = Inr ([], r)"
| "read_n dec (Suc n) r =
     rbind (dec r) (\<lambda>(x, r). rbind (read_n dec n r) (\<lambda>(xs, r). Inr (x # xs, r)))"

context codec begin

lemma enc_inject:
  assumes "ok x" "ok y" "enc x @ r = enc y @ s"
  shows "x = y \<and> r = s"
proof -
  have "dec (enc y @ s) = Inr (x, r)" using dec_enc [OF assms(1), of r] unfolding assms(3) .
  then show ?thesis unfolding dec_enc [OF assms(2)] by simp
qed

lemma read_n_concat:
  "\<forall>x\<in>set xs. ok x \<Longrightarrow> read_n dec (length xs) (concat (map enc xs) @ rest) = Inr (xs, rest)"
  by (induction xs) (auto simp: dec_enc)

end

lemma read_n_length: "read_n dec n r = Inr (xs, r') \<Longrightarrow> length xs = n"
  by (induction n arbitrary: r xs) (auto simp: result_simps split: prod.splits)

section \<open>Fixed-width integers\<close>

text \<open>\<open>binary.LittleEndian.PutUint32\<close>, \<open>binary.LittleEndian.Uint32\<close>, \<open>binary.BigEndian.PutUint64\<close>.\<close>

definition putUint32LE :: "32 word \<Rightarrow> byte list" where
  "putUint32LE v = [ucast v, ucast (drop_bit 8 v), ucast (drop_bit 16 v), ucast (drop_bit 24 v)]"

definition uint32LE :: "byte list \<Rightarrow> 32 word" where
  "uint32LE b = ucast (b ! 0) OR push_bit 8 (ucast (b ! 1)) OR push_bit 16 (ucast (b ! 2))
     OR push_bit 24 (ucast (b ! 3))"

definition putUint64BE :: "64 word \<Rightarrow> byte list" where
  "putUint64BE v = map (\<lambda>i. ucast (drop_bit (8 * (7 - i)) v)) [0..<8]"

lemma length_putUint32LE [simp]: "length (putUint32LE v) = 4"
  by (simp add: putUint32LE_def)

lemma uint32LE_put: "uint32LE (putUint32LE v @ rest) = v"
proof (rule bit_word_eqI)
  fix n assume "n < LENGTH(32)"
  then have "n < 8 \<or> (8 \<le> n \<and> n < 16) \<or> (16 \<le> n \<and> n < 24) \<or> (24 \<le> n \<and> n < 32)" by auto
  then show "bit (uint32LE (putUint32LE v @ rest)) n = bit v n"
    by (elim disjE)
      (auto simp: uint32LE_def putUint32LE_def bit_or_iff bit_push_bit_iff bit_ucast_iff bit_drop_bit_eq)
qed

lemma putUint32LE_inject: "putUint32LE v = putUint32LE w \<longleftrightarrow> v = w"
  by (metis append_Nil2 uint32LE_put)

section \<open>Variable-length integers\<close>

text \<open>
  \<open>binary.PutUvarint\<close> writes seven bits per byte, lowest first, the top bit marking that more
  follow; \<open>binary.ReadUvarint\<close> reads at most ten bytes and rejects a tenth byte above 1.
\<close>

function uvarint_bytes :: "nat \<Rightarrow> byte list" where
  "uvarint_bytes x =
     (if x < 128 then [of_nat x] else of_nat (x mod 128 + 128) # uvarint_bytes (x div 128))"
  by pat_completeness auto
termination
  by (relation "measure id") auto

declare uvarint_bytes.simps [simp del]

definition putUvarint :: "64 word \<Rightarrow> byte list" where
  "putUvarint v = uvarint_bytes (unat v)"

fun uvarint_loop :: "'e \<Rightarrow> nat \<Rightarrow> nat \<Rightarrow> reader \<Rightarrow> 'e + (nat \<times> reader)" where
  "uvarint_loop e i x [] = Inl e"
| "uvarint_loop e i x (b # r) =
     (if i \<ge> 10 then Inl e
      else if unat b < 128 then
        (if i = 9 \<and> unat b > 1 then Inl e else Inr (x + unat b * 2 ^ (7 * i), r))
      else uvarint_loop e (i + 1) (x + (unat b mod 128) * 2 ^ (7 * i)) r)"

definition readUvarint :: "'e \<Rightarrow> reader \<Rightarrow> 'e + (64 word \<times> reader)" where
  "readUvarint e r = rbind (uvarint_loop e 0 0 r) (\<lambda>(n, r). Inr (of_nat n, r))"

lemma uvarint_loop_bytes:
  assumes "v * 2 ^ (7 * i) < 2 ^ 64" and "i < 10"
  shows "uvarint_loop e i x (uvarint_bytes v @ rest) = Inr (x + v * 2 ^ (7 * i), rest)"
  using assms
proof (induction v arbitrary: i x rule: uvarint_bytes.induct)
  case (1 v)
  have nine: "v \<le> 1" if "i = 9"
  proof -
    have "v * 2 ^ 63 < 2 ^ 64" using "1.prems"(1) that by simp
    then show ?thesis by simp
  qed
  show ?case
  proof (cases "v < 128")
    case True
    then have "unat (of_nat v :: byte) = v" by (simp add: unat_of_nat)
    then show ?thesis
      using True nine "1.prems"(2) by (auto simp: uvarint_bytes.simps [of v])
  next
    case False
    then have i: "i < 9" using nine "1.prems"(2) by (cases "i = 9") auto
    have b: "unat (of_nat (v mod 128 + 128) :: byte) = v mod 128 + 128"
      by (simp add: unat_of_nat del: of_nat_add)
    have split: "v = v mod 128 + 128 * (v div 128)" by simp
    have p: "(2::nat) ^ (7 * (i + 1)) = 128 * 2 ^ (7 * i)"
      by (simp add: power_add)
    have "v div 128 * 2 ^ (7 * (i + 1)) \<le> v * 2 ^ (7 * i)"
      unfolding p using split by (simp add: algebra_simps)
    then have "v div 128 * 2 ^ (7 * (i + 1)) < 2 ^ 64" using "1.prems"(1) by linarith
    then have "uvarint_loop e (i + 1) y (uvarint_bytes (v div 128) @ rest)
        = Inr (y + v div 128 * 2 ^ (7 * (i + 1)), rest)" for y
      using False i by (intro "1.IH") auto
    moreover have "(v mod 128) * 2 ^ (7 * i) + v div 128 * 2 ^ (7 * (i + 1)) = v * 2 ^ (7 * i)"
    proof -
      have "v mod 128 * 2 ^ (7 * i) + v div 128 * (128 * 2 ^ (7 * i))
          = (v mod 128 + 128 * (v div 128)) * 2 ^ (7 * i)"
        by (simp only: add_mult_distrib mult.assoc mult.left_commute)
      then show ?thesis unfolding p by simp
    qed
    ultimately show ?thesis
      using False i b by (simp add: uvarint_bytes.simps [of v] del: of_nat_add)
  qed
qed

lemma readUvarint_put: "readUvarint e (putUvarint v @ rest) = Inr (v, rest)"
proof -
  have "unat v * 2 ^ (7 * 0) < 2 ^ 64"
    using unsigned_less [of v, where ?'a = nat] by simp
  then have "uvarint_loop e 0 0 (uvarint_bytes (unat v) @ rest) = Inr (unat v, rest)"
    using uvarint_loop_bytes [of "unat v" 0 e 0 rest] by simp
  then show ?thesis by (simp add: readUvarint_def putUvarint_def)
qed

interpretation uvarint: codec putUvarint "readUvarint e" "\<lambda>v. True"
  by unfold_locales (simp add: readUvarint_put)

section \<open>Hexadecimal\<close>

definition hexDigit :: "nat \<Rightarrow> char" where
  "hexDigit n = ''0123456789abcdef'' ! n"

definition hexVal :: "char \<Rightarrow> nat option" where
  "hexVal c =
     (let n = of_char c
      in if 48 \<le> n \<and> n \<le> 57 then Some (n - 48)
         else if 97 \<le> n \<and> n \<le> 102 then Some (n - 87)
         else if 65 \<le> n \<and> n \<le> 70 then Some (n - 55)
         else None)"

fun hexEncode :: "byte list \<Rightarrow> string" where
  "hexEncode [] = []"
| "hexEncode (b # bs) = hexDigit (unat b div 16) # hexDigit (unat b mod 16) # hexEncode bs"

text \<open>\<open>hex.DecodeString\<close> accepts both cases and fails on an odd length or a foreign character.\<close>

fun hexDecode :: "string \<Rightarrow> byte list option" where
  "hexDecode [] = Some []"
| "hexDecode [c] = None"
| "hexDecode (c # d # s) =
     (case (hexVal c, hexVal d, hexDecode s) of
        (Some x, Some y, Some bs) \<Rightarrow> Some (of_nat (16 * x + y) # bs)
      | _ \<Rightarrow> None)"

lemma hexDigit_cases: "(n :: nat) < 16 \<Longrightarrow> n \<in> {0,1,2,3,4,5,6,7,8,9,10,11,12,13,14,15}"
  by (simp, arith)

lemma hexVal_hexDigit: "n < 16 \<Longrightarrow> hexVal (hexDigit n) = Some n"
  by (drule hexDigit_cases) (elim insertE emptyE; simp add: hexDigit_def hexVal_def)

lemma byte_hex_split: "of_nat (16 * (unat b div 16) + unat b mod 16) = (b :: byte)"
  by simp

lemma unat_byte_lt: "unat (b :: byte) < 256"
  using unsigned_less [of b, where ?'a = nat] by simp

lemma hexDecode_hexEncode [simp]: "hexDecode (hexEncode bs) = Some bs"
proof (induction bs)
  case (Cons b bs)
  have "unat b div 16 < 16" using unat_byte_lt [of b] by simp
  then show ?case using Cons by (simp add: hexVal_hexDigit del: of_nat_add of_nat_mult)
qed simp

lemma length_hexEncode [simp]: "length (hexEncode bs) = 2 * length bs"
  by (induction bs) auto

lemma length_hexDecode: "hexDecode s = Some bs \<Longrightarrow> length s = 2 * length bs"
  by (induction s arbitrary: bs rule: hexDecode.induct) (auto split: option.splits)

lemma hexEncode_inject [simp]: "hexEncode xs = hexEncode ys \<longleftrightarrow> xs = ys"
  by (metis hexDecode_hexEncode option.inject)

section \<open>Case and white space\<close>

text \<open>
  \<open>strings.ToLower\<close> on ASCII letters.  The callers lower-case a string only to compare or decode
  it as hexadecimal, and no character outside ASCII lower-cases to a hexadecimal digit, so the
  rest of Unicode makes no difference there.
\<close>

definition lowerChar :: "char \<Rightarrow> char" where
  "lowerChar c = (let n = of_char c :: nat in if 65 \<le> n \<and> n \<le> 90 then char_of (n + 32) else c)"

definition toLower :: "string \<Rightarrow> string" where
  "toLower s = map lowerChar s"

lemma lowerChar_hexDigit: "n < 16 \<Longrightarrow> lowerChar (hexDigit n) = hexDigit n"
  by (drule hexDigit_cases) (elim insertE emptyE; simp add: hexDigit_def lowerChar_def)

lemma toLower_hexEncode [simp]: "toLower (hexEncode bs) = hexEncode bs"
proof (induction bs)
  case (Cons b bs)
  then show ?case using unat_byte_lt [of b] by (simp add: toLower_def lowerChar_hexDigit)
qed (simp add: toLower_def)

text \<open>
  \<open>unicode.IsSpace\<close> on UTF-8: the ASCII white space and the UTF-8 sequences of U+0085, U+00A0,
  U+1680, U+2000 to U+200A, U+2028, U+2029, U+202F, U+205F and U+3000.  A sequence starts with a
  lead byte, so it can only match at the boundary of a character: matching prefixes and suffixes
  is what \<open>TrimSpace\<close> and \<open>Fields\<close> do by decoding.
\<close>

definition space_seqs :: "string list" where
  "space_seqs =
     [[CHR 0x09], [CHR 0x0A], [CHR 0x0B], [CHR 0x0C], [CHR 0x0D], [CHR 0x20],
      [CHR 0xC2, CHR 0x85], [CHR 0xC2, CHR 0xA0], [CHR 0xE1, CHR 0x9A, CHR 0x80],
      [CHR 0xE2, CHR 0x80, CHR 0x80], [CHR 0xE2, CHR 0x80, CHR 0x81], [CHR 0xE2, CHR 0x80, CHR 0x82],
      [CHR 0xE2, CHR 0x80, CHR 0x83], [CHR 0xE2, CHR 0x80, CHR 0x84], [CHR 0xE2, CHR 0x80, CHR 0x85],
      [CHR 0xE2, CHR 0x80, CHR 0x86], [CHR 0xE2, CHR 0x80, CHR 0x87], [CHR 0xE2, CHR 0x80, CHR 0x88],
      [CHR 0xE2, CHR 0x80, CHR 0x89], [CHR 0xE2, CHR 0x80, CHR 0x8A], [CHR 0xE2, CHR 0x80, CHR 0xA8],
      [CHR 0xE2, CHR 0x80, CHR 0xA9], [CHR 0xE2, CHR 0x80, CHR 0xAF], [CHR 0xE2, CHR 0x81, CHR 0x9F],
      [CHR 0xE3, CHR 0x80, CHR 0x80]]"

text \<open>The length of the white-space character a string starts with, \<open>0\<close> when there is none.\<close>

definition spaceLen :: "string \<Rightarrow> nat" where
  "spaceLen s = (case find (\<lambda>q. take (length q) s = q) space_seqs of None \<Rightarrow> 0 | Some q \<Rightarrow> length q)"

definition spaceLenEnd :: "string \<Rightarrow> nat" where
  "spaceLenEnd s =
     (case find (\<lambda>q. length q \<le> length s \<and> drop (length s - length q) s = q) space_seqs of
        None \<Rightarrow> 0 | Some q \<Rightarrow> length q)"

function trimLeft :: "string \<Rightarrow> string" where
  "trimLeft s = (if spaceLen s = 0 \<or> s = [] then s else trimLeft (drop (spaceLen s) s))"
  by pat_completeness auto
termination
  by (relation "measure length") auto

function trimRight :: "string \<Rightarrow> string" where
  "trimRight s = (if spaceLenEnd s = 0 \<or> s = [] then s else trimRight (take (length s - spaceLenEnd s) s))"
  by pat_completeness auto
termination
  by (relation "measure length") auto

declare trimLeft.simps [simp del]
declare trimRight.simps [simp del]

definition trimSpace :: "string \<Rightarrow> string" where
  "trimSpace s = trimRight (trimLeft s)"

text \<open>\<open>strings.Fields\<close>: the maximal runs of non-space characters (\<open>cur\<close> is the run being read).\<close>

function fields_loop :: "string \<Rightarrow> string \<Rightarrow> string list" where
  "fields_loop cur s =
     (if s = [] then (if cur = [] then [] else [cur])
      else if spaceLen s = 0 then fields_loop (cur @ [hd s]) (tl s)
      else if cur = [] then fields_loop [] (drop (spaceLen s) s)
      else cur # fields_loop [] (drop (spaceLen s) s))"
  by pat_completeness auto
termination
  by (relation "measure (\<lambda>(cur, s). length s)") auto

declare fields_loop.simps [simp del]

definition Fields :: "string \<Rightarrow> string list" where
  "Fields s = fields_loop [] s"

text \<open>\<open>strings.Join(parts, sep)\<close>.\<close>

fun join :: "string \<Rightarrow> string list \<Rightarrow> string" where
  "join sep [] = []"
| "join sep [x] = x"
| "join sep (x # y # xs) = x @ sep @ join sep (y # xs)"

subsection \<open>Words\<close>

lemma space_seqs_nonempty: "q \<in> set space_seqs \<Longrightarrow> q \<noteq> []"
  by (auto simp: space_seqs_def)

lemma space_seqs_blank: "q \<in> set space_seqs \<Longrightarrow> CHR '' '' \<in> set q \<Longrightarrow> q = '' ''"
  by (auto simp: space_seqs_def)

lemma space_seqs_suffix_blank: "q \<in> set space_seqs \<Longrightarrow> u @ CHR '' '' # v = q \<Longrightarrow> v = []"
  using space_seqs_blank [of q] by (cases u) auto

lemma spaceLen_0: "spaceLen s = 0 \<longleftrightarrow> (\<forall>q\<in>set space_seqs. take (length q) s \<noteq> q)"
  using space_seqs_nonempty
  by (auto simp: spaceLen_def find_None_iff find_Some_iff split: option.split)

lemma spaceLenEnd_0:
  "spaceLenEnd s = 0 \<longleftrightarrow> (\<forall>q\<in>set space_seqs. \<not> (length q \<le> length s \<and> drop (length s - length q) s = q))"
  using space_seqs_nonempty
  by (auto simp: spaceLenEnd_def find_None_iff find_Some_iff split: option.split)

lemma spaceLen_prefix: "spaceLen (s @ r) = 0 \<Longrightarrow> spaceLen s = 0"
  unfolding spaceLen_0 by (metis length_take min_def order_refl take_append append_take_drop_id append_eq_append_conv le_add_diff_inverse2 take_all_iff nat_le_linear append_Nil2 take0 diff_is_0_eq)

lemma spaceLen_blank: "spaceLen (CHR '' '' # s) = 1"
  by (simp add: spaceLen_def space_seqs_def)

lemma spaceLen_before_blank:
  assumes "spaceLen s = 0" and "s \<noteq> []"
  shows "spaceLen (s @ CHR '' '' # r) = 0"
  unfolding spaceLen_0
proof
  fix q assume q: "q \<in> set space_seqs"
  show "take (length q) (s @ CHR '' '' # r) \<noteq> q"
  proof
    assume eq: "take (length q) (s @ CHR '' '' # r) = q"
    show False
    proof (cases "length q \<le> length s")
      case True
      with eq have "take (length q) s = q" by simp
      with assms(1) q show False by (simp add: spaceLen_0)
    next
      case False
      then obtain n where "length q - length s = Suc n" by (metis Suc_diff_Suc not_le_imp_less)
      with False eq have "q = s @ CHR '' '' # take n r" by simp
      then show False using space_seqs_blank [OF q] assms(2) by (cases s) auto
    qed
  qed
qed

definition is_word :: "string \<Rightarrow> bool" where
  "is_word w \<longleftrightarrow> w \<noteq> [] \<and> (\<forall>k<length w. spaceLen (drop k w) = 0)"

lemma fields_loop_words:
  assumes "\<forall>k<length cur. spaceLen (drop k cur @ s) = 0"
  shows "\<forall>w\<in>set (fields_loop cur s). is_word w"
  using assms
proof (induction cur s rule: fields_loop.induct)
  case (1 cur s)
  have cur: "is_word cur" if "cur \<noteq> []"
    using "1.prems" that spaceLen_prefix unfolding is_word_def by blast
  show ?case
  proof (cases "s = []")
    case True
    then show ?thesis using cur by (simp add: fields_loop.simps [of cur "[]"])
  next
    case s: False
    show ?thesis
    proof (cases "spaceLen s = 0")
      case True
      have "\<forall>k<length (cur @ [hd s]). spaceLen (drop k (cur @ [hd s]) @ tl s) = 0"
        using "1.prems" True s by (auto simp: less_Suc_eq)
      then have "\<forall>w\<in>set (fields_loop (cur @ [hd s]) (tl s)). is_word w"
        using "1.IH"(1) s True by simp
      then show ?thesis using s True by (simp add: fields_loop.simps [of cur s])
    next
      case False
      then have "\<forall>w\<in>set (fields_loop [] (drop (spaceLen s) s)). is_word w"
        using "1.IH"(2,3) s by (cases "cur = []") simp_all
      then show ?thesis using s False cur by (auto simp: fields_loop.simps [of cur s])
    qed
  qed
qed

lemma fields_words: "\<forall>w\<in>set (Fields s). is_word w"
  unfolding Fields_def by (rule fields_loop_words) simp

lemma fields_loop_word:
  assumes "\<forall>k<length w. spaceLen (drop k w @ s) = 0"
  shows "fields_loop cur (w @ s) = fields_loop (cur @ w) s"
  using assms
proof (induction w arbitrary: cur)
  case (Cons c w)
  have "spaceLen ((c # w) @ s) = 0" using Cons.prems [rule_format, of 0] by simp
  then have "fields_loop cur ((c # w) @ s) = fields_loop (cur @ [c]) (w @ s)"
    by (simp add: fields_loop.simps [of cur "c # w @ s"])
  also have "\<dots> = fields_loop (cur @ [c] @ w) s"
  proof -
    have "\<forall>k<length w. spaceLen (drop k w @ s) = 0"
      using Cons.prems by (metis Suc_less_eq drop_Suc_Cons length_Cons)
    from Cons.IH [OF this, of "cur @ [c]"] show ?thesis by simp
  qed
  finally show ?case by simp
qed simp

lemma fields_join: "\<forall>w\<in>set ws. is_word w \<Longrightarrow> Fields (join '' '' ws) = ws"
proof (induction "'' '' :: string" ws rule: join.induct)
  case 1
  then show ?case by (simp add: Fields_def fields_loop.simps)
next
  case (2 w)
  then show ?case
    using fields_loop_word [of w "[]" "[]"]
    by (simp add: Fields_def is_word_def fields_loop.simps [of w "[]"])
next
  case (3 w v ws)
  let ?r = "join '' '' (v # ws)"
  have "\<forall>k<length w. spaceLen (drop k w @ CHR '' '' # ?r) = 0"
    using 3 by (auto simp: is_word_def intro!: spaceLen_before_blank)
  then have "Fields (join '' '' (w # v # ws)) = fields_loop w (CHR '' '' # ?r)"
    using fields_loop_word [of w "CHR '' '' # ?r" "[]"] by (simp add: Fields_def)
  also have "\<dots> = w # Fields ?r"
    using 3 by (simp add: fields_loop.simps [of w "CHR '' '' # ?r"] spaceLen_blank is_word_def Fields_def)
  finally show ?case using 3 by simp
qed

lemma trim_words: "\<forall>w\<in>set ws. is_word w \<Longrightarrow> trimSpace (join '' '' ws) = join '' '' ws"
proof -
  assume ws: "\<forall>w\<in>set ws. is_word w"
  have l: "spaceLen (join '' '' ws) = 0 \<or> ws = []"
  proof (cases ws rule: list.exhaust)
    case (Cons w vs)
    then have "spaceLen w = 0" "w \<noteq> []"
      using ws by (auto simp: is_word_def dest: spec [of _ 0])
    then show ?thesis
      using Cons by (cases vs) (auto intro: spaceLen_before_blank)
  qed simp
  have r: "spaceLenEnd (join '' '' ws) = 0"
    using ws
  proof (induction "'' '' :: string" ws rule: join.induct)
    case 1
    then show ?case using space_seqs_nonempty by (auto simp: spaceLenEnd_0)
  next
    case (2 w)
    show ?case unfolding spaceLenEnd_0
    proof (intro ballI notI, elim conjE)
      fix q assume q: "q \<in> set space_seqs"
        and e: "length q \<le> length (join '' '' [w])"
          "drop (length (join '' '' [w]) - length q) (join '' '' [w]) = q"
      have w: "is_word w" using 2 by simp
      then have "length w - length q < length w"
        using space_seqs_nonempty [OF q] by (cases w) (auto simp: is_word_def)
      then have "spaceLen (drop (length w - length q) w) = 0"
        using w by (simp add: is_word_def)
      moreover have "drop (length w - length q) w = q" using e(2) by simp
      ultimately show False using q by (auto simp: spaceLen_0)
    qed
  next
    case (3 w v ws)
    let ?r = "join '' '' (v # ws)"
    have IH: "spaceLenEnd ?r = 0" using 3 by simp
    have ne: "?r \<noteq> []" using 3 by (cases ws) (auto simp: is_word_def)
    show ?case unfolding spaceLenEnd_0
    proof (intro ballI notI, elim conjE)
      fix q assume q: "q \<in> set space_seqs"
        and e: "length q \<le> length (join '' '' (w # v # ws))"
          "drop (length (join '' '' (w # v # ws)) - length q) (join '' '' (w # v # ws)) = q"
      show False
      proof (cases "length q \<le> length ?r")
        case True
        then have "drop (length ?r - length q) ?r = q" using e by (simp add: Suc_diff_le)
        then show False using IH q True by (auto simp: spaceLenEnd_0)
      next
        case False
        then have "drop (Suc (length w + length ?r) - length q) w @ CHR '' '' # ?r = q"
          using e(2) by (simp add: Suc_diff_le)
        then show False using space_seqs_suffix_blank [OF q] ne by blast
      qed
    qed
  qed
  have "trimLeft (join '' '' ws) = join '' '' ws"
    using l by (auto simp: trimLeft.simps [of "join '' '' ws"] trimLeft.simps [of "[]"])
  moreover have "trimRight (join '' '' ws) = join '' '' ws"
    using r by (simp add: trimRight.simps [of "join '' '' ws"])
  ultimately show ?thesis by (simp add: trimSpace_def)
qed

text \<open>Strings of printable ASCII characters contain no white space.\<close>

definition printable :: "char \<Rightarrow> bool" where
  "printable c = (let n = of_char c :: nat in 32 < n \<and> n < 128)"

lemma space_seqs_hd: "q \<in> set space_seqs \<Longrightarrow> \<exists>c r. q = c # r \<and> \<not> printable c"
  by (simp only: space_seqs_def list.set insert_iff empty_iff simp_thms)
    (elim disjE; simp add: printable_def)

lemma is_word_printable:
  assumes "s \<noteq> []" and "\<forall>c\<in>set s. printable c"
  shows "is_word s"
  unfolding is_word_def spaceLen_0
proof (intro conjI assms(1) allI impI ballI notI)
  fix k q assume k: "k < length s" and q: "q \<in> set space_seqs" and e: "take (length q) (drop k s) = q"
  obtain c r where c: "q = c # r" "\<not> printable c" using space_seqs_hd [OF q] by blast
  then have "drop k s ! 0 = c" using e k by (metis nth_Cons_0 nth_take list.size(3) length_greater_0_conv list.distinct(1))
  then have "c \<in> set s" using k by auto
  then show False using assms(2) c by auto
qed

lemma hexVal_printable: "hexVal c \<noteq> None \<Longrightarrow> printable c"
  by (auto simp: hexVal_def printable_def Let_def split: if_splits)

lemma is_word_hex: "s \<noteq> [] \<Longrightarrow> \<forall>c\<in>set s. hexVal c \<noteq> None \<Longrightarrow> is_word s"
  by (intro is_word_printable ballI hexVal_printable) auto

lemma hexVal_hexEncode: "c \<in> set (hexEncode bs) \<Longrightarrow> hexVal c \<noteq> None"
proof (induction bs)
  case (Cons b bs)
  then show ?case using unat_byte_lt [of b] hexVal_hexDigit by (auto simp: hexVal_hexDigit)
qed simp

lemma trimSpace_Nil [simp]: "trimSpace [] = []"
  by (simp add: trimSpace_def trimLeft.simps [of "[]"] trimRight.simps [of "[]"])

lemma printable_trim: "\<forall>c\<in>set s. printable c \<Longrightarrow> trimSpace s = s"
  using trim_words [of "[s]"] is_word_printable [of s] by (cases "s = []") auto

lemma hex_trim: "\<forall>c\<in>set s. hexVal c \<noteq> None \<Longrightarrow> trimSpace s = s"
  using trim_words [of "[s]"] is_word_hex [of s] by (cases "s = []") auto

lemma hexEncode_trim [simp]: "trimSpace (hexEncode bs) = hexEncode bs"
  by (intro hex_trim ballI hexVal_hexEncode)

subsection \<open>Trimming is idempotent\<close>

lemma spaceLen_Nil [simp]: "spaceLen [] = 0"
  using space_seqs_nonempty by (auto simp: spaceLen_0)

lemma spaceLenEnd_Nil [simp]: "spaceLenEnd [] = 0"
  using space_seqs_nonempty by (auto simp: spaceLenEnd_0)

lemma spaceLen_trimLeft: "spaceLen (trimLeft s) = 0"
proof (induction s rule: trimLeft.induct)
  case (1 s)
  then show ?case by (cases "spaceLen s = 0 \<or> s = []") (auto simp: trimLeft.simps [of s])
qed

lemma spaceLenEnd_trimRight: "spaceLenEnd (trimRight s) = 0"
proof (induction s rule: trimRight.induct)
  case (1 s)
  then show ?case by (cases "spaceLenEnd s = 0 \<or> s = []") (auto simp: trimRight.simps [of s])
qed

lemma trimRight_prefix: "\<exists>r. s = trimRight s @ r"
proof (induction s rule: trimRight.induct)
  case (1 s)
  show ?case
  proof (cases "spaceLenEnd s = 0 \<or> s = []")
    case True
    then show ?thesis by (auto simp: trimRight.simps [of s])
  next
    case False
    let ?n = "length s - spaceLenEnd s"
    obtain r where "take ?n s = trimRight (take ?n s) @ r" using 1 [OF False] by blast
    then have "s = trimRight (take ?n s) @ (r @ drop ?n s)"
      by (metis append.assoc append_take_drop_id)
    moreover have "trimRight s = trimRight (take ?n s)" using False by (simp add: trimRight.simps [of s])
    ultimately show ?thesis by metis
  qed
qed

lemma trimSpace_idem [simp]: "trimSpace (trimSpace s) = trimSpace s"
proof -
  obtain r where "trimLeft s = trimRight (trimLeft s) @ r" using trimRight_prefix by blast
  then have "spaceLen (trimRight (trimLeft s)) = 0"
    using spaceLen_trimLeft [of s] spaceLen_prefix [of "trimRight (trimLeft s)" r] by metis
  then have "trimLeft (trimRight (trimLeft s)) = trimRight (trimLeft s)"
    by (simp add: trimLeft.simps [of "trimRight (trimLeft s)"])
  then show ?thesis
    using spaceLenEnd_trimRight [of "trimLeft s"]
    by (simp add: trimSpace_def trimRight.simps [of "trimRight (trimLeft s)"])
qed

end
