(* ===== verification/Base64.thy ===== *)
theory Base64
  imports Encoding
begin

text \<open>
  Go's \<open>base64.RawURLEncoding\<close>, which carries nonces, ciphertexts and shares as text: the URL-safe
  alphabet, no padding.  Decoding skips line breaks anywhere, ignores the unused bits of the last
  character and fails on any other character and on a last group of one character.
\<close>

definition b64Alphabet :: string where
  "b64Alphabet = ''ABCDEFGHIJKLMNOPQRSTUVWXYZabcdefghijklmnopqrstuvwxyz0123456789-_''"

definition b64Char :: "nat \<Rightarrow> char" where
  "b64Char n = b64Alphabet ! n"

definition b64Val :: "char \<Rightarrow> nat option" where
  "b64Val c = (let n = of_char c :: nat in
     if 65 \<le> n \<and> n \<le> 90 then Some (n - 65)
     else if 97 \<le> n \<and> n \<le> 122 then Some (n - 71)
     else if 48 \<le> n \<and> n \<le> 57 then Some (n + 4)
     else if c = CHR ''-'' then Some 62
     else if c = CHR ''_'' then Some 63
     else None)"

fun rawURLEncode :: "byte list \<Rightarrow> string" where
  "rawURLEncode [] = []"
| "rawURLEncode [a] = [b64Char (unat a div 4), b64Char (unat a mod 4 * 16)]"
| "rawURLEncode [a, b] = [b64Char (unat a div 4), b64Char (unat a mod 4 * 16 + unat b div 16),
     b64Char (unat b mod 16 * 4)]"
| "rawURLEncode (a # b # c # rest) =
     b64Char (unat a div 4) # b64Char (unat a mod 4 * 16 + unat b div 16)
     # b64Char (unat b mod 16 * 4 + unat c div 64) # b64Char (unat c mod 64) # rawURLEncode rest"

fun b64Groups :: "nat list \<Rightarrow> byte list option" where
  "b64Groups [] = Some []"
| "b64Groups [a] = None"
| "b64Groups [a, b] = Some [of_nat (a * 4 + b div 16)]"
| "b64Groups [a, b, c] = Some [of_nat (a * 4 + b div 16), of_nat (b mod 16 * 16 + c div 4)]"
| "b64Groups (a # b # c # d # rest) =
     map_option (\<lambda>bs. of_nat (a * 4 + b div 16) # of_nat (b mod 16 * 16 + c div 4) # of_nat (c mod 4 * 64 + d) # bs)
       (b64Groups rest)"

definition b64Break :: "char \<Rightarrow> bool" where
  "b64Break c = (of_char c = (10 :: nat) \<or> of_char c = (13 :: nat))"

definition rawURLDecode :: "string \<Rightarrow> byte list option" where
  "rawURLDecode s =
     (case those (map b64Val (filter (\<lambda>c. \<not> b64Break c) s)) of None \<Rightarrow> None | Some vs \<Rightarrow> b64Groups vs)"

lemma upt_64: "[0..<64] = [0, 1, 2, 3, 4, 5, 6, 7, 8, 9, 10, 11, 12, 13, 14, 15, 16, 17, 18, 19, 20, 21, 22, 23, 24,
    25, 26, 27, 28, 29, 30, 31, 32, 33, 34, 35, 36, 37, 38, 39, 40, 41, 42, 43, 44, 45, 46,
    47, 48, 49, 50, 51, 52, 53, 54, 55, 56, 57, 58, 59, 60, 61, 62, 63]"
  by code_simp

lemma b64_alphabet_values: "map b64Val b64Alphabet = map Some [0..<64]"
  unfolding upt_64 by (simp add: b64Alphabet_def b64Val_def)

lemma b64_alphabet_breaks: "list_all (\<lambda>c. \<not> b64Break c) b64Alphabet"
  by (simp add: b64Alphabet_def b64Break_def)

lemma b64_alphabet_length: "length b64Alphabet = 64"
  by (simp add: b64Alphabet_def)

lemma b64Char_facts [simp]:
  assumes "n < 64"
  shows "b64Val (b64Char n) = Some n" "\<not> b64Break (b64Char n)"
proof -
  have "map b64Val b64Alphabet ! n = map Some [0..<64] ! n" by (simp only: b64_alphabet_values)
  then show "b64Val (b64Char n) = Some n" using assms by (simp add: b64Char_def b64_alphabet_length)
  show "\<not> b64Break (b64Char n)"
    using b64_alphabet_breaks assms by (simp add: b64Char_def list_all_length b64_alphabet_length)
qed

fun sextets :: "byte list \<Rightarrow> nat list" where
  "sextets [] = []"
| "sextets [a] = [unat a div 4, unat a mod 4 * 16]"
| "sextets [a, b] = [unat a div 4, unat a mod 4 * 16 + unat b div 16, unat b mod 16 * 4]"
| "sextets (a # b # c # rest) =
     unat a div 4 # (unat a mod 4 * 16 + unat b div 16) # (unat b mod 16 * 4 + unat c div 64) # unat c mod 64
     # sextets rest"

lemma rawURLEncode_sextets: "rawURLEncode bs = map b64Char (sextets bs)"
  by (induction bs rule: rawURLEncode.induct) simp_all

lemma sextets_small: "\<forall>n\<in>set (sextets bs). n < 64"
proof (induction bs rule: sextets.induct)
  case (2 a) then show ?case using unat_byte_lt [of a] by auto
next
  case (3 a b) then show ?case using unat_byte_lt [of a] unat_byte_lt [of b] by auto
next
  case (4 a b c rest)
  then show ?case using unat_byte_lt [of a] unat_byte_lt [of b] unat_byte_lt [of c] by auto
qed simp

lemma unat_byte_id: "of_nat (unat b) = (b :: byte)"
  by simp

lemma pack: "x < k \<Longrightarrow> (q * k + x) div k = q \<and> (q * k + x) mod k = x" for k :: nat
  by simp

lemma packed_bytes:
  "unat a div 4 * 4 + (unat a mod 4 * 16 + unat (b :: byte) div 16) div 16 = unat a"
  "(unat a mod 4 * 16 + unat (b :: byte) div 16) mod 16 * 16 + (unat b mod 16 * 4 + unat (c :: byte) div 64) div 4 = unat b"
  "(unat b mod 16 * 4 + unat (c :: byte) div 64) mod 4 * 64 + unat c mod 64 = unat c"
proof -
  have "unat b div 16 < 16" "unat c div 64 < 4"
    using unat_byte_lt [of b] unat_byte_lt [of c] by linarith+
  note p = pack [OF this(1), of "unat a mod 4"] pack [OF this(2), of "unat b mod 16"]
  show "unat a div 4 * 4 + (unat a mod 4 * 16 + unat b div 16) div 16 = unat a"
    "(unat a mod 4 * 16 + unat b div 16) mod 16 * 16 + (unat b mod 16 * 4 + unat c div 64) div 4 = unat b"
    "(unat b mod 16 * 4 + unat c div 64) mod 4 * 64 + unat c mod 64 = unat c"
    using p by (simp_all only: div_mult_mod_eq)
qed

lemma b64Groups_sextets: "b64Groups (sextets bs) = Some bs"
proof (induction bs rule: sextets.induct)
  case (2 a)
  show ?case using packed_bytes(1) [of a 0] by (simp del: of_nat_add of_nat_mult)
next
  case (3 a b)
  show ?case using packed_bytes(1) [of a b] packed_bytes(2) [of a b 0]
    by (simp only: sextets.simps b64Groups.simps unat_byte_id unat_0 div_0 add_0_right)
next
  case (4 a b c rest)
  show ?case using "4.IH"
    by (simp only: sextets.simps b64Groups.simps packed_bytes unat_byte_id option.map)
qed simp

lemma those_map_Some: "(\<And>x. x \<in> set xs \<Longrightarrow> f (g x) = Some x) \<Longrightarrow> those (map f (map g xs)) = Some xs"
  by (induction xs) auto

lemma rawURLDecode_encode [simp]: "rawURLDecode (rawURLEncode bs) = Some bs"
proof -
  have s: "n < 64" if "n \<in> set (sextets bs)" for n using sextets_small that by blast
  then have "filter (\<lambda>c. \<not> b64Break c) (map b64Char (sextets bs)) = map b64Char (sextets bs)"
    by (intro filter_True) auto
  moreover have "those (map b64Val (map b64Char (sextets bs))) = Some (sextets bs)"
    using s by (intro those_map_Some) simp
  ultimately show ?thesis
    by (simp only: rawURLDecode_def rawURLEncode_sextets option.case b64Groups_sextets)
qed

lemma rawURLEncode_inject [simp]: "rawURLEncode xs = rawURLEncode ys \<longleftrightarrow> xs = ys"
  by (metis option.inject rawURLDecode_encode)

lemma rawURLEncode_Nil [simp]: "rawURLEncode bs = [] \<longleftrightarrow> bs = []"
  by (cases bs rule: rawURLEncode.cases) simp_all

end
