(* ===== verification/PolyRoots.thy ===== *)
theory PolyRoots
  imports Prelude
begin

text \<open>
  Polynomials as coefficient lists (lowest degree first) over a commutative ring, and the
  bound on the number of their roots.  Two components need it over two different arithmetics:
  \<open>shamir.go\<close> over the field of bytes, \<open>fuzzy/math.go\<close> over the integers modulo a prime that is
  only known at run time.  The locale \<open>vanishing\<close> states what both have in common, a predicate
  \<open>Z\<close> ("is zero") that is closed under sums and multiples and prime; the root bound is proved
  once inside it.
\<close>

section \<open>Evaluation and synthetic division\<close>

fun peval :: "'a::comm_ring_1 list \<Rightarrow> 'a \<Rightarrow> 'a" where
  "peval [] x = 0"
| "peval (c # cs) x = c + x * peval cs x"

fun quot :: "'a::comm_ring_1 \<Rightarrow> 'a list \<Rightarrow> 'a list" where
  "quot a [] = []"
| "quot a [c] = []"
| "quot a (c # d # ds) = peval (d # ds) a # quot a (d # ds)"

lemma length_quot [simp]: "length (quot a cs) = length cs - 1"
  by (induction a cs rule: quot.induct) auto

lemma peval_quot: "peval cs x - peval cs a = (x - a) * peval (quot a cs) x"
proof (induction a cs rule: quot.induct)
  case (3 a c d ds)
  let ?p = "peval (d # ds)"
  have "peval (c # d # ds) x - peval (c # d # ds) a = (x - a) * ?p a + x * (?p x - ?p a)"
    by (simp add: algebra_simps)
  also have "\<dots> = (x - a) * ?p a + x * ((x - a) * peval (quot a (d # ds)) x)"
    by (simp only: "3.IH")
  also have "\<dots> = (x - a) * peval (quot a (c # d # ds)) x"
    by (simp add: algebra_simps)
  finally show ?case .
qed (simp_all add: algebra_simps)

lemma peval_append: "peval (xs @ ys) x = peval xs x + x ^ length xs * peval ys x"
  by (induction xs) (simp_all add: algebra_simps)

lemma peval_replicate_0 [simp]: "peval (replicate n 0) x = 0"
  by (induction n) auto

lemma peval_map_mult: "peval (map ((*) k) cs) x = k * peval cs x"
  by (induction cs) (simp_all add: algebra_simps)

lemma peval_map2_add:
  "length cs = length ds \<Longrightarrow> peval (map2 (+) cs ds) x = peval cs x + peval ds x"
  by (induction cs ds rule: list_induct2) (simp_all add: algebra_simps)

lemma peval_sum: "peval cs x = (\<Sum>i<length cs. cs ! i * x ^ i)"
proof (induction cs)
  case (Cons c cs)
  have "peval (c # cs) x = c + (\<Sum>i<length cs. cs ! i * x ^ Suc i)"
    by (simp add: Cons sum_distrib_left algebra_simps)
  then show ?case
    by (simp only: list.size add_Suc_right add_0_right sum.lessThan_Suc_shift) simp
qed simp

section \<open>Polynomial functions of bounded degree\<close>

definition is_poly :: "nat \<Rightarrow> ('a::comm_ring_1 \<Rightarrow> 'a) \<Rightarrow> bool" where
  "is_poly n f \<longleftrightarrow> (\<exists>cs. length cs = n \<and> (\<forall>x. f x = peval cs x))"

lemma is_polyI: "length cs = n \<Longrightarrow> (\<And>x. f x = peval cs x) \<Longrightarrow> is_poly n f"
  by (auto simp: is_poly_def)

lemma is_poly_peval [intro]: "is_poly (length cs) (peval cs)"
  by (auto simp: is_poly_def)

lemma is_poly_mono:
  assumes "is_poly n f" and "n \<le> m"
  shows "is_poly m f"
proof -
  from assms obtain cs where "length cs = n" "\<And>x. f x = peval cs x"
    by (auto simp: is_poly_def)
  then show ?thesis
    using assms(2) by (intro is_polyI [of "cs @ replicate (m - n) 0"]) (auto simp: peval_append)
qed

lemma is_poly_add:
  assumes "is_poly n f" and "is_poly n g"
  shows "is_poly n (\<lambda>x. f x + g x)"
proof -
  from assms obtain cs ds where "length cs = n" "\<And>x. f x = peval cs x"
    and "length ds = n" "\<And>x. g x = peval ds x"
    by (auto simp: is_poly_def)
  then show ?thesis by (intro is_polyI [of "map2 (+) cs ds"]) (auto simp: peval_map2_add)
qed

lemma is_poly_scale:
  assumes "is_poly n f"
  shows "is_poly n (\<lambda>x. k * f x)"
proof -
  from assms obtain cs where "length cs = n" "\<And>x. f x = peval cs x"
    by (auto simp: is_poly_def)
  then show ?thesis by (intro is_polyI [of "map ((*) k) cs"]) (auto simp: peval_map_mult)
qed

lemma is_poly_diff: "is_poly n f \<Longrightarrow> is_poly n g \<Longrightarrow> is_poly n (\<lambda>x. f x - g x)"
  using is_poly_add [OF _ is_poly_scale [of n g "- 1"], of f] by simp

lemma is_poly_const: "is_poly 1 (\<lambda>x. k)"
  by (intro is_polyI [of "[k]"]) simp_all

lemma is_poly_zero: "is_poly n (\<lambda>x. 0)"
  by (intro is_polyI [of "replicate n 0"]) simp_all

lemma is_poly_shift: "is_poly n f \<Longrightarrow> is_poly (Suc n) (\<lambda>x. x * f x)"
  unfolding is_poly_def by (metis peval.simps(2) add_0 length_Cons)

lemma is_poly_linear: "is_poly n f \<Longrightarrow> is_poly (Suc n) (\<lambda>x. (x - a) * f x)"
  using is_poly_diff [OF is_poly_shift is_poly_mono [OF is_poly_scale [of n f a], of "Suc n"], of f]
  by (simp add: algebra_simps)

lemma is_poly_sum:
  assumes "finite A" and "\<And>i. i \<in> A \<Longrightarrow> is_poly n (f i)"
  shows "is_poly n (\<lambda>x. \<Sum>i\<in>A. f i x)"
  using assms by (induction A rule: finite_induct) (auto intro: is_poly_add is_poly_zero)

lemma is_poly_prod:
  assumes "finite A"
  shows "is_poly (Suc (card A)) (\<lambda>x. k * (\<Prod>i\<in>A. x - f i))"
  using assms
proof (induction A rule: finite_induct)
  case (insert a A)
  have "is_poly (Suc (Suc (card A))) (\<lambda>x. (x - f a) * (k * (\<Prod>i\<in>A. x - f i)))"
    by (rule is_poly_linear [OF insert.IH])
  with insert.hyps show ?case by (simp add: algebra_simps)
qed (use is_poly_const [of k] in simp)

lemma is_poly_mult:
  assumes "is_poly n f" and "is_poly m g" and "0 < n" and "0 < m"
  shows "is_poly (n + m - 1) (\<lambda>x. f x * g x)"
proof -
  from assms(1) obtain cs where cs: "length cs = n" "\<And>x. f x = peval cs x"
    by (auto simp: is_poly_def)
  have "is_poly (length cs + m - 1) (\<lambda>x. peval cs x * g x)" if "cs \<noteq> []" for cs
    using that
  proof (induction cs)
    case (Cons c cs)
    show ?case
    proof (cases cs)
      case Nil
      then show ?thesis using is_poly_scale [OF assms(2), of c] by (simp add: mult.commute)
    next
      case (Cons d ds)
      have "is_poly (Suc (length cs + m - 1)) (\<lambda>x. x * (peval cs x * g x))"
        by (rule is_poly_shift) (use Cons Cons.IH in simp)
      moreover have "is_poly (Suc (length cs + m - 1)) (\<lambda>x. c * g x)"
        by (rule is_poly_mono [OF is_poly_scale [OF assms(2)]]) (use Cons in simp)
      ultimately show ?thesis
        using is_poly_add [of _ "\<lambda>x. c * g x" "\<lambda>x. x * (peval cs x * g x)"] Cons assms(4)
        by (simp add: algebra_simps)
    qed
  qed simp
  then show ?thesis using cs assms(3) by auto
qed

section \<open>The root bound\<close>

locale vanishing =
  fixes Z :: "'a::comm_ring_1 \<Rightarrow> bool"
  assumes Z_zero: "Z 0"
    and Z_add: "Z a \<Longrightarrow> Z b \<Longrightarrow> Z (a + b)"
    and Z_mult: "Z a \<Longrightarrow> Z (k * a)"
    and Z_prime: "Z (a * b) \<Longrightarrow> Z a \<or> Z b"
begin

lemma Z_uminus: "Z a \<Longrightarrow> Z (- a)"
  using Z_mult [of a "- 1"] by simp

lemma Z_diff: "Z a \<Longrightarrow> Z b \<Longrightarrow> Z (a - b)"
  using Z_add [of a "- b"] Z_uminus [of b] by simp

lemma peval_vanishes: "\<forall>c\<in>set cs. Z c \<Longrightarrow> Z (peval cs x)"
  by (induction cs) (auto intro: Z_zero Z_add Z_mult)

lemma coeffs_from_quot:
  assumes "Z (peval cs a)" and "\<forall>q\<in>set (quot a cs). Z q"
  shows "\<forall>c\<in>set cs. Z c"
  using assms
proof (induction a cs rule: quot.induct)
  case (3 a c d ds)
  then have r: "Z (peval (d # ds) a)" "\<forall>x\<in>set (d # ds). Z x" by auto
  have "Z (peval (c # d # ds) a - a * peval (d # ds) a)"
    using "3.prems"(1) r(1) by (intro Z_diff Z_mult)
  then show ?case using r(2) by simp
qed auto

lemma root_bound:
  assumes "finite S" and "length cs \<le> card S" and "\<And>x. x \<in> S \<Longrightarrow> Z (peval cs x)"
    and "\<And>x y. x \<in> S \<Longrightarrow> y \<in> S \<Longrightarrow> x \<noteq> y \<Longrightarrow> \<not> Z (x - y)"
  shows "\<forall>c\<in>set cs. Z c"
  using assms
proof (induction "length cs" arbitrary: cs S)
  case (Suc n)
  then obtain a where a: "a \<in> S" by (cases "S = {}") auto
  have "Z (peval (quot a cs) x)" if x: "x \<in> S - {a}" for x
  proof -
    have "Z ((x - a) * peval (quot a cs) x)"
      using Suc.prems(3) a x by (simp add: peval_quot [symmetric] Z_diff)
    then show ?thesis using Z_prime Suc.prems(4) [of x a] a x by blast
  qed
  moreover have "length (quot a cs) \<le> card (S - {a})"
    using Suc.prems(1,2) a by (simp add: card_Diff_singleton)
  ultimately have "\<forall>q\<in>set (quot a cs). Z q"
    using Suc.hyps(1) [of "quot a cs" "S - {a}"] Suc.hyps(2) Suc.prems by simp
  then show ?case using coeffs_from_quot Suc.prems(3) a by blast
qed simp

text \<open>Two polynomials that agree at enough points agree everywhere.\<close>

lemma agree_everywhere:
  assumes "is_poly n f" and "is_poly n g" and "finite S" and "n \<le> card S"
    and "\<And>x. x \<in> S \<Longrightarrow> Z (f x - g x)"
    and "\<And>x y. x \<in> S \<Longrightarrow> y \<in> S \<Longrightarrow> x \<noteq> y \<Longrightarrow> \<not> Z (x - y)"
  shows "Z (f x - g x)"
proof -
  from is_poly_diff [OF assms(1,2)] obtain cs
    where cs: "length cs = n" "\<And>x. f x - g x = peval cs x"
    by (auto simp: is_poly_def)
  have "\<forall>c\<in>set cs. Z c"
    by (rule root_bound [OF assms(3)]) (use assms cs in auto)
  then show ?thesis by (simp add: cs peval_vanishes)
qed

end

end
