(* ===== verification/FuzzyMath.thy ===== *)
theory FuzzyMath
  imports PolyRoots
begin

text \<open>
  \<open>sdk/account/fuzzy/math.go\<close>: arithmetic modulo a prime on \<open>int64\<close>, dense polynomials, Gauss-Jordan
  elimination and the Berlekamp-Welch decoder, each loop of the source as one recursion.  An
  \<open>int64\<close> is an \<open>int\<close> here and every \<open>+\<close>, \<open>-\<close> and \<open>*\<close> of the source is wrapped by \<open>i64\<close>.  The
  modulus is never zero in the source (it is a validated prime), so \<open>%\<close> does not panic.
\<close>

section \<open>Errors\<close>

datatype fuzzy_error =
    ErrInvalidParameters
  | ErrDuplicateExtractor
  | ErrInvalidFeatureSet
  | ErrInsufficientMatches
  | ErrInvalidPublicPayload
  | ErrDivisionByZero
  | ErrDivideByZeroPolynomial
  | ErrRandom
  | ErrScrypt
  | PanicSliceLength
  | PanicIndexOutOfRange
  | PanicDivideByZero

section \<open>Modular arithmetic\<close>

text \<open>\<open>mod\<close>: Go's \<open>%\<close> keeps the sign of the dividend, a negative remainder is moved up.\<close>

definition modp :: "int \<Rightarrow> int \<Rightarrow> int" where
  "modp value prime = (let value = goRem value prime in if value < 0 then i64 (value + prime) else value)"

definition modAdd :: "int \<Rightarrow> int \<Rightarrow> int \<Rightarrow> int" where
  "modAdd a b p = modp (i64 (a + b)) p"

definition modSub :: "int \<Rightarrow> int \<Rightarrow> int \<Rightarrow> int" where
  "modSub a b p = modp (i64 (a - b)) p"

definition modMul :: "int \<Rightarrow> int \<Rightarrow> int \<Rightarrow> int" where
  "modMul a b p = modp (i64 (a * b)) p"

text \<open>The square-and-multiply loop of \<open>modPow\<close>: \<open>e&1 == 1\<close> is \<open>odd e\<close>, \<open>e >>= 1\<close> is \<open>e div 2\<close>.\<close>

function modPow_loop :: "int \<Rightarrow> int \<Rightarrow> int \<Rightarrow> int \<Rightarrow> int" where
  "modPow_loop r a e p =
     (if 0 < e
      then modPow_loop (if odd e then modMul r a p else r) (modMul a a p) (e div 2) p
      else r)"
  by pat_completeness auto
termination
  by (relation "measure (\<lambda>(r, a, e, p). nat e)") auto

declare modPow_loop.simps [simp del]

definition modPow :: "int \<Rightarrow> int \<Rightarrow> int \<Rightarrow> int" where
  "modPow a e p = modPow_loop 1 (modp a p) e p"

definition modInv :: "int \<Rightarrow> int \<Rightarrow> fuzzy_error + int" where
  "modInv a p =
     (let a = modp a p
      in check (a = 0) ErrDivisionByZero (Inr (modPow a (i64 (p - 2)) p)))"

section \<open>Primality\<close>

text \<open>
  Trial division by \<open>i\<close> and \<open>i + 2\<close> for \<open>i = 5, 11, 17, \<dots>\<close> while \<open>i * i <= n\<close>.  The product wraps
  around, so for an \<open>n\<close> near the top of \<open>int64\<close> the guard may stay true: the loop is a partial
  function, \<open>None\<close> when it does not return.
\<close>

partial_function (option) isPrime_loop :: "int \<Rightarrow> int \<Rightarrow> bool option" where
  "isPrime_loop i n =
     (if i64 (i * i) \<le> n
      then (if goRem n i = 0 \<or> goRem n (i64 (i + 2)) = 0 then Some False
            else isPrime_loop (i64 (i + 6)) n)
      else Some True)"

definition isPrime :: "int \<Rightarrow> bool option" where
  "isPrime n =
     (if n < 2 then Some False
      else if n = 2 \<or> n = 3 then Some True
      else if goRem n 2 = 0 \<or> goRem n 3 = 0 then Some False
      else isPrime_loop 5 n)"

function firstPrime_loop :: "int \<Rightarrow> (fuzzy_error + int) option" where
  "firstPrime_loop p =
     (if p \<le> 1000003
      then (case isPrime p of
              None \<Rightarrow> None
            | Some b \<Rightarrow> if b then Some (Inr p) else firstPrime_loop (p + 1))
      else Some (Inl ErrInvalidParameters))"
  by pat_completeness auto
termination
  by (relation "measure (\<lambda>p. nat (1000004 - p))") auto

declare firstPrime_loop.simps [simp del]

definition firstPrimeGreaterThan :: "int \<Rightarrow> (fuzzy_error + int) option" where
  "firstPrimeGreaterThan n =
     (if n < 1 \<or> n \<ge> 1000000 then Some (Inl ErrInvalidParameters) else firstPrime_loop (n + 1))"

section \<open>Polynomials\<close>

record fpoly =
  prime :: int
  coeffs :: "int list"

function trim :: "int list \<Rightarrow> int list" where
  "trim cs = (if cs \<noteq> [] \<and> last cs = 0 then trim (butlast cs) else cs)"
  by pat_completeness auto
termination
  by (relation "measure length") auto

declare trim.simps [simp del]

definition newPolynomial :: "int \<Rightarrow> int list \<Rightarrow> fpoly" where
  "newPolynomial p c = \<lparr>prime = p, coeffs = trim (map (\<lambda>x. modp x p) c)\<rparr>"

definition degree :: "fpoly \<Rightarrow> int" where
  "degree p = int (length (coeffs p)) - 1"

definition poly_eval :: "fpoly \<Rightarrow> int \<Rightarrow> int" where
  "poly_eval p x = foldr (\<lambda>c r. modAdd (modMul r x (prime p)) c (prime p)) (coeffs p) 0"

text \<open>A coefficient beyond the end of the slice reads as zero in \<open>sub\<close>.\<close>

definition coeff_or_0 :: "int list \<Rightarrow> nat \<Rightarrow> int" where
  "coeff_or_0 cs i = (if i < length cs then cs ! i else 0)"

definition poly_sub :: "fpoly \<Rightarrow> fpoly \<Rightarrow> fpoly" where
  "poly_sub p q =
     (let n = (if length (coeffs q) > length (coeffs p) then length (coeffs q) else length (coeffs p))
      in newPolynomial (prime p)
           (map (\<lambda>i. modSub (coeff_or_0 (coeffs p) i) (coeff_or_0 (coeffs q) i) (prime p)) [0..<n]))"

definition poly_mul :: "fpoly \<Rightarrow> fpoly \<Rightarrow> fpoly" where
  "poly_mul p q =
     (if degree p < 0 \<or> degree q < 0 then newPolynomial (prime p) []
      else newPolynomial (prime p)
        (fold (\<lambda>i c. fold (\<lambda>j c. c[i + j := modAdd (c ! (i + j))
              (modMul (coeffs p ! i) (coeffs q ! j) (prime p)) (prime p)])
            [0..<length (coeffs q)] c)
          [0..<length (coeffs p)] (replicate (length (coeffs p) + length (coeffs q) - 1) 0)))"

definition polyFromRoots :: "int list \<Rightarrow> int \<Rightarrow> fpoly" where
  "polyFromRoots roots p =
     fold (\<lambda>r q. poly_mul q (newPolynomial p [i64 (- r), 1])) roots (newPolynomial p [1])"

text \<open>
  The long-division loop: \<open>q\<close> the quotient coefficients, \<open>r\<close> the coefficients of the remainder.
  It leaves when the degree of the remainder is below the degree of the divisor; whether it
  does is a property of the modulus, so the loop is a partial function.
\<close>

definition divRem_step :: "int list \<Rightarrow> int \<Rightarrow> int \<Rightarrow> int list \<times> int list \<Rightarrow> int list \<times> int list" where
  "divRem_step d iv p = (\<lambda>(q, r).
     let shift = length r - length d;
         factor = modMul (r ! (length r - 1)) iv p
     in (q[shift := factor],
         trim (fold (\<lambda>i r. r[i + shift := modSub (r ! (i + shift)) (modMul factor (d ! i) p) p])
                [0..<length d] r)))"

partial_function (option) divRem_loop ::
    "int list \<Rightarrow> int \<Rightarrow> int \<Rightarrow> int list \<times> int list \<Rightarrow> (int list \<times> int list) option" where
  "divRem_loop d iv p s =
     (if length d \<le> length (snd s) then divRem_loop d iv p (divRem_step d iv p s) else Some s)"

definition divRemPolynomial :: "fpoly \<Rightarrow> fpoly \<Rightarrow> (fuzzy_error + (fpoly \<times> fpoly)) option" where
  "divRemPolynomial n d =
     (if degree d < 0 then Some (Inl ErrDivideByZeroPolynomial)
      else if degree n < degree d then Some (Inr (newPolynomial (prime n) [], n))
      else (case modInv (coeffs d ! nat (degree d)) (prime n) of
              Inl e \<Rightarrow> Some (Inl e)
            | Inr iv \<Rightarrow>
                map_option (\<lambda>(q, r). Inr (newPolynomial (prime n) q, \<lparr>prime = prime n, coeffs = r\<rparr>))
                  (divRem_loop (coeffs d) iv (prime n)
                    (replicate (nat (degree n - degree d + 1)) 0,
                     coeffs (newPolynomial (prime n) (coeffs n))))))"

definition findRoots :: "fpoly \<Rightarrow> int \<Rightarrow> fuzzy_error + int list" where
  "findRoots p expected =
     check (degree p \<noteq> expected) ErrInsufficientMatches
      (let roots = filter (\<lambda>x. poly_eval p x = 0) (map int [0..<nat (prime p)])
       in check (int (length roots) \<noteq> expected) ErrInsufficientMatches (Inr roots))"

fun powers_from :: "int \<Rightarrow> int \<Rightarrow> int \<Rightarrow> nat \<Rightarrow> int list" where
  "powers_from cur x p 0 = []"
| "powers_from cur x p (Suc n) = cur # powers_from (modMul cur x p) x p n"

text \<open>\<open>powers x n p\<close> is \<open>[1, x, x^2, \<dots>]\<close>, \<open>out[i] = out[i-1] * x\<close>.\<close>

definition powers :: "int \<Rightarrow> nat \<Rightarrow> int \<Rightarrow> int list" where
  "powers x n p = powers_from 1 x p n"

section \<open>Linear systems\<close>

text \<open>
  The augmented matrix is a list of rows of length \<open>cols + 1\<close>.  \<open>eliminate\<close> is the body of the
  column loop after a pivot was found: swap, normalise the pivot row from \<open>col\<close> on, and subtract
  multiples of it from every other row.
\<close>

type_synonym matrix = "int list list"

definition swap_rows :: "nat \<Rightarrow> nat \<Rightarrow> matrix \<Rightarrow> matrix" where
  "swap_rows i j aug = aug[i := aug ! j, j := aug ! i]"

definition scale_row :: "nat \<Rightarrow> int \<Rightarrow> int \<Rightarrow> int list \<Rightarrow> int list" where
  "scale_row col iv p row = map (\<lambda>(j, v). if col \<le> j then modMul v iv p else v) (enumerate 0 row)"

definition subtract_row :: "nat \<Rightarrow> int list \<Rightarrow> int \<Rightarrow> int list \<Rightarrow> int list" where
  "subtract_row col pivot p row =
     (let f = row ! col
      in if f = 0 then row
         else map (\<lambda>(j, v). if col \<le> j then modSub v (modMul f (pivot ! j) p) p else v)
                (enumerate 0 row))"

definition find_pivot :: "matrix \<Rightarrow> nat \<Rightarrow> nat \<Rightarrow> nat option" where
  "find_pivot aug pivotRow col = find (\<lambda>r. aug ! r ! col \<noteq> 0) [pivotRow..<length aug]"

definition eliminate :: "matrix \<Rightarrow> nat \<Rightarrow> nat \<Rightarrow> nat \<Rightarrow> int \<Rightarrow> fuzzy_error + matrix" where
  "eliminate aug pivotRow sel col p =
     (let aug = swap_rows pivotRow sel aug
      in case modInv (aug ! pivotRow ! col) p of
           Inl _ \<Rightarrow> Inl ErrInsufficientMatches
         | Inr iv \<Rightarrow>
             (let aug = aug[pivotRow := scale_row col iv p (aug ! pivotRow)]
              in Inr (map (\<lambda>(r, row). if r = pivotRow then row
                                       else subtract_row col (aug ! pivotRow) p row)
                       (enumerate 0 aug))))"

text \<open>\<open>for col := 0; col < cols && pivotRow < rows; col++\<close>; the pivot columns are collected.\<close>

function gauss_loop :: "matrix \<Rightarrow> nat \<Rightarrow> nat list \<Rightarrow> nat \<Rightarrow> nat \<Rightarrow> int
    \<Rightarrow> fuzzy_error + (matrix \<times> nat list)" where
  "gauss_loop aug pivotRow pivots col cols p =
     (if col < cols \<and> pivotRow < length aug
      then (case find_pivot aug pivotRow col of
              None \<Rightarrow> gauss_loop aug pivotRow pivots (col + 1) cols p
            | Some sel \<Rightarrow>
                rbind (eliminate aug pivotRow sel col p) (\<lambda>aug.
                  gauss_loop aug (pivotRow + 1) (pivots @ [col]) (col + 1) cols p))
      else Inr (aug, pivots))"
  by pat_completeness auto
termination
  by (relation "measure (\<lambda>(aug, pivotRow, pivots, col, cols, p). cols - col)") auto

declare gauss_loop.simps [simp del]

definition solveLinear :: "matrix \<Rightarrow> int list \<Rightarrow> int \<Rightarrow> fuzzy_error + int list" where
  "solveLinear a b p =
     check (length a = 0 \<or> length b \<noteq> length a) ErrInsufficientMatches
      (let cols = length (a ! 0)
       in check (\<exists>row\<in>set a. length row \<noteq> cols) ErrInsufficientMatches
           (let aug = map (\<lambda>(row, v). map (\<lambda>x. modp x p) row @ [modp v p]) (zip a b)
            in rbind (gauss_loop aug 0 [] 0 cols p) (\<lambda>(aug, pivots).
                 check (\<exists>row\<in>set aug. (\<forall>c<cols. row ! c = 0) \<and> row ! cols \<noteq> 0)
                   ErrInsufficientMatches
                   (Inr (fold (\<lambda>(r, col) x. x[col := aug ! r ! cols]) (enumerate 0 pivots)
                      (replicate cols 0))))))"

section \<open>The Berlekamp-Welch decoder\<close>

text \<open>Row \<open>i\<close> of the key equation \<open>Q(x) - y E(x) = y x^errors\<close> with \<open>E\<close> monic of degree \<open>errors\<close>.\<close>

definition bw_row :: "int \<Rightarrow> int \<Rightarrow> nat \<Rightarrow> nat \<Rightarrow> int \<Rightarrow> int list" where
  "bw_row x y qCount errors p =
     powers x qCount p @
     map (\<lambda>j. modp (i64 (- modMul y (powers x (errors + 1) p ! j) p)) p) [0..<errors]"

definition bw_rhs :: "int \<Rightarrow> int \<Rightarrow> nat \<Rightarrow> int \<Rightarrow> int" where
  "bw_rhs x y errors p = modMul y (powers x (errors + 1) p ! errors) p"

definition berlekampWelch ::
    "int list \<Rightarrow> int list \<Rightarrow> int \<Rightarrow> int \<Rightarrow> int \<Rightarrow> (fuzzy_error + fpoly) option" where
  "berlekampWelch xs ys k errors p =
     (if length xs = 0 \<or> length xs \<noteq> length ys \<or> k \<le> 0 \<or> errors \<le> 0
          \<or> int (length xs) \<noteq> k + 2 * errors
      then Some (Inl ErrInsufficientMatches)
      else
        let qCount = nat (k + errors); e = nat errors;
            m = map (\<lambda>(x, y). bw_row x y qCount e p) (zip xs ys);
            rhs = map (\<lambda>(x, y). bw_rhs x y e p) (zip xs ys)
        in case solveLinear m rhs p of
             Inl err \<Rightarrow> Some (Inl err)
           | Inr solution \<Rightarrow>
               (let q = newPolynomial p (take qCount solution);
                    ep = newPolynomial p (drop qCount solution @ [1])
                in map_option (\<lambda>r. case r of
                      Inl _ \<Rightarrow> Inl ErrInsufficientMatches
                    | Inr (quo, remainder) \<Rightarrow>
                        if degree remainder \<ge> 0 then Inl ErrInsufficientMatches else Inr quo)
                     (divRemPolynomial q ep)))"

end
