(* ===== verification/PrimeField.thy ===== *)
theory PrimeField
  imports FuzzyMath
begin

text \<open>
  The arithmetic of \<open>sdk/account/fuzzy/math.go\<close> is that of the integers modulo a prime.  For a
  modulus below \<open>2^31\<close> no intermediate \<open>int64\<close> wraps, \<open>modInv\<close> is the inverse (Fermat's little
  theorem), \<open>isPrime\<close> decides primality and \<open>firstPrimeGreaterThan\<close> finds the next prime.
\<close>

section \<open>Primes\<close>

definition is_prime :: "int \<Rightarrow> bool" where
  "is_prime p \<longleftrightarrow> 1 < p \<and> (\<forall>d. 0 < d \<longrightarrow> d dvd p \<longrightarrow> d = 1 \<or> d = p)"

lemma is_prime_gt: "is_prime p \<Longrightarrow> 1 < p"
  by (simp add: is_prime_def)

lemma is_prime_coprime:
  assumes "is_prime p" and "\<not> p dvd a"
  shows "coprime p a"
proof -
  have "gcd p a = 1 \<or> gcd p a = p"
    using assms(1) by (auto simp: is_prime_def)
  moreover have "gcd p a \<noteq> p" using assms(2) by (metis gcd_dvd2)
  ultimately show ?thesis by (simp add: coprime_iff_gcd_eq_1)
qed

lemma prime_dvd_mult: "is_prime p \<Longrightarrow> p dvd a * b \<Longrightarrow> p dvd a \<or> p dvd b"
  using is_prime_coprime coprime_dvd_mult_right_iff by blast

lemma prime_vanishing: "is_prime p \<Longrightarrow> vanishing ((dvd) p)"
  by unfold_locales (auto dest: prime_dvd_mult)

lemma residue_eq_0: "0 \<le> a \<Longrightarrow> a < p \<Longrightarrow> p dvd (a :: int) \<longleftrightarrow> a = 0"
  by (auto dest: zdvd_imp_le)

lemma residue_eq: 
  assumes "0 \<le> a" "a < p" "0 \<le> b" "b < (p :: int)" "p dvd a - b"
  shows "a = b"
proof -
  have "a mod p = b mod p" using assms(5) by (simp add: mod_eq_dvd_iff)
  then show ?thesis using assms by simp
qed

lemma prime_not_dvd_prod:
  assumes "is_prime p" and "finite A" and "\<And>x. x \<in> A \<Longrightarrow> \<not> p dvd f x"
  shows "\<not> p dvd (\<Prod>x\<in>A. f x)"
  using assms(2,3)
proof (induction A rule: finite_induct)
  case empty
  then show ?case using is_prime_gt [OF assms(1)] zdvd_imp_le [of p 1] by auto
next
  case (insert x A)
  then show ?case using prime_dvd_mult [OF assms(1), of "f x" "\<Prod>x\<in>A. f x"] by auto
qed

lemma prod_mod_eq:
  "finite A \<Longrightarrow> (\<Prod>x\<in>A. f x mod p) mod p = (\<Prod>x\<in>A. f x) mod (p :: int)"
  by (induction A rule: finite_induct) (auto simp: mod_mult_eq intro: mod_mult_cong)

lemma fermat:
  assumes p: "is_prime p" and a: "\<not> p dvd a"
  shows "a ^ nat (p - 1) mod p = 1"
proof -
  let ?A = "{1..<p}"
  let ?g = "\<lambda>x. a * x mod p"
  have gt: "1 < p" by (rule is_prime_gt [OF p])
  have nd: "\<not> p dvd x" if "x \<in> ?A" for x using that by (auto dest: zdvd_imp_le)
  have inj: "inj_on ?g ?A"
  proof (rule inj_onI)
    fix x y assume xy: "x \<in> ?A" "y \<in> ?A" "?g x = ?g y"
    then have "p dvd a * (x - y)" by (simp add: mod_eq_dvd_iff right_diff_distrib)
    then have "p dvd x - y" using prime_dvd_mult [OF p] a by blast
    then show "x = y" using xy residue_eq [of x p y] by simp
  qed
  have "?g x \<in> ?A" if "x \<in> ?A" for x
  proof -
    have "\<not> p dvd a * x" using prime_dvd_mult [OF p] a nd [OF that] by blast
    then have "?g x \<noteq> 0" by (simp add: dvd_eq_mod_eq_0)
    moreover have "0 \<le> ?g x" "?g x < p" using gt by simp_all
    ultimately show ?thesis by simp
  qed
  then have im: "?g ` ?A = ?A"
    by (intro endo_inj_surj) (auto simp: inj)
  have "(\<Prod>x\<in>?A. x) mod p = (\<Prod>x\<in>?A. ?g x) mod p"
    using prod.reindex [OF inj, of "\<lambda>x. x"] im by simp
  also have "\<dots> = (\<Prod>x\<in>?A. a * x) mod p" by (rule prod_mod_eq) simp
  also have "(\<Prod>x\<in>?A. a * x) = a ^ nat (p - 1) * (\<Prod>x\<in>?A. x)"
    by (simp add: prod.distrib)
  finally have "p dvd (a ^ nat (p - 1) - 1) * (\<Prod>x\<in>?A. x)"
    by (simp add: mod_eq_dvd_iff algebra_simps dvd_diff_commute)
  then have "p dvd a ^ nat (p - 1) - 1"
    using prime_dvd_mult [OF p] prime_not_dvd_prod [OF p, of ?A "\<lambda>x. x"] nd by blast
  then have "a ^ nat (p - 1) mod p = 1 mod p" by (simp add: mod_eq_dvd_iff)
  then show ?thesis using gt by simp
qed

section \<open>The modular operations\<close>

definition small :: "int \<Rightarrow> bool" where
  "small p \<longleftrightarrow> 1 < p \<and> p < 2 ^ 31"

text \<open>A residue is what every slice of the package holds.\<close>

definition residue :: "int \<Rightarrow> int \<Rightarrow> bool" where
  "residue p a \<longleftrightarrow> 0 \<le> a \<and> a < p"

lemma residue_mod [simp]: "small p \<Longrightarrow> residue p (x mod p)"
  by (simp add: residue_def small_def)

lemma residue_0 [simp]: "small p \<Longrightarrow> residue p 0"
  by (simp add: residue_def small_def)

lemma residue_1 [simp]: "small p \<Longrightarrow> residue p 1"
  by (simp add: residue_def small_def)

lemma residue_id: "residue p a \<Longrightarrow> a mod p = a"
  by (simp add: residue_def)

lemma residue_dvd_iff: "residue p a \<Longrightarrow> p dvd a \<longleftrightarrow> a = 0"
  by (auto simp: residue_def dest: zdvd_imp_le)

lemma modp_eq:
  assumes "small p"
  shows "modp x p = x mod p"
proof -
  have b: "0 \<le> x mod p" "x mod p < p" "p < 2 ^ 31" using assms by (simp_all add: small_def)
  then have "i64 (x mod p) = x mod p" by (intro i64_id) auto
  moreover have "\<not> x mod p < 0" using b(1) by linarith
  ultimately show ?thesis
    using goRem_mod [of p x] assms unfolding small_def modp_def Let_def by auto
qed

lemma modAdd_eq: "small p \<Longrightarrow> residue p a \<Longrightarrow> residue p b \<Longrightarrow> modAdd a b p = (a + b) mod p"
  by (simp add: modAdd_def modp_eq i64_id small_def residue_def)

lemma modSub_eq: "small p \<Longrightarrow> residue p a \<Longrightarrow> residue p b \<Longrightarrow> modSub a b p = (a - b) mod p"
  by (simp add: modSub_def modp_eq i64_id small_def residue_def)

lemma residue_product:
  assumes "small p" "residue p a" "residue p b"
  shows "0 \<le> a * b \<and> a * b < 2 ^ 63"
proof -
  have "a * b < 2 ^ 31 * 2 ^ 31"
    using assms by (intro mult_strict_mono) (auto simp: small_def residue_def)
  then show ?thesis using assms by (simp add: residue_def)
qed

lemma modMul_eq:
  assumes "small p" "residue p a" "residue p b"
  shows "modMul a b p = (a * b) mod p"
proof -
  have "i64 (a * b) = a * b"
    using residue_product [OF assms] by (intro i64_id) simp_all
  then show ?thesis using assms by (simp add: modMul_def modp_eq)
qed

lemma modMul_residue: "small p \<Longrightarrow> residue p (modMul a b p)"
  by (simp add: modMul_def modp_eq)

lemma modAdd_residue: "small p \<Longrightarrow> residue p (modAdd a b p)"
  by (simp add: modAdd_def modp_eq)

lemma modSub_residue: "small p \<Longrightarrow> residue p (modSub a b p)"
  by (simp add: modSub_def modp_eq)

lemma modp_residue: "small p \<Longrightarrow> residue p (modp a p)"
  by (simp add: modp_eq)

lemmas mod_residues = modMul_residue modAdd_residue modSub_residue modp_residue
lemmas mod_ops = modp_eq modAdd_eq modSub_eq modMul_eq

lemma power_halve: "0 < e \<Longrightarrow> (x :: int) ^ nat e = (if odd e then x else 1) * (x * x) ^ nat (e div 2)"
proof -
  assume e: "0 < e"
  have n: "nat e = 2 * nat (e div 2) + (if odd e then 1 else 0)"
    using e by (auto simp: nat_eq_iff elim: oddE)
  show ?thesis by (subst n) (simp add: power_add power_mult power2_eq_square)
qed

lemma modPow_loop_eq:
  assumes "small p" "residue p r" "residue p a"
  shows "modPow_loop r a e p = r * a ^ nat e mod p"
  using assms
proof (induction r a e p rule: modPow_loop.induct)
  case (1 r a e p)
  show ?case
  proof (cases "0 < e")
    case True
    have "modPow_loop r a e p
        = (if odd e then modMul r a p else r) * modMul a a p ^ nat (e div 2) mod p"
      using 1 True by (subst modPow_loop.simps) (simp add: mod_residues)
    also have "\<dots> = ((if odd e then r * a else r) * (a * a) ^ nat (e div 2)) mod p"
      using "1.prems" by (simp add: modMul_eq mod_mult_eq power_mod) (metis mod_mult_left_eq mod_mult_right_eq power_mod)
    also have "(if odd e then r * a else r) * (a * a) ^ nat (e div 2) = r * a ^ nat e"
      by (simp add: power_halve [OF True])
    finally show ?thesis .
  next
    case False
    then show ?thesis using "1.prems" by (subst modPow_loop.simps) (simp add: residue_id)
  qed
qed

lemma modPow_eq: "small p \<Longrightarrow> modPow a e p = a ^ nat e mod p"
  by (simp add: modPow_def modPow_loop_eq modp_eq power_mod)

lemma modInv_correct:
  assumes "small p" "is_prime p" "\<not> p dvd a"
  shows "\<exists>v. modInv a p = Inr v \<and> residue p v \<and> a * v mod p = 1"
proof -
  let ?v = "modPow (modp a p) (i64 (p - 2)) p"
  have i: "i64 (p - 2) = p - 2" using assms(1) by (simp add: i64_id small_def)
  have m: "modp a p \<noteq> 0" using assms by (simp add: modp_eq dvd_eq_mod_eq_0)
  have v: "?v = a ^ nat (p - 2) mod p" using assms(1) by (simp add: i modPow_eq modp_eq power_mod)
  have "a * a ^ nat (p - 2) = a ^ nat (p - 1)"
    using assms(1) by (simp add: small_def power_Suc [symmetric] Suc_nat_eq_nat_zadd1 del: power_Suc)
  then have "a * ?v mod p = 1" unfolding v using fermat [OF assms(2,3)] by (simp add: mod_mult_right_eq)
  then show ?thesis using m v assms(1) by (auto simp: modInv_def)
qed

section \<open>Primality\<close>

lemma sqrt_divisor:
  assumes "1 < n" and "\<not> is_prime n"
  shows "\<exists>d. 1 < d \<and> d dvd n \<and> d * d \<le> n"
proof -
  obtain d where d: "0 < d" "d dvd n" "d \<noteq> 1" "d \<noteq> n"
    using assms by (auto simp: is_prime_def)
  then obtain e where e: "n = d * e" by (auto elim: dvdE)
  have "0 < d * e" "d * e \<noteq> d" using e assms(1) d by auto
  then have e1: "1 < e" using d(1) by (cases "e = 1") (auto simp: zero_less_mult_iff)
  show ?thesis
  proof (cases "d \<le> e")
    case True
    then show ?thesis using d e by (intro exI [of _ d]) auto
  next
    case False
    then show ?thesis using e e1 by (intro exI [of _ e]) auto
  qed
qed

text \<open>Below \<open>i\<close> every divisor candidate is excluded; \<open>i\<close> runs through the numbers \<open>6k + 5\<close>.\<close>

lemma isPrime_loop_correct:
  assumes "1 < n" "n < 2 ^ 62" "5 \<le> i" "i mod 6 = 5" "i * i \<le> n + 12 * 2 ^ 31 + 36"
    and "\<not> 2 dvd n" "\<not> 3 dvd n" "\<And>d. 1 < d \<Longrightarrow> d < i \<Longrightarrow> \<not> d dvd n"
  shows "isPrime_loop i n = Some (is_prime n)"
  using assms(3-5,8)
proof (induction "nat (n + 1 - i)" arbitrary: i rule: less_induct)
  case less
  have sq: "i64 (i * i) = i * i"
  proof (rule i64_id)
    have "0 \<le> i * i" using less.prems(1) by simp
    then show "- (2 ^ 63) \<le> i * i" by (rule order_trans [rotated]) simp
    show "i * i < 2 ^ 63" using less.prems(3) assms(2) by simp
  qed
  show ?case
  proof (cases "i * i \<le> n")
    case False
    then have "is_prime n"
    proof -
      have False if "1 < d" "d dvd n" "d * d \<le> n" for d
      proof -
        have "i \<le> d" using less.prems(4) that by force
        then have "i * i \<le> d * d" using less.prems(1) by (intro mult_mono) auto
        then show False using False that by simp
      qed
      then show ?thesis using sqrt_divisor [OF assms(1)] by blast
    qed
    then show ?thesis using False sq by (simp add: isPrime_loop.simps [of i])
  next
    case True
    have ib: "i < 2 ^ 31"
    proof (rule ccontr)
      assume "\<not> i < 2 ^ 31"
      then have "2 ^ 31 * 2 ^ 31 \<le> i * i" by (intro mult_mono) auto
      then show False using True assms(2) by simp
    qed
    have lt: "i < n" using mult_strict_mono [of 1 i i i] True less.prems(1) by (smt (verit) mult_cancel_left2 mult_le_cancel_left_pos)
    have w: "i64 (i + 2) = i + 2" "i64 (i + 6) = i + 6"
      using ib less.prems(1) by (simp_all add: i64_id)
    have r: "goRem n i = n mod i" "goRem n (i + 2) = n mod (i + 2)"
      using less.prems(1) assms(1) by (simp_all add: goRem_nonneg)
    show ?thesis
    proof (cases "i dvd n \<or> i + 2 dvd n")
      case dv: True
      have "5 * i \<le> i * i" using less.prems(1) by (intro mult_right_mono) auto
      then have "i + 2 \<noteq> n" using True less.prems(1) by linarith
      then have "\<not> is_prime n"
        using dv lt less.prems(1) by (auto simp: is_prime_def intro: exI [of _ i] exI [of _ "i + 2"])
      then show ?thesis
        using dv True sq w r by (simp add: isPrime_loop.simps [of i] dvd_eq_mod_eq_0)
    next
      case nd: False
      have "\<not> d dvd n" if d: "1 < d" "d < i + 6" for d
      proof -
        have "d < i \<or> d = i \<or> d = i + 2 \<or> 2 dvd d \<or> 3 dvd d"
          using d less.prems(2) by presburger
        then show ?thesis
          using nd less.prems(4) d assms(6,7) by (metis dvd_trans)
      qed
      moreover have "(i + 6) * (i + 6) \<le> n + 12 * 2 ^ 31 + 36"
        using True ib by (simp add: algebra_simps)
      ultimately have "isPrime_loop (i + 6) n = Some (is_prime n)"
        using less.prems(1,2) lt by (intro less.hyps) (auto simp: mod_add_eq)
      then show ?thesis
        using nd True sq w r by (simp add: isPrime_loop.simps [of i] dvd_eq_mod_eq_0)
    qed
  qed
qed

text \<open>C?: for every \<open>n\<close> below \<open>2^62\<close>, \<open>isPrime\<close> returns, and returns whether \<open>n\<close> is a prime.\<close>

lemma is_prime_2: "is_prime 2"
  by (auto simp: is_prime_def dest: zdvd_imp_le)

lemma isPrime_eq:
  assumes "n < 2 ^ 62"
  shows "isPrime n = Some (is_prime n)"
proof -
  have two: "is_prime 2" by (rule is_prime_2)
  have "d = 1 \<or> d = 3" if "0 < d" "d dvd 3" for d :: int
  proof -
    have "d \<le> 3" using that by (auto dest: zdvd_imp_le)
    moreover have "d \<noteq> 2" using that(2) by auto
    ultimately show ?thesis using that(1) by auto
  qed
  then have three: "is_prime 3" by (simp add: is_prime_def)
  show ?thesis
  proof (cases "n < 2 \<or> n = 2 \<or> n = 3")
    case True
    then show ?thesis using two three by (auto simp: isPrime_def is_prime_def)
  next
    case False
    then have n: "3 < n" by auto
    show ?thesis
    proof (cases "2 dvd n \<or> 3 dvd n")
      case True
      then have "\<exists>d. 0 < d \<and> d dvd n \<and> d \<noteq> 1 \<and> d \<noteq> n"
        using n by (elim disjE) (intro exI [of _ 2], simp, intro exI [of _ 3], simp)
      then have "\<not> is_prime n" unfolding is_prime_def by blast
      then show ?thesis using True n by (simp add: isPrime_def goRem_nonneg dvd_eq_mod_eq_0)
    next
      case False
      have "\<not> d dvd n" if d: "1 < d" "d < 5" for d
      proof -
        have "2 dvd d \<or> 3 dvd d" using d by presburger
        then show ?thesis using False by (metis dvd_trans)
      qed
      then have "isPrime_loop 5 n = Some (is_prime n)"
        using False n assms by (intro isPrime_loop_correct) auto
      then show ?thesis using False n by (simp add: isPrime_def goRem_nonneg dvd_eq_mod_eq_0)
    qed
  qed
qed

text \<open>The search for a modulus above the corpus size.\<close>

declare isPrime_loop.simps [code]

lemma is_prime_1000003: "is_prime 1000003"
proof -
  have "isPrime 1000003 = Some True" by code_simp
  then show ?thesis using isPrime_eq [of 1000003] by simp
qed

lemma firstPrime_loop_correct:
  assumes "0 < n" "n \<le> p" "p \<le> 1000003" "\<And>q. n \<le> q \<Longrightarrow> q < p \<Longrightarrow> \<not> is_prime q"
  shows "\<exists>q. firstPrime_loop p = Some (Inr q) \<and> is_prime q \<and> n \<le> q \<and> q \<le> 1000003
    \<and> (\<forall>r. n \<le> r \<longrightarrow> r < q \<longrightarrow> \<not> is_prime r)"
  using assms(2-4)
proof (induction "nat (1000003 - p)" arbitrary: p rule: less_induct)
  case less
  have ip: "isPrime p = Some (is_prime p)" using less.prems by (intro isPrime_eq) simp
  show ?case
  proof (cases "is_prime p")
    case True
    then show ?thesis using ip less.prems by (auto simp: firstPrime_loop.simps [of p])
  next
    case False
    then have "p \<noteq> 1000003" using is_prime_1000003 by auto
    then have lt: "p < 1000003" using less.prems by simp
    have "\<not> is_prime q" if "n \<le> q" "q < p + 1" for q
      using less.prems(3) [of q] that False by (cases "q = p") auto
    then have "\<exists>q. firstPrime_loop (p + 1) = Some (Inr q) \<and> is_prime q \<and> n \<le> q \<and> q \<le> 1000003
        \<and> (\<forall>r. n \<le> r \<longrightarrow> r < q \<longrightarrow> \<not> is_prime r)"
      using less.prems lt by (intro less.hyps) auto
    then show ?thesis using ip False lt by (simp add: firstPrime_loop.simps [of p])
  qed
qed

lemma firstPrimeGreaterThan_spec:
  "firstPrimeGreaterThan n =
     (if 1 \<le> n \<and> n < 1000000
      then Some (Inr (LEAST q. n < q \<and> is_prime q)) else Some (Inl ErrInvalidParameters))" 
proof (cases "1 \<le> n \<and> n < 1000000")
  case True
  then obtain q where q: "firstPrime_loop (n + 1) = Some (Inr q)" "is_prime q" "n + 1 \<le> q"
    "\<forall>r. n + 1 \<le> r \<longrightarrow> r < q \<longrightarrow> \<not> is_prime r"
    using firstPrime_loop_correct [of "n + 1" "n + 1"] by auto
  have "(LEAST q. n < q \<and> is_prime q) = q"
    using q by (intro Least_equality) (auto simp: not_le [symmetric] intro: leI)
  then show ?thesis using q(1) True by (simp add: firstPrimeGreaterThan_def)
qed (auto simp: firstPrimeGreaterThan_def)

lemma firstPrimeGreaterThan_ok:
  assumes "1 \<le> n" "n < 1000000"
  shows "\<exists>q. firstPrimeGreaterThan n = Some (Inr q) \<and> is_prime q \<and> n < q \<and> q \<le> 1000003"
  using firstPrime_loop_correct [of "n + 1" "n + 1"] assms
  by (auto simp: firstPrimeGreaterThan_def)

text \<open>The modulus of the wallet's recovery questions (corpus size 65536).\<close>

lemma is_prime_65537: "is_prime 65537"
proof -
  have "isPrime 65537 = Some True" by code_simp
  then show ?thesis using isPrime_eq [of 65537] by simp
qed

interpretation dvd_65537: vanishing "(dvd) (65537 :: int)"
  by (rule prime_vanishing [OF is_prime_65537])

end
