(* ===== verification/FuzzyPoly.thy ===== *)
theory FuzzyPoly
  imports PrimeField
begin

text \<open>
  What the polynomial routines of \<open>sdk/account/fuzzy/math.go\<close> compute: every operation on residue
  coefficients evaluates, modulo the prime, to the operation on the values; long division
  terminates and divides; \<open>findRoots\<close> returns the roots.  The locale \<open>modulus\<close> is the contract of
  a modulus the package accepts (a prime below \<open>2^31\<close>); the lemmas are proved once inside it.
\<close>

section \<open>Coefficient lists\<close>

lemma trim_split: "\<exists>k. cs = trim cs @ replicate k 0"
proof (induction cs rule: trim.induct)
  case (1 cs)
  show ?case
  proof (cases "cs \<noteq> [] \<and> last cs = 0")
    case True
    then obtain k where "butlast cs = trim (butlast cs) @ replicate k 0" using 1 by blast
    then have "cs = (trim (butlast cs) @ replicate k 0) @ [0]"
      using True by (metis append_butlast_last_id)
    then have "cs = trim (butlast cs) @ replicate (Suc k) 0"
      by (simp add: replicate_append_same)
    moreover have "trim cs = trim (butlast cs)" using True by (simp add: trim.simps [of cs])
    ultimately show ?thesis by (metis (no_types))
  next
    case False
    then have "trim cs = cs" by (auto simp: trim.simps [of cs])
    then show ?thesis by (intro exI [of _ 0]) simp
  qed
qed

lemma trim_last: "trim cs = [] \<or> last (trim cs) \<noteq> 0"
proof (induction cs rule: trim.induct)
  case (1 cs)
  then show ?case by (cases "cs \<noteq> [] \<and> last cs = 0") (auto simp: trim.simps [of cs])
qed

lemma trim_id: "cs \<noteq> [] \<Longrightarrow> last cs \<noteq> 0 \<Longrightarrow> trim cs = cs"
  by (simp add: trim.simps [of cs])

lemma trim_shorter: "cs \<noteq> [] \<Longrightarrow> last cs = 0 \<Longrightarrow> length (trim cs) < length cs"
  using trim_split [of "butlast cs"] trim.simps [of cs]
  by (metis length_butlast length_append le_add1 One_nat_def Suc_pred length_greater_0_conv less_Suc_eq_le)

lemma trim_length: "length (trim cs) \<le> length cs"
  by (metis trim_split length_append le_add1)

lemma trim_set: "set (trim cs) \<subseteq> set cs"
  by (metis trim_split set_append Un_upper1)

lemma peval_trim [simp]: "peval (trim cs) x = peval cs x"
proof -
  obtain k where "cs = trim cs @ replicate k 0" using trim_split by blast
  then have "peval cs x = peval (trim cs @ replicate k 0) x" by simp
  then show ?thesis by (simp add: peval_append)
qed

lemma trim_nth: "i < length (trim cs) \<Longrightarrow> trim cs ! i = cs ! i"
  by (metis trim_split nth_append)

lemma trim_zeros: "\<forall>c\<in>set cs. c = 0 \<Longrightarrow> trim cs = []"
  using trim_set [of cs] trim_last [of cs] last_in_set by fastforce

lemma trim_append_zeros: "trim (cs @ replicate k 0) = trim cs"
proof (induction k)
  case (Suc k)
  have "trim (ys @ [0]) = trim ys" for ys :: "int list"
    by (simp add: trim.simps [of "ys @ [0]"])
  from this [of "cs @ replicate k 0"] Suc show ?case
    by (simp add: replicate_append_same [symmetric] del: replicate_append_same)
qed simp

lemma peval_update:
  "k < length cs \<Longrightarrow> peval (cs[k := v]) x = peval cs x + (v - cs ! k) * x ^ k"
proof (induction cs arbitrary: k)
  case (Cons c cs)
  then show ?case by (cases k) (simp_all add: distrib_left mult.left_commute)
qed simp

lemma peval_snoc: "peval (cs @ [c]) x = peval cs x + c * x ^ length cs"
  by (simp add: peval_append algebra_simps)

text \<open>The product of two lists, the second monic: the leading coefficient is that of the first.\<close>

lemma peval_times_monic:
  "\<exists>cs. length cs = length g + length e \<and>
     (\<forall>x::int. peval (g @ [c]) x * peval (e @ [1]) x = peval (cs @ [c]) x)"
proof -
  have "is_poly (length g + length e) (\<lambda>x::int. peval g x * peval (e @ [1]) x)"
  proof (cases "g = []")
    case True
    then show ?thesis by (simp add: is_poly_zero)
  next
    case False
    then show ?thesis
      using is_poly_mult [OF is_poly_peval [of g] is_poly_peval [of "e @ [1]"]] by simp
  qed
  moreover have "is_poly (length g + length e) (\<lambda>x::int. c * (x ^ length g * peval e x))"
    using is_poly_scale [OF is_polyI [of "replicate (length g) 0 @ e"]]
    by (simp add: peval_append)
  ultimately obtain cs where cs: "length cs = length g + length e"
    "\<And>x::int. peval g x * peval (e @ [1]) x + c * (x ^ length g * peval e x) = peval cs x"
    using is_poly_add unfolding is_poly_def by (metis (no_types, lifting))
  have "peval (g @ [c]) x * peval (e @ [1]) x = peval (cs @ [c]) x" for x :: int
  proof -
    have "peval (g @ [c]) x * peval (e @ [1]) x
        = (peval g x * peval (e @ [1]) x + c * (x ^ length g * peval e x))
          + c * x ^ (length g + length e)"
      by (simp add: peval_snoc algebra_simps power_add)
    also have "\<dots> = peval (cs @ [c]) x" using cs by (simp add: peval_snoc)
    finally show ?thesis .
  qed
  then show ?thesis using cs(1) by blast
qed

section \<open>Congruence\<close>

definition cong_poly :: "int \<Rightarrow> int list \<Rightarrow> (int \<Rightarrow> int) \<Rightarrow> bool" where
  "cong_poly p cs f \<longleftrightarrow> (\<forall>x. p dvd peval cs x - f x)"

definition residues :: "int \<Rightarrow> int list \<Rightarrow> bool" where
  "residues p cs \<longleftrightarrow> (\<forall>c\<in>set cs. residue p c)"

lemma residues_Nil [simp]: "residues p []"
  by (simp add: residues_def)

lemma residues_nth: "residues p cs \<Longrightarrow> i < length cs \<Longrightarrow> residue p (cs ! i)"
  by (simp add: residues_def)

lemma residues_trim: "residues p cs \<Longrightarrow> residues p (trim cs)"
  using trim_set by (force simp: residues_def)

lemma residues_update: "residues p cs \<Longrightarrow> residue p v \<Longrightarrow> residues p (cs[i := v])"
  using set_update_subset_insert by (fastforce simp: residues_def)

lemma dvd_diff_trans: "p dvd a - b \<Longrightarrow> p dvd b - c \<Longrightarrow> p dvd a - (c :: int)"
  using dvd_add [of p "a - b" "b - c"] by simp

lemma dvd_mod_diff [simp]: "p dvd a mod p - (a :: int)" "p dvd a - a mod p"
  by (simp_all add: mod_eq_dvd_iff [symmetric])

lemma dvd_diff_mult: "p dvd a - b \<Longrightarrow> p dvd c - d \<Longrightarrow> p dvd a * c - b * (d :: int)"
  by (metis mod_eq_dvd_iff mod_mult_cong)

lemma dvd_diff_add: "p dvd a - b \<Longrightarrow> p dvd c - d \<Longrightarrow> p dvd (a + c) - (b + (d :: int))"
  by (metis mod_eq_dvd_iff mod_add_cong)

lemma dvd_diff_diff: "p dvd a - b \<Longrightarrow> p dvd c - d \<Longrightarrow> p dvd (a - c) - (b - (d :: int))"
  by (metis mod_eq_dvd_iff mod_diff_cong)

lemma dvd_diff_sym: "p dvd a - b \<Longrightarrow> p dvd b - (a :: int)"
  by (simp add: dvd_diff_commute)

lemma peval_cong:
  assumes "length cs = length ds" and "\<And>i. i < length cs \<Longrightarrow> p dvd cs ! i - ds ! i"
  shows "p dvd peval cs x - peval ds (x :: int)"
  using assms
proof (induction cs ds rule: list_induct2)
  case (Cons c cs d ds)
  have "p dvd c - d" using Cons.prems [of 0] by simp
  moreover have "p dvd peval cs x - peval ds x"
    using Cons.prems Cons.IH by (metis Suc_mono length_Cons nth_Cons_Suc)
  ultimately show ?case by (auto intro!: dvd_diff_add dvd_diff_mult)
qed simp

lemma cong_poly_map_mod: "cong_poly p (map (\<lambda>x. x mod p) cs) (peval cs)"
  unfolding cong_poly_def by (intro allI peval_cong) simp_all

locale modulus =
  fixes p :: int
  assumes small: "small p" and prime: "is_prime p"

sublocale modulus \<subseteq> vanishing "(dvd) p"
  by (rule prime_vanishing [OF prime])

interpretation m65537: modulus 65537
  by unfold_locales (simp_all add: small_def is_prime_65537)

context modulus begin

lemmas ops = modp_eq [OF small] modAdd_eq [OF small] modSub_eq [OF small] modMul_eq [OF small]
lemmas res = mod_residues [OF small]

lemma p_pos: "0 < p"
  using small by (simp add: small_def)

lemma residues_map_mod [simp]: "residues p (map (\<lambda>x. x mod p) cs)"
  by (auto simp: residues_def small)

lemma modp_fun: "(\<lambda>x. modp x p) = (\<lambda>x. x mod p)"
  by (simp add: ops)

lemma residue_cong: "residue p a \<Longrightarrow> residue p b \<Longrightarrow> p dvd a - b \<Longrightarrow> a = b"
  using residue_eq [of a p b] by (simp add: residue_def)

text \<open>A residue list no longer than the field is determined by its values.\<close>

lemma all_vanish:
  assumes "length cs \<le> nat p" and "\<And>x. p dvd peval cs x"
  shows "\<forall>c\<in>set cs. p dvd c"
proof (rule root_bound [of "{0..<p}"])
  show "\<not> p dvd x - y" if "x \<in> {0..<p}" "y \<in> {0..<p}" "x \<noteq> y" for x y
    using that residue_eq [of x p y] by auto
qed (use assms in auto)

lemma residues_unique:
  assumes "length a = length b" "length a \<le> nat p" "residues p a" "residues p b"
    and "\<And>x. p dvd peval a x - peval b x"
  shows "a = b"
proof (rule nth_equalityI [OF assms(1)])
  fix i assume i: "i < length a"
  let ?d = "map2 (\<lambda>x y. x - y) a b"
  have "peval ?d x = peval a x - peval b x" for x
    using assms(1) by (induction a b rule: list_induct2) (simp_all add: right_diff_distrib)
  then have "\<forall>c\<in>set ?d. p dvd c" using assms by (intro all_vanish) auto
  then have "p dvd a ! i - b ! i" using i assms(1) by (metis (no_types, lifting) length_map map_fst_zip map_snd_zip length_zip min.idem nth_mem nth_map nth_zip case_prod_conv)
  then show "a ! i = b ! i"
    using i assms by (intro residue_cong) (auto intro: residues_nth)
qed

section \<open>Construction, evaluation, powers\<close>

lemma new_prime [simp]: "prime (newPolynomial q cs) = q"
  by (simp add: newPolynomial_def)

lemma new_residues: "residues p (coeffs (newPolynomial p cs))"
  by (simp add: newPolynomial_def modp_fun residues_trim)

lemma new_cong: "cong_poly p (coeffs (newPolynomial p cs)) (peval cs)"
  using cong_poly_map_mod [of p cs] by (simp add: newPolynomial_def cong_poly_def modp_fun)

lemma new_trimmed: "coeffs (newPolynomial p cs) = [] \<or> last (coeffs (newPolynomial p cs)) \<noteq> 0"
  by (simp add: newPolynomial_def trim_last)

lemma new_id:
  assumes "residues p cs" "cs \<noteq> [] \<Longrightarrow> last cs \<noteq> 0"
  shows "newPolynomial p cs = \<lparr>prime = p, coeffs = cs\<rparr>"
proof -
  have "map (\<lambda>x. x mod p) cs = cs"
    using assms(1) by (intro map_idI) (auto simp: residues_def residue_id)
  moreover have "trim cs = cs" using assms(2) by (cases "cs = []") (simp_all add: trim_id trim.simps)
  ultimately show ?thesis by (simp add: newPolynomial_def modp_fun)
qed

lemma eval_correct:
  assumes "residues p cs" "residue p x"
  shows "poly_eval \<lparr>prime = p, coeffs = cs\<rparr> x = peval cs x mod p"
proof -
  have "foldr (\<lambda>c r. modAdd (modMul r x p) c p) cs 0 = peval cs x mod p"
    using assms(1)
  proof (induction cs)
    case (Cons c cs)
    have c: "residue p c" and IH: "foldr (\<lambda>c r. modAdd (modMul r x p) c p) cs 0 = peval cs x mod p"
      using Cons by (auto simp: residues_def)
    have "modAdd (modMul (peval cs x mod p) x p) c p = (peval cs x mod p * x mod p + c) mod p"
      using c assms(2) small by (simp add: ops res)
    also have "\<dots> = (c + x * peval cs x) mod p"
      by (metis add.commute mod_add_left_eq mod_mult_left_eq mult.commute)
    finally show ?case by (simp add: IH)
  qed simp
  then show ?thesis by (simp add: poly_eval_def)
qed

lemma powers_from_nth:
  assumes "residue p cur" "residue p x" "i < n"
  shows "powers_from cur x p n ! i = cur * x ^ i mod p"
  using assms
proof (induction n arbitrary: cur i)
  case (Suc n)
  show ?case
  proof (cases i)
    case 0
    then show ?thesis using Suc.prems by (simp add: residue_id)
  next
    case (Suc j)
    then have "powers_from cur x p (Suc n) ! i = modMul cur x p * x ^ j mod p"
      using Suc.IH Suc.prems by (simp add: res)
    also have "\<dots> = cur * x ^ i mod p"
      using Suc Suc.prems by (simp add: ops mod_mult_left_eq mult.assoc)
    finally show ?thesis .
  qed
qed simp

lemma powers_length [simp]: "length (powers_from cur x q n) = n" "length (powers x n q) = n"
proof -
  show "length (powers_from cur x q n) = n" for cur by (induction n arbitrary: cur) auto
  then show "length (powers x n q) = n" by (simp add: powers_def)
qed

lemma powers_nth: "residue p x \<Longrightarrow> i < n \<Longrightarrow> powers x n p ! i = x ^ i mod p"
  using powers_from_nth [of 1 x i n] small by (simp add: powers_def)

section \<open>Difference and product\<close>

lemma peval_pad: "length cs \<le> n \<Longrightarrow> peval (map (coeff_or_0 cs) [0..<n]) x = peval cs x"
proof -
  assume n: "length cs \<le> n"
  have "map (coeff_or_0 cs) [0..<n] = cs @ replicate (n - length cs) 0"
    using n by (intro nth_equalityI) (auto simp: coeff_or_0_def nth_append)
  then show ?thesis by (simp add: peval_append)
qed

lemma coeff_residue: "residues p cs \<Longrightarrow> residue p (coeff_or_0 cs i)"
  by (simp add: coeff_or_0_def residues_nth small)

lemma sub_correct:
  assumes "residues p a" "residues p b"
  shows "cong_poly p (coeffs (poly_sub \<lparr>prime = p, coeffs = a\<rparr> \<lparr>prime = p, coeffs = b\<rparr>))
      (\<lambda>x. peval a x - peval b x)"
proof -
  define n where "n = max (length a) (length b)"
  have n: "(if length b > length a then length b else length a) = n"
    by (simp add: n_def)
  let ?d = "map (\<lambda>i. modSub (coeff_or_0 a i) (coeff_or_0 b i) p) [0..<n]"
  have pad: "length a \<le> n" "length b \<le> n" by (simp_all add: n_def)
  have "p dvd peval ?d x - (peval a x - peval b x)" for x
  proof -
    have d: "peval (map (\<lambda>i. f i - g i) l) x = peval (map f l) x - peval (map g l) x"
      for f g :: "nat \<Rightarrow> int" and l by (induction l) (simp_all add: right_diff_distrib)
    have "p dvd peval ?d x - peval (map (\<lambda>i. coeff_or_0 a i - coeff_or_0 b i) [0..<n]) x"
      using assms by (intro peval_cong) (simp_all add: ops coeff_residue)
    then show ?thesis by (simp add: d peval_pad [OF pad(1)] peval_pad [OF pad(2)])
  qed
  then have "cong_poly p (coeffs (newPolynomial p ?d)) (\<lambda>x. peval a x - peval b x)"
    using new_cong [of ?d] by (auto simp: cong_poly_def intro: dvd_diff_trans)
  then show ?thesis unfolding poly_sub_def Let_def fpoly.select_convs n .
qed

lemma fold_update_length:
  "length (fold (\<lambda>j c. c[f j := g c j]) js c) = length c"
  by (induction js arbitrary: c) simp_all

text \<open>Adding a multiple of one list into another, shifted: the inner loops of \<open>mul\<close> and \<open>divRem\<close>.\<close>

lemma fold_shifted:
  assumes "residues p c"
    and "\<And>u j. j \<in> set js \<Longrightarrow> residue p u \<Longrightarrow> residue p (g u j) \<and> p dvd g u j - (u + h j)"
    and "\<forall>j\<in>set js. i + j < length c"
  shows "residues p (fold (\<lambda>j c. c[i + j := g (c ! (i + j)) j]) js c)
    \<and> p dvd peval (fold (\<lambda>j c. c[i + j := g (c ! (i + j)) j]) js c) x
        - (peval c x + x ^ i * (\<Sum>j\<leftarrow>js. h j * x ^ j))"
  using assms
proof (induction js arbitrary: c)
  case (Cons j js)
  let ?v = "g (c ! (i + j)) j"
  let ?c = "c[i + j := ?v]"
  let ?F = "fold (\<lambda>j c. c[i + j := g (c ! (i + j)) j]) js"
  have v: "residue p ?v" "p dvd ?v - (c ! (i + j) + h j)"
    using Cons.prems by (auto simp: residues_nth)
  have "residues p ?c" using Cons.prems v by (simp add: residues_update)
  then have IH: "residues p (?F ?c)"
    "p dvd peval (?F ?c) x - (peval ?c x + x ^ i * (\<Sum>j\<leftarrow>js. h j * x ^ j))"
    using Cons by simp_all
  have "p dvd (?v - c ! (i + j)) * x ^ (i + j) - h j * x ^ (i + j)"
    using v(2) by (intro dvd_diff_mult) (simp_all add: algebra_simps)
  then have "p dvd peval ?c x - (peval c x + h j * x ^ (i + j))"
    using Cons.prems by (simp add: peval_update algebra_simps)
  then have "p dvd peval (?F ?c) x
      - (peval c x + h j * x ^ (i + j) + x ^ i * (\<Sum>j\<leftarrow>js. h j * x ^ j))"
    using IH(2) dvd_diff_add [of p _ _ "x ^ i * (\<Sum>j\<leftarrow>js. h j * x ^ j)" "x ^ i * (\<Sum>j\<leftarrow>js. h j * x ^ j)"]
      dvd_diff_trans by auto
  then show ?case using IH(1) by (simp add: algebra_simps power_add)
qed simp

lemma sum_upt_peval: "(\<Sum>j\<leftarrow>[0..<length b]. k * b ! j * x ^ j) = k * peval b (x :: int)"
  by (simp add: peval_sum sum_list_distinct_conv_sum_set atLeast0LessThan sum_distrib_left mult.assoc)

lemma mul_correct:
  assumes "residues p a" "residues p b" "a \<noteq> []" "b \<noteq> []"
  defines "c \<equiv> fold (\<lambda>i c. fold (\<lambda>j c. c[i + j := modAdd (c ! (i + j)) (modMul (a ! i) (b ! j) p) p])
            [0..<length b] c) [0..<length a] (replicate (length a + length b - 1) 0)"
  shows "residues p c" "length c = length a + length b - 1"
    "cong_poly p c (\<lambda>x. peval a x * peval b x)"
proof -
  let ?in = "\<lambda>i. fold (\<lambda>j c. c[i + j := modAdd (c ! (i + j)) (modMul (a ! i) (b ! j) p) p]) [0..<length b]"
  let ?z = "replicate (length a + length b - 1) (0 :: int)"
  have "length (fold ?in is ?z) = length ?z \<and> residues p (fold ?in is ?z)
      \<and> (\<forall>x. p dvd peval (fold ?in is ?z) x - (\<Sum>i\<leftarrow>is. a ! i * x ^ i * peval b x))"
    if "\<forall>i\<in>set is. i < length a" for "is"
    using that
  proof (induction "is" rule: rev_induct)
    case Nil
    then show ?case by (auto simp: residues_def small)
  next
    case (snoc i "is")
    let ?c = "fold ?in is ?z"
    have len: "length ?c = length ?z" and rs: "residues p ?c"
      and ev: "\<And>x. p dvd peval ?c x - (\<Sum>i\<leftarrow>is. a ! i * x ^ i * peval b x)"
      using snoc by auto
    have bound: "\<forall>j\<in>set [0..<length b]. i + j < length ?c"
      unfolding len using snoc.prems by auto
    have i: "i < length a" using snoc.prems by simp
    have g: "residue p (modAdd u (modMul (a ! i) (b ! j) p) p)
        \<and> p dvd modAdd u (modMul (a ! i) (b ! j) p) p - (u + a ! i * b ! j)"
      if "residue p u" "j \<in> set [0..<length b]" for u j
    proof -
      have "residue p (a ! i)" "residue p (b ! j)"
        using that assms(1,2) i by (auto intro: residues_nth)
      then show ?thesis
        using that by (simp add: ops res small mod_eq_dvd_iff [symmetric] mod_add_right_eq)
    qed
    have step: "residues p (?in i ?c)
        \<and> p dvd peval (?in i ?c) x - (peval ?c x + x ^ i * (\<Sum>j\<leftarrow>[0..<length b]. a ! i * b ! j * x ^ j))" for x
      by (rule fold_shifted [OF rs _ bound]) (use g in blast)
    have "p dvd peval (?in i ?c) x - ((\<Sum>i\<leftarrow>is. a ! i * x ^ i * peval b x) + a ! i * x ^ i * peval b x)" for x
    proof -
      let ?t = "x ^ i * (a ! i * peval b x)"
      have "p dvd peval (?in i ?c) x - (peval ?c x + ?t)"
        using step [of x] unfolding sum_upt_peval by blast
      moreover have "p dvd (peval ?c x + ?t) - ((\<Sum>i\<leftarrow>is. a ! i * x ^ i * peval b x) + ?t)"
        using ev [of x] by simp
      ultimately have "p dvd peval (?in i ?c) x - ((\<Sum>i\<leftarrow>is. a ! i * x ^ i * peval b x) + ?t)"
        by (rule dvd_diff_trans)
      moreover have "?t = a ! i * x ^ i * peval b x" by simp
      ultimately show ?thesis by (simp only:)
    qed
    then show ?case using step len by (simp add: fold_update_length)
  qed
  note this [of "[0..<length a]"]
  moreover have "(\<Sum>i\<leftarrow>[0..<length a]. a ! i * x ^ i * peval b x) = peval a x * peval b x" for x
    using sum_upt_peval [where k = 1 and b = a and x = x] by (simp add: sum_list_mult_const)
  ultimately show "residues p c" "length c = length a + length b - 1"
    "cong_poly p c (\<lambda>x. peval a x * peval b x)"
    by (simp_all add: c_def cong_poly_def)
qed

section \<open>Monic polynomials\<close>

lemma mul_monic:
  assumes "residues p (a @ [1])" "residues p (b @ [1])" "length a + length b < nat p"
  shows "\<exists>c. poly_mul \<lparr>prime = p, coeffs = a @ [1]\<rparr> \<lparr>prime = p, coeffs = b @ [1]\<rparr>
        = \<lparr>prime = p, coeffs = c @ [1]\<rparr> \<and> residues p (c @ [1]) \<and> length c = length a + length b
      \<and> cong_poly p (c @ [1]) (\<lambda>x. peval (a @ [1]) x * peval (b @ [1]) x)"
proof -
  define c where "c = fold (\<lambda>i c. fold (\<lambda>j c. c[i + j := modAdd (c ! (i + j))
        (modMul ((a @ [1]) ! i) ((b @ [1]) ! j) p) p]) [0..<length (b @ [1])] c)
      [0..<length (a @ [1])] (replicate (length (a @ [1]) + length (b @ [1]) - 1) 0)"
  have c: "residues p c" "length c = length a + length b + 1"
    "cong_poly p c (\<lambda>x. peval (a @ [1]) x * peval (b @ [1]) x)"
    using mul_correct [OF assms(1,2)] by (simp_all add: c_def)
  obtain cs where cs: "length cs = length a + length b"
    "\<forall>x. peval (a @ [1]) x * peval (b @ [1]) x = peval (cs @ [1]) x"
    using peval_times_monic by blast
  let ?m = "map (\<lambda>x. x mod p) (cs @ [1])"
  have "c = ?m"
  proof (rule residues_unique)
    fix x
    have "p dvd peval c x - peval (cs @ [1]) x" using c(3) cs(2) by (simp add: cong_poly_def)
    moreover have "p dvd peval (cs @ [1]) x - peval ?m x"
      using cong_poly_map_mod [of p "cs @ [1]"] dvd_diff_sym unfolding cong_poly_def by blast
    ultimately show "p dvd peval c x - peval ?m x" by (rule dvd_diff_trans)
  qed (use c cs assms(3) in \<open>simp_all del: map_append\<close>)
  moreover have "1 mod p = 1" using small by (simp add: small_def)
  ultimately have c1: "c = map (\<lambda>x. x mod p) cs @ [1]" by simp
  have "poly_mul \<lparr>prime = p, coeffs = a @ [1]\<rparr> \<lparr>prime = p, coeffs = b @ [1]\<rparr> = newPolynomial p c"
  proof -
    have "\<not> (int (length (a @ [1])) - 1 < 0 \<or> int (length (b @ [1])) - 1 < 0)" by simp
    then show ?thesis unfolding poly_mul_def c_def fpoly.select_convs degree_def by (simp only: if_False)
  qed
  also have "\<dots> = \<lparr>prime = p, coeffs = c\<rparr>" using c(1) c1 by (intro new_id) simp_all
  finally show ?thesis using c c1 cs by (intro exI [of _ "map (\<lambda>x. x mod p) cs"]) simp
qed

lemma polyFromRoots_correct:
  assumes "\<forall>r\<in>set roots. residue p r" "length roots < nat p"
  shows "\<exists>c. polyFromRoots roots p = \<lparr>prime = p, coeffs = c @ [1]\<rparr> \<and> residues p (c @ [1])
    \<and> length c = length roots \<and> cong_poly p (c @ [1]) (\<lambda>x. \<Prod>r\<leftarrow>roots. x - r)"
  using assms
proof (induction roots rule: rev_induct)
  case Nil
  have "newPolynomial p [1] = \<lparr>prime = p, coeffs = [1]\<rparr>"
    by (intro new_id) (simp_all add: residues_def small)
  then show ?case by (simp add: polyFromRoots_def cong_poly_def residues_def small)
next
  case (snoc r roots)
  then obtain c where c: "polyFromRoots roots p = \<lparr>prime = p, coeffs = c @ [1]\<rparr>"
    "residues p (c @ [1])" "length c = length roots"
    "cong_poly p (c @ [1]) (\<lambda>x. \<Prod>r\<leftarrow>roots. x - r)" by auto
  have r: "residue p r" and i: "i64 (- r) = - r"
    using snoc.prems small by (auto simp: residue_def small_def i64_id)
  have l: "newPolynomial p [i64 (- r), 1] = \<lparr>prime = p, coeffs = [(- r) mod p] @ [1]\<rparr>"
    using small by (simp add: newPolynomial_def modp_fun i trim_id small_def)
  have rl: "residues p ([(- r) mod p] @ [1])" by (simp add: residues_def small)
  obtain d where d: "poly_mul \<lparr>prime = p, coeffs = c @ [1]\<rparr> \<lparr>prime = p, coeffs = [(- r) mod p] @ [1]\<rparr>
      = \<lparr>prime = p, coeffs = d @ [1]\<rparr>" "residues p (d @ [1])" "length d = length c + 1"
    "cong_poly p (d @ [1]) (\<lambda>x. peval (c @ [1]) x * peval ([(- r) mod p] @ [1]) x)"
    using mul_monic [OF c(2) rl] snoc.prems c(3) by auto
  have "p dvd peval (d @ [1]) x - (\<Prod>r\<leftarrow>roots @ [r]. x - r)" for x
  proof -
    have "p dvd peval ([(- r) mod p] @ [1]) x - (x - r)"
      using dvd_mod_diff(1) [of p "- r"] by (simp add: algebra_simps)
    then have "p dvd peval (c @ [1]) x * peval ([(- r) mod p] @ [1]) x - (\<Prod>r\<leftarrow>roots. x - r) * (x - r)"
      using c(4) by (intro dvd_diff_mult) (simp_all add: cong_poly_def)
    then show ?thesis using d(4) dvd_diff_trans by (simp add: cong_poly_def) blast
  qed
  then show ?case using d c(1,3) l by (simp add: polyFromRoots_def cong_poly_def)
qed

section \<open>Long division\<close>

lemma fold_update_nth:
  "distinct js \<Longrightarrow> \<forall>j\<in>set js. i + j < length c \<Longrightarrow>
   fold (\<lambda>j c. c[i + j := g (c ! (i + j)) j]) js c ! k
     = (if i \<le> k \<and> k - i \<in> set js then g (c ! k) (k - i) else c ! k)"
proof (induction js arbitrary: c)
  case (Cons j js)
  then show ?case by (cases "k = i + j") (auto simp: nth_list_update)
qed simp

definition div_inv :: "int list \<Rightarrow> int list \<Rightarrow> int list \<times> int list \<Rightarrow> bool" where
  "div_inv a d = (\<lambda>(q, r). residues p q \<and> residues p r \<and> (r = [] \<or> last r \<noteq> 0)
     \<and> length q + length d = length a + 1 \<and> length r \<le> length a
     \<and> (\<forall>i<length q. i + length d \<le> length r \<longrightarrow> q ! i = 0)
     \<and> (\<forall>x. p dvd peval q x * peval d x + peval r x - peval a x))"

lemma div_step:
  assumes inv: "div_inv a d (q, r)" and d: "residues p d" "d \<noteq> []" and le: "length d \<le> length r"
    and iv: "residue p iv" "last d * iv mod p = 1"
  shows "div_inv a d (divRem_step d iv p (q, r)) \<and> length (snd (divRem_step d iv p (q, r))) < length r"
proof -
  define s where "s = length r - length d"
  define f where "f = modMul (r ! (length r - 1)) iv p"
  define g where "g = (\<lambda>u j. modSub u (modMul f (d ! j) p) p)"
  define r' where "r' = fold (\<lambda>j c. c[s + j := g (c ! (s + j)) j]) [0..<length d] r"
  have step: "divRem_step d iv p (q, r) = (q[s := f], trim r')"
    by (simp add: divRem_step_def s_def f_def r'_def g_def Let_def add.commute)
  have r: "residues p r" "r \<noteq> []" "last r \<noteq> 0" and q: "residues p q" "length q + length d = length a + 1"
    and rl: "length r \<le> length a" and q0: "\<And>i. i < length q \<Longrightarrow> i + length d \<le> length r \<Longrightarrow> q ! i = 0"
    and ev: "\<And>x. p dvd peval q x * peval d x + peval r x - peval a x"
    using inv le d(2) by (auto simp: div_inv_def)
  have s: "s < length q" "s + length d = length r" using q rl le by (auto simp: s_def)
  have f: "residue p f" by (simp add: f_def res)
  have g: "residue p (g u j) \<and> p dvd g u j - (u + (- (f * d ! j)))"
    if "j \<in> set [0..<length d]" "residue p u" for u j
    using that f residues_nth [OF d(1)] small
    by (simp add: g_def ops res mod_eq_dvd_iff [symmetric] mod_diff_right_eq)
  have r': "residues p r' \<and> p dvd peval r' x
      - (peval r x + x ^ s * (\<Sum>j\<leftarrow>[0..<length d]. - (f * d ! j) * x ^ j))" for x
    unfolding r'_def by (rule fold_shifted [OF r(1)]) (use g s in auto)
  have len: "length r' = length r" by (simp add: r'_def fold_update_length)
  have "r' ! (length r - 1) = g (r ! (length r - 1)) (length d - 1)"
  proof -
    have "length r - 1 - s = length d - 1" "s \<le> length r - 1" using s d(2) by (cases d; simp)+
    then show ?thesis using s d(2) by (simp add: r'_def fold_update_nth)
  qed
  also have "\<dots> = 0"
  proof -
    have l: "r ! (length r - 1) = last r" "d ! (length d - 1) = last d"
      using r(2) d(2) by (simp_all add: last_conv_nth)
    have rr: "residue p (last r)" "residue p (last d)" using r d by (auto simp: residues_def)
    have "g (last r) (length d - 1) = (last r - last r * iv mod p * last d mod p) mod p"
      using rr iv(1) small l by (simp add: g_def f_def ops res del: One_nat_def)
    also have "last r * iv mod p * last d mod p = last r * (last d * iv) mod p"
      by (metis mod_mult_left_eq mult.assoc mult.commute)
    also have "\<dots> = last r * (last d * iv mod p) mod p" by (simp only: mod_mult_right_eq)
    finally show ?thesis using iv(2) rr unfolding l by (simp add: residue_id)
  qed
  finally have last0: "r' \<noteq> [] \<and> last r' = 0"
    using len r(2) by (metis last_conv_nth length_0_conv)
  then have lt: "length (trim r') < length r" using trim_shorter len by metis
  have "p dvd peval (q[s := f]) x * peval d x + peval (trim r') x - peval a x" for x
  proof -
    have "(\<Sum>j\<leftarrow>[0..<length d]. - (f * d ! j) * x ^ j) = - f * peval d x"
      using sum_upt_peval [where k = "- f" and b = d and x = x] by simp
    then have "p dvd peval r' x - (peval r x + x ^ s * (- f * peval d x))" using r' [of x] by simp
    moreover have "q ! s = 0" using q0 s by simp
    ultimately have "p dvd (peval r' x - (peval r x + x ^ s * (- f * peval d x)))
        + (peval q x * peval d x + peval r x - peval a x)" using ev dvd_add by blast
    then show ?thesis using s \<open>q ! s = 0\<close> by (simp add: peval_update algebra_simps)
  qed
  then have "div_inv a d (q[s := f], trim r')"
    using q f r' lt rl q0 trim_last [of r'] s
    by (auto simp: div_inv_def residues_update residues_trim nth_list_update)
  then show ?thesis using lt by (simp add: step)
qed

lemma div_loop:
  assumes "div_inv a d (q, r)" "residues p d" "d \<noteq> []" "residue p iv" "last d * iv mod p = 1"
  shows "\<exists>q' r'. divRem_loop d iv p (q, r) = Some (q', r') \<and> div_inv a d (q', r') \<and> length r' < length d"
  using assms(1)
proof (induction "length r" arbitrary: q r rule: less_induct)
  case less
  show ?case
  proof (cases "length d \<le> length r")
    case True
    obtain q1 r1 where s: "divRem_step d iv p (q, r) = (q1, r1)" by fastforce
    have st: "div_inv a d (q1, r1)" "length r1 < length r"
      using div_step [OF less.prems assms(2,3) True assms(4,5)] by (simp_all add: s)
    show ?thesis using less.hyps [OF st(2,1)] True s by (simp add: divRem_loop.simps [of _ _ _ "(q, r)"])
  next
    case False
    then show ?thesis using less.prems by (simp add: divRem_loop.simps)
  qed
qed

text \<open>Division with remainder, for every divisor without leading zeros.\<close>

lemma divRem_correct:
  assumes "residues p a" "a = [] \<or> last a \<noteq> 0" "residues p d" "d \<noteq> []" "last d \<noteq> 0"
  shows "\<exists>q r. divRemPolynomial \<lparr>prime = p, coeffs = a\<rparr> \<lparr>prime = p, coeffs = d\<rparr>
      = Some (Inr (newPolynomial p q, \<lparr>prime = p, coeffs = r\<rparr>))
    \<and> residues p q \<and> residues p r \<and> length r < length d \<and> (r = [] \<or> last r \<noteq> 0)
    \<and> length q \<le> length a - (length d - 1)
    \<and> (\<forall>x. p dvd peval q x * peval d x + peval r x - peval a x)"
proof (cases "length a < length d")
  case True
  then show ?thesis using assms
    by (intro exI [of _ "[]"] exI [of _ a]) (simp add: divRemPolynomial_def degree_def)
next
  case False
  have "\<not> p dvd last d" using assms(3-5) residue_dvd_iff by (auto simp: residues_def)
  then obtain iv where iv: "modInv (last d) p = Inr iv" "residue p iv" "last d * iv mod p = 1"
    using modInv_correct [OF small prime] by blast
  have na: "newPolynomial p a = \<lparr>prime = p, coeffs = a\<rparr>" using assms by (intro new_id) auto
  let ?n = "length a - length d + 1"
  have "div_inv a d (replicate ?n 0, a)"
    using assms False small by (auto simp: div_inv_def residues_def simp del: replicate_Suc)
  then obtain q r where l: "divRem_loop d iv p (replicate ?n 0, a) = Some (q, r)" "div_inv a d (q, r)"
    "length r < length d" using div_loop assms(3,4) iv by blast
  have n: "nat (int (length a) - 1 - (int (length d) - 1) + 1) = ?n" "nat (int (length d) - 1) = length d - 1"
    using False by simp_all
  have "divRemPolynomial \<lparr>prime = p, coeffs = a\<rparr> \<lparr>prime = p, coeffs = d\<rparr>
      = Some (Inr (newPolynomial p q, \<lparr>prime = p, coeffs = r\<rparr>))"
    unfolding divRemPolynomial_def degree_def fpoly.select_convs n na
    using assms(4) False iv(1) l(1) by (simp add: last_conv_nth)
  then show ?thesis using l False by (auto simp: div_inv_def)
qed

section \<open>Roots\<close>

lemma findRoots_spec:
  assumes "residues p cs"
  shows "findRoots \<lparr>prime = p, coeffs = cs\<rparr> n =
    (let rs = filter (\<lambda>x. p dvd peval cs x) (map int [0..<nat p])
     in if int (length cs) - 1 = n \<and> int (length rs) = n then Inr rs else Inl ErrInsufficientMatches)"
proof -
  have "filter (\<lambda>x. poly_eval \<lparr>prime = p, coeffs = cs\<rparr> x = 0) (map int [0..<nat p])
      = filter (\<lambda>x. p dvd peval cs x) (map int [0..<nat p])"
    using assms by (intro filter_cong) (auto simp: eval_correct residue_def dvd_eq_mod_eq_0)
  then show ?thesis by (auto simp: findRoots_def degree_def check_def Let_def)
qed

end

end
