(* ===== verification/FuzzyLinear.thy ===== *)
theory FuzzyLinear
  imports FuzzyPoly
begin

text \<open>
  \<open>solveLinear\<close> and \<open>berlekampWelch\<close> of \<open>sdk/account/fuzzy/math.go\<close>: Gauss-Jordan elimination
  modulo the prime keeps the solutions of the system and ends in reduced form, so \<open>solveLinear\<close>
  returns a solution exactly when there is one; the decoder built on it corrects every set of
  at most \<open>errors\<close> wrong values.
\<close>

section \<open>Equations\<close>

text \<open>The residual of a vector in a row of the augmented matrix, and the solutions of a matrix.\<close>

definition lin :: "nat \<Rightarrow> int list \<Rightarrow> int list \<Rightarrow> int" where
  "lin cols row x = (\<Sum>j<cols. row ! j * x ! j) - row ! cols"

definition solves :: "int \<Rightarrow> nat \<Rightarrow> matrix \<Rightarrow> int list \<Rightarrow> bool" where
  "solves p cols aug x \<longleftrightarrow> (\<forall>row\<in>set aug. p dvd lin cols row x)"

lemma solves_nth: "solves p cols aug x \<longleftrightarrow> (\<forall>r<length aug. p dvd lin cols (aug ! r) x)"
  by (metis solves_def in_set_conv_nth)

lemma lin_cong:
  assumes "\<And>j. j \<le> cols \<Longrightarrow> p dvd row ! j - (a * r1 ! j + b * r2 ! j)"
  shows "p dvd lin cols row x - (a * lin cols r1 x + b * lin cols r2 x)"
proof -
  have "lin cols row x - (a * lin cols r1 x + b * lin cols r2 x)
      = (\<Sum>j<cols. (row ! j - (a * r1 ! j + b * r2 ! j)) * x ! j)
        - (row ! cols - (a * r1 ! cols + b * r2 ! cols))"
    by (simp add: lin_def algebra_simps sum_subtractf sum.distrib sum_distrib_left)
  moreover have "p dvd (\<Sum>j<cols. (row ! j - (a * r1 ! j + b * r2 ! j)) * x ! j)"
    by (intro dvd_sum) (use assms in simp)
  ultimately show ?thesis using assms [of cols] by simp
qed

definition row_ok :: "int \<Rightarrow> nat \<Rightarrow> int list \<Rightarrow> bool" where
  "row_ok p cols row \<longleftrightarrow> length row = Suc cols \<and> residues p row"

definition matrix_ok :: "int \<Rightarrow> nat \<Rightarrow> matrix \<Rightarrow> bool" where
  "matrix_ok p cols aug \<longleftrightarrow> (\<forall>row\<in>set aug. row_ok p cols row)"

lemma matrix_ok_nth: "matrix_ok p cols aug \<Longrightarrow> r < length aug \<Longrightarrow> row_ok p cols (aug ! r)"
  by (simp add: matrix_ok_def)

text \<open>The invariant of the elimination: the first rows are reduced, the rest is zero left of \<open>col\<close>.\<close>

definition gauss_inv ::
    "int \<Rightarrow> nat \<Rightarrow> matrix \<Rightarrow> matrix \<Rightarrow> nat \<Rightarrow> nat list \<Rightarrow> nat \<Rightarrow> bool" where
  "gauss_inv p cols aug0 aug pr pivots col \<longleftrightarrow>
     length aug = length aug0 \<and> matrix_ok p cols aug \<and> length pivots = pr \<and> pr \<le> length aug
     \<and> col \<le> cols \<and> (\<forall>r<pr. pivots ! r < col) \<and> distinct pivots
     \<and> (\<forall>r<pr. \<forall>r'<length aug. aug ! r' ! (pivots ! r) = (if r' = r then 1 else 0))
     \<and> (\<forall>r. pr \<le> r \<longrightarrow> r < length aug \<longrightarrow> (\<forall>j<col. aug ! r ! j = 0))
     \<and> (\<forall>x. solves p cols aug x \<longleftrightarrow> solves p cols aug0 x)"

section \<open>One elimination step\<close>

lemma swap_nth:
  "i < length aug \<Longrightarrow> j < length aug \<Longrightarrow> r < length aug \<Longrightarrow>
   swap_rows i j aug ! r = aug ! (if r = j then i else if r = i then j else r)"
  by (auto simp: swap_rows_def nth_list_update)

lemma swap_length [simp]: "length (swap_rows i j aug) = length aug"
  by (simp add: swap_rows_def)

lemma swap_set: "i < length aug \<Longrightarrow> j < length aug \<Longrightarrow> set (swap_rows i j aug) = set aug"
  by (simp add: swap_rows_def set_swap)

text \<open>The vector read off the reduced matrix.\<close>

definition read_off :: "nat \<Rightarrow> matrix \<Rightarrow> nat list \<Rightarrow> int list" where
  "read_off cols aug pivots =
     fold (\<lambda>(r, col) x. x[col := aug ! r ! cols]) (enumerate 0 pivots) (replicate cols 0)"

text \<open>The augmented matrix of a system.\<close>

definition equations :: "matrix \<Rightarrow> int list \<Rightarrow> matrix" where
  "equations a b = map2 (\<lambda>row v. row @ [v]) a b"

text \<open>The positions where a received value is not that of the polynomial \<open>f\<close>.\<close>

definition wrong :: "int \<Rightarrow> int list \<Rightarrow> int list \<Rightarrow> int list \<Rightarrow> nat set" where
  "wrong p xs ys f = {i. i < length xs \<and> \<not> p dvd ys ! i - peval f (xs ! i)}"

lemma finite_wrong [simp]: "finite (wrong p xs ys f)"
  by (simp add: wrong_def)

context modulus begin

lemma scale_row_nth:
  assumes "row_ok p cols row" "residue p iv" "j \<le> cols" "\<forall>i<col. row ! i = 0"
  shows "scale_row col iv p row ! j = row ! j * iv mod p"
proof -
  have j: "j < length row" "residue p (row ! j)" using assms by (auto simp: row_ok_def residues_nth)
  then show ?thesis
    using assms(2,4) by (auto simp: scale_row_def nth_enumerate_eq ops residue_id)
qed

lemma subtract_row_nth:
  assumes "row_ok p cols row" "row_ok p cols piv" "j \<le> cols" "col \<le> cols" "\<forall>i<col. piv ! i = 0"
  shows "subtract_row col piv p row ! j = (row ! j - row ! col * piv ! j) mod p"
proof -
  have j: "j < length row" "residue p (row ! j)" "residue p (piv ! j)" "residue p (row ! col)"
    using assms by (auto simp: row_ok_def residues_nth)
  show ?thesis
  proof (cases "row ! col = 0")
    case True
    then show ?thesis using j by (simp add: subtract_row_def residue_id)
  next
    case False
    then show ?thesis
      using j assms(5) by (auto simp: subtract_row_def nth_enumerate_eq ops res small residue_id mod_diff_right_eq)
  qed
qed

lemma scale_row_ok: "row_ok p cols row \<Longrightarrow> row_ok p cols (scale_row col iv p row)"
  by (auto simp: row_ok_def scale_row_def residues_def res in_set_enumerate_eq dest: nth_mem)

lemma subtract_row_ok: "row_ok p cols row \<Longrightarrow> row_ok p cols (subtract_row col piv p row)"
  by (auto simp: row_ok_def subtract_row_def residues_def res in_set_enumerate_eq Let_def dest: nth_mem)

lemma eliminate_shape:
  assumes "pr < length aug" "sel < length aug" "matrix_ok p cols aug" "col \<le> cols"
    and "aug ! sel ! col \<noteq> 0"
  shows "\<exists>iv aug'. eliminate aug pr sel col p = Inr aug' \<and> residue p iv \<and> aug ! sel ! col * iv mod p = 1
    \<and> length aug' = length aug \<and> matrix_ok p cols aug'
    \<and> aug' ! pr = scale_row col iv p (aug ! sel)
    \<and> (\<forall>r<length aug. r \<noteq> pr \<longrightarrow>
        aug' ! r = subtract_row col (scale_row col iv p (aug ! sel)) p (swap_rows pr sel aug ! r))"
proof -
  let ?s = "swap_rows pr sel aug"
  have s: "?s ! pr = aug ! sel" using assms by (simp add: swap_nth)
  have "residue p (aug ! sel ! col)"
    using matrix_ok_nth [OF assms(3,2)] assms(4) by (auto simp: row_ok_def residues_nth)
  then have "\<not> p dvd aug ! sel ! col" using assms(5) by (simp add: residue_dvd_iff)
  then obtain iv where iv: "modInv (aug ! sel ! col) p = Inr iv" "residue p iv"
    "aug ! sel ! col * iv mod p = 1" using modInv_correct [OF small prime] by blast
  define A where "A = ?s[pr := scale_row col iv p (aug ! sel)]"
  let ?res = "map (\<lambda>(r, row). if r = pr then row else subtract_row col (A ! pr) p row) (enumerate 0 A)"
  have A: "length A = length aug" "A ! pr = scale_row col iv p (aug ! sel)"
    "\<And>r. r \<noteq> pr \<Longrightarrow> A ! r = ?s ! r" using assms(1) by (simp_all add: A_def)
  have e: "eliminate aug pr sel col p = Inr ?res"
    using iv(1) by (simp add: eliminate_def s Let_def A_def [symmetric] cong: if_cong)
  have "row_ok p cols (A ! r)" if "r < length A" for r
  proof (cases "r = pr")
    case True
    then show ?thesis using A(2) scale_row_ok [OF matrix_ok_nth [OF assms(3,2)]] by simp
  next
    case False
    then show ?thesis
      using A that assms(1-3) matrix_ok_nth swap_nth by simp
  qed
  then have "matrix_ok p cols ?res"
    unfolding matrix_ok_def by (auto simp: in_set_enumerate_eq subtract_row_ok)
  then show ?thesis
    using e iv assms(1) A by (intro exI [of _ iv] exI [of _ ?res]) (auto simp: nth_enumerate_eq)
qed

lemma eliminate_inv:
  assumes inv: "gauss_inv p cols aug0 aug pr pivots col"
    and b: "pr < length aug" "col < cols" "pr \<le> sel" "sel < length aug" "aug ! sel ! col \<noteq> 0"
  shows "\<exists>aug'. eliminate aug pr sel col p = Inr aug'
    \<and> gauss_inv p cols aug0 aug' (Suc pr) (pivots @ [col]) (Suc col)"
proof -
  have ok: "matrix_ok p cols aug" and len: "length aug = length aug0"
    and piv: "length pivots = pr" "\<forall>r<pr. pivots ! r < col" "distinct pivots"
    and red: "\<And>r r'. r < pr \<Longrightarrow> r' < length aug \<Longrightarrow> aug ! r' ! (pivots ! r) = (if r' = r then 1 else 0)"
    and zero: "\<And>r j. pr \<le> r \<Longrightarrow> r < length aug \<Longrightarrow> j < col \<Longrightarrow> aug ! r ! j = 0"
    and sol: "\<And>x. solves p cols aug x \<longleftrightarrow> solves p cols aug0 x"
    using inv by (auto simp: gauss_inv_def)
  obtain iv aug' where e: "eliminate aug pr sel col p = Inr aug'" and iv: "residue p iv"
    "aug ! sel ! col * iv mod p = 1" and len': "length aug' = length aug" and ok': "matrix_ok p cols aug'"
    and P: "aug' ! pr = scale_row col iv p (aug ! sel)"
    and O: "\<And>r. r < length aug \<Longrightarrow> r \<noteq> pr \<Longrightarrow>
        aug' ! r = subtract_row col (aug' ! pr) p (swap_rows pr sel aug ! r)"
    using eliminate_shape [OF b(1,4) ok _ b(5)] b(2) by auto
  let ?s = "swap_rows pr sel aug"
  have oks: "matrix_ok p cols ?s" using ok swap_set [OF b(1,4)] by (simp add: matrix_ok_def)
  have selz: "\<forall>i<col. aug ! sel ! i = 0" using zero b by simp
  have Pn: "aug' ! pr ! j = aug ! sel ! j * iv mod p" if "j \<le> cols" for j
    unfolding P by (rule scale_row_nth [OF matrix_ok_nth [OF ok b(4)] iv(1) that selz])
  have Pz: "\<forall>i<col. aug' ! pr ! i = 0" using Pn selz b(2) by simp
  have Pc: "aug' ! pr ! col = 1" using Pn [of col] iv b(2) by simp
  have On: "aug' ! r ! j = (?s ! r ! j - ?s ! r ! col * aug' ! pr ! j) mod p"
    if "r < length aug" "r \<noteq> pr" "j \<le> cols" for r j
    unfolding O [OF that(1,2)]
    by (rule subtract_row_nth) (use that oks ok' b len' Pz in \<open>auto intro: matrix_ok_nth\<close>)
  have sn: "?s ! r = aug ! (if r = sel then pr else if r = pr then sel else r)" if "r < length aug" for r
    using swap_nth [OF b(1,4) that] .
  have srow: "residue p (?s ! r ! j)" if "r < length aug" "j \<le> cols" for r j
    using matrix_ok_nth [OF oks] that by (auto simp: row_ok_def intro: residues_nth)
  \<comment> \<open>reduced columns\<close>
  have red': "aug' ! r' ! ((pivots @ [col]) ! r) = (if r' = r then 1 else 0)"
    if r: "r < Suc pr" "r' < length aug" for r r'
  proof (cases "r = pr")
    case True
    then have "(pivots @ [col]) ! r = col" using piv(1) by (simp add: nth_append)
    then show ?thesis using True Pc On [of r' col] r b(2) by (cases "r' = pr") simp_all
  next
    case False
    then have r: "r < pr" "(pivots @ [col]) ! r = pivots ! r" using that piv(1) by (simp_all add: nth_append)
    then have c: "pivots ! r < col" using piv(2) by simp
    have "?s ! r' ! (pivots ! r) = (if r' = r then 1 else 0)"
      using sn [OF that(2)] red [OF r(1)] zero c b r(1) that(2) by auto
    then show ?thesis
      using r c b(2) Pz On [of r' "pivots ! r"] that(2) small by (cases "r' = pr") (auto simp: small_def)
  qed
  have zero': "aug' ! r ! j = 0" if "Suc pr \<le> r" "r < length aug" "j < Suc col" for r j
  proof (cases "j = col")
    case True
    then show ?thesis using On [of r col] Pc that b(2) by simp
  next
    case False
    then have "j < col" using that by simp
    moreover have "?s ! r ! j = 0" using sn [of r] zero that b \<open>j < col\<close> by auto
    ultimately show ?thesis using On [of r j] Pz that b(2) by simp
  qed
  \<comment> \<open>solutions\<close>
  have iv_unit: "\<not> p dvd iv"
  proof
    assume "p dvd iv"
    then have "aug ! sel ! col * iv mod p = 0" by simp
    then show False using iv(2) by simp
  qed
  have sol': "solves p cols aug' x \<longleftrightarrow> solves p cols aug x" for x
  proof -
    have Pl: "p dvd lin cols (aug' ! pr) x - iv * lin cols (aug ! sel) x"
      using lin_cong [where a = iv and b = 0, of cols p "aug' ! pr" "aug ! sel"] Pn by (simp add: mult.commute)
    have pp: "p dvd lin cols (aug' ! pr) x \<longleftrightarrow> p dvd lin cols (aug ! sel) x"
    proof -
      have "p dvd iv * lin cols (aug ! sel) x \<longleftrightarrow> p dvd lin cols (aug ! sel) x"
        using prime_dvd_mult [OF prime, of iv "lin cols (aug ! sel) x"] iv_unit by auto
      then show ?thesis using Pl by (metis dvd_diff_commute zdvd_zdiffD)
    qed
    have ol: "p dvd lin cols (aug' ! r) x - (lin cols (?s ! r) x - ?s ! r ! col * lin cols (aug' ! pr) x)"
      if "r < length aug" "r \<noteq> pr" for r
      using lin_cong [where a = 1 and b = "- (?s ! r ! col)", of cols p "aug' ! r" "?s ! r" "aug' ! pr"]
        On [OF that] by simp
    have oo: "p dvd lin cols (aug' ! r) x \<longleftrightarrow> p dvd lin cols (?s ! r) x"
      if "r < length aug" "r \<noteq> pr" "p dvd lin cols (aug' ! pr) x" for r
    proof -
      have "p dvd ?s ! r ! col * lin cols (aug' ! pr) x" using that(3) by simp
      then show ?thesis using ol [OF that(1,2)] by (smt (verit) dvd_add dvd_diff)
    qed
    have "solves p cols aug' x \<longleftrightarrow> solves p cols ?s x"
    proof (cases "p dvd lin cols (aug' ! pr) x")
      case True
      then have "p dvd lin cols (aug' ! r) x \<longleftrightarrow> p dvd lin cols (?s ! r) x" if "r < length aug" for r
        using oo [OF that] pp sn [OF b(1)] by (cases "r = pr") auto
      then show ?thesis by (simp add: solves_nth len')
    next
      case False
      then have "\<not> p dvd lin cols (?s ! pr) x" using pp sn [OF b(1)] by auto
      then show ?thesis using False b(1) len' by (auto simp: solves_nth)
    qed
    also have "\<dots> \<longleftrightarrow> solves p cols aug x"
      using swap_set [OF b(1,4)] by (simp add: solves_def)
    finally show ?thesis .
  qed
  have "distinct (pivots @ [col])" using piv by (auto simp: in_set_conv_nth)
  then have "gauss_inv p cols aug0 aug' (Suc pr) (pivots @ [col]) (Suc col)"
    using len len' ok' piv b red' zero' sol sol'
    by (simp add: gauss_inv_def nth_append less_Suc_eq)
  then show ?thesis using e by blast
qed

section \<open>The elimination\<close>

lemma gauss_loop_inv:
  assumes "gauss_inv p cols aug0 aug pr pivots col"
  shows "\<exists>aug' pivots' pr' col'. gauss_loop aug pr pivots col cols p = Inr (aug', pivots')
    \<and> gauss_inv p cols aug0 aug' pr' pivots' col' \<and> (col' = cols \<or> pr' = length aug')"
  using assms
proof (induction "cols - col" arbitrary: aug pr pivots col rule: less_induct)
  case less
  show ?case
  proof (cases "col < cols \<and> pr < length aug")
    case False
    then have "gauss_loop aug pr pivots col cols p = Inr (aug, pivots)"
      by (auto simp: gauss_loop.simps [of aug pr])
    moreover have "col = cols \<or> pr = length aug" using less.prems False by (auto simp: gauss_inv_def)
    ultimately show ?thesis using less.prems by blast
  next
    case True
    show ?thesis
    proof (cases "find_pivot aug pr col")
      case None
      then have "aug ! r ! col = 0" if "pr \<le> r" "r < length aug" for r
        using that by (auto simp: find_pivot_def find_None_iff)
      then have "gauss_inv p cols aug0 aug pr pivots (col + 1)"
        using less.prems True by (auto simp: gauss_inv_def less_Suc_eq)
      moreover have "cols - (col + 1) < cols - col" using True by auto
      ultimately show ?thesis
        using less.hyps [of "col + 1" aug pr pivots] None True
        by (simp add: gauss_loop.simps [of aug pr pivots col])
    next
      case (Some sel)
      then have sel: "pr \<le> sel" "sel < length aug" "aug ! sel ! col \<noteq> 0"
        by (auto simp: find_pivot_def find_Some_iff dest!: nth_mem)
      obtain aug' where e: "eliminate aug pr sel col p = Inr aug'"
        "gauss_inv p cols aug0 aug' (Suc pr) (pivots @ [col]) (Suc col)"
        using eliminate_inv [OF less.prems _ _ sel] True by blast
      moreover have "cols - Suc col < cols - col" using True by auto
      ultimately show ?thesis
        using less.hyps [of "Suc col" aug' "Suc pr" "pivots @ [col]"] Some True
        by (simp add: gauss_loop.simps [of aug pr pivots col])
    qed
  qed
qed

lemma read_off_props:
  assumes "distinct pivots" "\<forall>c\<in>set pivots. c < cols"
  shows "length (read_off cols aug pivots) = cols"
    "\<And>j. j < cols \<Longrightarrow> j \<notin> set pivots \<Longrightarrow> read_off cols aug pivots ! j = 0"
    "\<And>r. r < length pivots \<Longrightarrow> read_off cols aug pivots ! (pivots ! r) = aug ! r ! cols"
proof -
  have "length (read_off cols aug pivots) = cols
      \<and> (\<forall>j<cols. j \<notin> set pivots \<longrightarrow> read_off cols aug pivots ! j = 0)
      \<and> (\<forall>r<length pivots. read_off cols aug pivots ! (pivots ! r) = aug ! r ! cols)"
    using assms
  proof (induction pivots rule: rev_induct)
    case (snoc c cs)
    have "read_off cols aug (cs @ [c]) = (read_off cols aug cs)[c := aug ! length cs ! cols]"
      by (simp add: read_off_def enumerate_append_eq)
    then show ?case using snoc by (auto simp: nth_append less_Suc_eq nth_list_update)
  qed (simp add: read_off_def)
  then show "length (read_off cols aug pivots) = cols"
    "\<And>j. j < cols \<Longrightarrow> j \<notin> set pivots \<Longrightarrow> read_off cols aug pivots ! j = 0"
    "\<And>r. r < length pivots \<Longrightarrow> read_off cols aug pivots ! (pivots ! r) = aug ! r ! cols"
    by blast+
qed

lemma reduced_solves:
  assumes inv: "gauss_inv p cols aug0 aug pr pivots col" and e: "col = cols \<or> pr = length aug"
    and c: "\<not> (\<exists>row\<in>set aug. (\<forall>c<cols. row ! c = 0) \<and> row ! cols \<noteq> 0)"
  shows "solves p cols aug (read_off cols aug pivots)"
  unfolding solves_nth
proof (intro allI impI)
  fix r assume r: "r < length aug"
  let ?x = "read_off cols aug pivots"
  have piv: "length pivots = pr" "distinct pivots" "\<forall>c\<in>set pivots. c < cols"
    using inv by (fastforce simp: gauss_inv_def in_set_conv_nth)+
  note ro = read_off_props [OF piv(2,3)]
  show "p dvd lin cols (aug ! r) ?x"
  proof (cases "r < pr")
    case True
    have "aug ! r ! j * ?x ! j = (if j = pivots ! r then aug ! r ! cols else 0)" if j: "j < cols" for j
    proof (cases "j \<in> set pivots")
      case True
      then obtain r' where r': "r' < pr" "j = pivots ! r'" using piv(1) by (auto simp: in_set_conv_nth)
      have "aug ! r ! j = (if r = r' then 1 else 0)" using inv r r' by (auto simp: gauss_inv_def)
      moreover have "j = pivots ! r \<longleftrightarrow> r' = r"
        using piv r' \<open>r < pr\<close> by (auto simp: nth_eq_iff_index_eq)
      moreover have "?x ! j = aug ! r' ! cols" unfolding r'(2) by (rule ro(3)) (use r' piv in simp)
      ultimately show ?thesis by auto
    next
      case False
      then have "j \<noteq> pivots ! r" using \<open>r < pr\<close> piv(1) by auto
      then show ?thesis using ro(2) [OF j False] by simp
    qed
    moreover have "pivots ! r < cols" using True piv by simp
    ultimately have "(\<Sum>j<cols. aug ! r ! j * ?x ! j) = aug ! r ! cols" by simp
    then show ?thesis by (simp add: lin_def)
  next
    case False
    then have "\<forall>j<cols. aug ! r ! j = 0" using inv e r by (auto simp: gauss_inv_def)
    moreover from this have "aug ! r ! cols = 0" using c r by (meson nth_mem)
    ultimately show ?thesis by (simp add: lin_def)
  qed
qed

lemma gauss_inv_start: "matrix_ok p cols aug \<Longrightarrow> gauss_inv p cols aug aug 0 [] 0"
  by (simp add: gauss_inv_def)

lemma solves_mod:
  assumes "\<forall>row\<in>set a. length row = cols"
  shows "solves p cols (map (\<lambda>(row, v). map (\<lambda>x. modp x p) row @ [modp v p]) (zip a b)) x
    \<longleftrightarrow> solves p cols (equations a b) x"
proof -
  have l: "p dvd lin cols (map (\<lambda>x. modp x p) row @ [modp v p]) x \<longleftrightarrow> p dvd lin cols (row @ [v]) x"
    if "length row = cols" for row v
  proof -
    have "p dvd lin cols (map (\<lambda>x. modp x p) row @ [modp v p]) x
        - (1 * lin cols (row @ [v]) x + 0 * lin cols (row @ [v]) x)"
      by (rule lin_cong) (use that in \<open>auto simp: nth_append ops\<close>)
    then have "p dvd lin cols (map (\<lambda>x. modp x p) row @ [modp v p]) x - lin cols (row @ [v]) x"
      by simp
    then show ?thesis by (metis dvd_diff_commute zdvd_zdiffD)
  qed
  show ?thesis
    unfolding solves_def equations_def set_map ball_simps
    by (intro ball_cong refl) (use l assms in \<open>auto dest: set_zip_leftD\<close>)
qed

theorem solveLinear_correct:
  assumes "a \<noteq> []" "length b = length a" "\<forall>row\<in>set a. length row = cols"
  shows "case solveLinear a b p of
      Inl e \<Rightarrow> \<not> (\<exists>x. length x = cols \<and> solves p cols (equations a b) x)
    | Inr x \<Rightarrow> length x = cols \<and> residues p x \<and> solves p cols (equations a b) x"
proof -
  define aug0 where "aug0 = map (\<lambda>(row, v). map (\<lambda>x. modp x p) row @ [modp v p]) (zip a b)"
  have ok0: "matrix_ok p cols aug0"
    using assms(3) by (auto simp: matrix_ok_def row_ok_def aug0_def residues_def res dest!: set_zip_leftD)
  have hd: "length (a ! 0) = cols" using assms(1,3) by auto
  obtain aug pivots pr col where g: "gauss_loop aug0 0 [] 0 cols p = Inr (aug, pivots)"
    and inv: "gauss_inv p cols aug0 aug pr pivots col" and e: "col = cols \<or> pr = length aug"
    using gauss_loop_inv [OF gauss_inv_start [OF ok0]] by blast
  let ?bad = "\<exists>row\<in>set aug. (\<forall>c<cols. row ! c = 0) \<and> row ! cols \<noteq> 0"
  have s: "solveLinear a b p = (if ?bad then Inl ErrInsufficientMatches else Inr (read_off cols aug pivots))"
    using assms hd g by (auto simp: solveLinear_def aug0_def [symmetric] read_off_def check_def Let_def)
  have sol: "solves p cols aug x \<longleftrightarrow> solves p cols (equations a b) x" for x
    using inv solves_mod [OF assms(3)] by (simp add: gauss_inv_def aug0_def)
  show ?thesis
  proof (cases ?bad)
    case True
    then obtain row where row: "row \<in> set aug" "\<forall>c<cols. row ! c = 0" "row ! cols \<noteq> 0" by blast
    have "residue p (row ! cols)"
      using inv row(1) by (auto simp: gauss_inv_def matrix_ok_def row_ok_def intro: residues_nth)
    then have "\<not> p dvd lin cols row x" for x using row by (simp add: lin_def residue_dvd_iff)
    then have "\<not> solves p cols (equations a b) x" for x using row(1) sol by (auto simp: solves_def)
    then show ?thesis using True s by simp
  next
    case False
    have piv: "distinct pivots" "\<forall>c\<in>set pivots. c < cols" "length pivots \<le> length aug"
      using inv by (fastforce simp: gauss_inv_def in_set_conv_nth)+
    note ro = read_off_props [OF piv(1,2), where aug = aug]
    have "residue p (read_off cols aug pivots ! j)" if j: "j < cols" for j
    proof (cases "j \<in> set pivots")
      case True
      then obtain r where r: "r < length pivots" "j = pivots ! r" by (auto simp: in_set_conv_nth)
      then have "row_ok p cols (aug ! r)"
        using inv piv(3) by (auto simp: gauss_inv_def intro: matrix_ok_nth)
      then show ?thesis unfolding r(2) ro(3) [OF r(1)] by (auto simp: row_ok_def intro: residues_nth)
    qed (use ro(2) j small in simp)
    then have "residues p (read_off cols aug pivots)"
      using ro(1) by (auto simp: residues_def in_set_conv_nth)
    moreover have "solveLinear a b p = Inr (read_off cols aug pivots)"
      unfolding s using False by (simp only: if_False)
    ultimately show ?thesis
      using ro(1) sol reduced_solves [OF inv e False] by simp
  qed
qed

section \<open>The Berlekamp-Welch decoder\<close>

lemma sum_lessThan_add: "(\<Sum>j<m + n. f j) = (\<Sum>j<m. f j) + (\<Sum>j<n. f (m + j :: nat) :: int)"
  by (induction n) (simp_all add: algebra_simps)
text \<open>What a row of the key equation says.\<close>

lemma bw_row_nth:
  assumes "residue p x" "residue p y" "j < qc + e"
  shows "p dvd bw_row x y qc e p ! j - (if j < qc then x ^ j else - (y * x ^ (j - qc)))"
proof (cases "j < qc")
  case True
  then show ?thesis using assms by (simp add: bw_row_def nth_append powers_nth)
next
  case False
  let ?k = "j - qc"
  have k: "?k < e" "powers x (e + 1) p ! ?k = x ^ ?k mod p" using False assms by (simp_all add: powers_nth)
  let ?m = "modMul y (powers x (e + 1) p ! ?k) p"
  have m: "?m = y * x ^ ?k mod p" using assms k small by (simp add: ops mod_mult_right_eq)
  have "residue p ?m" by (rule res)
  then have "i64 (- ?m) = - ?m" using small by (simp add: i64_id residue_def small_def)
  then have "bw_row x y qc e p ! j = (- ?m) mod p"
    using False k(1) by (simp add: bw_row_def nth_append ops)
  also have "\<dots> = (- (y * x ^ ?k)) mod p" unfolding m by (simp add: mod_minus_eq)
  finally show ?thesis using False dvd_mod_diff(1) [of p "- (y * x ^ ?k)"] by simp
qed

lemma bw_rhs_eq: "residue p x \<Longrightarrow> residue p y \<Longrightarrow> bw_rhs x y e p = y * x ^ e mod p"
  using small by (simp add: bw_rhs_def powers_nth ops mod_mult_right_eq)

text \<open>The key equation: \<open>Q(x) = y E(x)\<close> with \<open>E\<close> monic of degree \<open>e\<close>.\<close>

lemma bw_lin:
  assumes "residue p x" "residue p y" "length q = qc" "length w = e"
  shows "p dvd lin (qc + e) (bw_row x y qc e p @ [bw_rhs x y e p]) (q @ w)
      - (peval q x - y * peval (w @ [1]) x)"
proof -
  let ?R = "bw_row x y qc e p"
  let ?c = "\<lambda>j. if j < qc then x ^ j else - (y * x ^ (j - qc))"
  have len: "length ?R = qc + e" by (simp add: bw_row_def)
  have "p dvd (\<Sum>j<qc + e. (?R ! j - ?c j) * (q @ w) ! j)"
    by (intro dvd_sum) (use bw_row_nth [OF assms(1,2)] in \<open>simp del: right_diff_distrib\<close>)
  then have A: "p dvd (\<Sum>j<qc + e. ?R ! j * (q @ w) ! j) - (\<Sum>j<qc + e. ?c j * (q @ w) ! j)"
    by (simp add: left_diff_distrib sum_subtractf)
  have "(\<Sum>j<qc + e. ?c j * (q @ w) ! j)
      = (\<Sum>j<qc. ?c j * (q @ w) ! j) + (\<Sum>j<e. ?c (qc + j) * (q @ w) ! (qc + j))"
    by (rule sum_lessThan_add)
  also have "\<dots> = peval q x - y * peval w x"
    using assms(3,4) by (simp add: peval_sum nth_append sum_distrib_left sum_negf mult.commute mult.left_commute)
  finally have B: "(\<Sum>j<qc + e. ?c j * (q @ w) ! j) = peval q x - y * peval w x" .
  have C: "p dvd bw_rhs x y e p - y * x ^ e" using assms by (simp add: bw_rhs_eq)
  have "lin (qc + e) (?R @ [bw_rhs x y e p]) (q @ w)
      = (\<Sum>j<qc + e. ?R ! j * (q @ w) ! j) - bw_rhs x y e p"
    by (simp add: lin_def len nth_append)
  moreover have "p dvd ((\<Sum>j<qc + e. ?R ! j * (q @ w) ! j) - bw_rhs x y e p)
      - ((peval q x - y * peval w x) - y * x ^ e)"
    using A C unfolding B by (intro dvd_diff_diff)
  moreover have "(peval q x - y * peval w x) - y * x ^ e = peval q x - y * peval (w @ [1]) x"
    using assms(4) by (simp add: peval_snoc algebra_simps)
  ultimately show ?thesis by (simp only:)
qed

lemma monic_of_roots:
  "\<exists>w. length w = length roots \<and> (\<forall>x::int. peval (w @ [1]) x = (\<Prod>r\<leftarrow>roots. x - r))"
proof (induction roots)
  case (Cons r roots)
  then obtain w where w: "length w = length roots" "\<And>x. peval (w @ [1]) x = (\<Prod>r\<leftarrow>roots. x - r)"
    by blast
  obtain cs where "length cs = length w + 1"
    "\<forall>x. peval (w @ [1]) x * peval ([- r] @ [1]) x = peval (cs @ [1]) x"
    using peval_times_monic [of w "[- r]" 1] by auto
  then show ?case using w by (intro exI [of _ cs]) (auto simp: algebra_simps)
qed (intro exI [of _ "[]"], simp)

lemma monic_unique:
  assumes "length r \<le> length w" "length g + length w \<le> nat p"
    and "\<And>x. p dvd peval g x * peval (w @ [1]) x + peval r x"
  shows "(\<forall>c\<in>set g. p dvd c) \<and> (\<forall>c\<in>set r. p dvd c)"
  using assms(2,3)
proof (induction g rule: rev_induct)
  case Nil
  then have "\<forall>c\<in>set r. p dvd c" using assms(1) by (intro all_vanish) auto
  then show ?case by simp
next
  case (snoc c g)
  obtain cs where cs: "length cs = length g + length w"
    "\<forall>x. peval (g @ [c]) x * peval (w @ [1]) x = peval (cs @ [c]) x"
    using peval_times_monic by blast
  let ?r = "r @ replicate (length cs - length r) 0"
  have lr: "length cs = length ?r" using assms(1) cs(1) by simp
  have "p dvd peval (map2 (+) cs ?r @ [c]) x" for x
    using snoc.prems(2) [of x] cs lr
    by (simp add: peval_snoc peval_map2_add peval_append) (simp add: algebra_simps)
  then have "\<forall>d\<in>set (map2 (+) cs ?r @ [c]). p dvd d"
    using snoc.prems(1) cs(1) lr by (intro all_vanish) auto
  then have c: "p dvd c" by simp
  have "p dvd peval g x * peval (w @ [1]) x + peval r x" for x
  proof -
    have "peval (g @ [c]) x * peval (w @ [1]) x + peval r x
        = (peval g x * peval (w @ [1]) x + peval r x) + c * (x ^ length g * peval (w @ [1]) x)"
      by (simp add: peval_snoc [of g] algebra_simps)
    then show ?thesis using snoc.prems(2) [of x] c by (metis dvd_add_left_iff dvd_mult2)
  qed
  then show ?case using snoc c by simp
qed

text \<open>The solution of the key equation is \<open>f E\<close> for an error locator \<open>E\<close>.\<close>

lemma key_equation_solvable:
  assumes f: "length f \<le> k" "0 < k" and e: "card (wrong p xs ys f) \<le> e"
  shows "\<exists>q w. length q = k + e \<and> length w = e
    \<and> (\<forall>i<length xs. p dvd peval q (xs ! i) - ys ! i * peval (w @ [1]) (xs ! i))"
proof -
  define bad where "bad = sorted_list_of_set (wrong p xs ys f)"
  have bad: "set bad = wrong p xs ys f" "length bad = card (wrong p xs ys f)" by (simp_all add: bad_def)
  obtain w where w: "length w = e" "\<And>x. peval (w @ [1]) x
      = (\<Prod>r\<leftarrow>map ((!) xs) bad @ replicate (e - length bad) 0. x - r)"
    using monic_of_roots [of "map ((!) xs) bad @ replicate (e - length bad) 0"] e bad by auto
  have "is_poly k (peval f)" using f by (auto intro: is_poly_mono)
  moreover have "is_poly (Suc e) (peval (w @ [1]))" using is_poly_peval [of "w @ [1]"] w(1) by simp
  ultimately have "is_poly (k + Suc e - 1) (\<lambda>x. peval f x * peval (w @ [1]) x)"
    using f(2) by (intro is_poly_mult) auto
  then obtain q where q: "length q = k + e" "\<And>x. peval f x * peval (w @ [1]) x = peval q x"
    by (auto simp: is_poly_def)
  have "p dvd peval q (xs ! i) - ys ! i * peval (w @ [1]) (xs ! i)" if i: "i < length xs" for i
  proof (cases "i \<in> set bad")
    case True
    then have "peval (w @ [1]) (xs ! i) = 0"
      unfolding w(2) by (auto simp: prod_list_zero_iff image_iff)
    then show ?thesis using q(2) [of "xs ! i"] by simp
  next
    case False
    then have "p dvd ys ! i - peval f (xs ! i)" using i bad(1) by (simp add: wrong_def)
    then have "p dvd (ys ! i - peval f (xs ! i)) * - peval (w @ [1]) (xs ! i)" by (rule dvd_mult2)
    then show ?thesis using q(2) [of "xs ! i"] by (simp add: algebra_simps)
  qed
  then show ?thesis using q(1) w(1) by blast
qed

lemma key_equation_quotient:
  assumes xs: "distinct xs" "\<forall>x\<in>set xs. residue p x" "length xs = k + 2 * e"
    and f: "length f \<le> k" "0 < k" "card (wrong p xs ys f) \<le> e"
    and qw: "length q = k + e" "length w = e"
      "\<And>i. i < length xs \<Longrightarrow> p dvd peval q (xs ! i) - ys ! i * peval (w @ [1]) (xs ! i)"
  shows "p dvd peval q x - peval f x * peval (w @ [1]) x"
proof (rule agree_everywhere [where f = "peval q" and g = "\<lambda>x. peval f x * peval (w @ [1]) x"
      and n = "k + e" and S = "(!) xs ` ({..<length xs} - wrong p xs ys f)"])
  let ?good = "{..<length xs} - wrong p xs ys f"
  have "is_poly k (peval f)" using f by (auto intro: is_poly_mono)
  moreover have "is_poly (Suc e) (peval (w @ [1]))" using is_poly_peval [of "w @ [1]"] qw(2) by simp
  ultimately show "is_poly (k + e) (\<lambda>x. peval f x * peval (w @ [1]) x)"
    using is_poly_mult [of k "peval f" "Suc e"] f(2) by simp
  show "is_poly (k + e) (peval q)" using qw(1) is_poly_peval [of q] by simp
  have "inj_on ((!) xs) ?good" using xs(1) by (auto simp: inj_on_def nth_eq_iff_index_eq)
  then have "card ((!) xs ` ?good) = card ?good" by (rule card_image)
  moreover have "card ?good = length xs - card (wrong p xs ys f)"
    by (subst card_Diff_subset) (auto simp: wrong_def)
  ultimately show "k + e \<le> card ((!) xs ` ?good)" using f(3) xs(3) by simp
  show "p dvd peval q x - peval f x * peval (w @ [1]) x" if "x \<in> (!) xs ` ?good" for x
  proof -
    from that obtain i where i: "i < length xs" "x = xs ! i" "i \<notin> wrong p xs ys f" by auto
    then have "p dvd ys ! i - peval f x" by (auto simp: wrong_def)
    then have "p dvd ys ! i * peval (w @ [1]) x - peval f x * peval (w @ [1]) x"
      by (intro dvd_diff_mult) auto
    then show ?thesis using qw(3) [OF i(1)] dvd_diff_trans unfolding i(2) by blast
  qed
  show "\<not> p dvd x - y" if "x \<in> (!) xs ` ?good" "y \<in> (!) xs ` ?good" "x \<noteq> y" for x y
    using that xs(2) residue_cong [of x y] by auto
qed simp

text \<open>Dividing \<open>f E\<close> by \<open>E\<close>.\<close>

lemma new_padded: "newPolynomial p (cs @ replicate n 0) = newPolynomial p cs"
  by (simp add: newPolynomial_def modp_fun trim_append_zeros)

lemma divRem_exact:
  assumes q: "\<And>x. p dvd peval q x - peval f x * peval (w @ [1]) x" "length q = k + length w"
    and f: "length f \<le> k" and w: "residues p w" and k: "k + length w \<le> nat p"
  shows "divRemPolynomial (newPolynomial p q) (newPolynomial p (w @ [1]))
    = Some (Inr (newPolynomial p f, \<lparr>prime = p, coeffs = []\<rparr>))"
proof -
  define a where "a = coeffs (newPolynomial p q)"
  have na: "newPolynomial p q = \<lparr>prime = p, coeffs = a\<rparr>" by (simp add: a_def newPolynomial_def)
  have a: "residues p a" "a = [] \<or> last a \<noteq> 0" "length a \<le> k + length w"
    and ea: "\<And>x. p dvd peval a x - peval q x"
    using new_residues new_trimmed new_cong [of q] trim_length [of "map (\<lambda>x. modp x p) q"] q(2)
    by (simp_all add: a_def cong_poly_def newPolynomial_def)
  have wr: "residues p (w @ [1])" using w small by (auto simp: residues_def)
  have nw: "newPolynomial p (w @ [1]) = \<lparr>prime = p, coeffs = w @ [1]\<rparr>" using wr by (intro new_id) auto
  obtain quo r where d: "divRemPolynomial \<lparr>prime = p, coeffs = a\<rparr> \<lparr>prime = p, coeffs = w @ [1]\<rparr>
      = Some (Inr (newPolynomial p quo, \<lparr>prime = p, coeffs = r\<rparr>))"
    and r: "residues p r" "length r < length (w @ [1])" "r = [] \<or> last r \<noteq> 0"
    and ql: "length quo \<le> length a - (length (w @ [1]) - 1)"
    and ev: "\<And>x. p dvd peval quo x * peval (w @ [1]) x + peval r x - peval a x"
    using divRem_correct [OF a(1,2) wr] by auto
  have qk: "length quo \<le> k" using ql a(3) by simp
  define Q F where "Q = quo @ replicate (k - length quo) 0" and "F = f @ replicate (k - length f) 0"
  have QF: "length Q = k" "length F = k" using qk f by (simp_all add: Q_def F_def)
  let ?g = "map2 (\<lambda>x y. x - y) Q F"
  have "peval ?g x = peval Q x - peval F x" for x
    using QF(1)[folded QF(2)] by (induction Q F rule: list_induct2) (simp_all add: right_diff_distrib)
  then have g: "peval ?g x = peval quo x - peval f x" for x by (simp add: Q_def F_def peval_append)
  have "p dvd peval ?g x * peval (w @ [1]) x + peval r x" for x
  proof -
    have "p dvd (peval quo x * peval (w @ [1]) x + peval r x - peval a x)
        + ((peval a x - peval q x) + (peval q x - peval f x * peval (w @ [1]) x))"
      using ev ea q(1) by (intro dvd_add)
    then show ?thesis unfolding g by (simp add: algebra_simps)
  qed
  then have van: "(\<forall>c\<in>set ?g. p dvd c) \<and> (\<forall>c\<in>set r. p dvd c)"
    using r(2) QF k by (intro monic_unique) auto
  have "r = []"
  proof (rule ccontr)
    assume "r \<noteq> []"
    then have "last r \<in> set r" by simp
    then show False using van r(1,3) \<open>r \<noteq> []\<close> by (auto simp: residues_def residue_dvd_iff)
  qed
  moreover have "map (\<lambda>x. x mod p) Q = map (\<lambda>x. x mod p) F"
  proof (rule nth_equalityI)
    fix i assume "i < length (map (\<lambda>x. x mod p) Q)"
    then have i: "i < k" using QF by simp
    then have "?g ! i \<in> set ?g" using QF by (intro nth_mem) simp
    then have "p dvd Q ! i - F ! i" using van i QF by auto
    then show "map (\<lambda>x. x mod p) Q ! i = map (\<lambda>x. x mod p) F ! i"
      using i QF by (simp add: mod_eq_dvd_iff)
  qed (simp add: QF)
  then have "newPolynomial p Q = newPolynomial p F" by (simp add: newPolynomial_def modp_fun)
  then have "newPolynomial p quo = newPolynomial p f" by (simp add: Q_def F_def new_padded)
  ultimately show ?thesis using d by (simp add: na nw)
qed

lemma bw_solves:
  assumes "\<forall>x\<in>set xs. residue p x" "\<forall>y\<in>set ys. residue p y" "length ys = length xs"
    and "length q = qc" "length w = e"
  shows "solves p (qc + e) (equations (map (\<lambda>(x, y). bw_row x y qc e p) (zip xs ys))
        (map (\<lambda>(x, y). bw_rhs x y e p) (zip xs ys))) (q @ w)
    \<longleftrightarrow> (\<forall>i<length xs. p dvd peval q (xs ! i) - ys ! i * peval (w @ [1]) (xs ! i))"
proof -
  have "p dvd lin (qc + e) (bw_row x y qc e p @ [bw_rhs x y e p]) (q @ w)
      \<longleftrightarrow> p dvd peval q x - y * peval (w @ [1]) x" if "residue p x" "residue p y" for x y
    using bw_lin [OF that assms(4,5)] by (metis dvd_diff_commute zdvd_zdiffD)
  then show ?thesis using assms by (simp add: solves_nth equations_def)
qed

theorem berlekampWelch_correct:
  assumes xs: "distinct xs" "\<forall>x\<in>set xs. residue p x" and ys: "\<forall>y\<in>set ys. residue p y" "length ys = length xs"
    and n: "length xs = k + 2 * e" "0 < k" "0 < e"
    and f: "length f \<le> k" "card (wrong p xs ys f) \<le> e"
  shows "berlekampWelch xs ys (int k) (int e) p = Some (Inr (newPolynomial p f))"
proof -
  define m where "m = map (\<lambda>(x, y). bw_row x y (k + e) e p) (zip xs ys)"
  define rhs where "rhs = map (\<lambda>(x, y). bw_rhs x y e p) (zip xs ys)"
  have shape: "m \<noteq> []" "length rhs = length m" "\<forall>row\<in>set m. length row = k + e + e"
    using n ys by (auto simp: m_def rhs_def bw_row_def)
  have rows: "length m = k + e + e" using n ys by (simp add: m_def)
  note sol = bw_solves [OF xs(2) ys, of _ "k + e" _ e, folded m_def rhs_def]
  obtain q0 w0 where q0: "length q0 = k + e" "length w0 = e"
    "\<forall>i<length xs. p dvd peval q0 (xs ! i) - ys ! i * peval (w0 @ [1]) (xs ! i)"
    using key_equation_solvable [OF f(1) n(2) f(2)] by blast
  then have ex: "\<exists>x. length x = k + e + e \<and> solves p (k + e + e) (equations m rhs) x"
    using sol [of q0 w0] by (intro exI [of _ "q0 @ w0"]) simp
  obtain x where x: "solveLinear m rhs p = Inr x" "length x = k + e + e" "residues p x"
    "solves p (k + e + e) (equations m rhs) x"
    using solveLinear_correct [OF shape] ex by (cases "solveLinear m rhs p") auto
  define q w where "q = take (k + e) x" and "w = drop (k + e) x"
  have qw: "length q = k + e" "length w = e" "x = q @ w" using x(2) by (simp_all add: q_def w_def)
  have key: "p dvd peval q (xs ! i) - ys ! i * peval (w @ [1]) (xs ! i)" if "i < length xs" for i
    using x(4) sol [OF qw(1,2)] that unfolding qw(3) by blast
  have quo: "p dvd peval q x - peval f x * peval (w @ [1]) x" for x
    by (rule key_equation_quotient [OF xs n(1) f(1) n(2) f(2) qw(1,2) key])
  have "set xs \<subseteq> {0..<p}" using xs(2) by (auto simp: residue_def)
  then have "length xs \<le> nat p"
    using card_mono [of "{0..<p}" "set xs"] distinct_card [OF xs(1)] by simp
  then have "divRemPolynomial (newPolynomial p q) (newPolynomial p (w @ [1]))
      = Some (Inr (newPolynomial p f, \<lparr>prime = p, coeffs = []\<rparr>))"
    using x(3) qw n f(1) by (intro divRem_exact [OF quo]) (auto simp: residues_def)
  moreover have "nat (int k + int e) = k + e" by simp
  ultimately show ?thesis
    using n ys x(1) by (simp add: berlekampWelch_def m_def [symmetric] rhs_def [symmetric] Let_def
        degree_def q_def [symmetric] w_def [symmetric])
qed

end

end
