(* ===== verification/FuzzyVault.thy ===== *)
theory FuzzyVault
  imports FuzzyLinear Encoding
begin

text \<open>
  \<open>sdk/account/fuzzy/{types,fuzzy}.go\<close>: the secure sketch.  \<open>Lock\<close> publishes the high
  coefficients of the polynomial whose roots are the features; \<open>RecoverKey\<close> corrects a feature set
  that shares at least \<open>CorrectThreshold\<close> elements with the locked one and derives the key from the
  corrected set.  \<open>scrypt\<close> (golang.org/x/crypto) and HMAC-SHA3 are parameters; the random source
  is the list of bytes it delivers.
\<close>

section \<open>Parameters and vaults\<close>

record Params =
  Version :: "32 word"
  SetSize :: int
  CorrectThreshold :: int
  CorpusSize :: int
  Prime :: int
  Extractor :: "int list"
  Salt :: "byte list"

record Vault = Params +
  Sketch :: "int list"
  SetHash :: "byte list"

text \<open>The duplicate check of \<open>validate\<close>, with the map \<open>seen\<close> as a list.\<close>

fun validateExtractor :: "int \<Rightarrow> int list \<Rightarrow> int list \<Rightarrow> fuzzy_error + unit" where
  "validateExtractor pr seen [] = Inr ()"
| "validateExtractor pr seen (value # values) =
     (if value \<le> 0 \<or> value \<ge> pr then Inl ErrInvalidParameters
      else if value \<in> set seen then Inl ErrDuplicateExtractor
      else validateExtractor pr (value # seen) values)"

text \<open>
  The operands of the long \<open>||\<close> of \<open>Params.validate\<close> before and after the call of \<open>isPrime\<close>, which
  the short circuit reaches only when the ones before are false.
\<close>

definition errorThreshold :: "int \<Rightarrow> int \<Rightarrow> int" where
  "errorThreshold setSize correctThreshold = i64 (2 * i64 (setSize - correctThreshold))"

definition validate_before :: "'a Params_scheme \<Rightarrow> bool" where
  "validate_before p \<longleftrightarrow> Version p \<noteq> 1 \<or> SetSize p < 2 \<or> SetSize p > 64
     \<or> CorrectThreshold p < 2 \<or> CorrectThreshold p > SetSize p
     \<or> CorpusSize p < SetSize p \<or> CorpusSize p > 1000000 \<or> Prime p \<le> CorpusSize p"

definition validate_after :: "'a Params_scheme \<Rightarrow> bool" where
  "validate_after p \<longleftrightarrow> int (length (Extractor p)) \<noteq> SetSize p \<or> length (Salt p) \<noteq> 32
     \<or> errorThreshold (SetSize p) (CorrectThreshold p) \<le> 0
     \<or> errorThreshold (SetSize p) (CorrectThreshold p) \<ge> SetSize p"

definition validate :: "'a Params_scheme \<Rightarrow> (fuzzy_error + unit) option" where
  "validate p =
     (if validate_before p then Some (Inl ErrInvalidParameters)
      else (case isPrime (Prime p) of
              None \<Rightarrow> None
            | Some b \<Rightarrow> Some (if \<not> b \<or> validate_after p then Inl ErrInvalidParameters
                              else validateExtractor (Prime p) [] (Extractor p))))"

definition validateVault :: "Vault \<Rightarrow> (fuzzy_error + unit) option" where
  "validateVault v =
     map_option (\<lambda>r. case r of
        Inl _ \<Rightarrow> Inl ErrInvalidPublicPayload
      | Inr _ \<Rightarrow>
          check (int (length (Sketch v)) \<noteq> i64 (2 * i64 (SetSize v - CorrectThreshold v))
              \<or> length (SetHash v) \<noteq> 64) ErrInvalidPublicPayload
           (check (list_ex (\<lambda>c. c < 0 \<or> c \<ge> Prime v) (Sketch v)) ErrInvalidPublicPayload (Inr ())))
      (validate v)"

section \<open>Generating parameters\<close>

text \<open>
  The rejection sampling of one extractor element: at most 128 draws of four bytes, \<open>k\<close> of them
  left.  \<open>candidates\<close> is the partially shuffled slice.
\<close>

fun draw_loop :: "nat \<Rightarrow> int list \<Rightarrow> nat \<Rightarrow> reader \<Rightarrow> fuzzy_error + (nat \<times> reader)" where
  "draw_loop 0 candidates i r = Inl ErrInvalidParameters"
| "draw_loop (Suc k) candidates i r =
     rbind (readFull ErrRandom 4 r) (\<lambda>(buf, r).
       if length candidates \<le> i then Inl PanicDivideByZero
       else
         let selected = i + unat (uint32LE buf) mod (length candidates - i)
         in if candidates ! selected \<noteq> 0 then Inr (selected, r) else draw_loop k candidates i r)"

fun extractor_loop :: "nat \<Rightarrow> nat \<Rightarrow> int list \<Rightarrow> int list \<Rightarrow> reader \<Rightarrow> fuzzy_error + (int list \<times> reader)" where
  "extractor_loop 0 i extractor candidates r = Inr (extractor, r)"
| "extractor_loop (Suc n) i extractor candidates r =
     rbind (draw_loop 128 candidates i r) (\<lambda>(selected, r).
       extractor_loop n (i + 1) (extractor @ [candidates ! selected])
         (candidates[selected := candidates ! i]) r)"

text \<open>\<open>make([]int64, setSize)\<close> panics on a negative size.\<close>

definition GenerateParams ::
    "int \<Rightarrow> int \<Rightarrow> int \<Rightarrow> reader \<Rightarrow> (fuzzy_error + (Params \<times> reader)) option" where
  "GenerateParams setSize correctThreshold corpusSize random =
     (case firstPrimeGreaterThan corpusSize of
        None \<Rightarrow> None
      | Some (Inl e) \<Rightarrow> Some (Inl e)
      | Some (Inr pr) \<Rightarrow>
          if setSize < 0 then Some (Inl PanicSliceLength)
          else (case rbind (readFull ErrRandom 32 random) (\<lambda>(salt, r).
                  rbind (extractor_loop (nat setSize) 0 [] (map int [0..<nat pr]) r) (\<lambda>(extractor, r).
                    Inr (salt, extractor, r))) of
                Inl e \<Rightarrow> Some (Inl e)
              | Inr (salt, extractor, r) \<Rightarrow>
                  (let p = \<lparr>Version = 1, SetSize = setSize, CorrectThreshold = correctThreshold,
                            CorpusSize = corpusSize, Prime = pr, Extractor = extractor, Salt = salt\<rparr>
                   in map_option (\<lambda>v. rbind v (\<lambda>_. Inr (p, r))) (validate p))))"

section \<open>Feature sets and hashes\<close>

definition normalizeFeatures :: "int list \<Rightarrow> int \<Rightarrow> int \<Rightarrow> fuzzy_error + int list" where
  "normalizeFeatures ids expected corpus =
     check (int (length ids) \<noteq> expected) ErrInvalidFeatureSet
      (let out = sort ids
       in check (list_ex (\<lambda>i. out ! i < 0 \<or> out ! i \<ge> corpus \<or> (i > 0 \<and> out ! (i - 1) = out ! i))
                  [0..<length out]) ErrInvalidFeatureSet
           (Inr out))"

definition featurePass :: "string \<Rightarrow> int list \<Rightarrow> byte list" where
  "featurePass prefix features = bytes_of prefix @ concat (map (\<lambda>v. putUint32LE (of_int v)) features)"

type_synonym scrypt = "byte list \<Rightarrow> byte list \<Rightarrow> fuzzy_error + byte list"

definition slowSetHash :: "scrypt \<Rightarrow> int list \<Rightarrow> byte list \<Rightarrow> fuzzy_error + byte list" where
  "slowSetHash scrypt features salt =
     mapErr ErrScrypt (scrypt (featurePass ''original_words:'' features) salt)"

text \<open>The factor of one feature: zero is replaced by \<open>Prime - 1\<close>.\<close>

definition extractor_factor :: "int \<Rightarrow> int \<Rightarrow> int" where
  "extractor_factor pr feature = (if feature = 0 then i64 (pr - 1) else feature)"

definition extractor_product :: "Vault \<Rightarrow> int list \<Rightarrow> int" where
  "extractor_product v features =
     fold (\<lambda>i product. modMul product
         (modMul (extractor_factor (Prime v) (features ! i)) (Extractor v ! i) (Prime v)) (Prime v))
       [0..<nat (SetSize v)] 1"

definition extractorKey :: "scrypt \<Rightarrow> Vault \<Rightarrow> int list \<Rightarrow> fuzzy_error + byte list" where
  "extractorKey scrypt v features =
     check (int (length features) < SetSize v \<or> int (length (Extractor v)) < SetSize v) PanicIndexOutOfRange
      (mapErr ErrScrypt
        (scrypt (bytes_of ''key:'' @ putUint32LE (of_int (extractor_product v features))) (Salt v)))"

section \<open>Locking\<close>

definition Lock :: "scrypt \<Rightarrow> Params option \<Rightarrow> int list \<Rightarrow> (fuzzy_error + Vault) option" where
  "Lock scrypt params featureIDs =
     (case params of
        None \<Rightarrow> Some (Inl ErrInvalidParameters)
      | Some params \<Rightarrow>
          (case validate params of
             None \<Rightarrow> None
           | Some (Inl e) \<Rightarrow> Some (Inl e)
           | Some (Inr _) \<Rightarrow>
               (case normalizeFeatures featureIDs (SetSize params) (CorpusSize params) of
                  Inl e \<Rightarrow> Some (Inl e)
                | Inr features \<Rightarrow>
                    let poly = polyFromRoots features (Prime params);
                        start = SetSize params - errorThreshold (SetSize params) (CorrectThreshold params)
                    in if start < 0 \<or> int (length (coeffs poly)) \<noteq> SetSize params + 1
                       then Some (Inl ErrInvalidParameters)
                       else (case slowSetHash scrypt features (Salt params) of
                               Inl e \<Rightarrow> Some (Inl e)
                             | Inr setHash \<Rightarrow>
                                 let v = \<lparr>Version = 1, SetSize = SetSize params,
                                          CorrectThreshold = CorrectThreshold params,
                                          CorpusSize = CorpusSize params, Prime = Prime params,
                                          Extractor = Extractor params, Salt = Salt params,
                                          Sketch = drop (nat start) (take (nat (SetSize params)) (coeffs poly)),
                                          SetHash = setHash\<rparr>
                                 in map_option (\<lambda>r. rbind r (\<lambda>_. Inr v)) (validateVault v)))))"

section \<open>Recovery\<close>

definition sketch_coeffs :: "Vault \<Rightarrow> nat \<Rightarrow> nat \<Rightarrow> int list" where
  "sketch_coeffs v n et = replicate (n - et) 0 @ take et (Sketch v @ replicate et 0) @ [1]"

definition recoverFeatureSet :: "Vault \<Rightarrow> int list \<Rightarrow> (fuzzy_error + int list) option" where
  "recoverFeatureSet v candidates =
     (let n = SetSize v; et = errorThreshold (SetSize v) (CorrectThreshold v)
      in if goRem et 2 \<noteq> 0 \<or> et \<le> 0 \<or> et \<ge> n then Some (Inl ErrInvalidPublicPayload)
         else if int (length candidates) > n then Some (Inl PanicIndexOutOfRange)
         else
           let pHigh = newPolynomial (Prime v) (sketch_coeffs v (nat n) (nat et));
               pad = replicate (nat n - length candidates) 0;
               xs = candidates @ pad;
               ys = map (poly_eval pHigh) candidates @ pad
           in map_option (\<lambda>r. case r of
                  Inl _ \<Rightarrow> Inl ErrInsufficientMatches
                | Inr pLow \<Rightarrow>
                    (case findRoots (poly_sub pHigh pLow) n of
                       Inl _ \<Rightarrow> Inl ErrInsufficientMatches
                     | Inr roots \<Rightarrow>
                         check (list_ex (\<lambda>root. root < 0 \<or> root \<ge> CorpusSize v) roots) ErrInsufficientMatches
                           (Inr (sort roots))))
                (berlekampWelch xs ys (n - et) (et div 2) (Prime v)))"

text \<open>The key that \<open>RecoverKey\<close> derives from a feature set it has accepted.\<close>

definition derive_key ::
    "scrypt \<Rightarrow> (byte list \<Rightarrow> byte list \<Rightarrow> byte list) \<Rightarrow> Vault \<Rightarrow> 32 word \<Rightarrow> int list \<Rightarrow> fuzzy_error + byte list" where
  "derive_key scrypt hmac v keyIndex recovered =
     rbind (extractorKey scrypt v recovered) (\<lambda>ek. Inr (hmac (putUint32LE keyIndex) ek))"

definition RecoverKey ::
    "scrypt \<Rightarrow> (byte list \<Rightarrow> byte list \<Rightarrow> byte list) \<Rightarrow> Vault option \<Rightarrow> int list \<Rightarrow> 32 word
      \<Rightarrow> (fuzzy_error + byte list) option" where
  "RecoverKey scrypt hmac v featureIDs keyIndex =
     (case v of
        None \<Rightarrow> Some (Inl ErrInvalidPublicPayload)
      | Some v \<Rightarrow>
          (case validateVault v of
             None \<Rightarrow> None
           | Some (Inl _) \<Rightarrow> Some (Inl ErrInvalidPublicPayload)
           | Some (Inr _) \<Rightarrow>
               (case normalizeFeatures featureIDs (SetSize v) (CorpusSize v) of
                  Inl _ \<Rightarrow> Some (Inl ErrInvalidFeatureSet)
                | Inr features \<Rightarrow>
                    (case slowSetHash scrypt features (Salt v) of
                       Inl e \<Rightarrow> Some (Inl e)
                     | Inr candidateHash \<Rightarrow>
                         if candidateHash = SetHash v
                         then Some (derive_key scrypt hmac v keyIndex features)
                         else map_option (\<lambda>r. rbind r (\<lambda>recovered.
                                rbind (slowSetHash scrypt recovered (Salt v)) (\<lambda>recoveredHash.
                                  check (recoveredHash \<noteq> SetHash v) ErrInsufficientMatches
                                    (derive_key scrypt hmac v keyIndex recovered))))
                              (recoverFeatureSet v features)))))"

section \<open>What validation accepts\<close>

lemma validateExtractor_iff:
  "validateExtractor pr seen xs = Inr () \<longleftrightarrow>
     (\<forall>x\<in>set xs. 0 < x \<and> x < pr) \<and> distinct xs \<and> set xs \<inter> set seen = {}"
  by (induction xs arbitrary: seen) auto

definition valid_params :: "'a Params_scheme \<Rightarrow> bool" where
  "valid_params p \<longleftrightarrow> Version p = 1 \<and> 2 \<le> SetSize p \<and> SetSize p \<le> 64 \<and> 2 \<le> CorrectThreshold p
     \<and> CorrectThreshold p < SetSize p \<and> 2 * (SetSize p - CorrectThreshold p) < SetSize p
     \<and> SetSize p \<le> CorpusSize p \<and> CorpusSize p \<le> 1000000 \<and> CorpusSize p < Prime p
     \<and> is_prime (Prime p) \<and> int (length (Extractor p)) = SetSize p \<and> length (Salt p) = 32
     \<and> (\<forall>x\<in>set (Extractor p). 0 < x \<and> x < Prime p) \<and> distinct (Extractor p)"

lemma errorThreshold_eq:
  "0 \<le> t \<Longrightarrow> t \<le> n \<Longrightarrow> n \<le> 64 \<Longrightarrow> errorThreshold n t = 2 * (n - t)"
  by (simp add: errorThreshold_def i64_id)

lemma validate_iff:
  assumes "Prime p < 2 ^ 62"
  shows "validate p = Some (Inr ()) \<longleftrightarrow> valid_params p"
proof (cases "validate_before p")
  case True
  then show ?thesis by (auto simp: validate_def valid_params_def validate_before_def)
next
  case False
  then have "errorThreshold (SetSize p) (CorrectThreshold p) = 2 * (SetSize p - CorrectThreshold p)"
    by (intro errorThreshold_eq) (auto simp: validate_before_def)
  then show ?thesis
    using False
    by (auto simp: validate_def isPrime_eq [OF assms] validate_after_def validate_before_def
        valid_params_def validateExtractor_iff)
qed

lemma validate_returns: "Prime p < 2 ^ 62 \<Longrightarrow> \<exists>r. validate p = Some r"
  by (simp add: validate_def isPrime_eq)

lemma normalizeFeatures_iff:
  "normalizeFeatures ids n corpus = Inr out \<longleftrightarrow>
     int (length ids) = n \<and> out = sort ids \<and> distinct ids \<and> (\<forall>x\<in>set ids. 0 \<le> x \<and> x < corpus)"
proof -
  define s where "s = sort ids"
  have sd: "sorted s" "length s = length ids" "set s = set ids" "distinct s \<longleftrightarrow> distinct ids"
    by (simp_all add: s_def)
  have adj: "distinct s \<longleftrightarrow> (\<forall>i<length s. 0 < i \<longrightarrow> s ! (i - 1) \<noteq> s ! i)"
  proof
    assume d: "\<forall>i<length s. 0 < i \<longrightarrow> s ! (i - 1) \<noteq> s ! i"
    have "s ! i < s ! Suc i" if "Suc i < length s" for i
      using d [rule_format, of "Suc i"] sorted_nth_mono [OF sd(1), of i "Suc i"] that by simp
    then have "sorted_wrt (<) s" by (subst sorted_wrt_iff_nth_Suc_transp) auto
    then show "distinct s" by (simp add: strict_sorted_iff)
  next
    assume "distinct s"
    then show "\<forall>i<length s. 0 < i \<longrightarrow> s ! (i - 1) \<noteq> s ! i"
      by (metis One_nat_def Suc_pred less_imp_diff_less n_not_Suc_n nth_eq_iff_index_eq)
  qed
  have ex: "list_ex (\<lambda>i. s ! i < 0 \<or> s ! i \<ge> corpus \<or> (i > 0 \<and> s ! (i - 1) = s ! i)) [0..<length s]
      \<longleftrightarrow> \<not> ((\<forall>i<length s. 0 \<le> s ! i \<and> s ! i < corpus) \<and> distinct s)"
    unfolding adj list_ex_iff by (simp add: not_le not_less Bex_def) blast
  have al: "(\<forall>i<length s. 0 \<le> s ! i \<and> s ! i < corpus) \<longleftrightarrow> (\<forall>x\<in>set ids. 0 \<le> x \<and> x < corpus)"
    unfolding sd(3) [symmetric] all_set_conv_all_nth ..
  show ?thesis
    unfolding normalizeFeatures_def s_def [symmetric] Let_def check_eq_Inr ex al
    using sd by auto
qed

section \<open>Correctness of the secure sketch\<close>

context modulus begin

lemma root_iff: "\<forall>r\<in>set roots. residue p r \<Longrightarrow> residue p x \<Longrightarrow>
    p dvd (\<Prod>r\<leftarrow>roots. x - r) \<longleftrightarrow> x \<in> set roots"
proof (induction roots)
  case Nil
  then show ?case using p_pos small zdvd_imp_le [of p 1] by (auto simp: small_def)
next
  case (Cons r roots)
  have r: "p dvd x - r \<longleftrightarrow> x = r" using Cons.prems residue_cong [of x r] by auto
  have "p dvd (x - r) * (\<Prod>r\<leftarrow>roots. x - r) \<longleftrightarrow> p dvd x - r \<or> p dvd (\<Prod>r\<leftarrow>roots. x - r)"
    using prime_dvd_mult [OF prime] dvd_mult dvd_mult2 by metis
  then show ?case using Cons.IH Cons.prems r by simp
qed

lemma findRoots_product:
  assumes "residues p cs" "int (length cs) = int (length roots) + 1" "distinct roots" "\<forall>r\<in>set roots. residue p r"
    and "cong_poly p cs (\<lambda>x. \<Prod>r\<leftarrow>roots. x - r)"
  shows "findRoots \<lparr>prime = p, coeffs = cs\<rparr> (int (length roots)) = Inr (sort roots)"
proof -
  let ?rs = "filter (\<lambda>x. p dvd peval cs x) (map int [0..<nat p])"
  have "p dvd peval cs x \<longleftrightarrow> x \<in> set roots" if "residue p x" for x
  proof -
    have "p dvd peval cs x \<longleftrightarrow> p dvd (\<Prod>r\<leftarrow>roots. x - r)"
      using assms(5) unfolding cong_poly_def by (metis dvd_diff_commute zdvd_zdiffD)
    then show ?thesis using root_iff [OF assms(4) that] by simp
  qed
  then have "set ?rs = set roots"
    using assms(4) p_pos by (auto simp: residue_def image_iff intro!: bexI [of _ "nat _"])
  moreover have "sorted ?rs" "distinct ?rs"
    by (auto intro!: sorted_wrt_filter simp: sorted_map distinct_map simp del: filter_map)
  ultimately have "?rs = sort roots"
    using assms(3) by (intro sorted_distinct_set_unique) auto
  then show ?thesis
    using assms(2) by (simp add: findRoots_spec [OF assms(1)] Let_def)
qed

text \<open>
  The locked polynomial is \<open>high + low\<close>, the sketch is \<open>high\<close>: at every locked feature \<open>low\<close> equals
  \<open>- high\<close>, and subtracting the decoded \<open>- low\<close> from \<open>high\<close> restores the roots.
\<close>

lemma sub_restores:
  assumes c: "residues p (c @ [1])" "length c < nat p" and k: "k \<le> length c"
    and f: "length f = k" "\<And>x. p dvd peval f x + peval (take k c) x"
  defines "high \<equiv> replicate k 0 @ drop k c @ [1]"
  shows "poly_sub (newPolynomial p high) (newPolynomial p f) = \<lparr>prime = p, coeffs = c @ [1]\<rparr>"
proof -
  have hr: "residues p high" using c(1) small by (auto simp: high_def residues_def dest: in_set_dropD)
  have nh: "newPolynomial p high = \<lparr>prime = p, coeffs = high\<rparr>" using hr by (intro new_id) (auto simp: high_def)
  define g where "g = coeffs (newPolynomial p f)"
  have ng: "newPolynomial p f = \<lparr>prime = p, coeffs = g\<rparr>" by (simp add: g_def newPolynomial_def)
  have g: "residues p g" "length g \<le> k" "\<And>x. p dvd peval g x - peval f x"
    using new_residues new_cong [of f] trim_length [of "map (\<lambda>x. modp x p) f"] f(1)
    by (simp_all add: g_def cong_poly_def newPolynomial_def)
  define d where "d = coeffs (poly_sub (newPolynomial p high) (newPolynomial p f))"
  have nd: "poly_sub (newPolynomial p high) (newPolynomial p f) = \<lparr>prime = p, coeffs = d\<rparr>"
    by (simp add: d_def poly_sub_def Let_def newPolynomial_def)
  have lh: "length high = length c + 1" using k by (simp add: high_def)
  have d: "residues p d" "d = [] \<or> last d \<noteq> 0"
    unfolding d_def poly_sub_def Let_def nh ng fpoly.select_convs by (rule new_residues new_trimmed)+
  have "d = coeffs (newPolynomial p (map (\<lambda>i. modSub (coeff_or_0 high i) (coeff_or_0 g i) p)
      [0..<if length high < length g then length g else length high]))"
    by (simp only: d_def poly_sub_def Let_def nh ng fpoly.select_convs)
  then have "length d \<le> (if length high < length g then length g else length high)"
    using trim_length by (simp add: newPolynomial_def del: upt_Suc) (metis (no_types, lifting) diff_zero length_map length_upt trim_length)
  then have dl: "length d \<le> length c + 1" using g(2) lh k by (auto split: if_splits)
  have ev: "p dvd peval d x - peval (c @ [1]) x" for x
  proof -
    have A: "p dvd peval d x - (peval high x - peval g x)"
      using sub_correct [OF hr g(1)] by (simp add: d_def nh ng cong_poly_def)
    have B: "peval (c @ [1]) x = peval high x + peval (take k c) x"
    proof -
      have "peval (c @ [1]) x = peval (take k c @ (drop k c @ [1])) x"
        by (simp only: append_assoc [symmetric] append_take_drop_id)
      also have "\<dots> = peval (take k c) x + x ^ k * peval (drop k c @ [1]) x"
        using k by (simp only: peval_append length_take min_absorb2)
      finally show ?thesis by (simp add: high_def peval_append [of "replicate k 0"])
    qed
    have "p dvd (peval f x + peval (take k c) x) + (peval g x - peval f x)"
      by (rule dvd_add [OF f(2) g(3)])
    from dvd_diff [OF A this] show ?thesis unfolding B by (simp add: algebra_simps)
  qed
  let ?pad = "d @ replicate (length c + 1 - length d) 0"
  have "?pad = c @ [1]"
  proof (rule residues_unique)
    show "residues p ?pad" using d(1) small by (auto simp: residues_def)
    show "p dvd peval ?pad x - peval (c @ [1]) x" for x using ev [of x] by (simp add: peval_append)
  qed (use dl c in auto)
  then have "trim ?pad = c @ [1]" by (simp add: trim_id)
  then have "d = c @ [1]" using d(2) by (simp add: trim_append_zeros) (metis trim.simps)
  then show ?thesis by (simp add: nd)
qed

end

end
