(* ===== verification/GF256.thy ===== *)
theory GF256
  imports Prelude
begin

text \<open>
  The arithmetic of \<open>sdk/account/internal/shamir/shamir.go\<close>: the branch-free multiplication,
  the addition-chain inverse and the division over bytes, and the proof that they make the
  bytes a field.  The field is then an instance of HOL's class \<open>field\<close> on a copy \<open>gf\<close> of the
  byte type, so that the theory of secret sharing can use the library's algebra.
\<close>

section \<open>The operations of the source\<close>

text \<open>\<open>add\<close>: \<open>a ^ b\<close>.\<close>

definition shamir_add :: "byte \<Rightarrow> byte \<Rightarrow> byte" where
  "shamir_add a b = a XOR b"

text \<open>
  One iteration of the loop of \<open>mult\<close>:
  \<open>r = (-(b >> bit & 1) & a) ^ (-(r >> 7) & 0x1B) ^ (r + r)\<close>.
\<close>

definition mult_step :: "byte \<Rightarrow> byte \<Rightarrow> nat \<Rightarrow> byte \<Rightarrow> byte" where
  "mult_step a b i r =
     ((- (drop_bit i b AND 1)) AND a) XOR ((- drop_bit 7 r) AND 0x1B) XOR (r + r)"

text \<open>\<open>for i := byte(8); i > 0; i--\<close> with \<open>bit := i - 1\<close>.\<close>

definition shamir_mult :: "byte \<Rightarrow> byte \<Rightarrow> byte" where
  "shamir_mult a b = fold (mult_step a b) [7, 6, 5, 4, 3, 2, 1, 0] 0"

definition shamir_inverse :: "byte \<Rightarrow> byte" where
  "shamir_inverse a =
     (let b = shamir_mult a a;
          c = shamir_mult a b;
          b = shamir_mult c c;
          b = shamir_mult b b;
          c = shamir_mult b c;
          b = shamir_mult b b;
          b = shamir_mult b b;
          b = shamir_mult b c;
          b = shamir_mult b b;
          b = shamir_mult a b
      in shamir_mult b b)"

text \<open>
  \<open>div\<close> panics on a zero divisor (\<open>None\<close>); otherwise it selects \<open>0\<close> in constant time when
  the dividend is zero.
\<close>

definition shamir_div :: "byte \<Rightarrow> byte \<Rightarrow> byte option" where
  "shamir_div a b =
     (if b = 0 then None
      else Some (let ret = shamir_mult a (shamir_inverse b) in if a = 0 then 0 else ret))"

section \<open>The loop as doubling and adding\<close>

text \<open>\<open>xtime r\<close> is the reduction step of the loop: multiplication by the element \<open>x\<close>.\<close>

definition xtime :: "byte \<Rightarrow> byte" where
  "xtime r = ((- drop_bit 7 r) AND 0x1B) XOR push_bit 1 r"

lemma mult_step_alt: "mult_step a b i r = (if bit b i then a else 0) XOR xtime r"
proof -
  have dbl: "r + r = push_bit 1 r"
    by (simp add: push_bit_eq_mult)
  have "drop_bit i b AND 1 = of_bool (bit b i)"
    by (simp add: and_one_eq bit_iff_odd_drop_bit mod2_eq_if)
  then show ?thesis
    by (simp add: mult_step_def xtime_def dbl xor.assoc)
qed

lemma xtime_0 [simp]: "xtime 0 = 0"
  by (simp add: xtime_def)

lemma drop7_cases: "drop_bit 7 (r :: byte) = of_bool (bit r 7)"
proof (rule bit_word_eqI)
  fix n assume n: "n < LENGTH(8)"
  show "bit (drop_bit 7 r) n = bit (of_bool (bit r 7) :: byte) n"
  proof (cases n)
    case 0
    then show ?thesis by (simp add: bit_drop_bit_eq)
  next
    case (Suc m)
    then have "\<not> bit r (7 + n)"
      using bit_imp_le_length [of r "7 + n"] by auto
    then show ?thesis using Suc by (simp add: bit_drop_bit_eq bit_1_iff)
  qed
qed

lemma xtime_alt: "xtime r = (if bit r 7 then 0x1B else 0) XOR push_bit 1 r"
  by (simp add: xtime_def drop7_cases)

lemma xtime_xor: "xtime (r XOR s) = xtime r XOR xtime s"
  by (simp add: xtime_alt bit_xor_iff push_bit_xor ac_simps)

text \<open>The loop unrolled (Horner's scheme on the bits of the second factor).\<close>

definition bitsel :: "byte \<Rightarrow> byte \<Rightarrow> nat \<Rightarrow> byte" where
  "bitsel a b i = (if bit b i then a else 0)"

lemma bitsel_xor_left: "bitsel (a XOR a') b i = bitsel a b i XOR bitsel a' b i"
  by (simp add: bitsel_def)

lemma bitsel_xor_right: "bitsel a (b XOR b') i = bitsel a b i XOR bitsel a b' i"
  by (simp add: bitsel_def bit_xor_iff)

lemma bitsel_xtime: "xtime (bitsel a b i) = bitsel (xtime a) b i"
  by (simp add: bitsel_def)

lemma shamir_mult_unroll:
  "shamir_mult a b = bitsel a b 0 XOR xtime (bitsel a b 1 XOR xtime (bitsel a b 2 XOR
     xtime (bitsel a b 3 XOR xtime (bitsel a b 4 XOR xtime (bitsel a b 5 XOR
     xtime (bitsel a b 6 XOR xtime (bitsel a b 7)))))))"
  by (simp add: shamir_mult_def mult_step_alt bitsel_def)

lemma smult_xor_left: "shamir_mult (a XOR a') b = shamir_mult a b XOR shamir_mult a' b"
  by (simp add: shamir_mult_unroll bitsel_xor_left xtime_xor ac_simps)

lemma smult_xor_right: "shamir_mult a (b XOR b') = shamir_mult a b XOR shamir_mult a b'"
  by (simp add: shamir_mult_unroll bitsel_xor_right xtime_xor ac_simps)

lemma smult_xtime_left: "shamir_mult (xtime a) b = xtime (shamir_mult a b)"
  by (simp add: shamir_mult_unroll xtime_xor bitsel_xtime)

lemma smult_0_left [simp]: "shamir_mult 0 b = 0"
  by (simp add: shamir_mult_unroll bitsel_def)

lemma smult_0_right [simp]: "shamir_mult a 0 = 0"
  by (simp add: shamir_mult_unroll bitsel_def)

lemma smult_1_right [simp]: "shamir_mult a 1 = a"
  by (simp add: shamir_mult_unroll bitsel_def bit_1_iff)

section \<open>Induction on the bits of a byte\<close>

text \<open>Every byte is a sum of powers of \<open>x\<close>, so a linear statement is checked on eight bytes.\<close>

lemma bit_bitsel: "bit (bitsel a b i) n \<longleftrightarrow> bit b i \<and> bit a n"
  by (simp add: bitsel_def)

lemma byte_decomp:
  "(b :: byte) = bitsel 1 b 0 XOR bitsel 2 b 1 XOR bitsel 4 b 2 XOR bitsel 8 b 3 XOR
     bitsel 16 b 4 XOR bitsel 32 b 5 XOR bitsel 64 b 6 XOR bitsel 128 b 7"
proof -
  have "bit (bitsel 1 b 0 XOR bitsel 2 b 1 XOR bitsel 4 b 2 XOR bitsel 8 b 3 XOR
     bitsel 16 b 4 XOR bitsel 32 b 5 XOR bitsel 64 b 6 XOR bitsel 128 b 7) n = bit b n"
    if "n \<in> {0,1,2,3,4,5,6,7}" for n
    using that by (elim insertE emptyE) (simp_all add: bit_bitsel bit_xor_iff bit_1_iff)
  moreover have "n \<in> {0,1,2,3,4,5,6,7}" if "n < 8" for n :: nat
    using that by auto
  ultimately show ?thesis
    by (intro bit_word_eqI) simp
qed

lemma byte_linear_induct [case_names zero basis xor]:
  assumes z: "P 0" and b: "\<And>e. e \<in> {1, 2, 4, 8, 16, 32, 64, 128} \<Longrightarrow> P e"
    and x: "\<And>a b. P a \<Longrightarrow> P b \<Longrightarrow> P (a XOR b)"
  shows "P (b :: byte)"
proof -
  have sel: "P (bitsel e b i)" if "e \<in> {1, 2, 4, 8, 16, 32, 64, 128}" for e i
    using z b [OF that] by (simp add: bitsel_def)
  show ?thesis
    by (subst byte_decomp) (intro x sel; simp)
qed

lemma xtime_basis:
  "xtime 1 = 2" "xtime 2 = 4" "xtime 4 = 8" "xtime 8 = 16" "xtime 16 = 32" "xtime 32 = 64"
  "xtime 64 = 128"
  by (simp_all add: xtime_alt)

lemma byte_xtime_induct [case_names zero one xtime xor]:
  assumes z: "P 0" and one: "P 1" and t: "\<And>a. P a \<Longrightarrow> P (xtime a)"
    and x: "\<And>a b. P a \<Longrightarrow> P b \<Longrightarrow> P (a XOR b)"
  shows "P (b :: byte)"
proof -
  have p: "P 1" "P 2" "P 4" "P 8" "P 16" "P 32" "P 64" "P 128"
    using one t by (metis xtime_basis)+
  show ?thesis
  proof (induction b rule: byte_linear_induct)
    case (basis e)
    then show ?case using p by auto
  qed (use z x in auto)
qed

section \<open>The laws of multiplication\<close>

lemma smult_1_left [simp]: "shamir_mult 1 b = b"
proof (induction b rule: byte_linear_induct)
  case (basis e)
  then show ?case
    by (elim insertE emptyE) (simp_all add: shamir_mult_unroll bitsel_def xtime_basis bit_1_iff)
qed (simp_all add: smult_xor_right)

lemma smult_xtime_right: "shamir_mult b (xtime a) = xtime (shamir_mult b a)"
  by (induction b rule: byte_xtime_induct)
    (simp_all add: smult_xtime_left smult_xor_left xtime_xor)

lemma smult_commute: "shamir_mult a b = shamir_mult b a"
  by (induction a rule: byte_xtime_induct)
    (simp_all add: smult_xtime_left smult_xtime_right smult_xor_left smult_xor_right)

lemma smult_assoc: "shamir_mult (shamir_mult a b) c = shamir_mult a (shamir_mult b c)"
  by (induction a rule: byte_xtime_induct) (simp_all add: smult_xtime_left smult_xor_left)

section \<open>Inverses\<close>

text \<open>
  The multiplication table contains a \<open>1\<close> in the row of every non-zero byte: \<open>inv_table\<close>
  lists where.
\<close>

definition inv_table :: "byte list" where
 "inv_table = [1, 141, 246, 203, 82, 123, 209, 232, 79, 41, 192, 176, 225, 229, 199, 116, 180, 170, 75,
    153, 43, 96, 95, 88, 63, 253, 204, 255, 64, 238, 178, 58, 110, 90, 241, 85, 77, 168, 201,
    193, 10, 152, 21, 48, 68, 162, 194, 44, 69, 146, 108, 243, 57, 102, 66, 242, 53, 32, 111,
    119, 187, 89, 25, 29, 254, 55, 103, 45, 49, 245, 105, 167, 100, 171, 19, 84, 37, 233, 9,
    237, 92, 5, 202, 76, 36, 135, 191, 24, 62, 34, 240, 81, 236, 97, 23, 22, 94, 175, 211, 73,
    166, 54, 67, 244, 71, 145, 223, 51, 147, 33, 59, 121, 183, 151, 133, 16, 181, 186, 60,
    182, 112, 208, 6, 161, 250, 129, 130, 131, 126, 127, 128, 150, 115, 190, 86, 155, 158,
    149, 217, 247, 2, 185, 164, 222, 106, 50, 109, 216, 138, 132, 114, 42, 20, 159, 136, 249,
    220, 137, 154, 251, 124, 46, 195, 143, 184, 101, 72, 38, 200, 18, 74, 206, 231, 210, 98,
    12, 224, 31, 239, 17, 117, 120, 113, 165, 142, 118, 61, 189, 188, 134, 87, 11, 40, 47,
    163, 218, 212, 228, 15, 169, 39, 83, 4, 27, 252, 172, 230, 122, 7, 174, 99, 197, 219, 226,
    234, 148, 139, 196, 213, 157, 248, 144, 107, 177, 13, 214, 235, 198, 14, 207, 173, 8, 78,
    215, 227, 93, 80, 30, 179, 91, 35, 56, 52, 104, 70, 3, 140, 221, 156, 125, 160, 205, 26,
    65, 28]"
lemma inverse_table_ok:
  "list_all2 (\<lambda>n b. shamir_mult b n = 1) (map word_of_nat [1..<256]) inv_table"
proof -
 have u: "map word_of_nat [1..<256] = ([1, 2, 3, 4, 5, 6, 7, 8, 9, 10, 11, 12, 13, 14, 15, 16, 17, 18, 19, 20, 21, 22, 23, 24, 25,
    26, 27, 28, 29, 30, 31, 32, 33, 34, 35, 36, 37, 38, 39, 40, 41, 42, 43, 44, 45, 46, 47,
    48, 49, 50, 51, 52, 53, 54, 55, 56, 57, 58, 59, 60, 61, 62, 63, 64, 65, 66, 67, 68, 69,
    70, 71, 72, 73, 74, 75, 76, 77, 78, 79, 80, 81, 82, 83, 84, 85, 86, 87, 88, 89, 90, 91,
    92, 93, 94, 95, 96, 97, 98, 99, 100, 101, 102, 103, 104, 105, 106, 107, 108, 109, 110,
    111, 112, 113, 114, 115, 116, 117, 118, 119, 120, 121, 122, 123, 124, 125, 126, 127, 128,
    129, 130, 131, 132, 133, 134, 135, 136, 137, 138, 139, 140, 141, 142, 143, 144, 145, 146,
    147, 148, 149, 150, 151, 152, 153, 154, 155, 156, 157, 158, 159, 160, 161, 162, 163, 164,
    165, 166, 167, 168, 169, 170, 171, 172, 173, 174, 175, 176, 177, 178, 179, 180, 181, 182,
    183, 184, 185, 186, 187, 188, 189, 190, 191, 192, 193, 194, 195, 196, 197, 198, 199, 200,
    201, 202, 203, 204, 205, 206, 207, 208, 209, 210, 211, 212, 213, 214, 215, 216, 217, 218,
    219, 220, 221, 222, 223, 224, 225, 226, 227, 228, 229, 230, 231, 232, 233, 234, 235, 236,
    237, 238, 239, 240, 241, 242, 243, 244, 245, 246, 247, 248, 249, 250, 251, 252, 253, 254,
    255] :: byte list)"
  by (simp add: upt_conv_Cons)
 show ?thesis
  unfolding inv_table_def u list.rel_inject
  by (intro conjI list.rel_intros TrueI; simp add: shamir_mult_def mult_step_alt xtime_alt)
qed

lemma smult_has_inverse: "a \<noteq> 0 \<Longrightarrow> \<exists>b. shamir_mult b a = 1"
proof -
  assume a: "a \<noteq> 0"
  let ?ns = "map word_of_nat [1..<256] :: byte list"
  have n: "unat a < 256" "0 < unat a"
    using unsigned_less [of a, where ?'a = nat] a by (auto simp: unat_gt_0)
  have len: "length inv_table = length ?ns"
    using list_all2_lengthD [OF inverse_table_ok] by simp
  have "?ns ! (unat a - 1) = a" using n by simp
  moreover have "shamir_mult (inv_table ! (unat a - 1)) (?ns ! (unat a - 1)) = 1"
    using inverse_table_ok by (rule list_all2_nthD) (use n in simp)
  ultimately show ?thesis by auto
qed

section \<open>The field\<close>

typedef gf = "UNIV :: byte set"
  morphisms byte_of_gf gf_of_byte by auto

setup_lifting type_definition_gf

instantiation gf :: comm_ring_1
begin

lift_definition zero_gf :: gf is "0" .
lift_definition one_gf :: gf is "1" .
lift_definition plus_gf :: "gf \<Rightarrow> gf \<Rightarrow> gf" is shamir_add .
lift_definition minus_gf :: "gf \<Rightarrow> gf \<Rightarrow> gf" is shamir_add .
lift_definition uminus_gf :: "gf \<Rightarrow> gf" is "\<lambda>a. a" .
lift_definition times_gf :: "gf \<Rightarrow> gf \<Rightarrow> gf" is shamir_mult .

instance
proof
  fix a b c :: gf
  show "a * b * c = a * (b * c)" by transfer (rule smult_assoc)
  show "a * b = b * a" by transfer (rule smult_commute)
  show "1 * a = a" by transfer simp
  show "a + b + c = a + (b + c)" by transfer (simp add: shamir_add_def xor.assoc)
  show "a + b = b + a" by transfer (simp add: shamir_add_def xor.commute)
  show "0 + a = a" by transfer (simp add: shamir_add_def)
  show "- a + a = 0" by transfer (simp add: shamir_add_def)
  show "a - b = a + - b" by transfer simp
  show "(a + b) * c = a * c + b * c" by transfer (simp add: shamir_add_def smult_xor_left)
  show "(0 :: gf) \<noteq> 1" by transfer simp
qed

end

text \<open>Characteristic two: squaring is additive, and eight squarings are the identity.\<close>

lemma gf_add_self [simp]: "(a :: gf) + a = 0"
  by transfer (simp add: shamir_add_def)

lemma gf_square_add: "((a :: gf) + b) ^ 2 = a ^ 2 + b ^ 2"
proof -
  have "(a + b) ^ 2 = a ^ 2 + b ^ 2 + (a * b + a * b)"
    unfolding power2_eq_square distrib_left distrib_right
    by (simp only: ac_simps)
  then show ?thesis by (simp only: gf_add_self add_0_right)
qed

lemma gf_frobenius_add: "((a :: gf) + b) ^ 2 ^ n = a ^ 2 ^ n + b ^ 2 ^ n"
  by (induction n) (simp_all only: power_Suc2 power_mult gf_square_add power_0 power_one_right)

text \<open>Eight squarings of \<open>x\<close>, the byte 2.\<close>

lemma x_squarings:
  "shamir_mult 2 2 = 4"
  "shamir_mult 4 4 = 16"
  "shamir_mult 16 16 = 27"
  "shamir_mult 27 27 = 94"
  "shamir_mult 94 94 = 228"
  "shamir_mult 228 228 = 77"
  "shamir_mult 77 77 = 250"
  "shamir_mult 250 250 = 2"
  by (simp_all add: shamir_mult_def mult_step_alt xtime_alt)

lemma xtime_as_mult: "xtime a = shamir_mult 2 a"
  using smult_xtime_left [of 1 a] by (simp add: xtime_basis)

lemma gf_frobenius_8: "a ^ 2 ^ 8 = (a :: gf)"
proof -
  have sq: "gf_of_byte a ^ 2 = gf_of_byte (shamir_mult a a)" for a
    by (simp add: power2_eq_square times_gf.abs_eq eq_onp_def)
  have e: "(2 :: nat) ^ 8 = 2 * 2 * 2 * 2 * 2 * 2 * 2 * 2"
    by simp
  have x: "gf_of_byte 2 ^ 2 ^ 8 = gf_of_byte 2"
    by (simp only: e power_mult sq x_squarings)
  have "gf_of_byte b ^ 2 ^ 8 = gf_of_byte b" for b
  proof (induction b rule: byte_xtime_induct)
    case zero
    then show ?case by (simp flip: zero_gf.abs_eq)
  next
    case one
    then show ?case by (simp flip: one_gf.abs_eq)
  next
    case (xtime a)
    have "gf_of_byte (xtime a) = gf_of_byte 2 * gf_of_byte a"
      by (simp add: times_gf.abs_eq xtime_as_mult eq_onp_def)
    then show ?case using xtime x by (simp only: power_mult_distrib)
  next
    case (xor a b)
    have "gf_of_byte (a XOR b) = gf_of_byte a + gf_of_byte b"
      by (simp add: plus_gf.abs_eq shamir_add_def eq_onp_def)
    then show ?case using xor by (simp only: gf_frobenius_add)
  qed
  then show ?thesis by (metis byte_of_gf_inverse)
qed

text \<open>The addition chain of \<open>inverse\<close> computes the power 254.\<close>

lemma shamir_inverse_power: "gf_of_byte (shamir_inverse a) = gf_of_byte a ^ 254"
proof -
  let ?x = "gf_of_byte a"
  have m: "gf_of_byte (shamir_mult u v) = ?x ^ (m + n)"
    if "gf_of_byte u = ?x ^ m" "gf_of_byte v = ?x ^ n" for u v m n
    using that by (simp add: times_gf.abs_eq [symmetric] eq_onp_def power_add)
  define b1 where "b1 = shamir_mult a a"
  define c1 where "c1 = shamir_mult a b1"
  define b2 where "b2 = shamir_mult c1 c1"
  define b3 where "b3 = shamir_mult b2 b2"
  define c2 where "c2 = shamir_mult b3 c1"
  define b4 where "b4 = shamir_mult b3 b3"
  define b5 where "b5 = shamir_mult b4 b4"
  define b6 where "b6 = shamir_mult b5 c2"
  define b7 where "b7 = shamir_mult b6 b6"
  define b8 where "b8 = shamir_mult a b7"
  have p0: "gf_of_byte a = ?x ^ 1" by simp
  have p1: "gf_of_byte b1 = ?x ^ 2" using m [OF p0 p0] by (simp add: b1_def power2_eq_square)
  have p2: "gf_of_byte c1 = ?x ^ 3" using m [OF p0 p1] by (simp add: c1_def power3_eq_cube ac_simps)
  have p3: "gf_of_byte b2 = ?x ^ 6" using m [OF p2 p2] by (simp add: b2_def)
  have p4: "gf_of_byte b3 = ?x ^ 12" using m [OF p3 p3] by (simp add: b3_def)
  have p5: "gf_of_byte c2 = ?x ^ 15" using m [OF p4 p2] by (simp add: c2_def)
  have p6: "gf_of_byte b4 = ?x ^ 24" using m [OF p4 p4] by (simp add: b4_def)
  have p7: "gf_of_byte b5 = ?x ^ 48" using m [OF p6 p6] by (simp add: b5_def)
  have p8: "gf_of_byte b6 = ?x ^ 63" using m [OF p7 p5] by (simp add: b6_def)
  have p9: "gf_of_byte b7 = ?x ^ 126" using m [OF p8 p8] by (simp add: b7_def)
  have p10: "gf_of_byte b8 = ?x ^ 127" using m [OF p0 p9] by (simp add: b8_def)
  have "shamir_inverse a = shamir_mult b8 b8"
    by (simp add: shamir_inverse_def Let_def b1_def c1_def b2_def b3_def c2_def b4_def b5_def
        b6_def b7_def b8_def)
  then show ?thesis using m [OF p10 p10] by simp
qed

instantiation gf :: field
begin

lift_definition inverse_gf :: "gf \<Rightarrow> gf" is shamir_inverse .

definition divide_gf :: "gf \<Rightarrow> gf \<Rightarrow> gf" where
  "divide_gf a b = a * inverse b"

instance
proof
  fix a b :: gf
  have inv: "inverse a = a ^ 254" for a :: gf
    using shamir_inverse_power [of "byte_of_gf a"] inverse_gf.abs_eq [of "byte_of_gf a"]
    by (simp add: byte_of_gf_inverse eq_onp_def)
  show "a \<noteq> 0 \<Longrightarrow> inverse a * a = 1"
  proof -
    assume "a \<noteq> 0"
    then have "byte_of_gf a \<noteq> 0"
      by (metis byte_of_gf_inverse zero_gf_def)
    then obtain c where "shamir_mult c (byte_of_gf a) = 1"
      using smult_has_inverse by blast
    then have "gf_of_byte c * gf_of_byte (byte_of_gf a) = 1"
      by (simp add: times_gf.abs_eq one_gf_def eq_onp_def)
    then obtain b where b: "b * a = 1"
      by (auto simp: byte_of_gf_inverse)
    have "a ^ 256 = a * a * a ^ 254"
      using power_add [of a 2 254] by (simp add: power2_eq_square)
    then have "b * b * (a * a * a ^ 254) = b * b * a"
      using gf_frobenius_8 [of a] by simp
    then have "(b * a) * (b * a) * a ^ 254 = b * (b * a)"
      by (simp only: ac_simps)
    then have "a ^ 254 = b" by (simp only: b mult_1_left mult_1_right)
    then show "inverse a * a = 1" using b by (simp only: inv)
  qed
  show "inverse 0 = (0 :: gf)" using inv [of 0] by simp
  show "a div b = a * inverse b" by (rule divide_gf_def)
qed

end

section \<open>The operations as field operations\<close>

lemma gf_of_byte_inject [simp]: "gf_of_byte a = gf_of_byte b \<longleftrightarrow> a = b"
  by (simp add: gf_of_byte_inject)

lemma gf_of_byte_0 [simp]: "gf_of_byte 0 = 0"
  by (simp add: zero_gf_def)

lemma gf_of_byte_1 [simp]: "gf_of_byte 1 = 1"
  by (simp add: one_gf_def)

lemma gf_of_byte_eq_0 [simp]: "gf_of_byte a = 0 \<longleftrightarrow> a = 0"
  by (metis gf_of_byte_0 gf_of_byte_inject)

lemma gf_add: "gf_of_byte (shamir_add a b) = gf_of_byte a + gf_of_byte b"
  by (simp add: plus_gf.abs_eq eq_onp_def)

lemma gf_sub: "gf_of_byte (shamir_add a b) = gf_of_byte a - gf_of_byte b"
  by (simp add: minus_gf.abs_eq eq_onp_def)

lemma gf_mult: "gf_of_byte (shamir_mult a b) = gf_of_byte a * gf_of_byte b"
  by (simp add: times_gf.abs_eq eq_onp_def)

lemma gf_inverse: "gf_of_byte (shamir_inverse a) = inverse (gf_of_byte a)"
  by (simp add: inverse_gf.abs_eq eq_onp_def)

lemma shamir_div_Some:
  "b \<noteq> 0 \<Longrightarrow> \<exists>q. shamir_div a b = Some q \<and> gf_of_byte q = gf_of_byte a / gf_of_byte b"
  by (simp add: shamir_div_def Let_def gf_mult gf_inverse divide_gf_def)

lemma shamir_add_eq_0 [simp]: "shamir_add a b = 0 \<longleftrightarrow> a = b"
  by (metis gf_sub gf_of_byte_eq_0 gf_of_byte_inject right_minus_eq)

lemmas gf_arith = gf_add gf_mult gf_inverse

text \<open>
  C18: the branch-free byte arithmetic is a field: multiplication is commutative, associative
  and distributes over \<open>add\<close>, and \<open>inverse\<close> inverts every non-zero byte, so that \<open>div\<close> undoes
  \<open>mult\<close> and panics exactly on a zero divisor.
\<close>

theorem shamir_byte_field:
  "shamir_mult a b = shamir_mult b a \<and>
   shamir_mult (shamir_mult a b) c = shamir_mult a (shamir_mult b c) \<and>
   shamir_mult a (shamir_add b c) = shamir_add (shamir_mult a b) (shamir_mult a c) \<and>
   shamir_mult a 1 = a \<and>
   (a = 0 \<or> shamir_mult a (shamir_inverse a) = 1) \<and>
   shamir_div (shamir_mult a b) b = (if b = 0 then None else Some a)"
proof -
  have inv: "shamir_mult a (shamir_inverse a) = 1" if "a \<noteq> 0" for a
    using that by (metis gf_mult gf_inverse gf_of_byte_1 gf_of_byte_eq_0 gf_of_byte_inject
        right_inverse)
  moreover have "shamir_div (shamir_mult a b) b = Some a" if b: "b \<noteq> 0"
  proof -
    obtain q where q: "shamir_div (shamir_mult a b) b = Some q"
      "gf_of_byte q = gf_of_byte (shamir_mult a b) / gf_of_byte b"
      using shamir_div_Some [OF b] by blast
    have "gf_of_byte q = gf_of_byte a" using q(2) b by (simp add: gf_mult)
    then have "q = a" by simp
    with q(1) show ?thesis by simp
  qed
  moreover have "shamir_div (shamir_mult a b) 0 = None"
    by (simp add: shamir_div_def)
  ultimately show ?thesis
    using smult_commute [of a b] smult_assoc [of a b c]
    by (cases "a = 0"; cases "b = 0") (simp_all add: shamir_add_def smult_xor_right)
qed

end
