(* ===== verification/Shamir.thy ===== *)
theory Shamir
  imports GF256 PolyRoots
begin

text \<open>
  Shamir secret sharing over the field of bytes, \<open>sdk/account/internal/shamir/shamir.go\<close>:
  the random polynomial of each secret byte, its evaluation at the share indices, \<open>Split\<close> and
  \<open>Combine\<close> with every early return, and the two halves of its contract: any \<open>threshold\<close> shares
  give the secret back, and any \<open>threshold - 1\<close> of them are consistent with every secret.
\<close>

section \<open>Polynomials\<close>

datatype shamir_error =
    InvalidPolynomialDegree int
  | GeneratePolynomialCoefficients
  | EmptySecret
  | InvalidPartsThreshold
  | TooFewShares
  | InvalidShareLength
  | UnequalShareLength
  | ZeroShareIndex
  | DuplicateShareIndex
  | PanicDivideByZero

record polynomial =
  coefficients :: "byte list"

definition ShareOverhead :: nat where
  "ShareOverhead = 1"

definition makePolynomial :: "byte \<Rightarrow> int \<Rightarrow> reader \<Rightarrow> shamir_error + (polynomial \<times> reader)" where
  "makePolynomial intercept degree random =
     check (degree < 1 \<or> degree > 254) (InvalidPolynomialDegree degree)
      (rbind (readFull GeneratePolynomialCoefficients (nat degree) random) (\<lambda>(cs, random).
        Inr (\<lparr>coefficients = intercept # cs\<rparr>, random)))"

text \<open>
  \<open>evaluate\<close>: the constant coefficient at \<open>0\<close>, otherwise Horner's loop from the last coefficient
  down to the first (a polynomial made by \<open>makePolynomial\<close> has at least two coefficients).
\<close>

definition evaluate :: "polynomial \<Rightarrow> byte \<Rightarrow> byte" where
  "evaluate p x =
     (let cs = coefficients p
      in if x = 0 then cs ! 0
         else fold (\<lambda>i out. shamir_add (shamir_mult out x) (cs ! i))
                (rev [0..<length cs - 1]) (cs ! (length cs - 1)))"

text \<open>
  \<open>interpolate\<close>: the inner loop multiplies the Lagrange basis, the outer one sums; \<open>div\<close> may
  panic (\<open>None\<close>) when two abscissae are equal.
\<close>

definition basis_loop :: "byte list \<Rightarrow> byte \<Rightarrow> nat \<Rightarrow> byte option" where
  "basis_loop xs x i =
     fold (\<lambda>j basis. if i = j then basis
             else (case basis of None \<Rightarrow> None
                   | Some b \<Rightarrow> map_option (shamir_mult b)
                       (shamir_div (shamir_add x (xs ! j)) (shamir_add (xs ! i) (xs ! j)))))
       [0..<length xs] (Some 1)"

definition interpolate :: "byte list \<Rightarrow> byte list \<Rightarrow> byte \<Rightarrow> byte option" where
  "interpolate xs ys x =
     fold (\<lambda>i result. case result of None \<Rightarrow> None
             | Some r \<Rightarrow> map_option (\<lambda>b. shamir_add r (shamir_mult (ys ! i) b)) (basis_loop xs x i))
       [0..<length xs] (Some 0)"

section \<open>Split and Combine\<close>

text \<open>
  The shares start as zero bytes with the index \<open>i + 1\<close> in the last place; one pass per secret
  byte fills in the column of that byte.
\<close>

definition share_byte :: "nat \<Rightarrow> byte" where
  "share_byte i = of_nat (i + 1)"

definition empty_shares :: "nat \<Rightarrow> nat \<Rightarrow> byte list list" where
  "empty_shares n parts =
     map (\<lambda>i. (replicate (n + 1) 0)[n := share_byte i]) [0..<parts]"

definition fill_column :: "polynomial \<Rightarrow> nat \<Rightarrow> nat \<Rightarrow> byte list list \<Rightarrow> byte list list" where
  "fill_column p byteIndex parts out =
     fold (\<lambda>shareIndex out.
             out[shareIndex := (out ! shareIndex)[byteIndex := evaluate p (share_byte shareIndex)]])
       [0..<parts] out"

definition Split :: "byte list \<Rightarrow> int \<Rightarrow> int \<Rightarrow> reader
    \<Rightarrow> shamir_error + (byte list list \<times> reader)" where
  "Split secret parts threshold random =
     check (length secret = 0) EmptySecret
      (check (threshold < 2 \<or> threshold > 255 \<or> parts < threshold \<or> parts > 255)
         InvalidPartsThreshold
        (rfold (\<lambda>(byteIndex, value) (out, random).
            rbind (makePolynomial value (threshold - 1) random) (\<lambda>(p, random).
              Inr (fill_column p byteIndex (nat parts) out, random)))
          (enumerate 0 secret) (empty_shares (length secret) (nat parts), random)))"

text \<open>The index checks of \<open>Combine\<close>: the last byte of a share, non-zero and not yet seen.\<close>

fun share_indices :: "nat \<Rightarrow> byte list list \<Rightarrow> byte set \<Rightarrow> shamir_error + byte list" where
  "share_indices partLen [] seen = Inr []"
| "share_indices partLen (part # parts) seen =
     (let x = part ! (partLen - 1)
      in check (x = 0) ZeroShareIndex
          (check (x \<in> seen) DuplicateShareIndex
            (rbind (share_indices partLen parts (insert x seen)) (\<lambda>xs. Inr (x # xs)))))"

definition Combine :: "byte list list \<Rightarrow> shamir_error + byte list" where
  "Combine parts =
     check (length parts < 2) TooFewShares
      (let partLen = length (parts ! 0)
       in check (partLen < 2) InvalidShareLength
           (check (\<exists>part\<in>set (tl parts). length part \<noteq> partLen) UnequalShareLength
             (rbind (share_indices partLen parts {}) (\<lambda>xs.
               rmap (\<lambda>byteIndex.
                   case interpolate xs (map (\<lambda>part. part ! byteIndex) parts) 0 of
                     None \<Rightarrow> Inl PanicDivideByZero | Some b \<Rightarrow> Inr b)
                 [0..<partLen - 1]))))"

section \<open>Evaluation and interpolation in the field\<close>

interpretation gf_zero: vanishing "\<lambda>x :: gf. x = 0"
  by unfold_locales auto

lemma horner_fold:
  "k \<le> length cs \<Longrightarrow>
   gf_of_byte (fold (\<lambda>i out. shamir_add (shamir_mult out x) (cs ! i)) (rev [0..<k]) acc)
     = peval (map gf_of_byte (take k cs)) (gf_of_byte x) + gf_of_byte x ^ k * gf_of_byte acc"
proof (induction k arbitrary: acc)
  case (Suc k)
  then show ?case
    by (simp add: gf_arith take_Suc_conv_app_nth peval_append algebra_simps)
qed simp

lemma evaluate_peval:
  assumes "coefficients p \<noteq> []"
  shows "gf_of_byte (evaluate p x) = peval (map gf_of_byte (coefficients p)) (gf_of_byte x)"
proof -
  let ?cs = "coefficients p" and ?k = "length (coefficients p) - 1"
  have split: "?cs = take ?k ?cs @ [?cs ! ?k]"
    using assms by (metis append_butlast_last_id butlast_conv_take last_conv_nth)
  have at0: "peval (map gf_of_byte ?cs) 0 = gf_of_byte (?cs ! 0)"
    using assms by (cases ?cs) auto
  have "peval (map gf_of_byte ?cs) (gf_of_byte x)
      = peval (map gf_of_byte (take ?k ?cs)) (gf_of_byte x) + gf_of_byte x ^ ?k * gf_of_byte (?cs ! ?k)"
    by (subst split) (simp add: peval_append del: take_butlast butlast_conv_take)
  then show ?thesis
    using at0 by (cases "x = 0") (simp_all add: evaluate_def Let_def horner_fold)
qed

lemma basis_loop_Some:
  assumes "distinct xs" and "i < length xs"
  shows "\<exists>b. basis_loop xs x i = Some b \<and> gf_of_byte b =
    (\<Prod>j\<in>{..<length xs} - {i}. (gf_of_byte x - gf_of_byte (xs ! j)) /
       (gf_of_byte (xs ! i) - gf_of_byte (xs ! j)))"
proof -
  let ?step = "\<lambda>j basis. if i = j then basis
             else (case basis of None \<Rightarrow> None
                   | Some b \<Rightarrow> map_option (shamir_mult b)
                       (shamir_div (shamir_add x (xs ! j)) (shamir_add (xs ! i) (xs ! j))))"
  let ?t = "\<lambda>j. (gf_of_byte x - gf_of_byte (xs ! j)) / (gf_of_byte (xs ! i) - gf_of_byte (xs ! j))"
  have "\<exists>b. fold ?step [0..<k] (Some 1) = Some b \<and> gf_of_byte b = (\<Prod>j\<in>{..<k} - {i}. ?t j)"
    if "k \<le> length xs" for k
    using that
  proof (induction k)
    case (Suc k)
    then obtain b where b: "fold ?step [0..<k] (Some 1) = Some b"
      "gf_of_byte b = (\<Prod>j\<in>{..<k} - {i}. ?t j)" by auto
    show ?case
    proof (cases "i = k")
      case True
      have "{..<Suc k} - {i} = {..<k} - {i}" using True by auto
      then show ?thesis using b True by simp
    next
      case False
      then have "shamir_add (xs ! i) (xs ! k) \<noteq> 0"
        using assms Suc.prems by (simp add: nth_eq_iff_index_eq)
      then obtain q where q: "shamir_div (shamir_add x (xs ! k)) (shamir_add (xs ! i) (xs ! k)) = Some q"
        "gf_of_byte q = ?t k"
        using shamir_div_Some by (metis gf_sub)
      have "{..<Suc k} - {i} = insert k ({..<k} - {i})" using False by auto
      then show ?thesis using b q False by (simp add: gf_mult mult.commute)
    qed
  qed simp
  from this [of "length xs"] show ?thesis by (simp add: basis_loop_def)
qed

lemma interpolate_Some:
  assumes "distinct xs"
  shows "\<exists>r. interpolate xs ys x = Some r \<and> gf_of_byte r =
    (\<Sum>i<length xs. gf_of_byte (ys ! i) * (\<Prod>j\<in>{..<length xs} - {i}.
       (gf_of_byte x - gf_of_byte (xs ! j)) / (gf_of_byte (xs ! i) - gf_of_byte (xs ! j))))"
proof -
  let ?step = "\<lambda>i result. case result of None \<Rightarrow> None
     | Some r \<Rightarrow> map_option (\<lambda>b. shamir_add r (shamir_mult (ys ! i) b)) (basis_loop xs x i)"
  let ?l = "\<lambda>i. \<Prod>j\<in>{..<length xs} - {i}.
     (gf_of_byte x - gf_of_byte (xs ! j)) / (gf_of_byte (xs ! i) - gf_of_byte (xs ! j))"
  have "\<exists>r. fold ?step [0..<k] (Some 0) = Some r \<and>
      gf_of_byte r = (\<Sum>i<k. gf_of_byte (ys ! i) * ?l i)" if "k \<le> length xs" for k
    using that
  proof (induction k)
    case (Suc k)
    moreover obtain b where "basis_loop xs x k = Some b" "gf_of_byte b = ?l k"
      using basis_loop_Some [OF assms, of k x] Suc.prems by auto
    ultimately show ?case by (auto simp: gf_arith)
  qed simp
  from this [of "length xs"] show ?thesis by (simp add: interpolate_def)
qed

text \<open>Lagrange's theorem: interpolation recovers a polynomial from enough of its values.\<close>

lemma interpolate_poly:
  assumes "distinct xs" and "is_poly n f" and "n \<le> length xs"
    and "\<And>i. i < length xs \<Longrightarrow> gf_of_byte (ys ! i) = f (gf_of_byte (xs ! i))"
  shows "\<exists>r. interpolate xs ys x = Some r \<and> gf_of_byte r = f (gf_of_byte x)"
proof -
  let ?m = "length xs" and ?X = "\<lambda>i. gf_of_byte (xs ! i)"
  define L where "L z = (\<Sum>i<?m. gf_of_byte (ys ! i) *
      (\<Prod>j\<in>{..<?m} - {i}. (z - ?X j) / (?X i - ?X j)))" for z
  obtain r where r: "interpolate xs ys x = Some r" "gf_of_byte r = L (gf_of_byte x)"
    using interpolate_Some [OF assms(1)] by (auto simp: L_def)
  have inj: "?X i = ?X j \<longleftrightarrow> i = j" if "i < ?m" "j < ?m" for i j
    using assms(1) that by (simp add: nth_eq_iff_index_eq)
  have "is_poly ?m (\<lambda>z. gf_of_byte (ys ! i) * (\<Prod>j\<in>{..<?m} - {i}. (z - ?X j) / (?X i - ?X j)))"
    if "i < ?m" for i
  proof -
    have "is_poly (Suc (card ({..<?m} - {i})))
      (\<lambda>z. (gf_of_byte (ys ! i) / (\<Prod>j\<in>{..<?m} - {i}. ?X i - ?X j)) * (\<Prod>j\<in>{..<?m} - {i}. z - ?X j))"
      by (rule is_poly_prod) simp
    moreover have "Suc (card ({..<?m} - {i})) = ?m" using that by (simp add: card_Diff_singleton)
    ultimately show ?thesis by (simp add: prod_dividef)
  qed
  then have polyL: "is_poly ?m L"
    unfolding L_def by (intro is_poly_sum) auto
  have at: "L (?X k) = f (?X k)" if k: "k < ?m" for k
  proof -
    have "(\<Prod>j\<in>{..<?m} - {i}. (?X k - ?X j) / (?X i - ?X j)) = of_bool (i = k)" if "i < ?m" for i
    proof (cases "i = k")
      case True
      have "\<And>j. j \<in> {..<?m} - {k} \<Longrightarrow> ?X k - ?X j \<noteq> 0" using inj k by auto
      then show ?thesis using True by (simp add: prod_dividef)
    next
      case False
      then have "k \<in> {..<?m} - {i}" using k by simp
      then have "(\<Prod>j\<in>{..<?m} - {i}. (?X k - ?X j) / (?X i - ?X j)) = 0"
        by (intro prod_zero) auto
      then show ?thesis using False by simp
    qed
    then have "L (?X k) = (\<Sum>i<?m. gf_of_byte (ys ! i) * of_bool (i = k))"
      unfolding L_def by (intro sum.cong) auto
    also have "\<dots> = gf_of_byte (ys ! k)"
      using k by (simp add: of_bool_def sum.delta' if_distrib cong: if_cong)
    finally show ?thesis using assms(4) k by simp
  qed
  have "L (gf_of_byte x) - f (gf_of_byte x) = 0"
  proof (rule gf_zero.agree_everywhere [OF polyL is_poly_mono [OF assms(2,3)]])
    show "?m \<le> card (gf_of_byte ` set xs)"
      using assms(1) by (simp add: card_image inj_on_def distinct_card)
    show "\<And>z. z \<in> gf_of_byte ` set xs \<Longrightarrow> L z - f z = 0"
      using at by (auto simp: in_set_conv_nth)
  qed auto
  then show ?thesis using r by simp
qed

section \<open>What Split returns\<close>

text \<open>
  The polynomial of the secret byte \<open>value\<close> from its \<open>t - 1\<close> random coefficients, and the share
  with index \<open>s + 1\<close>.
\<close>

definition byte_poly :: "nat \<Rightarrow> byte list \<Rightarrow> reader \<Rightarrow> nat \<Rightarrow> polynomial" where
  "byte_poly t secret random k =
     \<lparr>coefficients = secret ! k # take (t - 1) (drop (k * (t - 1)) random)\<rparr>"

definition share_of :: "nat \<Rightarrow> byte list \<Rightarrow> reader \<Rightarrow> nat \<Rightarrow> byte list" where
  "share_of t secret random s =
     map (\<lambda>k. evaluate (byte_poly t secret random k) (share_byte s)) [0..<length secret] @ [share_byte s]"

lemma length_share_of [simp]: "length (share_of t secret random s) = length secret + 1"
  by (simp add: share_of_def)

lemma fill_column_eq:
  assumes "length out = parts"
  shows "fill_column p k parts out =
    map (\<lambda>s. (out ! s)[k := evaluate p (share_byte s)]) [0..<parts]"
proof -
  let ?new = "\<lambda>s. (out ! s)[k := evaluate p (share_byte s)]"
  have "fold (\<lambda>s out. out[s := (out ! s)[k := evaluate p (share_byte s)]]) [0..<m] out
      = map ?new [0..<m] @ drop m out" if "m \<le> parts" for m
    using that assms
    by (induction m) (auto simp: nth_append list_update_append Cons_nth_drop_Suc [symmetric])
  from this [of parts] show ?thesis using assms by (simp add: fill_column_def)
qed

lemma byte_poly_Cons:
  "byte_poly t (v # vs) random (Suc k) = byte_poly t vs (drop (t - 1) random) k"
  by (simp add: byte_poly_def add.commute)

lemma take_Suc_list_update:
  "n < length xs \<Longrightarrow> take (Suc n) (xs[n := v]) = take n xs @ [v]"
  by (simp add: take_Suc_conv_app_nth)

lemma split_loop:
  assumes t: "2 \<le> t" "t \<le> 255" and "length out = parts"
    and "\<And>s. s < parts \<Longrightarrow> n + length vs \<le> length (out ! s)"
  shows "rfold (\<lambda>(k, v) (out, random).
            rbind (makePolynomial v (int t - 1) random) (\<lambda>(p, random).
              Inr (fill_column p k parts out, random)))
          (enumerate n vs) (out, random) =
    (if length random < length vs * (t - 1) then Inl GeneratePolynomialCoefficients
     else Inr (map (\<lambda>s. take n (out ! s) @
         map (\<lambda>k. evaluate (byte_poly t vs random k) (share_byte s)) [0..<length vs] @
         drop (n + length vs) (out ! s)) [0..<parts], drop (length vs * (t - 1)) random))"
  using assms(3,4)
proof (induction vs arbitrary: n out random)
  case Nil
  then show ?case by (auto intro!: nth_equalityI)
next
  case (Cons v vs)
  let ?p = "\<lparr>coefficients = v # take (t - 1) random\<rparr>"
  let ?out = "map (\<lambda>s. (out ! s)[n := evaluate ?p (share_byte s)]) [0..<parts]"
  have deg: "\<not> (int t - 1 < 1 \<or> int t - 1 > 254)" "nat (int t - 1) = t - 1" using t by auto
  have mk: "makePolynomial v (int t - 1) random =
      (if length random < t - 1 then Inl GeneratePolynomialCoefficients
       else Inr (?p, drop (t - 1) random))"
    using deg by (simp add: makePolynomial_def readFull_def check_def)
  show ?case
  proof (cases "length random < t - 1")
    case True
    then show ?thesis by (simp add: mk)
  next
    case False
    have len: "Suc n + length vs \<le> length (?out ! s)" if "s < parts" for s
      using Cons.prems(2) [OF that] that by simp
    have n: "n < length (out ! s)" if "s < parts" for s
      using Cons.prems(2) [OF that] by simp
    have d: "drop (Suc n + length vs) (?out ! s) = drop (Suc n + length vs) (out ! s)"
      if "s < parts" for s
      using that by (simp add: drop_update_swap)
    have m: "map (\<lambda>k. evaluate (byte_poly t (v # vs) random k) x) [0..<Suc (length vs)] =
        evaluate ?p x # map (\<lambda>k. evaluate (byte_poly t vs (drop (t - 1) random) k) x) [0..<length vs]"
      for x
      by (simp add: map_upt_Suc byte_poly_Cons del: upt_Suc) (simp add: byte_poly_def)
    show ?thesis
      using False Cons.IH [of ?out "Suc n" "drop (t - 1) random"] len
      by (simp add: mk fill_column_eq [OF Cons.prems(1)] m d n take_Suc_list_update add.commute
          del: upt_Suc cong: map_cong) (auto simp: add.commute n take_Suc_list_update)
  qed
qed

theorem Split_eq:
  assumes "secret \<noteq> []" and "2 \<le> t" and "t \<le> n" and "n \<le> 255"
  shows "Split secret (int n) (int t) random =
    (if length random < length secret * (t - 1) then Inl GeneratePolynomialCoefficients
     else Inr (map (share_of t secret random) [0..<n], drop (length secret * (t - 1)) random))"
proof -
  have e: "(replicate (length secret + 1) (0 :: byte))[length secret := x] =
      replicate (length secret) 0 @ [x]" for x
    by (simp add: replicate_append_same [symmetric] list_update_append)
  then have es: "empty_shares (length secret) n =
      map (\<lambda>i. replicate (length secret) 0 @ [share_byte i]) [0..<n]"
    by (simp only: empty_shares_def)
  have "Split secret (int n) (int t) random = rfold (\<lambda>(k, v) (out, random).
            rbind (makePolynomial v (int t - 1) random) (\<lambda>(p, random).
              Inr (fill_column p k n out, random)))
          (enumerate 0 secret) (empty_shares (length secret) n, random)"
    using assms by (simp add: Split_def check_def)
  also have "\<dots> = (if length random < length secret * (t - 1) then Inl GeneratePolynomialCoefficients
     else Inr (map (share_of t secret random) [0..<n], drop (length secret * (t - 1)) random))"
    using assms by (subst split_loop) (auto simp: es share_of_def)
  finally show ?thesis .
qed

lemma Split_Inr:
  assumes "Split secret parts threshold random = Inr (shares, rest)"
  obtains t n where "threshold = int t" "parts = int n" "2 \<le> t" "t \<le> n" "n \<le> 255" "secret \<noteq> []"
    "length secret * (t - 1) \<le> length random" "rest = drop (length secret * (t - 1)) random"
    "shares = map (share_of t secret random) [0..<n]"
proof -
  from assms have b: "secret \<noteq> []" "2 \<le> threshold" "threshold \<le> parts" "parts \<le> 255"
    by (auto simp: Split_def result_simps)
  then have "threshold = int (nat threshold)" "parts = int (nat parts)" by simp_all
  moreover have "Split secret (int (nat parts)) (int (nat threshold)) random =
     (if length random < length secret * (nat threshold - 1) then Inl GeneratePolynomialCoefficients
     else Inr (map (share_of (nat threshold) secret random) [0..<nat parts],
       drop (length secret * (nat threshold - 1)) random))"
    by (rule Split_eq) (use b in auto)
  ultimately show thesis
    using assms b that [of "nat threshold" "nat parts"] by (auto split: if_splits)
qed

text \<open>The indices \<open>1 .. 255\<close> are distinct and non-zero as bytes.\<close>

lemma unat_share_byte: "i < 255 \<Longrightarrow> unat (share_byte i) = i + 1"
  by (simp add: share_byte_def unat_of_nat del: of_nat_add of_nat_Suc)

lemma share_byte_inject: "i < 255 \<Longrightarrow> j < 255 \<Longrightarrow> share_byte i = share_byte j \<longleftrightarrow> i = j"
  using unat_share_byte by (metis add_right_cancel)

lemma share_byte_nonzero: "i < 255 \<Longrightarrow> share_byte i \<noteq> 0"
  using unat_share_byte [of i] by auto

section \<open>Combining shares\<close>

lemma share_indices_Inr:
  "share_indices n parts seen = Inr xs \<longleftrightarrow>
     xs = map (\<lambda>part. part ! (n - 1)) parts \<and> distinct xs \<and> 0 \<notin> set xs \<and> set xs \<inter> seen = {}"
proof (induction parts arbitrary: seen xs)
  case (Cons part parts)
  define x ys where "x = part ! (n - 1)" and "ys = map (\<lambda>part. part ! (n - 1)) parts"
  have "share_indices n (part # parts) seen = Inr xs \<longleftrightarrow> x \<noteq> 0 \<and> x \<notin> seen \<and>
      (\<exists>zs. share_indices n parts (insert x seen) = Inr zs \<and> xs = x # zs)"
    by (auto simp: Let_def result_simps x_def)
  also have "\<dots> \<longleftrightarrow> x \<noteq> 0 \<and> x \<notin> seen \<and> distinct ys \<and> 0 \<notin> set ys \<and> set ys \<inter> insert x seen = {} \<and>
      xs = x # ys"
    unfolding Cons.IH ys_def [symmetric] by blast
  also have "\<dots> \<longleftrightarrow> xs = x # ys \<and> distinct xs \<and> 0 \<notin> set xs \<and> set xs \<inter> seen = {}"
    by auto
  finally show ?case by (simp add: x_def ys_def)
qed auto

lemma interpolate_total:
  "distinct xs \<Longrightarrow> interpolate xs ys x \<noteq> None"
  using interpolate_Some [of xs ys x] by auto

lemma Combine_eq:
  assumes "2 \<le> length parts" and "\<And>part. part \<in> set parts \<Longrightarrow> length part = m + 1" and "1 \<le> m"
    and "distinct (map (\<lambda>part. part ! m) parts)" and "\<And>part. part \<in> set parts \<Longrightarrow> part ! m \<noteq> 0"
  shows "Combine parts = Inr (map (\<lambda>k. the (interpolate (map (\<lambda>part. part ! m) parts)
     (map (\<lambda>part. part ! k) parts) 0)) [0..<m])"
proof -
  let ?xs = "map (\<lambda>part. part ! m) parts"
  have "parts ! 0 \<in> set parts" by (rule nth_mem) (use assms(1) in auto)
  then have p0: "length (parts ! 0) = m + 1" by (rule assms(2))
  have xs: "share_indices (m + 1) parts {} = Inr ?xs"
    using assms(4,5) by (auto simp: share_indices_Inr)
  have eq: "\<forall>part\<in>set (tl parts). length part = Suc m"
    using assms(2) list.set_sel(2) [of parts] assms(1) by fastforce
  have "rmap (\<lambda>k. case interpolate ?xs (map (\<lambda>part. part ! k) parts) 0 of
          None \<Rightarrow> Inl PanicDivideByZero | Some b \<Rightarrow> Inr b) [0..<m] =
      Inr (map (\<lambda>k. the (interpolate ?xs (map (\<lambda>part. part ! k) parts) 0)) [0..<m])"
    by (intro rmap_cong_Inr) (use interpolate_total [OF assms(4)] in \<open>auto split: option.splits\<close>)
  then show ?thesis
    using assms(1,3) by (simp add: Combine_def p0 eq xs [simplified] check_def)
qed

lemma byte_poly_is_poly:
  assumes "length (coefficients p) = t" and "1 \<le> t"
  shows "is_poly t (\<lambda>x. peval (map gf_of_byte (coefficients p)) x)"
  using assms by (intro is_polyI [of "map gf_of_byte (coefficients p)"]) auto

lemma coefficients_byte_poly:
  assumes "k < length secret" and "length secret * (t - 1) \<le> length random" and "1 \<le> t"
  shows "length (coefficients (byte_poly t secret random k)) = t"
    and "coefficients (byte_poly t secret random k) \<noteq> []"
    and "hd (coefficients (byte_poly t secret random k)) = secret ! k"
proof -
  have "(k + 1) * (t - 1) \<le> length secret * (t - 1)"
    using assms(1) by (intro mult_right_mono) auto
  then have "k * (t - 1) + (t - 1) \<le> length random"
    using assms(2) by (simp only: add_mult_distrib mult_1)
  then have "t - 1 \<le> length random - k * (t - 1)" by simp
  then show "length (coefficients (byte_poly t secret random k)) = t"
    using assms(3) by (simp add: byte_poly_def)
qed (simp_all add: byte_poly_def)

text \<open>
  C2: the recovery contract.  Whatever the secret, the random source and the parameters that
  \<open>Split\<close> accepts, \<open>Combine\<close> returns the secret from any choice of at least \<open>threshold\<close>
  different shares, in any order.
\<close>

theorem split_combine:
  assumes "Split secret parts threshold random = Inr (shares, rest)"
    and "distinct idx" and "set idx \<subseteq> {..<length shares}" and "threshold \<le> int (length idx)"
  shows "Combine (map (\<lambda>i. shares ! i) idx) = Inr secret"
proof -
  from Split_Inr [OF assms(1)] obtain t n where tn: "threshold = int t" "2 \<le> t" "n \<le> 255"
    and ne: "secret \<noteq> []" and rnd: "length secret * (t - 1) \<le> length random"
    and sh: "shares = map (share_of t secret random) [0..<n]"
    by metis
  let ?m = "length secret" and ?ps = "map (\<lambda>i. shares ! i) idx"
  have idx: "\<And>i. i \<in> set idx \<Longrightarrow> i < n" using assms(3) sh by auto
  have ps: "?ps = map (share_of t secret random) idx" using idx sh by auto
  let ?xs = "map (\<lambda>i. share_byte i) idx"
  have xs: "map (\<lambda>part. part ! ?m) ?ps = ?xs"
    unfolding ps by (simp add: share_of_def nth_append)
  have dist: "distinct ?xs"
    unfolding distinct_map
    using assms(2) by (auto intro!: inj_onI) (metis share_byte_inject idx tn(3) order.strict_trans2)
  have nz: "share_byte i \<noteq> 0" if "i \<in> set idx" for i
    using idx [OF that] tn(3) by (intro share_byte_nonzero) simp
  have "Combine ?ps = Inr (map (\<lambda>k. the (interpolate ?xs (map (\<lambda>part. part ! k) ?ps) 0)) [0..<?m])"
    unfolding xs [symmetric]
  proof (rule Combine_eq)
    show "distinct (map (\<lambda>part. part ! ?m) ?ps)" unfolding xs by (rule dist)
    show "part ! ?m \<noteq> 0" if "part \<in> set ?ps" for part
      using that nz unfolding ps by (auto simp: share_of_def nth_append)
  qed (use assms(4) tn ne ps in \<open>auto simp: Suc_le_eq\<close>)
  moreover have "the (interpolate ?xs (map (\<lambda>part. part ! k) ?ps) 0) = secret ! k" if k: "k < ?m" for k
  proof -
    let ?p = "byte_poly t secret random k"
    let ?f = "peval (map gf_of_byte (coefficients ?p))"
    note cp = coefficients_byte_poly [OF k rnd]
    have "is_poly t ?f" by (rule byte_poly_is_poly) (use cp tn in auto)
    then have "\<exists>r. interpolate ?xs (map (\<lambda>part. part ! k) ?ps) 0 = Some r \<and> gf_of_byte r = ?f (gf_of_byte 0)"
    proof (rule interpolate_poly [OF dist])
      show "t \<le> length ?xs" using assms(4) tn by simp
      fix i assume i: "i < length ?xs"
      then have "map (\<lambda>part. part ! k) ?ps ! i = evaluate ?p (?xs ! i)"
        using k unfolding ps by (simp add: share_of_def nth_append)
      then show "gf_of_byte (map (\<lambda>part. part ! k) ?ps ! i) = ?f (gf_of_byte (?xs ! i))"
        using evaluate_peval [of ?p] cp(2) tn by simp
    qed
    moreover have "?f 0 = gf_of_byte (secret ! k)"
      using cp tn by (cases "coefficients ?p") auto
    ultimately show ?thesis by auto
  qed
  ultimately have "Combine ?ps = Inr (map ((!) secret) [0..<?m])" by simp
  then show ?thesis by (simp only: map_nth)
qed

text \<open>\<open>Combine\<close> never reaches the panic of \<open>div\<close>: its index checks rule out equal abscissae.\<close>

lemma share_indices_no_panic: "share_indices n ps seen \<noteq> Inl PanicDivideByZero"
  by (induction n ps seen rule: share_indices.induct) (auto simp: Let_def check_eq_Inl rbind_eq_Inl)

lemma rmap_interpolate:
  "distinct xs \<Longrightarrow> rmap (\<lambda>k. case interpolate xs (col k) 0 of
       None \<Rightarrow> Inl PanicDivideByZero | Some b \<Rightarrow> Inr b) ks
     = Inr (map (\<lambda>k. the (interpolate xs (col k) 0)) ks)"
  by (intro rmap_cong_Inr) (use interpolate_total in \<open>auto split: option.splits\<close>)

lemma Combine_never_panics: "Combine parts \<noteq> Inl PanicDivideByZero"
  by (auto simp: Combine_def Let_def check_eq_Inl rbind_eq_Inl share_indices_no_panic
      share_indices_Inr rmap_interpolate)

section \<open>Secrecy\<close>

text \<open>
  For one secret byte: given the values of a sharing polynomial at \<open>t - 1\<close> share indices, every
  other secret byte has exactly one sharing polynomial with the same values there.
\<close>

lemma sharing_poly_exists:
  assumes I: "I \<subseteq> {..<255}" "card I = m" and c: "length c = m"
  shows "\<exists>c'. length c' = m \<and> (\<forall>i\<in>I. evaluate \<lparr>coefficients = v' # c'\<rparr> (share_byte i)
    = evaluate \<lparr>coefficients = v # c\<rparr> (share_byte i))"
proof -
  let ?X = "\<lambda>i. gf_of_byte (share_byte i)"
  have fin: "finite I" using I(1) by (rule finite_subset) simp
  let ?k = "(gf_of_byte v' - gf_of_byte v) / (\<Prod>i\<in>I. 0 - ?X i)"
  define F where "F x = peval (map gf_of_byte (v # c)) x + ?k * (\<Prod>i\<in>I. x - ?X i)" for x
  have "is_poly (Suc m) (\<lambda>x. peval (map gf_of_byte (v # c)) x)"
    by (intro is_polyI [of "map gf_of_byte (v # c)"]) (use c in auto)
  moreover have "is_poly (Suc m) (\<lambda>x. ?k * (\<Prod>i\<in>I. x - ?X i))"
    using is_poly_prod [OF fin, of ?k ?X] I(2) by simp
  ultimately have "is_poly (Suc m) F" unfolding F_def by (rule is_poly_add)
  then obtain a cs where cs: "length cs = m" "\<And>x. F x = peval (a # cs) x"
    unfolding is_poly_def by (metis length_Suc_conv)
  have "(\<Prod>i\<in>I. 0 - ?X i) \<noteq> 0"
    using fin I(1) share_byte_nonzero by (auto simp: prod_zero_iff subset_iff)
  then have "F 0 = gf_of_byte v'" by (simp add: F_def)
  then have a: "a = gf_of_byte v'" using cs(2) [of 0] by simp
  let ?c = "map byte_of_gf cs"
  have "evaluate \<lparr>coefficients = v' # ?c\<rparr> (share_byte i) = evaluate \<lparr>coefficients = v # c\<rparr> (share_byte i)"
    if i: "i \<in> I" for i
  proof -
    have "(\<Prod>j\<in>I. ?X i - ?X j) = 0" using fin i by (intro prod_zero) auto
    then have "F (?X i) = peval (map gf_of_byte (v # c)) (?X i)" by (simp add: F_def)
    moreover have "map gf_of_byte ?c = cs" by (simp add: byte_of_gf_inverse o_def)
    ultimately have "gf_of_byte (evaluate \<lparr>coefficients = v' # ?c\<rparr> (share_byte i))
        = gf_of_byte (evaluate \<lparr>coefficients = v # c\<rparr> (share_byte i))"
      using cs(2) [of "?X i"] a by (simp add: evaluate_peval)
    then show ?thesis by simp
  qed
  then show ?thesis using cs(1) by (intro exI [of _ ?c]) simp
qed

lemma sharing_poly_unique:
  assumes I: "I \<subseteq> {..<255}" "card I = m" and c: "length c = m" "length d = m"
    and eq: "\<forall>i\<in>I. evaluate \<lparr>coefficients = v # c\<rparr> (share_byte i)
      = evaluate \<lparr>coefficients = v # d\<rparr> (share_byte i)"
  shows "c = d"
proof -
  let ?X = "\<lambda>i. gf_of_byte (share_byte i)"
  let ?S = "insert 0 (?X ` I)"
  let ?cs = "map2 (+) (map gf_of_byte (v # c)) (map gf_of_byte (v # d))"
  have fin: "finite I" using I(1) by (rule finite_subset) simp
  have inj: "inj_on ?X I" using I(1) share_byte_inject by (auto simp: inj_on_def subset_iff)
  have "0 \<notin> ?X ` I" using I(1) share_byte_nonzero by (auto simp: subset_iff image_iff)
  then have card: "card ?S = Suc m" using fin inj I(2) by (simp add: card_image)
  have zero: "peval ?cs x = 0" if "x \<in> ?S" for x
  proof -
    have "peval ?cs x = peval (map gf_of_byte (v # c)) x + peval (map gf_of_byte (v # d)) x"
      by (rule peval_map2_add) (use c in simp)
    moreover have "peval (map gf_of_byte (v # c)) x = peval (map gf_of_byte (v # d)) x"
    proof (cases "x = 0")
      case False
      then obtain i where "i \<in> I" "x = ?X i" using \<open>x \<in> ?S\<close> by auto
      then show ?thesis
        using eq evaluate_peval [of "\<lparr>coefficients = v # c\<rparr>" "share_byte i"]
          evaluate_peval [of "\<lparr>coefficients = v # d\<rparr>" "share_byte i"]
        by (auto simp del: peval.simps)
    qed simp
    ultimately show ?thesis by (simp only: gf_add_self)
  qed
  have all: "\<forall>x\<in>set ?cs. x = 0"
    by (rule gf_zero.root_bound [of ?S]) (use fin card c zero in auto)
  show ?thesis
  proof (rule nth_equalityI)
    fix k assume k: "k < length c"
    then have "gf_of_byte (c ! k) + gf_of_byte (d ! k) = ?cs ! Suc k" using c by simp
    also have "\<dots> = 0" using all k c by (intro all [rule_format] nth_mem) simp
    finally have "gf_of_byte (shamir_add (c ! k) (d ! k)) = 0" by (simp add: gf_add)
    then show "c ! k = d ! k" by simp
  qed (use c in simp)
qed

text \<open>Cutting the random tape into one chunk of \<open>m\<close> bytes per secret byte.\<close>

lemma concat_chunk:
  "\<forall>c\<in>set cs. length c = m \<Longrightarrow> k < length cs \<Longrightarrow> take m (drop (k * m) (concat cs)) = cs ! k"
proof (induction cs arbitrary: k)
  case (Cons c cs)
  then show ?case by (cases k) auto
qed simp

lemma length_concat_chunks: "\<forall>c\<in>set cs. length c = m \<Longrightarrow> length (concat cs) = length cs * m"
  by (induction cs) auto

lemma chunks_determine:
  assumes "length xs = n * m" "length ys = n * m"
    and "\<And>k. k < n \<Longrightarrow> take m (drop (k * m) xs) = take m (drop (k * m) ys)"
  shows "xs = ys"
  using assms
proof (induction n arbitrary: xs ys)
  case (Suc n)
  have "take m xs = take m ys" using Suc.prems(3) [of 0] by simp
  moreover have "drop m xs = drop m ys"
  proof (rule Suc.IH)
    show "take m (drop (k * m) (drop m xs)) = take m (drop (k * m) (drop m ys))" if "k < n" for k
      using Suc.prems(3) [of "Suc k"] that by (simp add: add.commute)
  qed (use Suc.prems in auto)
  ultimately show ?case by (metis append_take_drop_id)
qed simp

lemma share_of_eq_iff:
  "length secret' = length secret \<Longrightarrow> share_of t secret random i = share_of t secret' random' i \<longleftrightarrow>
   (\<forall>k<length secret. evaluate (byte_poly t secret random k) (share_byte i)
      = evaluate (byte_poly t secret' random' k) (share_byte i))"
  by (auto simp: share_of_def)

text \<open>
  C15: perfect secrecy below the threshold.  Fix \<open>threshold - 1\<close> shares of a split secret.  For
  every other secret of the same length there is exactly one random tape that splits it into
  shares that agree on these \<open>threshold - 1\<close> places: the shares say nothing about the secret.
\<close>

theorem shares_hide_secret:
  assumes "Split secret parts threshold random = Inr (shares, [])"
    and "length secret' = length secret"
    and "I \<subseteq> {..<length shares}" and "int (card I) = threshold - 1"
  shows "\<exists>!random'. \<exists>shares'. Split secret' parts threshold random' = Inr (shares', []) \<and>
    (\<forall>i\<in>I. shares' ! i = shares ! i)"
proof -
  from Split_Inr [OF assms(1)] obtain t n where tn: "threshold = int t" "parts = int n"
      "2 \<le> t" "t \<le> n" "n \<le> 255" and ne: "secret \<noteq> []"
    and rnd: "length secret * (t - 1) \<le> length random" "drop (length secret * (t - 1)) random = []"
    and sh: "shares = map (share_of t secret random) [0..<n]"
    by metis
  let ?L = "length secret" and ?m = "t - 1"
  have I: "I \<subseteq> {..<255}" "card I = ?m" "\<And>i. i \<in> I \<Longrightarrow> i < n"
    using assms(3,4) sh tn by auto
  have len: "length random = ?L * ?m" using rnd by simp
  have chunk: "length (take ?m (drop (k * ?m) r)) = ?m" if "length r = ?L * ?m" "k < ?L" for r :: reader and k
  proof -
    have "(k + 1) * ?m \<le> ?L * ?m" using that(2) by (intro mult_right_mono) auto
    then show ?thesis using that(1) by simp
  qed
  have ne': "secret' \<noteq> []" using ne assms(2) by (metis length_0_conv)
  have agree: "(\<exists>shares'. Split secret' parts threshold r = Inr (shares', []) \<and> (\<forall>i\<in>I. shares' ! i = shares ! i))
      \<longleftrightarrow> length r = ?L * ?m \<and> (\<forall>k<?L. \<forall>i\<in>I. evaluate (byte_poly t secret' r k) (share_byte i)
        = evaluate (byte_poly t secret random k) (share_byte i))" for r
  proof -
    have "Split secret' parts threshold r = (if length r < ?L * ?m then Inl GeneratePolynomialCoefficients
       else Inr (map (share_of t secret' r) [0..<n], drop (?L * ?m) r))"
      using Split_eq [of secret' t n r] ne' tn assms(2) by simp
    then show ?thesis
      using sh I(3) share_of_eq_iff [OF assms(2) [symmetric], of t r _ random] assms(2) by auto
  qed
  have "\<exists>c. length c = ?m \<and> (\<forall>i\<in>I. evaluate \<lparr>coefficients = secret' ! k # c\<rparr> (share_byte i)
      = evaluate (byte_poly t secret random k) (share_byte i))" if "k < ?L" for k
    unfolding byte_poly_def by (rule sharing_poly_exists [OF I(1,2) chunk [OF len that]])
  then obtain c where c: "\<And>k. k < ?L \<Longrightarrow> length (c k) = ?m"
    "\<And>k i. k < ?L \<Longrightarrow> i \<in> I \<Longrightarrow> evaluate \<lparr>coefficients = secret' ! k # c k\<rparr> (share_byte i)
      = evaluate (byte_poly t secret random k) (share_byte i)"
    by metis
  let ?r = "concat (map c [0..<?L])"
  have cl: "\<forall>x\<in>set (map c [0..<?L]). length x = ?m" using c(1) by auto
  have r: "take ?m (drop (k * ?m) ?r) = c k" if "k < ?L" for k
    using concat_chunk [OF cl, of k] that by simp
  have lr: "length ?r = ?L * ?m" using length_concat_chunks [OF cl] by simp
  show ?thesis
    unfolding agree
  proof (rule ex1I [of _ ?r])
    show "length ?r = ?L * ?m \<and> (\<forall>k<?L. \<forall>i\<in>I. evaluate (byte_poly t secret' ?r k) (share_byte i)
        = evaluate (byte_poly t secret random k) (share_byte i))"
      using lr r c(2) by (simp add: byte_poly_def)
  next
    fix r' assume r': "length r' = ?L * ?m \<and> (\<forall>k<?L. \<forall>i\<in>I. evaluate (byte_poly t secret' r' k) (share_byte i)
        = evaluate (byte_poly t secret random k) (share_byte i))"
    show "r' = ?r"
    proof (rule chunks_determine)
      fix k assume k: "k < ?L"
      show "take ?m (drop (k * ?m) r') = take ?m (drop (k * ?m) ?r)"
        unfolding r [OF k]
        by (rule sharing_poly_unique [OF I(1,2), where v = "secret' ! k"])
          (use r' k chunk c in \<open>auto simp: byte_poly_def\<close>)
    qed (use r' lr in auto)
  qed
qed

section \<open>Concrete runs\<close>

text \<open>Two bytes split three ways with threshold two, and any two of the shares combined.\<close>

lemma example_split:
  "Split [42, 7] 3 2 [200, 9] = Inr (map (share_of 2 [42, 7] [200, 9]) [0..<3], [])"
  using Split_eq [of "[42, 7]" 2 3 "[200, 9]"] by simp

theorem split_combine_witness:
  "\<exists>shares. Split [42, 7] 3 2 [200, 9] = Inr (shares, []) \<and>
     Combine (map (\<lambda>i. shares ! i) [2, 0]) = Inr [42, 7]"
  using split_combine [OF example_split, of "[2, 0]"] example_split by auto

theorem shares_hide_secret_witness:
  "\<exists>shares. Split [42, 7] 3 2 [200, 9] = Inr (shares, []) \<and>
     (\<exists>!random'. \<exists>shares'. Split [1, 255] 3 2 random' = Inr (shares', []) \<and>
       (\<forall>i\<in>{1}. shares' ! i = shares ! i))"
  using shares_hide_secret [OF example_split, of "[1, 255]" "{1}"] example_split by auto

end
