(* ===== verification/AccountBackup.thy ===== *)
theory AccountBackup
  imports Base64 FuzzyVault Shamir
begin

text \<open>
  \<open>sdk/account/types.go\<close> and \<open>sdk/account/validation.go\<close>: the backup of a wallet inventory, the
  locator and envelope of a recovery package, and their validation.  \<open>bip39.IsMnemonicValid\<close>
  (github.com/tyler-smith/go-bip39) is a parameter.
\<close>

section \<open>Types\<close>

datatype account_error =
    ErrInvalidAccountID
  | ErrInvalidPackageID
  | ErrInvalidBackup
  | ErrDuplicateWalletName
  | ErrInvalidRecoveryPackage
  | ErrInvalidShare
  | ErrInsufficientShares
  | ErrRecoveryFailed
  | ErrReadRandom
  | ErrValueLimit
  | ErrShamir shamir_error
  | ErrFuzzy fuzzy_error
  | ErrStrictEncoding
  | ErrQuestionCount
  | ErrInvalidQuestion
  | ErrDuplicateQuestion
  | ErrAnswerLength
  | ErrAnswerConfirmation
  | ErrFewFeatures
  | ErrGuardianOptions
  | ErrGuardianPublicKey
  | ErrGuardianECDH
  | ErrNoRepository
  | ErrRepository
  | ErrCallbacksRequired
  | ErrNotConfirmed
  | ErrCallback

type_synonym RecoveryMode = string
type_synonym ShareRole = string

definition RecoveryMode2Of2 :: RecoveryMode where "RecoveryMode2Of2 = ''2of2''"
definition RecoveryMode2Of3 :: RecoveryMode where "RecoveryMode2Of3 = ''2of3''"

record SubAccount =
  sa_Index :: "32 word"
  sa_Name :: string
  sa_DID :: string

record WalletBackup =
  wb_Name :: string
  wb_Mnemonic :: string
  wb_AccountCount :: "32 word"
  wb_SubAccounts :: "SubAccount list"

record Backup =
  bk_Version :: "32 word"
  bk_Wallets :: "WalletBackup list"

record Locator =
  loc_Version :: "32 word"
  loc_AccountID :: string
  loc_PackageID :: string
  loc_RecoveryMode :: RecoveryMode

record EncryptedBlob =
  eb_Algorithm :: string
  eb_Nonce :: string
  eb_Ciphertext :: string

record Envelope =
  env_Version :: "32 word"
  env_Locator :: Locator
  env_EncryptedBackup :: EncryptedBlob

record GuardianReference =
  gr_MailboxID :: string
  gr_ShareID :: string
  gr_CapsuleHash :: string

record Manifest =
  mf_Version :: "32 word"
  mf_Locator :: Locator
  mf_Threshold :: byte
  mf_Total :: byte
  mf_EnvelopeHash :: string
  mf_CreatedAt :: int
  mf_Guardian :: "GuardianReference option"

record WalletSummary =
  ws_Name :: string
  ws_AccountCount :: "32 word"
  ws_DIDs :: "string list"

record RecoverySummary =
  rs_AccountID :: string
  rs_PackageID :: string
  rs_RecoveryMode :: RecoveryMode
  rs_Wallets :: "WalletSummary list"

section \<open>Hexadecimal Fields and locators\<close>

definition validHex :: "string \<Rightarrow> nat \<Rightarrow> bool" where
  "validHex value n = (length value = n \<and> hexDecode value \<noteq> None \<and> value = toLower value)"

definition ValidateLocator :: "Locator \<Rightarrow> account_error + unit" where
  "ValidateLocator locator =
     check (loc_Version locator \<noteq> 1 \<or> \<not> validHex (loc_AccountID locator) 64) ErrInvalidAccountID
      (check (\<not> validHex (loc_PackageID locator) 32) ErrInvalidPackageID
        (check (loc_RecoveryMode locator \<noteq> RecoveryMode2Of2 \<and> loc_RecoveryMode locator \<noteq> RecoveryMode2Of3)
          ErrInvalidRecoveryPackage (Inr ())))"

definition validateEncryptedBlob :: "EncryptedBlob \<Rightarrow> account_error + unit" where
  "validateEncryptedBlob value =
     check (eb_Algorithm value \<noteq> ''aes-256-gcm'' \<or> eb_Nonce value = '''' \<or> eb_Ciphertext value = '''')
       ErrInvalidRecoveryPackage (Inr ())"

definition validateEnvelope :: "Envelope \<Rightarrow> account_error + unit" where
  "validateEnvelope value =
     check (env_Version value \<noteq> 1) ErrInvalidRecoveryPackage
      (rbind (ValidateLocator (env_Locator value)) (\<lambda>_. validateEncryptedBlob (env_EncryptedBackup value)))"

definition validateManifest :: "Manifest \<Rightarrow> Locator \<Rightarrow> account_error + unit" where
  "validateManifest value locator =
     check (mf_Version value \<noteq> 1 \<or> mf_Locator value \<noteq> locator \<or> mf_Threshold value \<noteq> 2
         \<or> \<not> validHex (mf_EnvelopeHash value) 64) ErrInvalidRecoveryPackage
      (let expected = (if loc_RecoveryMode locator = RecoveryMode2Of3 then 3 else 2)
       in check (mf_Total value \<noteq> expected) ErrInvalidRecoveryPackage (Inr ()))"

text \<open>
  \<open>canonicalHash\<close> hashes the JSON of a value; \<open>json\<close> (the marshalled value) and \<open>sha256\<close> are
  parameters.
\<close>

definition canonicalHash :: "(byte list \<Rightarrow> byte list) \<Rightarrow> byte list \<Rightarrow> string" where
  "canonicalHash sha256 encoded = hexEncode (sha256 encoded)"

definition HashEnvelope ::
    "(byte list \<Rightarrow> byte list) \<Rightarrow> (Envelope \<Rightarrow> byte list) \<Rightarrow> Envelope \<Rightarrow> account_error + string" where
  "HashEnvelope sha256 json value =
     rbind (validateEnvelope value) (\<lambda>_. Inr (canonicalHash sha256 (json value)))"

section \<open>Backups\<close>

definition normalizeSpace :: "string \<Rightarrow> string" where
  "normalizeSpace value = join '' '' (Fields (trimSpace value))"

text \<open>\<open>%d\<close> of an unsigned value.\<close>

function decimal :: "nat \<Rightarrow> string" where
  "decimal n = (if n < 10 then [hexDigit n] else decimal (n div 10) @ [hexDigit (n mod 10)])"
  by pat_completeness auto
termination
  by (relation "measure id") auto

declare decimal.simps [simp del]

definition defaultAccountName :: "32 word \<Rightarrow> string" where
  "defaultAccountName index = ''Account '' @ decimal (unat (index + 1))"

text \<open>
  The loop over the sub-accounts of one wallet, with the maps \<open>seenIndex\<close> and \<open>seenDID\<close> as lists;
  it also returns the final \<open>seenIndex\<close>.
\<close>

fun normalizeSubAccounts :: "32 word \<Rightarrow> 32 word list \<Rightarrow> string list \<Rightarrow> SubAccount list
    \<Rightarrow> account_error + (SubAccount list \<times> 32 word list)" where
  "normalizeSubAccounts count seenIndex seenDID [] = Inr ([], seenIndex)"
| "normalizeSubAccounts count seenIndex seenDID (sub # subs) =
     (let name = normalizeSpace (sa_Name sub);
          name = (if name = '''' then defaultAccountName (sa_Index sub) else name);
          did = normalizeSpace (sa_DID sub)
      in check (sa_Index sub \<ge> count) ErrInvalidBackup
          (check (sa_Index sub \<in> set seenIndex) ErrInvalidBackup
            (check (did \<noteq> '''' \<and> did \<in> set seenDID) ErrInvalidBackup
              (rbind (normalizeSubAccounts count (sa_Index sub # seenIndex)
                  (if did \<noteq> '''' then did # seenDID else seenDID) subs) (\<lambda>(out, seen).
                Inr (\<lparr>sa_Index = sa_Index sub, sa_Name = name, sa_DID = did\<rparr> # out, seen))))))"

text \<open>One iteration of the loop over the wallets; \<open>bip39\<close> is \<open>bip39.IsMnemonicValid\<close>.\<close>

definition normalizeWallet :: "(string \<Rightarrow> bool) \<Rightarrow> string list \<Rightarrow> WalletBackup \<Rightarrow> account_error + WalletBackup" where
  "normalizeWallet bip39 walletNames wallet =
     (let name = normalizeSpace (wb_Name wallet);
          mnemonic = normalizeSpace (wb_Mnemonic wallet)
      in check (name = '''' \<or> \<not> bip39 mnemonic \<or> wb_AccountCount wallet = 0
            \<or> unat (wb_AccountCount wallet) \<noteq> length (wb_SubAccounts wallet)) ErrInvalidBackup
          (check (name \<in> set walletNames) ErrDuplicateWalletName
            (rbind (normalizeSubAccounts (wb_AccountCount wallet) [] [] (wb_SubAccounts wallet)) (\<lambda>(subs, seenIndex).
              check (list_ex (\<lambda>i. of_nat i \<notin> set seenIndex) [0..<unat (wb_AccountCount wallet)]) ErrInvalidBackup
                (Inr \<lparr>wb_Name = name, wb_Mnemonic = mnemonic, wb_AccountCount = wb_AccountCount wallet,
                      wb_SubAccounts = subs\<rparr>)))))"

fun normalizeWallets :: "(string \<Rightarrow> bool) \<Rightarrow> string list \<Rightarrow> WalletBackup list
    \<Rightarrow> account_error + WalletBackup list" where
  "normalizeWallets bip39 walletNames [] = Inr []"
| "normalizeWallets bip39 walletNames (wallet # wallets) =
     rbind (normalizeWallet bip39 walletNames wallet) (\<lambda>out.
       rbind (normalizeWallets bip39 (wb_Name out # walletNames) wallets) (\<lambda>outs. Inr (out # outs)))"

definition NormalizeBackup :: "(string \<Rightarrow> bool) \<Rightarrow> Backup \<Rightarrow> account_error + Backup" where
  "NormalizeBackup bip39 value =
     check (bk_Version value \<noteq> 1 \<or> bk_Wallets value = []) ErrInvalidBackup
      (rbind (normalizeWallets bip39 [] (bk_Wallets value)) (\<lambda>wallets.
        Inr \<lparr>bk_Version = 1, bk_Wallets = wallets\<rparr>))"

definition zeroSubAccount :: SubAccount where
  "zeroSubAccount = \<lparr>sa_Index = 0, sa_Name = '''', sa_DID = ''''\<rparr>"

definition RootBootstrapBackup :: "(string \<Rightarrow> bool) \<Rightarrow> Backup \<Rightarrow> account_error + Backup" where
  "RootBootstrapBackup bip39 value =
     rbind (NormalizeBackup bip39 value) (\<lambda>normalized.
       let root = bk_Wallets normalized ! 0;
           rootAccount = (case find (\<lambda>sub. sa_Index sub = 0) (wb_SubAccounts root) of
                            None \<Rightarrow> zeroSubAccount | Some sub \<Rightarrow> sub)
       in Inr \<lparr>bk_Version = 1,
               bk_Wallets = [root\<lparr>wb_AccountCount := 1, wb_SubAccounts := [rootAccount]\<rparr>]\<rparr>)"

definition SummarizeBackup :: "Locator \<Rightarrow> Backup \<Rightarrow> RecoverySummary" where
  "SummarizeBackup locator backup =
     \<lparr>rs_AccountID = loc_AccountID locator, rs_PackageID = loc_PackageID locator,
      rs_RecoveryMode = loc_RecoveryMode locator,
      rs_Wallets = map (\<lambda>wallet. \<lparr>ws_Name = wb_Name wallet, ws_AccountCount = wb_AccountCount wallet,
                          ws_DIDs = map sa_DID (wb_SubAccounts wallet)\<rparr>) (bk_Wallets backup)\<rparr>"

section \<open>Normal forms\<close>

lemma normalizeSpace_words: "\<exists>ws. normalizeSpace s = join '' '' ws \<and> (\<forall>w\<in>set ws. is_word w)"
  using fields_words by (auto simp: normalizeSpace_def)

lemma normalizeSpace_join: "\<forall>w\<in>set ws. is_word w \<Longrightarrow> normalizeSpace (join '' '' ws) = join '' '' ws"
  by (simp add: normalizeSpace_def trim_words fields_join)

lemma normalizeSpace_idem [simp]: "normalizeSpace (normalizeSpace s) = normalizeSpace s"
  using normalizeSpace_words [of s] normalizeSpace_join by auto

lemma decimal_hex: "c \<in> set (decimal n) \<Longrightarrow> hexVal c \<noteq> None"
proof (induction n rule: decimal.induct)
  case (1 n)
  have h: "hexVal (hexDigit m) \<noteq> None" if "m < 10" for m using that by (simp add: hexVal_hexDigit)
  show ?case
  proof (cases "n < 10")
    case True
    then show ?thesis using "1.prems" h by (simp add: decimal.simps [of n])
  next
    case False
    then show ?thesis using 1 h [of "n mod 10"] by (auto simp: decimal.simps [of n])
  qed
qed

lemma decimal_nonempty [simp]: "decimal n \<noteq> []"
  by (simp add: decimal.simps [of n])

lemma is_word_Account: "is_word ''Account''"
  by (rule is_word_printable) (auto simp: printable_def)

lemma defaultAccountName_normal:
  "normalizeSpace (defaultAccountName i) = defaultAccountName i" "defaultAccountName i \<noteq> []"
proof -
  have "defaultAccountName i = join '' '' [''Account'', decimal (unat (i + 1))]"
    by (simp add: defaultAccountName_def)
  moreover have "is_word (decimal (unat (i + 1)))"
    using decimal_hex by (intro is_word_hex) auto
  ultimately show "normalizeSpace (defaultAccountName i) = defaultAccountName i"
    using normalizeSpace_join [of "[''Account'', decimal (unat (i + 1))]"] is_word_Account by auto
  show "defaultAccountName i \<noteq> []" by (simp add: defaultAccountName_def)
qed

text \<open>What a normalised sub-account list, wallet and backup are.\<close>

definition normal_sub :: "SubAccount \<Rightarrow> bool" where
  "normal_sub sub \<longleftrightarrow> sa_Name sub \<noteq> '''' \<and> normalizeSpace (sa_Name sub) = sa_Name sub
     \<and> normalizeSpace (sa_DID sub) = sa_DID sub"

definition normal_subs :: "32 word \<Rightarrow> SubAccount list \<Rightarrow> bool" where
  "normal_subs count subs \<longleftrightarrow> (\<forall>sub\<in>set subs. normal_sub sub \<and> sa_Index sub < count)
     \<and> distinct (map sa_Index subs) \<and> distinct (filter (\<lambda>d. d \<noteq> '''') (map sa_DID subs))"

definition normal_wallet :: "(string \<Rightarrow> bool) \<Rightarrow> WalletBackup \<Rightarrow> bool" where
  "normal_wallet bip39 wallet \<longleftrightarrow> wb_Name wallet \<noteq> '''' \<and> normalizeSpace (wb_Name wallet) = wb_Name wallet
     \<and> normalizeSpace (wb_Mnemonic wallet) = wb_Mnemonic wallet \<and> bip39 (wb_Mnemonic wallet)
     \<and> wb_AccountCount wallet \<noteq> 0 \<and> unat (wb_AccountCount wallet) = length (wb_SubAccounts wallet)
     \<and> normal_subs (wb_AccountCount wallet) (wb_SubAccounts wallet)"

definition normal_backup :: "(string \<Rightarrow> bool) \<Rightarrow> Backup \<Rightarrow> bool" where
  "normal_backup bip39 b \<longleftrightarrow> bk_Version b = 1 \<and> bk_Wallets b \<noteq> []
     \<and> (\<forall>w\<in>set (bk_Wallets b). normal_wallet bip39 w) \<and> distinct (map wb_Name (bk_Wallets b))"

lemma normalizeSubAccounts_normal:
  assumes "normalizeSubAccounts count si sd subs = Inr (out, seen)"
  shows "normal_subs count out \<and> map sa_Index out = map sa_Index subs \<and> set seen = set si \<union> sa_Index ` set subs
    \<and> set si \<inter> sa_Index ` set out = {} \<and> set sd \<inter> {d \<in> sa_DID ` set out. d \<noteq> ''''} = {}"
  using assms
proof (induction subs arbitrary: si sd out seen)
  case Nil
  then show ?case by (simp add: normal_subs_def)
next
  case (Cons sub subs)
  define did where "did = normalizeSpace (sa_DID sub)"
  define name where "name = (if normalizeSpace (sa_Name sub) = '''' then defaultAccountName (sa_Index sub)
      else normalizeSpace (sa_Name sub))"
  let ?sd = "if did \<noteq> '''' then did # sd else sd"
  obtain out' where r: "normalizeSubAccounts count (sa_Index sub # si) ?sd subs = Inr (out', seen)"
    and out: "out = \<lparr>sa_Index = sa_Index sub, sa_Name = name, sa_DID = did\<rparr> # out'"
    and c: "sa_Index sub < count" "sa_Index sub \<notin> set si" "did = '''' \<or> did \<notin> set sd"
    using Cons.prems by (auto simp: Let_def result_simps did_def name_def not_le cong: if_cong)
  have n: "normal_sub \<lparr>sa_Index = sa_Index sub, sa_Name = name, sa_DID = did\<rparr>"
    using defaultAccountName_normal by (auto simp: normal_sub_def name_def did_def)
  note IH = Cons.IH [OF r]
  have "did \<notin> sa_DID ` set out'" if "did \<noteq> ''''" using IH that by auto
  moreover have i: "sa_Index sub \<notin> sa_Index ` set out'" using IH by auto
  moreover have "sa_Index sub \<notin> sa_Index ` set subs"
    using i IH by (metis list.set_map)
  ultimately show ?case
    using IH n c unfolding out by (auto simp: normal_subs_def split: if_splits)
qed

lemma normal_subs_fixed:
  assumes "normal_subs count subs" "set si \<inter> sa_Index ` set subs = {}"
    "\<And>d. d \<in> set sd \<Longrightarrow> d \<noteq> '''' \<Longrightarrow> d \<notin> sa_DID ` set subs"
  shows "\<exists>seen. normalizeSubAccounts count si sd subs = Inr (subs, seen)"
  using assms
proof (induction subs arbitrary: si sd)
  case (Cons sub subs)
  define sd' where "sd' = (if sa_DID sub \<noteq> '''' then sa_DID sub # sd else sd)"
  have n: "normal_sub sub" "sa_Index sub < count" "normal_subs count subs"
    "sa_Index sub \<notin> sa_Index ` set subs" "sa_DID sub \<noteq> '''' \<Longrightarrow> sa_DID sub \<notin> sa_DID ` set subs"
    using Cons.prems(1) unfolding normal_subs_def by (simp_all split: if_splits)
  have si: "set (sa_Index sub # si) \<inter> sa_Index ` set subs = {}" using Cons.prems(2) n(4) by simp
  have sd: "d \<notin> sa_DID ` set subs" if d: "d \<in> set sd'" "d \<noteq> ''''" for d
  proof (cases "d = sa_DID sub")
    case True
    then show ?thesis using n(5) d(2) by simp
  next
    case False
    then have "d \<in> set sd" using d(1) by (auto simp: sd'_def split: if_splits)
    then show ?thesis using Cons.prems(3) [of d] d(2) by simp
  qed
  obtain seen where s: "normalizeSubAccounts count (sa_Index sub # si) sd' subs = Inr (subs, seen)"
    using Cons.IH [OF n(3) si sd] by blast
  have c: "\<not> sa_Index sub \<ge> count" "sa_Index sub \<notin> set si" using n(2) Cons.prems(2) by auto
  have d: "\<not> (sa_DID sub \<noteq> '''' \<and> sa_DID sub \<in> set sd)"
    using Cons.prems(3) [of "sa_DID sub"] by auto
  have nn: "normalizeSpace (sa_Name sub) = sa_Name sub" "sa_Name sub \<noteq> ''''"
    "normalizeSpace (sa_DID sub) = sa_DID sub" using n(1) by (simp_all add: normal_sub_def)
  have "normalizeSubAccounts count si sd (sub # subs) = Inr (sub # subs, seen)"
    unfolding normalizeSubAccounts.simps Let_def nn(1,3) sd'_def [symmetric] s
    using c d nn(2) by (simp add: check_def)
  then show ?case by blast
qed simp

lemma unat_of_nat_below: "n < unat (c :: 'a::len word) \<Longrightarrow> unat (of_nat n :: 'a word) = n"
  using unsigned_less [of c, where ?'a = nat] by (simp add: unat_of_nat order_less_trans)

lemma indexes_complete:
  assumes "normal_subs count subs" "unat count = length subs"
  shows "sa_Index ` set subs = {i. i < count}"
proof (rule card_subset_eq)
  show "sa_Index ` set subs \<subseteq> {i. i < count}" using assms(1) by (auto simp: normal_subs_def)
  have "unat ` {i. i < count} = {..<unat count}"
  proof
    show "{..<unat count} \<subseteq> unat ` {i. i < count}"
    proof
      fix n assume "n \<in> {..<unat count}"
      then have "unat (of_nat n :: 32 word) = n" "(of_nat n :: 32 word) < count"
        by (simp_all add: unat_of_nat_below word_less_nat_alt)
      then show "n \<in> unat ` {i. i < count}" by (metis image_eqI mem_Collect_eq)
    qed
  qed (auto simp: word_less_nat_alt)
  moreover have "card (unat ` {i. i < count}) = card {i. i < count}"
    by (intro card_image) (auto simp: inj_on_def word_unat_eq_iff)
  ultimately have "card {i. i < count} = unat count" by simp
  moreover have "card (sa_Index ` set subs) = length subs"
    using assms(1) by (metis distinct_card length_map list.set_map normal_subs_def)
  ultimately show "card (sa_Index ` set subs) = card {i. i < count}" using assms(2) by simp
qed simp

lemma normalizeWallet_normal:
  assumes "normalizeWallet bip39 names w = Inr out"
  shows "normal_wallet bip39 out" "wb_Name out \<notin> set names"
proof -
  obtain subs seen where s: "normalizeSubAccounts (wb_AccountCount w) [] [] (wb_SubAccounts w) = Inr (subs, seen)"
    and o: "out = \<lparr>wb_Name = normalizeSpace (wb_Name w), wb_Mnemonic = normalizeSpace (wb_Mnemonic w),
        wb_AccountCount = wb_AccountCount w, wb_SubAccounts = subs\<rparr>"
    and c: "normalizeSpace (wb_Name w) \<noteq> ''''" "bip39 (normalizeSpace (wb_Mnemonic w))"
      "wb_AccountCount w \<noteq> 0" "unat (wb_AccountCount w) = length (wb_SubAccounts w)"
      "normalizeSpace (wb_Name w) \<notin> set names"
    using assms by (auto simp: normalizeWallet_def Let_def result_simps)
  have "normal_subs (wb_AccountCount w) subs" "map sa_Index subs = map sa_Index (wb_SubAccounts w)"
    using normalizeSubAccounts_normal [OF s] by simp_all
  then show "normal_wallet bip39 out" "wb_Name out \<notin> set names"
    using c map_eq_imp_length_eq by (force simp: o normal_wallet_def)+
qed

lemma normal_wallet_fixed:
  assumes "normal_wallet bip39 w" "wb_Name w \<notin> set names"
  shows "normalizeWallet bip39 names w = Inr w"
proof -
  have w: "normal_subs (wb_AccountCount w) (wb_SubAccounts w)"
    "unat (wb_AccountCount w) = length (wb_SubAccounts w)" using assms(1) by (simp_all add: normal_wallet_def)
  obtain seen where s: "normalizeSubAccounts (wb_AccountCount w) [] [] (wb_SubAccounts w) = Inr (wb_SubAccounts w, seen)"
    using normal_subs_fixed [OF w(1), of "[]" "[]"] by auto
  have "set seen = sa_Index ` set (wb_SubAccounts w)" using normalizeSubAccounts_normal [OF s] by simp
  then have seen: "set seen = {i. i < wb_AccountCount w}" using indexes_complete [OF w] by simp
  have "of_nat i \<in> set seen" if "i < unat (wb_AccountCount w)" for i
    unfolding seen using that by (simp add: word_less_nat_alt unat_of_nat_below)
  then have "\<not> list_ex (\<lambda>i. of_nat i \<notin> set seen) [0..<unat (wb_AccountCount w)]"
    by (auto simp: list_ex_iff)
  then show ?thesis
    using assms s by (simp add: normalizeWallet_def normal_wallet_def check_def)
qed

lemma normalizeWallets_normal:
  assumes "normalizeWallets bip39 names ws = Inr out"
  shows "(\<forall>w\<in>set out. normal_wallet bip39 w) \<and> distinct (map wb_Name out)
    \<and> set names \<inter> wb_Name ` set out = {} \<and> length out = length ws"
  using assms
proof (induction ws arbitrary: names out)
  case (Cons w ws)
  then obtain o1 os where o: "normalizeWallet bip39 names w = Inr o1"
    "normalizeWallets bip39 (wb_Name o1 # names) ws = Inr os" "out = o1 # os"
    by (auto simp: result_simps)
  then show ?case using Cons.IH [OF o(2)] normalizeWallet_normal [OF o(1)] by auto
qed simp

lemma normal_wallets_fixed:
  assumes "\<forall>w\<in>set ws. normal_wallet bip39 w" "distinct (map wb_Name ws)" "set names \<inter> wb_Name ` set ws = {}"
  shows "normalizeWallets bip39 names ws = Inr ws"
  using assms
proof (induction ws arbitrary: names)
  case (Cons w ws)
  then have "normalizeWallets bip39 (wb_Name w # names) ws = Inr ws" by (intro Cons.IH) auto
  then show ?case using Cons.prems normal_wallet_fixed [of bip39 w names] by simp
qed simp

lemma NormalizeBackup_normal: "NormalizeBackup bip39 b = Inr b' \<Longrightarrow> normal_backup bip39 b'"
  using normalizeWallets_normal [of bip39 "[]" "bk_Wallets b"]
  by (auto simp: NormalizeBackup_def normal_backup_def result_simps)

lemma normal_backup_fixed: "normal_backup bip39 b \<Longrightarrow> NormalizeBackup bip39 b = Inr b"
  by (cases b) (simp add: NormalizeBackup_def normal_backup_def normal_wallets_fixed)

section \<open>The properties\<close>

text \<open>
  C35: \<open>NormalizeBackup\<close> ends in a normal form: what it returns satisfies the inventory invariant
  (clean non-empty unique wallet names, valid mnemonics, non-empty unique DIDs, account indexes
  that are exactly \<open>0 \<dots> AccountCount - 1\<close>) and is left unchanged by a second normalisation.
\<close>

theorem backup_normal_form:
  assumes "NormalizeBackup bip39 b = Inr b'"
  shows "normal_backup bip39 b' \<and> NormalizeBackup bip39 b' = Inr b'
    \<and> (\<forall>w\<in>set (bk_Wallets b'). sa_Index ` set (wb_SubAccounts w) = {i. i < wb_AccountCount w})"
proof -
  have n: "normal_backup bip39 b'" by (rule NormalizeBackup_normal [OF assms])
  then have "\<forall>w\<in>set (bk_Wallets b'). sa_Index ` set (wb_SubAccounts w) = {i. i < wb_AccountCount w}"
    by (auto simp: normal_backup_def normal_wallet_def indexes_complete)
  then show ?thesis using n normal_backup_fixed by blast
qed

definition demo_backup :: Backup where
  "demo_backup = \<lparr>bk_Version = 1, bk_Wallets = [\<lparr>wb_Name = '' M'', wb_Mnemonic = ''a  b'',
     wb_AccountCount = 2, wb_SubAccounts = [\<lparr>sa_Index = 1, sa_Name = '' '', sa_DID = ''''\<rparr>,
       \<lparr>sa_Index = 0, sa_Name = ''f'', sa_DID = ''d ''\<rparr>]\<rparr>]\<rparr>"

definition demo_normalized :: Backup where
  "demo_normalized = \<lparr>bk_Version = 1, bk_Wallets = [\<lparr>wb_Name = ''M'', wb_Mnemonic = ''a b'',
     wb_AccountCount = 2, wb_SubAccounts = [\<lparr>sa_Index = 1, sa_Name = ''Account 2'', sa_DID = ''''\<rparr>,
       \<lparr>sa_Index = 0, sa_Name = ''f'', sa_DID = ''d''\<rparr>]\<rparr>]\<rparr>"

lemma demo_normalize_backup: "NormalizeBackup (\<lambda>m. m = ''a b'') demo_backup = Inr demo_normalized"
  by code_simp

theorem backup_normal_form_witness:
  "normal_backup (\<lambda>m. m = ''a b'') demo_normalized
    \<and> NormalizeBackup (\<lambda>m. m = ''a b'') demo_normalized = Inr demo_normalized
    \<and> sa_Index ` set (wb_SubAccounts (hd (bk_Wallets demo_normalized))) = {i. i < 2}"
proof -
  have "hd (bk_Wallets demo_normalized) \<in> set (bk_Wallets demo_normalized)"
    "wb_AccountCount (hd (bk_Wallets demo_normalized)) = 2" by (simp_all add: demo_normalized_def)
  then show ?thesis using backup_normal_form [OF demo_normalize_backup] by metis
qed

text \<open>
  The bootstrap backup is a one-wallet, one-account backup of the first wallet that
  \<open>NormalizeBackup\<close> accepts as it is; account 0 is always found, so the zero value of
  \<open>rootAccount\<close> is never published.
\<close>

theorem bootstrap_backup_valid:
  assumes "NormalizeBackup bip39 b = Inr b'"
  shows "\<exists>sub. sub \<in> set (wb_SubAccounts (hd (bk_Wallets b'))) \<and> sa_Index sub = 0
    \<and> RootBootstrapBackup bip39 b = Inr \<lparr>bk_Version = 1, bk_Wallets =
        [(hd (bk_Wallets b'))\<lparr>wb_AccountCount := 1, wb_SubAccounts := [sub]\<rparr>]\<rparr>
    \<and> NormalizeBackup bip39 \<lparr>bk_Version = 1, bk_Wallets =
        [(hd (bk_Wallets b'))\<lparr>wb_AccountCount := 1, wb_SubAccounts := [sub]\<rparr>]\<rparr>
      = Inr \<lparr>bk_Version = 1, bk_Wallets =
        [(hd (bk_Wallets b'))\<lparr>wb_AccountCount := 1, wb_SubAccounts := [sub]\<rparr>]\<rparr>"
proof -
  have n: "normal_backup bip39 b'" by (rule NormalizeBackup_normal [OF assms])
  obtain w ws where w: "bk_Wallets b' = w # ws" using n by (cases "bk_Wallets b'") (auto simp: normal_backup_def)
  have nw: "normal_wallet bip39 w" using n w by (simp add: normal_backup_def)
  then have "sa_Index ` set (wb_SubAccounts w) = {i. i < wb_AccountCount w}" "wb_AccountCount w \<noteq> 0"
    using indexes_complete by (simp_all add: normal_wallet_def)
  then have "0 \<in> sa_Index ` set (wb_SubAccounts w)" by (simp add: word_gt_0)
  then obtain sub where f: "find (\<lambda>sub. sa_Index sub = 0) (wb_SubAccounts w) = Some sub"
    by (cases "find (\<lambda>sub. sa_Index sub = 0) (wb_SubAccounts w)") (auto simp: find_None_iff)
  then have sub: "sub \<in> set (wb_SubAccounts w)" "sa_Index sub = 0" by (auto simp: find_Some_iff)
  then have "normal_sub sub" using nw by (auto simp: normal_wallet_def normal_subs_def)
  then have "normal_wallet bip39 (w\<lparr>wb_AccountCount := 1, wb_SubAccounts := [sub]\<rparr>)"
    using nw sub by (simp add: normal_wallet_def normal_subs_def)
  then have "normal_backup bip39 \<lparr>bk_Version = 1, bk_Wallets = [w\<lparr>wb_AccountCount := 1, wb_SubAccounts := [sub]\<rparr>]\<rparr>"
    by (simp add: normal_backup_def)
  from normal_backup_fixed [OF this] show ?thesis
    using assms w f sub by (intro exI [of _ sub]) (simp add: RootBootstrapBackup_def)
qed

theorem bootstrap_backup_valid_witness:
  "\<exists>sub. sub \<in> set (wb_SubAccounts (hd (bk_Wallets demo_normalized))) \<and> sa_Index sub = 0
    \<and> RootBootstrapBackup (\<lambda>m. m = ''a b'') demo_backup = Inr \<lparr>bk_Version = 1, bk_Wallets =
        [(hd (bk_Wallets demo_normalized))\<lparr>wb_AccountCount := 1, wb_SubAccounts := [sub]\<rparr>]\<rparr>
    \<and> NormalizeBackup (\<lambda>m. m = ''a b'') \<lparr>bk_Version = 1, bk_Wallets =
        [(hd (bk_Wallets demo_normalized))\<lparr>wb_AccountCount := 1, wb_SubAccounts := [sub]\<rparr>]\<rparr>
      = Inr \<lparr>bk_Version = 1, bk_Wallets =
        [(hd (bk_Wallets demo_normalized))\<lparr>wb_AccountCount := 1, wb_SubAccounts := [sub]\<rparr>]\<rparr>"
  by (rule bootstrap_backup_valid [OF demo_normalize_backup])

end
