(* ===== verification/ManagedState.thy ===== *)
theory ManagedState
  imports AccountBackup "HOL-Library.Product_Lexorder"
begin

text \<open>
  \<open>sdk/account/state.go\<close>: the managed account state (the wallet inventory of an account with its
  revision), its normalisation, its binary encoding and its sealed form, together with the key
  derivation of \<open>sdk/account/crypto.go\<close>.  HMAC-SHA256, AES-256-GCM and DEFLATE are the functions of
  the record \<open>crypto\<close>.
\<close>

section \<open>Cryptographic parameters\<close>

text \<open>
  \<open>hmacSHA256 key msg\<close>; \<open>gcmSeal key nonce plaintext aad\<close> and its partial inverse \<open>gcmOpen\<close>;
  \<open>deflate\<close>/\<open>inflate\<close> are the whole-buffer forms of \<open>compress/flate\<close>, \<open>zlibPack\<close>/\<open>zlibUnpack\<close> of
  \<open>compress/zlib\<close>; \<open>sha256\<close>.
\<close>

record crypto =
  hmacSHA256 :: "byte list \<Rightarrow> byte list \<Rightarrow> byte list"
  sha256 :: "byte list \<Rightarrow> byte list"
  gcmSeal :: "byte list \<Rightarrow> byte list \<Rightarrow> byte list \<Rightarrow> byte list \<Rightarrow> byte list"
  gcmOpen :: "byte list \<Rightarrow> byte list \<Rightarrow> byte list \<Rightarrow> byte list \<Rightarrow> byte list option"
  deflate :: "byte list \<Rightarrow> byte list"
  inflate :: "byte list \<Rightarrow> byte list option"
  zlibPack :: "byte list \<Rightarrow> byte list"
  zlibUnpack :: "byte list \<Rightarrow> byte list option"

text \<open>
  The documented behaviour the code relies on: opening with the same key, nonce and additional
  data returns the plaintext, a sealed text is 16 bytes longer than the plaintext, and
  decompression inverts compression.
\<close>

definition crypto_laws :: "crypto \<Rightarrow> bool" where
  "crypto_laws C \<longleftrightarrow>
     (\<forall>k n p a. gcmOpen C k n (gcmSeal C k n p a) a = Some p \<and> length (gcmSeal C k n p a) = length p + 16)
     \<and> (\<forall>x. inflate C (deflate C x) = Some x) \<and> (\<forall>x. zlibUnpack C (zlibPack C x) = Some x)"

definition gcmNonceSize :: nat where "gcmNonceSize = 12"
definition gcmOverhead :: nat where "gcmOverhead = 16"

text \<open>
  \<open>hkdfSHA256\<close>: the expand loop appends one MAC per round until \<open>size\<close> bytes are there; the
  counter is a byte.  Every round adds at least one byte, so \<open>size\<close> rounds are enough
  (\<open>hkdf_length\<close> below).
\<close>

fun hkdf_loop :: "nat \<Rightarrow> crypto \<Rightarrow> byte list \<Rightarrow> byte list \<Rightarrow> nat \<Rightarrow> byte \<Rightarrow> byte list \<Rightarrow> byte list \<Rightarrow> byte list" where
  "hkdf_loop 0 C prk info n counter previous out = out"
| "hkdf_loop (Suc fuel) C prk info n counter previous out =
     (if length out < n
      then (let previous = hmacSHA256 C prk (previous @ info @ [counter])
            in hkdf_loop fuel C prk info n (counter + 1) previous (out @ previous))
      else out)"

definition hkdfSHA256 :: "crypto \<Rightarrow> byte list \<Rightarrow> byte list \<Rightarrow> byte list \<Rightarrow> nat \<Rightarrow> byte list" where
  "hkdfSHA256 C secret salt info n =
     (let prk = hmacSHA256 C salt secret in take n (hkdf_loop n C prk info n 1 [] []))"

lemma hkdf_loop_length:
  assumes "\<And>k m. hmacSHA256 C k m \<noteq> []" and "n \<le> fuel + length out"
  shows "n \<le> length (hkdf_loop fuel C prk info n counter previous out)"
  using assms(2)
proof (induction fuel arbitrary: counter previous out)
  case (Suc fuel)
  have "0 < length (hmacSHA256 C prk (previous @ info @ [counter]))" using assms(1) by simp
  then have "n \<le> fuel + length (out @ hmacSHA256 C prk (previous @ info @ [counter]))"
    using Suc.prems unfolding length_append by linarith
  then show ?case using Suc.IH by (simp add: Let_def del: append_assoc length_append)
qed simp

lemma hkdf_length:
  "(\<And>k m. hmacSHA256 C k m \<noteq> []) \<Longrightarrow> length (hkdfSHA256 C secret salt info n) = n"
  using hkdf_loop_length [of C n n "[]"] by (simp add: hkdfSHA256_def Let_def)

section \<open>The state\<close>

record ManagedWallet =
  mw_Fingerprint :: string
  mw_Revision :: "64 word"
  mw_Deleted :: bool
  mw_Name :: string
  mw_Mnemonic :: string
  mw_AccountCount :: "32 word"
  mw_SubAccounts :: "SubAccount list"

record ManagedState =
  ms_Version :: "32 word"
  ms_RootFingerprint :: string
  ms_Revision :: "64 word"
  ms_DataRevision :: "64 word"
  ms_DataHash :: string
  ms_Wallets :: "ManagedWallet list"

definition managedStateMaxItems :: nat where "managedStateMaxItems = 1024"
definition managedStateMaxString :: nat where "managedStateMaxString = 4096"
definition MaxRecoveryObjectSize :: nat where "MaxRecoveryObjectSize = 10 * 1024"

section \<open>Normalisation\<close>

text \<open>\<open>hex.DecodeString(strings.TrimSpace(s))\<close> with the length check that follows every use.\<close>

definition decodeFingerprint :: "string \<Rightarrow> byte list option" where
  "decodeFingerprint s =
     (case hexDecode (trimSpace s) of
        None \<Rightarrow> None
      | Some bs \<Rightarrow> if length bs \<noteq> 32 then None else Some bs)"

definition normalizeDataHash :: "64 word \<Rightarrow> string \<Rightarrow> account_error + string" where
  "normalizeDataHash dataRevision dataHash =
     (let hash = toLower (trimSpace dataHash)
      in if dataRevision = 0 then check (hash \<noteq> '''') ErrInvalidBackup (Inr hash)
         else (case hexDecode hash of
                 None \<Rightarrow> Inl ErrInvalidBackup
               | Some bs \<Rightarrow> check (length bs \<noteq> 32) ErrInvalidBackup (Inr (hexEncode bs))))"

text \<open>
  The comparison of \<open>sort.Slice\<close>: the root first, the rest by fingerprint.  It compares the
  fingerprints as given, before they are decoded.  \<open>sort.Slice\<close> is not stable; entries with equal
  fingerprints are rejected afterwards, so the order of equal keys does not matter.
\<close>

definition sortWallets :: "string \<Rightarrow> ManagedWallet list \<Rightarrow> ManagedWallet list" where
  "sortWallets root = sort_key (\<lambda>w. (mw_Fingerprint w \<noteq> root, mw_Fingerprint w))"

definition clearWallet :: "ManagedWallet \<Rightarrow> ManagedWallet" where
  "clearWallet item = item\<lparr>mw_Name := '''', mw_Mnemonic := '''', mw_AccountCount := 0, mw_SubAccounts := []\<rparr>"

definition walletBackup :: "ManagedWallet \<Rightarrow> WalletBackup" where
  "walletBackup item = \<lparr>wb_Name = mw_Name item, wb_Mnemonic = mw_Mnemonic item,
     wb_AccountCount = mw_AccountCount item, wb_SubAccounts = mw_SubAccounts item\<rparr>"

text \<open>The content of one item once its fingerprint was accepted.\<close>

definition normalizeContent :: "(string \<Rightarrow> bool) \<Rightarrow> ManagedWallet \<Rightarrow> account_error + ManagedWallet" where
  "normalizeContent bip39 item =
     (if mw_Deleted item then Inr (clearWallet item)
      else rbind (NormalizeBackup bip39 \<lparr>bk_Version = 1, bk_Wallets = [walletBackup item]\<rparr>) (\<lambda>backup.
        let w = bk_Wallets backup ! 0
        in Inr (item\<lparr>mw_Name := wb_Name w, mw_Mnemonic := wb_Mnemonic w,
                     mw_AccountCount := wb_AccountCount w,
                     mw_SubAccounts := sort_key sa_Index (wb_SubAccounts w)\<rparr>)))"

text \<open>The loop over the sorted items; it also computes \<open>rootPresent\<close>.\<close>

fun normalizeItems :: "(string \<Rightarrow> bool) \<Rightarrow> string \<Rightarrow> string list \<Rightarrow> ManagedWallet list
    \<Rightarrow> account_error + (ManagedWallet list \<times> bool)" where
  "normalizeItems bip39 root seen [] = Inr ([], False)"
| "normalizeItems bip39 root seen (item # items) =
     (case decodeFingerprint (mw_Fingerprint item) of
        None \<Rightarrow> Inl ErrInvalidBackup
      | Some bs \<Rightarrow>
          check (mw_Revision item = 0) ErrInvalidBackup
           (let item = item\<lparr>mw_Fingerprint := hexEncode bs\<rparr>
            in check (mw_Fingerprint item \<in> set seen) ErrInvalidBackup
                (rbind (normalizeContent bip39 item) (\<lambda>out.
                  rbind (normalizeItems bip39 root (mw_Fingerprint item # seen) items) (\<lambda>(outs, present).
                    Inr (out # outs, (mw_Fingerprint item = root \<and> \<not> mw_Deleted item) \<or> present))))))"

definition normalizedManagedState :: "(string \<Rightarrow> bool) \<Rightarrow> ManagedState \<Rightarrow> account_error + ManagedState" where
  "normalizedManagedState bip39 value =
     check (ms_Version value \<noteq> 2 \<or> ms_Revision value = 0) ErrInvalidBackup
      (case decodeFingerprint (ms_RootFingerprint value) of
         None \<Rightarrow> Inl ErrInvalidBackup
       | Some root \<Rightarrow>
           rbind (normalizeDataHash (ms_DataRevision value) (ms_DataHash value)) (\<lambda>dataHash.
             check (ms_Wallets value = [] \<or> length (ms_Wallets value) > managedStateMaxItems) ErrInvalidBackup
              (rbind (normalizeItems bip39 (hexEncode root) [] (sortWallets (hexEncode root) (ms_Wallets value)))
                (\<lambda>(wallets, rootPresent).
                  check (\<not> rootPresent) ErrInvalidBackup
                    (Inr \<lparr>ms_Version = 2, ms_RootFingerprint = hexEncode root,
                          ms_Revision = ms_Revision value, ms_DataRevision = ms_DataRevision value,
                          ms_DataHash = dataHash, ms_Wallets = wallets\<rparr>)))))"

definition BackupFromManagedState :: "(string \<Rightarrow> bool) \<Rightarrow> ManagedState \<Rightarrow> account_error + Backup" where
  "BackupFromManagedState bip39 value =
     rbind (normalizedManagedState bip39 value) (\<lambda>state.
       NormalizeBackup bip39 \<lparr>bk_Version = 1,
         bk_Wallets = map walletBackup (filter (\<lambda>item. \<not> mw_Deleted item) (ms_Wallets state))\<rparr>)"

section \<open>The binary encoding\<close>

definition writeStateString :: "string \<Rightarrow> account_error + byte list" where
  "writeStateString value =
     check (length value > managedStateMaxString) ErrInvalidBackup
       (Inr (putUvarint (of_nat (length value)) @ bytes_of value))"

definition readStateUvarint :: "reader \<Rightarrow> account_error + (64 word \<times> reader)" where
  "readStateUvarint = readUvarint ErrRecoveryFailed"

definition readStateString :: "reader \<Rightarrow> account_error + (string \<times> reader)" where
  "readStateString r =
     rbind (readStateUvarint r) (\<lambda>(n, r).
       check (n > of_nat managedStateMaxString \<or> unat n > length r) ErrRecoveryFailed
        (rbind (readFull ErrRecoveryFailed (unat n) r) (\<lambda>(value, r). Inr (string_of value, r))))"

definition encodeSub :: "SubAccount \<Rightarrow> account_error + byte list" where
  "encodeSub sub =
     rbind (writeStateString (sa_Name sub)) (\<lambda>name.
       rbind (writeStateString (sa_DID sub)) (\<lambda>did.
         Inr (putUvarint (ucast (sa_Index sub)) @ name @ did)))"

definition hexBytes :: "string \<Rightarrow> byte list" where
  "hexBytes s = (case hexDecode s of None \<Rightarrow> [] | Some bs \<Rightarrow> bs)"

definition encodeWallet :: "ManagedWallet \<Rightarrow> account_error + byte list" where
  "encodeWallet wallet =
     (let hd = hexBytes (mw_Fingerprint wallet) @ putUvarint (mw_Revision wallet)
      in if mw_Deleted wallet then Inr (hd @ [1])
         else rbind (writeStateString (mw_Name wallet)) (\<lambda>name.
                rbind (writeStateString (mw_Mnemonic wallet)) (\<lambda>mnemonic.
                  rbind (rmap encodeSub (mw_SubAccounts wallet)) (\<lambda>subs.
                    Inr (hd @ [0] @ name @ mnemonic @ putUvarint (ucast (mw_AccountCount wallet)) @ concat subs)))))"

definition managedStatePlainMagic :: "byte list" where
  "managedStatePlainMagic = bytes_of ''AMS2''"

text \<open>The uncompressed buffer \<open>raw\<close> of \<open>encodeManagedState\<close>.\<close>

definition encodeRawState :: "ManagedState \<Rightarrow> account_error + byte list" where
  "encodeRawState state =
     rbind (writeStateString (ms_DataHash state)) (\<lambda>dataHash.
       rbind (rmap encodeWallet (ms_Wallets state)) (\<lambda>wallets.
         Inr (managedStatePlainMagic @ putUvarint (ucast (ms_Version state))
           @ hexBytes (ms_RootFingerprint state) @ putUvarint (ms_Revision state)
           @ putUvarint (ms_DataRevision state) @ dataHash
           @ putUvarint (of_nat (length (ms_Wallets state))) @ concat wallets)))"

definition encodeManagedState :: "crypto \<Rightarrow> (string \<Rightarrow> bool) \<Rightarrow> ManagedState \<Rightarrow> account_error + byte list" where
  "encodeManagedState C bip39 value =
     rbind (normalizedManagedState bip39 value) (\<lambda>state.
       rbind (encodeRawState state) (\<lambda>raw. Inr (deflate C raw)))"

definition decodeSub :: "reader \<Rightarrow> account_error + (SubAccount \<times> reader)" where
  "decodeSub r =
     rbind (readStateUvarint r) (\<lambda>(subIndex, r).
       check (subIndex > ucast (- 1 :: 32 word)) ErrRecoveryFailed
        (rbind (readStateString r) (\<lambda>(name, r).
          rbind (readStateString r) (\<lambda>(did, r).
            Inr (\<lparr>sa_Index = ucast subIndex, sa_Name = name, sa_DID = did\<rparr>, r)))))"

definition decodeWallet :: "reader \<Rightarrow> account_error + (ManagedWallet \<times> reader)" where
  "decodeWallet r =
     rbind (readFull ErrRecoveryFailed 32 r) (\<lambda>(fingerprint, r).
       rbind (readStateUvarint r) (\<lambda>(itemRevision, r).
         rbind (readFull ErrRecoveryFailed 1 r) (\<lambda>(flag, r).
           check (hd flag > 1) ErrRecoveryFailed
            (let item = \<lparr>mw_Fingerprint = hexEncode fingerprint, mw_Revision = itemRevision,
                         mw_Deleted = (hd flag = 1), mw_Name = '''', mw_Mnemonic = '''',
                         mw_AccountCount = 0, mw_SubAccounts = []\<rparr>
             in if hd flag = 1 then Inr (item, r)
                else rbind (readStateString r) (\<lambda>(name, r).
                  rbind (readStateString r) (\<lambda>(mnemonic, r).
                    rbind (readStateUvarint r) (\<lambda>(accountCount, r).
                      check (accountCount = 0 \<or> accountCount > of_nat managedStateMaxItems) ErrRecoveryFailed
                       (rbind (read_n decodeSub (unat accountCount) r) (\<lambda>(subs, r).
                         Inr (item\<lparr>mw_Name := name, mw_Mnemonic := mnemonic,
                                   mw_AccountCount := ucast accountCount, mw_SubAccounts := subs\<rparr>, r))))))))))"

definition decodeRawState :: "byte list \<Rightarrow> account_error + ManagedState" where
  "decodeRawState raw =
     rbind (readFull ErrRecoveryFailed 4 raw) (\<lambda>(magic, r).
       check (magic \<noteq> managedStatePlainMagic) ErrRecoveryFailed
        (rbind (readStateUvarint r) (\<lambda>(version, r).
          check ((ucast version :: 32 word) \<noteq> 2) ErrRecoveryFailed
           (rbind (readFull ErrRecoveryFailed 32 r) (\<lambda>(root, r).
             rbind (readStateUvarint r) (\<lambda>(revision, r).
               rbind (readStateUvarint r) (\<lambda>(dataRevision, r).
                 rbind (readStateString r) (\<lambda>(dataHash, r).
                   rbind (readStateUvarint r) (\<lambda>(count, r).
                     check (count = 0 \<or> count > of_nat managedStateMaxItems) ErrRecoveryFailed
                      (rbind (read_n decodeWallet (unat count) r) (\<lambda>(wallets, r).
                        check (length r \<noteq> 0) ErrRecoveryFailed
                          (Inr \<lparr>ms_Version = 2, ms_RootFingerprint = hexEncode root, ms_Revision = revision,
                                ms_DataRevision = dataRevision, ms_DataHash = dataHash,
                                ms_Wallets = wallets\<rparr>))))))))))))"

definition decodeManagedState :: "crypto \<Rightarrow> (string \<Rightarrow> bool) \<Rightarrow> byte list \<Rightarrow> account_error + ManagedState" where
  "decodeManagedState C bip39 value =
     (case inflate C value of
        None \<Rightarrow> Inl ErrRecoveryFailed
      | Some raw \<Rightarrow>
          check (length raw > MaxRecoveryObjectSize) ErrRecoveryFailed
            (rbind (decodeRawState raw) (normalizedManagedState bip39)))"

section \<open>Sealing\<close>

definition accountKey :: "crypto \<Rightarrow> string \<Rightarrow> byte list \<Rightarrow> string \<Rightarrow> account_error + byte list" where
  "accountKey C info secret accountID =
     (case hexDecode accountID of
        None \<Rightarrow> Inl ErrInvalidAccountID
      | Some accountIDBytes \<Rightarrow>
          check (length accountIDBytes \<noteq> 32 \<or> length secret \<noteq> 32) ErrInvalidAccountID
            (Inr (hkdfSHA256 C secret accountIDBytes (bytes_of info) 32)))"

definition managedStateKey :: "crypto \<Rightarrow> byte list \<Rightarrow> string \<Rightarrow> account_error + byte list" where
  "managedStateKey C = accountKey C ''sat20-account-managed-state-v2''"

definition managedStateAAD :: "string \<Rightarrow> byte list" where
  "managedStateAAD accountID = bytes_of (''sat20-account-managed-state-aad-v2|'' @ accountID)"

definition managedStateEnvelopeMagic :: "byte list" where
  "managedStateEnvelopeMagic = bytes_of ''AME2''"

definition SealManagedState :: "crypto \<Rightarrow> (string \<Rightarrow> bool) \<Rightarrow> byte list \<Rightarrow> string \<Rightarrow> ManagedState \<Rightarrow> reader
    \<Rightarrow> account_error + (byte list \<times> reader)" where
  "SealManagedState C bip39 secret accountID state random =
     rbind (encodeManagedState C bip39 state) (\<lambda>plaintext.
       rbind (managedStateKey C secret accountID) (\<lambda>key.
         rbind (readFull ErrReadRandom gcmNonceSize random) (\<lambda>(nonce, random).
           let result = managedStateEnvelopeMagic @ nonce
                 @ gcmSeal C key nonce plaintext (managedStateAAD accountID)
           in check (length result > MaxRecoveryObjectSize) ErrValueLimit (Inr (result, random)))))"

definition OpenManagedState :: "crypto \<Rightarrow> (string \<Rightarrow> bool) \<Rightarrow> byte list \<Rightarrow> string \<Rightarrow> byte list
    \<Rightarrow> account_error + ManagedState" where
  "OpenManagedState C bip39 secret accountID value =
     rbind (managedStateKey C secret accountID) (\<lambda>key.
       check (length value < length managedStateEnvelopeMagic + gcmNonceSize + gcmOverhead
           \<or> take (length managedStateEnvelopeMagic) value \<noteq> managedStateEnvelopeMagic) ErrRecoveryFailed
        (let offset = length managedStateEnvelopeMagic;
             nonce = take gcmNonceSize (drop offset value);
             ciphertext = drop (offset + gcmNonceSize) value
         in case gcmOpen C key nonce ciphertext (managedStateAAD accountID) of
              None \<Rightarrow> Inl ErrRecoveryFailed
            | Some plaintext \<Rightarrow> decodeManagedState C bip39 plaintext))"

end
