(* ===== verification/ManagedStateCodec.thy ===== *)
theory ManagedStateCodec
  imports ManagedState "HOL-Library.Multiset"
begin

text \<open>
  Correctness of the managed account state: what normalisation guarantees, that the binary
  encoding is inverted by the decoder (strings, sub-accounts and wallets are interpretations of
  the locale \<open>codec\<close>), and that an opened state is the sealed one.
\<close>

section \<open>Element codecs\<close>

definition stateString :: "string \<Rightarrow> byte list" where
  "stateString v = putUvarint (of_nat (length v)) @ bytes_of v"

definition string_ok :: "string \<Rightarrow> bool" where
  "string_ok v \<longleftrightarrow> length v \<le> managedStateMaxString"

lemma writeStateString_iff: "writeStateString v = Inr b \<longleftrightarrow> string_ok v \<and> b = stateString v"
  by (auto simp: writeStateString_def stateString_def string_ok_def result_simps)

lemma readFull_one [simp]: "readFull e (Suc 0) (x # r) = Inr ([x], r)"
  by (simp add: readFull_def)

lemma unat_ucast_32_64 [simp]: "unat (ucast (w :: 32 word) :: 64 word) = unat w"
proof -
  have "unat w < 2 ^ 64" using unsigned_less [of w, where ?'a = nat] by simp
  then show ?thesis by (simp add: unsigned_ucast_eq take_bit_nat_eq_self)
qed

lemma ucast_32_64_32 [simp]: "ucast (ucast (w :: 32 word) :: 64 word) = w"
  by (simp add: ucast_up_ucast_id is_up)

lemma unat_of_nat64: "n < 2 ^ 64 \<Longrightarrow> unat (of_nat n :: 64 word) = n"
  by (simp add: unat_of_nat)

interpretation state_uvarint: codec putUvarint readStateUvarint "\<lambda>v. True"
  by unfold_locales (simp add: readStateUvarint_def readUvarint_put)

interpretation state_string: codec stateString readStateString string_ok
proof
  fix v rest assume "string_ok v"
  then have n: "length v \<le> 4096" by (simp add: string_ok_def managedStateMaxString_def)
  then have u: "unat (of_nat (length v) :: 64 word) = length v" by (intro unat_of_nat64) simp
  have "\<not> (of_nat (length v) :: 64 word) > of_nat managedStateMaxString"
    using n by (simp add: managedStateMaxString_def word_less_nat_alt u)
  then show "readStateString (stateString v @ rest) = Inr (v, rest)"
    using n u by (simp add: readStateString_def stateString_def state_uvarint.dec_enc check_def)
qed

definition subBytes :: "SubAccount \<Rightarrow> byte list" where
  "subBytes sub = putUvarint (ucast (sa_Index sub)) @ stateString (sa_Name sub) @ stateString (sa_DID sub)"

definition sub_ok :: "SubAccount \<Rightarrow> bool" where
  "sub_ok sub \<longleftrightarrow> string_ok (sa_Name sub) \<and> string_ok (sa_DID sub)"

lemma encodeSub_iff: "encodeSub sub = Inr b \<longleftrightarrow> sub_ok sub \<and> b = subBytes sub"
  by (auto simp: encodeSub_def subBytes_def sub_ok_def result_simps writeStateString_iff)

interpretation state_sub: codec subBytes decodeSub sub_ok
proof
  fix sub rest assume ok: "sub_ok sub"
  have "\<not> (ucast (sa_Index sub) :: 64 word) > ucast (- 1 :: 32 word)"
  proof -
    have "sa_Index sub \<le> - 1" by simp
    then have "unat (sa_Index sub) \<le> unat (- 1 :: 32 word)" by (simp only: word_le_nat_alt)
    then show ?thesis by (simp only: word_less_nat_alt unat_ucast_32_64 not_less)
  qed
  then show "decodeSub (subBytes sub @ rest) = Inr (sub, rest)"
    using ok by (simp add: decodeSub_def subBytes_def sub_ok_def state_uvarint.dec_enc state_string.dec_enc
        check_def)
qed

definition walletBytes :: "ManagedWallet \<Rightarrow> byte list" where
  "walletBytes w = hexBytes (mw_Fingerprint w) @ putUvarint (mw_Revision w) @
     (if mw_Deleted w then [1]
      else [0] @ stateString (mw_Name w) @ stateString (mw_Mnemonic w)
        @ putUvarint (ucast (mw_AccountCount w)) @ concat (map subBytes (mw_SubAccounts w)))"

definition fingerprint_ok :: "string \<Rightarrow> bool" where
  "fingerprint_ok s \<longleftrightarrow> (\<exists>bs. s = hexEncode bs \<and> length bs = 32)"

definition wallet_shape :: "ManagedWallet \<Rightarrow> bool" where
  "wallet_shape w \<longleftrightarrow> fingerprint_ok (mw_Fingerprint w) \<and>
     (if mw_Deleted w then clearWallet w = w
      else 0 < unat (mw_AccountCount w) \<and> unat (mw_AccountCount w) = length (mw_SubAccounts w))"

definition wallet_strings_ok :: "ManagedWallet \<Rightarrow> bool" where
  "wallet_strings_ok w \<longleftrightarrow> mw_Deleted w \<or>
     string_ok (mw_Name w) \<and> string_ok (mw_Mnemonic w) \<and> (\<forall>sub\<in>set (mw_SubAccounts w). sub_ok sub)"

definition wallet_ok :: "ManagedWallet \<Rightarrow> bool" where
  "wallet_ok w \<longleftrightarrow> wallet_shape w \<and> wallet_strings_ok w
     \<and> unat (mw_AccountCount w) \<le> managedStateMaxItems"

lemma rmap_partial:
  assumes "\<And>x b. f x = Inr b \<longleftrightarrow> ok x \<and> b = g x"
  shows "rmap f xs = Inr bs \<longleftrightarrow> (\<forall>x\<in>set xs. ok x) \<and> bs = map g xs"
  using assms by (induction xs arbitrary: bs) (auto simp: result_simps)

lemma encodeWallet_iff: "encodeWallet w = Inr b \<longleftrightarrow> wallet_strings_ok w \<and> b = walletBytes w"
  by (auto simp: encodeWallet_def walletBytes_def wallet_strings_ok_def Let_def result_simps
      writeStateString_iff rmap_partial [OF encodeSub_iff])

lemma hexBytes_encode [simp]: "hexBytes (hexEncode bs) = bs"
  by (simp add: hexBytes_def)

interpretation state_wallet: codec walletBytes decodeWallet wallet_ok
proof
  fix w rest assume ok: "wallet_ok w"
  then obtain fp where fp: "mw_Fingerprint w = hexEncode fp" "length fp = 32"
    by (auto simp: wallet_ok_def wallet_shape_def fingerprint_ok_def)
  show "decodeWallet (walletBytes w @ rest) = Inr (w, rest)"
  proof (cases "mw_Deleted w")
    case True
    then have "clearWallet w = w" using ok by (simp add: wallet_ok_def wallet_shape_def)
    then have "w = \<lparr>mw_Fingerprint = hexEncode fp, mw_Revision = mw_Revision w, mw_Deleted = True,
        mw_Name = '''', mw_Mnemonic = '''', mw_AccountCount = 0, mw_SubAccounts = []\<rparr>"
      using True fp by (cases w) (simp add: clearWallet_def)
    then show ?thesis
      using True fp by (simp add: decodeWallet_def walletBytes_def state_uvarint.dec_enc)
  next
    case False
    have n: "unat (mw_AccountCount w) = length (mw_SubAccounts w)" "0 < length (mw_SubAccounts w)"
      "length (mw_SubAccounts w) \<le> 1024"
      using ok False by (auto simp: wallet_ok_def wallet_shape_def managedStateMaxItems_def)
    have u: "unat (ucast (mw_AccountCount w) :: 64 word) = length (mw_SubAccounts w)"
      using n by simp
    have "unat (ucast (mw_AccountCount w) :: 64 word) \<noteq> 0" using n u by simp
    then have c: "(ucast (mw_AccountCount w) :: 64 word) \<noteq> 0"
      "\<not> (ucast (mw_AccountCount w) :: 64 word) > of_nat managedStateMaxItems"
      using n u by (auto simp: word_less_nat_alt managedStateMaxItems_def simp del: unat_ucast_32_64)
    have s: "read_n decodeSub (length (mw_SubAccounts w)) (concat (map subBytes (mw_SubAccounts w)) @ rest)
        = Inr (mw_SubAccounts w, rest)"
      using ok False by (intro state_sub.read_n_concat) (auto simp: wallet_ok_def wallet_strings_ok_def)
    show ?thesis
      using False fp ok c u s
      by (cases w) (simp add: decodeWallet_def walletBytes_def state_uvarint.dec_enc state_string.dec_enc
          wallet_ok_def wallet_strings_ok_def check_def)
  qed
qed

section \<open>The whole state\<close>

definition stateBytes :: "ManagedState \<Rightarrow> byte list" where
  "stateBytes st = managedStatePlainMagic @ putUvarint (ucast (ms_Version st))
     @ hexBytes (ms_RootFingerprint st) @ putUvarint (ms_Revision st)
     @ putUvarint (ms_DataRevision st) @ stateString (ms_DataHash st)
     @ putUvarint (of_nat (length (ms_Wallets st))) @ concat (map walletBytes (ms_Wallets st))"

definition strings_ok :: "ManagedState \<Rightarrow> bool" where
  "strings_ok st \<longleftrightarrow> string_ok (ms_DataHash st) \<and> (\<forall>w\<in>set (ms_Wallets st). wallet_strings_ok w)"

lemma encodeRawState_iff: "encodeRawState st = Inr raw \<longleftrightarrow> strings_ok st \<and> raw = stateBytes st"
  by (auto simp: encodeRawState_def stateBytes_def strings_ok_def result_simps writeStateString_iff
      rmap_partial [OF encodeWallet_iff])

lemma decodeRawState_bytes:
  assumes "ms_Version st = 2" "fingerprint_ok (ms_RootFingerprint st)" "strings_ok st"
    and "\<forall>w\<in>set (ms_Wallets st). wallet_ok w" "ms_Wallets st \<noteq> []" "length (ms_Wallets st) \<le> managedStateMaxItems"
  shows "decodeRawState (stateBytes st) = Inr st"
proof -
  obtain root where root: "ms_RootFingerprint st = hexEncode root" "length root = 32"
    using assms(2) by (auto simp: fingerprint_ok_def)
  have n: "length (ms_Wallets st) \<le> 1024" using assms(6) by (simp add: managedStateMaxItems_def)
  then have u: "unat (of_nat (length (ms_Wallets st)) :: 64 word) = length (ms_Wallets st)"
    by (intro unat_of_nat64) simp
  have c: "(of_nat (length (ms_Wallets st)) :: 64 word) \<noteq> 0"
  proof
    assume "(of_nat (length (ms_Wallets st)) :: 64 word) = 0"
    then have "unat (of_nat (length (ms_Wallets st)) :: 64 word) = 0" by simp
    then show False using assms(5) unfolding u by simp
  qed
  have c': "\<not> (of_nat (length (ms_Wallets st)) :: 64 word) > of_nat managedStateMaxItems"
    using n by (simp add: word_less_nat_alt managedStateMaxItems_def u)
  have w: "read_n decodeWallet (length (ms_Wallets st)) (concat (map walletBytes (ms_Wallets st)))
      = Inr (ms_Wallets st, [])"
    using state_wallet.read_n_concat [OF assms(4), of "[]"] by simp
  have v: "ucast (ucast (2 :: 32 word) :: 64 word) = (2 :: 32 word)" by (rule ucast_32_64_32)
  have m: "length managedStatePlainMagic = 4" by (simp add: managedStatePlainMagic_def)
  show ?thesis
    using assms(1,3) root c c' u w v m
    by (cases st) (simp add: decodeRawState_def stateBytes_def strings_ok_def state_uvarint.dec_enc
        state_string.dec_enc check_def)
qed

section \<open>Normalised states\<close>

definition content_normal :: "(string \<Rightarrow> bool) \<Rightarrow> ManagedWallet \<Rightarrow> bool" where
  "content_normal bip39 w \<longleftrightarrow>
     (if mw_Deleted w then clearWallet w = w
      else normal_wallet bip39 (walletBackup w) \<and> sorted (map sa_Index (mw_SubAccounts w)))"

definition items_normal :: "(string \<Rightarrow> bool) \<Rightarrow> ManagedWallet list \<Rightarrow> bool" where
  "items_normal bip39 ws \<longleftrightarrow> (\<forall>w\<in>set ws. fingerprint_ok (mw_Fingerprint w) \<and> mw_Revision w \<noteq> 0
     \<and> content_normal bip39 w) \<and> distinct (map mw_Fingerprint ws)"

definition state_normal :: "(string \<Rightarrow> bool) \<Rightarrow> ManagedState \<Rightarrow> bool" where
  "state_normal bip39 st \<longleftrightarrow> ms_Version st = 2 \<and> ms_Revision st \<noteq> 0 \<and> fingerprint_ok (ms_RootFingerprint st)
     \<and> (if ms_DataRevision st = 0 then ms_DataHash st = '''' else fingerprint_ok (ms_DataHash st))
     \<and> ms_Wallets st \<noteq> [] \<and> length (ms_Wallets st) \<le> managedStateMaxItems
     \<and> items_normal bip39 (ms_Wallets st)
     \<and> (\<exists>w\<in>set (ms_Wallets st). mw_Fingerprint w = ms_RootFingerprint st \<and> \<not> mw_Deleted w)"

lemma normal_subs_sort: "normal_subs c subs \<Longrightarrow> normal_subs c (sort_key sa_Index subs)"
proof -
  assume n: "normal_subs c subs"
  have "mset (map sa_Index (sort_key sa_Index subs)) = mset (map sa_Index subs)"
    by (simp only: mset_map mset_sort)
  then have "distinct (map sa_Index (sort_key sa_Index subs))"
    using n by (metis mset_eq_imp_distinct_iff normal_subs_def)
  moreover have "mset (filter (\<lambda>d. d \<noteq> '''') (map sa_DID (sort_key sa_Index subs)))
      = mset (filter (\<lambda>d. d \<noteq> '''') (map sa_DID subs))"
    by (simp only: mset_filter mset_map mset_sort)
  then have "distinct (filter (\<lambda>d. d \<noteq> '''') (map sa_DID (sort_key sa_Index subs)))"
    using n by (metis mset_eq_imp_distinct_iff normal_subs_def)
  ultimately show ?thesis using n by (simp add: normal_subs_def)
qed

lemma normalizeContent_normal:
  assumes "normalizeContent bip39 w = Inr out"
  shows "content_normal bip39 out" "mw_Fingerprint out = mw_Fingerprint w" "mw_Revision out = mw_Revision w"
    "mw_Deleted out = mw_Deleted w"
proof -
  have "content_normal bip39 out \<and> mw_Fingerprint out = mw_Fingerprint w \<and> mw_Revision out = mw_Revision w
      \<and> mw_Deleted out = mw_Deleted w"
  proof (cases "mw_Deleted w")
    case True
    then show ?thesis using assms by (auto simp: normalizeContent_def content_normal_def clearWallet_def)
  next
    case False
    then obtain b where b: "NormalizeBackup bip39 \<lparr>bk_Version = 1, bk_Wallets = [walletBackup w]\<rparr> = Inr b"
      and o: "out = w\<lparr>mw_Name := wb_Name (bk_Wallets b ! 0), mw_Mnemonic := wb_Mnemonic (bk_Wallets b ! 0),
          mw_AccountCount := wb_AccountCount (bk_Wallets b ! 0),
          mw_SubAccounts := sort_key sa_Index (wb_SubAccounts (bk_Wallets b ! 0))\<rparr>"
      using assms by (auto simp: normalizeContent_def Let_def result_simps)
    have "normal_wallet bip39 (bk_Wallets b ! 0)"
      using NormalizeBackup_normal [OF b] by (auto simp: normal_backup_def)
    then have "normal_wallet bip39 (walletBackup out)"
      using o by (simp add: normal_wallet_def walletBackup_def normal_subs_sort)
    then show ?thesis using o False by (simp add: content_normal_def)
  qed
  then show "content_normal bip39 out" "mw_Fingerprint out = mw_Fingerprint w"
    "mw_Revision out = mw_Revision w" "mw_Deleted out = mw_Deleted w" by blast+
qed

lemma content_normal_fixed: "content_normal bip39 w \<Longrightarrow> normalizeContent bip39 w = Inr w"
proof (cases "mw_Deleted w")
  case False
  assume c: "content_normal bip39 w"
  then have "NormalizeBackup bip39 \<lparr>bk_Version = 1, bk_Wallets = [walletBackup w]\<rparr>
      = Inr \<lparr>bk_Version = 1, bk_Wallets = [walletBackup w]\<rparr>"
    using False by (intro normal_backup_fixed) (simp add: normal_backup_def content_normal_def)
  moreover have "sort_key sa_Index (mw_SubAccounts w) = mw_SubAccounts w"
    using c False by (simp add: content_normal_def sort_key_id_if_sorted)
  ultimately show ?thesis using False by (simp add: normalizeContent_def walletBackup_def)
qed (simp add: normalizeContent_def content_normal_def)

lemma decodeFingerprint_hex: "length bs = 32 \<Longrightarrow> decodeFingerprint (hexEncode bs) = Some bs"
  by (simp add: decodeFingerprint_def)

lemma decodeFingerprint_length: "decodeFingerprint s = Some bs \<Longrightarrow> length bs = 32"
  by (auto simp: decodeFingerprint_def split: option.splits if_splits)

lemma normalizeItems_normal:
  assumes "normalizeItems bip39 root seen ws = Inr (out, present)"
  shows "items_normal bip39 out \<and> set seen \<inter> mw_Fingerprint ` set out = {} \<and> length out = length ws
    \<and> (present \<longleftrightarrow> (\<exists>w\<in>set out. mw_Fingerprint w = root \<and> \<not> mw_Deleted w))
    \<and> ((\<forall>w\<in>set ws. fingerprint_ok (mw_Fingerprint w)) \<longrightarrow> map mw_Fingerprint out = map mw_Fingerprint ws)"
  using assms
proof (induction ws arbitrary: seen out present)
  case Nil
  then show ?case by (simp add: items_normal_def)
next
  case (Cons w ws)
  from Cons.prems obtain bs o1 os pr where bs: "decodeFingerprint (mw_Fingerprint w) = Some bs"
    and rev: "mw_Revision w \<noteq> 0" and fresh: "hexEncode bs \<notin> set seen"
    and c: "normalizeContent bip39 (w\<lparr>mw_Fingerprint := hexEncode bs\<rparr>) = Inr o1"
    and r: "normalizeItems bip39 root (hexEncode bs # seen) ws = Inr (os, pr)"
    and out: "out = o1 # os" "present = ((hexEncode bs = root \<and> \<not> mw_Deleted w) \<or> pr)"
    by (auto simp: Let_def result_simps split: option.splits)
  note o1 = normalizeContent_normal [OF c]
  note IH = Cons.IH [OF r]
  have "fingerprint_ok (mw_Fingerprint w) \<Longrightarrow> hexEncode bs = mw_Fingerprint w"
    using bs by (auto simp: fingerprint_ok_def decodeFingerprint_hex)
  moreover have "fingerprint_ok (hexEncode bs)" using decodeFingerprint_length [OF bs] by (auto simp: fingerprint_ok_def)
  ultimately show ?case
    using IH o1 rev fresh unfolding out by (auto simp: items_normal_def)
qed

lemma items_normal_fixed:
  assumes "items_normal bip39 ws" "set seen \<inter> mw_Fingerprint ` set ws = {}"
  shows "normalizeItems bip39 root seen ws
    = Inr (ws, \<exists>w\<in>set ws. mw_Fingerprint w = root \<and> \<not> mw_Deleted w)"
  using assms
proof (induction ws arbitrary: seen)
  case (Cons w ws)
  then obtain bs where bs: "mw_Fingerprint w = hexEncode bs" "length bs = 32"
    by (auto simp: items_normal_def fingerprint_ok_def)
  have "w\<lparr>mw_Fingerprint := hexEncode bs\<rparr> = w" using bs by (cases w) simp
  note w = this
  moreover have "normalizeItems bip39 root (hexEncode bs # seen) ws
      = Inr (ws, \<exists>w\<in>set ws. mw_Fingerprint w = root \<and> \<not> mw_Deleted w)"
    using Cons.prems bs by (intro Cons.IH) (auto simp: items_normal_def)
  moreover have "normalizeContent bip39 w = Inr w"
    using Cons.prems by (intro content_normal_fixed) (simp add: items_normal_def)
  ultimately show ?case
    using Cons.prems bs by (auto simp: items_normal_def decodeFingerprint_hex w)
qed simp

lemma normalizeDataHash_normal:
  "normalizeDataHash rv h = Inr out \<Longrightarrow> (if rv = 0 then out = '''' else fingerprint_ok out)"
  by (auto simp: normalizeDataHash_def Let_def result_simps fingerprint_ok_def split: if_splits option.splits)

lemma dataHash_fixed:
  "(if rv = 0 then h = '''' else fingerprint_ok h) \<Longrightarrow> normalizeDataHash rv h = Inr h"
  by (cases "rv = 0") (auto simp: normalizeDataHash_def fingerprint_ok_def, simp add: toLower_def)

lemma normalized_state_normal:
  assumes "normalizedManagedState bip39 v = Inr st"
  shows "state_normal bip39 st"
    "(\<forall>w\<in>set (ms_Wallets v). fingerprint_ok (mw_Fingerprint w)) \<Longrightarrow>
       sortWallets (ms_RootFingerprint st) (ms_Wallets st) = ms_Wallets st"
    "ms_Revision st = ms_Revision v" "ms_DataRevision st = ms_DataRevision v"
    "length (ms_Wallets st) = length (ms_Wallets v)"
proof -
  obtain root h ws where root: "decodeFingerprint (ms_RootFingerprint v) = Some root"
    and rev: "ms_Revision v \<noteq> 0" and h: "normalizeDataHash (ms_DataRevision v) (ms_DataHash v) = Inr h"
    and n: "ms_Wallets v \<noteq> []" "length (ms_Wallets v) \<le> managedStateMaxItems"
    and i: "normalizeItems bip39 (hexEncode root) [] (sortWallets (hexEncode root) (ms_Wallets v)) = Inr (ws, True)"
    and st: "st = \<lparr>ms_Version = 2, ms_RootFingerprint = hexEncode root, ms_Revision = ms_Revision v,
        ms_DataRevision = ms_DataRevision v, ms_DataHash = h, ms_Wallets = ws\<rparr>"
    using assms by (auto simp: normalizedManagedState_def result_simps split: option.splits)
  note I = normalizeItems_normal [OF i]
  have len: "length ws = length (ms_Wallets v)" using I by (simp add: sortWallets_def)
  show "state_normal bip39 st"
    using I n len rev normalizeDataHash_normal [OF h] decodeFingerprint_length [OF root]
    by (auto simp: st state_normal_def fingerprint_ok_def)
  show "sortWallets (ms_RootFingerprint st) (ms_Wallets st) = ms_Wallets st"
    if "\<forall>w\<in>set (ms_Wallets v). fingerprint_ok (mw_Fingerprint w)"
  proof -
    have m: "map mw_Fingerprint ws = map mw_Fingerprint (sortWallets (hexEncode root) (ms_Wallets v))"
      using I that by (simp add: sortWallets_def)
    let ?k = "\<lambda>f. (f \<noteq> hexEncode root, f)"
    have "map (\<lambda>w. ?k (mw_Fingerprint w)) ws
        = map (\<lambda>w. ?k (mw_Fingerprint w)) (sortWallets (hexEncode root) (ms_Wallets v))"
      using arg_cong [OF m, of "map ?k"] by (simp add: comp_def)
    then have "sorted (map (\<lambda>w. ?k (mw_Fingerprint w)) ws)"
      by (simp add: sortWallets_def)
    then show ?thesis by (simp add: st sortWallets_def sort_key_id_if_sorted)
  qed
  show "ms_Revision st = ms_Revision v" "ms_DataRevision st = ms_DataRevision v"
    "length (ms_Wallets st) = length (ms_Wallets v)"
    using len by (simp_all add: st)
qed

lemma state_normal_fixed:
  assumes "state_normal bip39 st" "sortWallets (ms_RootFingerprint st) (ms_Wallets st) = ms_Wallets st"
  shows "normalizedManagedState bip39 st = Inr st"
proof -
  obtain root where root: "ms_RootFingerprint st = hexEncode root" "length root = 32"
    using assms(1) by (auto simp: state_normal_def fingerprint_ok_def)
  have i: "normalizeItems bip39 (hexEncode root) [] (ms_Wallets st) = Inr (ms_Wallets st, True)"
    using items_normal_fixed [of bip39 "ms_Wallets st" "[]" "hexEncode root"] assms(1) root
    by (auto simp: state_normal_def)
  have "normalizeDataHash (ms_DataRevision st) (ms_DataHash st) = Inr (ms_DataHash st)"
    using assms(1) by (intro dataHash_fixed) (simp add: state_normal_def)
  then show ?thesis
    using assms root i
    by (cases st) (simp add: normalizedManagedState_def state_normal_def decodeFingerprint_hex check_def)
qed

section \<open>Sealing and opening\<close>

lemma Seal_facts:
  assumes seal: "SealManagedState C bip39 secret accountID v random = Inr (blob, random')"
    and n: "normalizedManagedState bip39 v = Inr st"
  shows "strings_ok st"
    "\<exists>key nonce. managedStateKey C secret accountID = Inr key \<and> length nonce = gcmNonceSize
      \<and> blob = managedStateEnvelopeMagic @ nonce @ gcmSeal C key nonce (deflate C (stateBytes st)) (managedStateAAD accountID)"
  using assms by (auto simp: SealManagedState_def encodeManagedState_def encodeRawState_iff result_simps Let_def)

text \<open>Opening what was sealed comes down to decoding the plaintext.\<close>

lemma Open_sealed:
  assumes "crypto_laws C" "SealManagedState C bip39 secret accountID v random = Inr (blob, random')"
    and "normalizedManagedState bip39 v = Inr st"
  shows "OpenManagedState C bip39 secret accountID blob
    = check (length (stateBytes st) > MaxRecoveryObjectSize) ErrRecoveryFailed
        (rbind (decodeRawState (stateBytes st)) (normalizedManagedState bip39))"
proof -
  obtain key nonce where k: "managedStateKey C secret accountID = Inr key" and n: "length nonce = gcmNonceSize"
    and b: "blob = managedStateEnvelopeMagic @ nonce @ gcmSeal C key nonce (deflate C (stateBytes st)) (managedStateAAD accountID)"
    using Seal_facts(2) [OF assms(2,3)] by blast
  have g: "gcmOpen C key nonce (gcmSeal C key nonce p a) a = Some p"
    "length (gcmSeal C key nonce p a) = length p + gcmOverhead" "inflate C (deflate C p) = Some p" for p a
    using assms(1) by (simp_all add: crypto_laws_def gcmOverhead_def)
  show ?thesis
    using k n g by (simp add: OpenManagedState_def b decodeManagedState_def check_def)
qed

lemma managed_state_open:
  assumes C: "crypto_laws C" and s: "SealManagedState C bip39 secret accountID v random = Inr (blob, random')"
    and n: "normalizedManagedState bip39 v = Inr st"
    and fp: "\<forall>w\<in>set (ms_Wallets v). fingerprint_ok (mw_Fingerprint w)"
    and size: "length (stateBytes st) \<le> MaxRecoveryObjectSize"
    and cnt: "\<forall>w\<in>set (ms_Wallets st). unat (mw_AccountCount w) \<le> managedStateMaxItems"
  shows "OpenManagedState C bip39 secret accountID blob = Inr st"
proof -
  note N = normalized_state_normal [OF n]
  have sn: "state_normal bip39 st" by (rule N(1))
  have sok: "strings_ok st" by (rule Seal_facts(1) [OF s n])
  have "wallet_ok w" if w: "w \<in> set (ms_Wallets st)" for w
  proof -
    have c: "content_normal bip39 w" "fingerprint_ok (mw_Fingerprint w)"
      using sn w by (simp_all add: state_normal_def items_normal_def)
    have "wallet_shape w"
    proof (cases "mw_Deleted w")
      case False
      then have "unat (mw_AccountCount w) = length (mw_SubAccounts w)" "mw_AccountCount w \<noteq> 0"
        using c by (auto simp: content_normal_def normal_wallet_def walletBackup_def)
      moreover from this(2) have "unat (mw_AccountCount w) \<noteq> 0" by (simp add: word_unat_eq_iff)
      ultimately show ?thesis using False c by (auto simp: wallet_shape_def)
    qed (use c in \<open>simp add: wallet_shape_def content_normal_def\<close>)
    then show ?thesis using w sok cnt by (simp add: wallet_ok_def strings_ok_def)
  qed
  then have "decodeRawState (stateBytes st) = Inr st"
    using sn sok by (intro decodeRawState_bytes) (auto simp: state_normal_def)
  moreover have "normalizedManagedState bip39 st = Inr st" by (rule state_normal_fixed [OF sn N(2) [OF fp]])
  ultimately show ?thesis using Open_sealed [OF C s n] size by (simp add: check_def)
qed

text \<open>Normalising wallets that are normal one by one fails exactly on a repeated name.\<close>

lemma normal_wallets_names:
  assumes "\<forall>w\<in>set ws. normal_wallet bip39 w"
  shows "normalizeWallets bip39 names ws =
    (if distinct (map wb_Name ws) \<and> set names \<inter> wb_Name ` set ws = {} then Inr ws else Inl ErrDuplicateWalletName)"
  using assms
proof (induction ws arbitrary: names)
  case (Cons w ws)
  show ?case
  proof (cases "wb_Name w \<in> set names")
    case True
    have "normal_wallet bip39 w" using Cons.prems by simp
    then have "normalizeWallet bip39 names w = Inl ErrDuplicateWalletName"
      using True by (simp add: normalizeWallet_def normal_wallet_def check_def)
    then show ?thesis using True by simp
  next
    case False
    then show ?thesis using Cons normal_wallet_fixed [of bip39 w names] by (auto split: if_splits)
  qed
qed simp

section \<open>The properties\<close>

text \<open>
  C12: An account state survives storage: what \<open>SealManagedState\<close> wrote, \<open>OpenManagedState\<close> returns
  in normal form, provided the uncompressed encoding is within the decoder's limit of 10 KB, no
  wallet has more than 1024 accounts and the fingerprints were given in lower-case hexadecimal
  (the three conditions \<open>SealManagedState\<close> does not check).
\<close>

theorem managed_state_roundtrip:
  assumes "crypto_laws C" and "SealManagedState C bip39 secret accountID v random = Inr (blob, random')"
    and "normalizedManagedState bip39 v = Inr st"
    and "\<forall>w\<in>set (ms_Wallets v). fingerprint_ok (mw_Fingerprint w)"
    and "length (stateBytes st) \<le> MaxRecoveryObjectSize"
    and "\<forall>w\<in>set (ms_Wallets st). unat (mw_AccountCount w) \<le> managedStateMaxItems"
  shows "OpenManagedState C bip39 secret accountID blob = Inr st"
  by (rule managed_state_open [OF assms])

text \<open>A crypto record that satisfies the laws: tags of zeros and a compressor that knows one text.\<close>

definition demo_crypto :: "byte list \<Rightarrow> crypto" where
  "demo_crypto known = \<lparr>hmacSHA256 = (\<lambda>k m. replicate 32 0), sha256 = (\<lambda>m. replicate 32 0),
     gcmSeal = (\<lambda>k n p a. p @ replicate 16 0), gcmOpen = (\<lambda>k n c a. Some (take (length c - 16) c)),
     deflate = (\<lambda>x. if x = known then [0] else 1 # x),
     inflate = (\<lambda>y. if y = [0] then Some known else Some (tl y)),
     zlibPack = (\<lambda>x. if x = known then [0] else 1 # x),
     zlibUnpack = (\<lambda>y. if y = [0] then Some known else Some (tl y))\<rparr>"

lemma demo_crypto_laws: "crypto_laws (demo_crypto known)"
  by (auto simp: crypto_laws_def demo_crypto_def)

definition demo_wallet :: "nat \<Rightarrow> ManagedWallet" where
  "demo_wallet n = \<lparr>mw_Fingerprint = hexEncode (replicate 32 0), mw_Revision = 1, mw_Deleted = False,
     mw_Name = replicate n CHR ''a'', mw_Mnemonic = replicate n CHR ''b'', mw_AccountCount = 1,
     mw_SubAccounts = [\<lparr>sa_Index = 0, sa_Name = replicate n CHR ''c'', sa_DID = ''''\<rparr>]\<rparr>"

definition demo_state :: "nat \<Rightarrow> ManagedState" where
  "demo_state n = \<lparr>ms_Version = 2, ms_RootFingerprint = hexEncode (replicate 32 0), ms_Revision = 1,
     ms_DataRevision = 0, ms_DataHash = '''', ms_Wallets = [demo_wallet n]\<rparr>"

lemma normalizeSpace_replicate:
  assumes "printable c" "0 < n"
  shows "normalizeSpace (replicate n c) = replicate n c"
  using normalizeSpace_join [of "[replicate n c]"] assms is_word_printable [of "replicate n c"] by simp

lemma demo_state_normal:
  assumes "0 < n"
  shows "normalizedManagedState (\<lambda>m. True) (demo_state n) = Inr (demo_state n)"
proof (rule state_normal_fixed)
  have p: "printable CHR ''a''" "printable CHR ''b''" "printable CHR ''c''"
    by (simp_all add: printable_def)
  have "normal_wallet (\<lambda>m. True) (walletBackup (demo_wallet n))"
    using p normalizeSpace_replicate assms
    by (simp add: demo_wallet_def walletBackup_def normal_wallet_def normal_subs_def normal_sub_def)
      (simp add: normalizeSpace_def Fields_def fields_loop.simps)
  then show "state_normal (\<lambda>m. True) (demo_state n)"
    by (auto simp: state_normal_def demo_state_def demo_wallet_def items_normal_def content_normal_def
        fingerprint_ok_def managedStateMaxItems_def simp del: hexEncode.simps)
qed (simp add: demo_state_def sortWallets_def)

lemma demo_state_strings: "n \<le> 4096 \<Longrightarrow> strings_ok (demo_state n)"
  by (simp add: strings_ok_def demo_state_def demo_wallet_def wallet_strings_ok_def sub_ok_def
      string_ok_def managedStateMaxString_def)

lemma demo_seal:
  assumes "0 < n" "n \<le> 4096" "C = demo_crypto (stateBytes (demo_state n))"
  shows "SealManagedState C (\<lambda>m. True) (replicate 32 0) (hexEncode (replicate 32 0)) (demo_state n) (replicate 12 0)
    = Inr (managedStateEnvelopeMagic @ replicate 12 0 @ [0] @ replicate 16 0, [])"
proof -
  have "deflate C (stateBytes (demo_state n)) = [0]" by (simp add: assms(3) demo_crypto_def)
  then have "encodeManagedState C (\<lambda>m. True) (demo_state n) = Inr [0]"
    using demo_state_normal [OF assms(1)] demo_state_strings [OF assms(2)]
      encodeRawState_iff [of "demo_state n" "stateBytes (demo_state n)"]
    by (simp add: encodeManagedState_def)
  then show ?thesis
    by (simp add: SealManagedState_def managedStateKey_def accountKey_def managedStateEnvelopeMagic_def
        gcmNonceSize_def MaxRecoveryObjectSize_def check_def readFull_def Let_def)
      (simp add: assms(3) demo_crypto_def)
qed

theorem managed_state_roundtrip_witness:
  "OpenManagedState (demo_crypto (stateBytes (demo_state 1))) (\<lambda>m. True) (replicate 32 0)
     (hexEncode (replicate 32 0)) (managedStateEnvelopeMagic @ replicate 12 0 @ [0] @ replicate 16 0)
   = Inr (demo_state 1)"
proof (rule managed_state_roundtrip [OF demo_crypto_laws demo_seal demo_state_normal])
  show "\<forall>w\<in>set (ms_Wallets (demo_state 1)). fingerprint_ok (mw_Fingerprint w)"
    by (auto simp: demo_state_def demo_wallet_def fingerprint_ok_def simp del: hexEncode.simps)
  show "length (stateBytes (demo_state 1)) \<le> MaxRecoveryObjectSize"
    by code_simp
  show "\<forall>w\<in>set (ms_Wallets (demo_state 1)). unat (mw_AccountCount w) \<le> managedStateMaxItems"
    by (simp add: demo_state_def demo_wallet_def managedStateMaxItems_def)
qed simp_all

text \<open>
  C32: The size check of \<open>SealManagedState\<close> bounds the compressed and encrypted bytes, the one of
  \<open>OpenManagedState\<close> the uncompressed ones: a state whose raw encoding exceeds 10 KB but compresses
  below the limit is sealed without an error and can never be opened.
\<close>

theorem oversized_state_unreadable:
  assumes "crypto_laws C" and "SealManagedState C bip39 secret accountID v random = Inr (blob, random')"
    and "normalizedManagedState bip39 v = Inr st"
    and "length (stateBytes st) > MaxRecoveryObjectSize"
  shows "OpenManagedState C bip39 secret accountID blob = Inl ErrRecoveryFailed"
  using Open_sealed [OF assms(1-3)] assms(4) by (simp add: check_def)

lemma stateString_length: "length v \<le> length (stateString v)"
  by (simp add: stateString_def)

theorem oversized_state_unreadable_witness:
  "OpenManagedState (demo_crypto (stateBytes (demo_state 4096))) (\<lambda>m. True) (replicate 32 0)
     (hexEncode (replicate 32 0)) (managedStateEnvelopeMagic @ replicate 12 0 @ [0] @ replicate 16 0)
   = Inl ErrRecoveryFailed"
proof (rule oversized_state_unreadable [OF demo_crypto_laws demo_seal demo_state_normal])
  have "3 * 4096 \<le> length (walletBytes (demo_wallet 4096))"
    using stateString_length [of "replicate 4096 CHR ''a''"] stateString_length [of "replicate 4096 CHR ''b''"]
      stateString_length [of "replicate 4096 CHR ''c''"]
    by (simp add: walletBytes_def demo_wallet_def subBytes_def del: hexEncode.simps)
  then show "length (stateBytes (demo_state 4096)) > MaxRecoveryObjectSize"
    by (simp add: stateBytes_def demo_state_def MaxRecoveryObjectSize_def del: hexEncode.simps)
qed simp_all

text \<open>
  Normalisation establishes the state invariant (version, revisions, canonical unique
  fingerprints, cleared deleted wallets, normal contents sorted by account index, a live root
  wallet) and is idempotent on canonical fingerprints.
\<close>

theorem managed_state_normal_form:
  assumes "normalizedManagedState bip39 v = Inr st"
    and "\<forall>w\<in>set (ms_Wallets v). fingerprint_ok (mw_Fingerprint w)"
  shows "state_normal bip39 st \<and> normalizedManagedState bip39 st = Inr st"
proof -
  note N = normalized_state_normal [OF assms(1)]
  show ?thesis using N(1) state_normal_fixed [OF N(1) N(2) [OF assms(2)]] by blast
qed

theorem managed_state_normal_form_witness:
  "state_normal (\<lambda>m. True) (demo_state 2) \<and> normalizedManagedState (\<lambda>m. True) (demo_state 2) = Inr (demo_state 2)"
proof (rule managed_state_normal_form [OF demo_state_normal])
  show "\<forall>w\<in>set (ms_Wallets (demo_state 2)). fingerprint_ok (mw_Fingerprint w)"
    by (auto simp: demo_state_def demo_wallet_def fingerprint_ok_def simp del: hexEncode.simps)
qed simp

text \<open>
  The backup of a normalised state lists its live wallets in order; it fails, with the
  duplicate-name error, exactly when two live wallets have the same name (which a state may
  contain: normalisation checks the wallets one by one).
\<close>

theorem backup_from_state:
  assumes "normalizedManagedState bip39 v = Inr st"
  shows "BackupFromManagedState bip39 v =
    (let live = filter (\<lambda>w. \<not> mw_Deleted w) (ms_Wallets st)
     in if distinct (map mw_Name live) then Inr \<lparr>bk_Version = 1, bk_Wallets = map walletBackup live\<rparr>
        else Inl ErrDuplicateWalletName)"
proof -
  let ?live = "filter (\<lambda>w. \<not> mw_Deleted w) (ms_Wallets st)"
  have sn: "state_normal bip39 st" by (rule normalized_state_normal [OF assms])
  then have "\<forall>w\<in>set (map walletBackup ?live). normal_wallet bip39 w"
    by (auto simp: state_normal_def items_normal_def content_normal_def)
  note ws = normal_wallets_names [OF this, of "[]"]
  have "wb_Name \<circ> walletBackup = mw_Name" by (auto simp: walletBackup_def)
  moreover have "?live \<noteq> []" using sn by (auto simp: state_normal_def filter_empty_conv)
  ultimately show ?thesis
    using assms ws by (auto simp: BackupFromManagedState_def NormalizeBackup_def Let_def comp_def)
qed

theorem backup_from_state_witness:
  "BackupFromManagedState (\<lambda>m. True) (demo_state 1) =
    (let live = filter (\<lambda>w. \<not> mw_Deleted w) (ms_Wallets (demo_state 1))
     in if distinct (map mw_Name live) then Inr \<lparr>bk_Version = 1, bk_Wallets = map walletBackup live\<rparr>
        else Inl ErrDuplicateWalletName)"
  by (rule backup_from_state [OF demo_state_normal]) simp

end
