(* ===== verification/ManagedData.thy ===== *)
theory ManagedData
  imports ManagedStateCodec "HOL-Library.Multiset"
begin

text \<open>
  \<open>sdk/account/managed_data.go\<close>: the bundle of module-owned recovery payloads that an account
  state refers to, its normalisation, encoding, compression policy and sealed form, and their
  correctness.
\<close>

section \<open>Bundles\<close>

record ManagedDataItem =
  mi_Provider :: string
  mi_Scope :: string
  mi_Payload :: "byte list"

record ManagedDataBundle =
  mb_Version :: "32 word"
  mb_Revision :: "64 word"
  mb_Items :: "ManagedDataItem list"

definition managedDataMaxItems :: nat where "managedDataMaxItems = 4096"
definition managedDataMaxProvider :: nat where "managedDataMaxProvider = 128"
definition managedDataMaxScope :: nat where "managedDataMaxScope = 1024"
definition ManagedDataMaxPayload :: nat where "ManagedDataMaxPayload = 2 ^ 20"

definition nameChar :: "char \<Rightarrow> bool" where
  "nameChar c = (let n = of_char c :: nat in 97 \<le> n \<and> n \<le> 122 \<or> 48 \<le> n \<and> n \<le> 57
     \<or> c \<in> {CHR ''-'', CHR ''_'', CHR ''.'', CHR ''/'', CHR '':''})"

definition validManagedDataName :: "string \<Rightarrow> nat \<Rightarrow> bool" where
  "validManagedDataName value limit =
     (let value = trimSpace value
      in value \<noteq> '''' \<and> length value \<le> limit \<and> list_all nameChar value)"

text \<open>The loop over the items, with the map \<open>seen\<close> of keys as a list.\<close>

fun normalizeDataItems :: "string list \<Rightarrow> ManagedDataItem list \<Rightarrow> account_error + ManagedDataItem list" where
  "normalizeDataItems seen [] = Inr []"
| "normalizeDataItems seen (raw # raws) =
     (let provider = trimSpace (mi_Provider raw); scope = trimSpace (mi_Scope raw);
          key = provider @ [CHR 0x00] @ scope
      in check (\<not> validManagedDataName provider managedDataMaxProvider
            \<or> \<not> validManagedDataName scope managedDataMaxScope
            \<or> length (mi_Payload raw) = 0 \<or> length (mi_Payload raw) > ManagedDataMaxPayload) ErrInvalidBackup
          (check (key \<in> set seen) ErrInvalidBackup
            (rbind (normalizeDataItems (key # seen) raws) (\<lambda>items.
              Inr (\<lparr>mi_Provider = provider, mi_Scope = scope, mi_Payload = mi_Payload raw\<rparr> # items)))))"

definition itemKey :: "ManagedDataItem \<Rightarrow> string \<times> string" where
  "itemKey item = (mi_Provider item, mi_Scope item)"

definition NormalizeManagedDataBundle :: "ManagedDataBundle \<Rightarrow> account_error + ManagedDataBundle" where
  "NormalizeManagedDataBundle value =
     check (mb_Version value \<noteq> 1 \<or> mb_Revision value = 0 \<or> length (mb_Items value) > managedDataMaxItems)
       ErrInvalidBackup
      (rbind (normalizeDataItems [] (mb_Items value)) (\<lambda>items.
        Inr \<lparr>mb_Version = 1, mb_Revision = mb_Revision value, mb_Items = sort_key itemKey items\<rparr>))"

section \<open>Encoding\<close>

definition managedDataPlainMagic :: "byte list" where "managedDataPlainMagic = bytes_of ''AMD''"
definition managedDataEnvelopeMagic :: "byte list" where "managedDataEnvelopeMagic = bytes_of ''ADE''"
definition managedDataCompressedMagic :: "byte list" where "managedDataCompressedMagic = bytes_of ''ADC'' @ [1]"

definition writeManagedDataBytes :: "byte list \<Rightarrow> byte list" where
  "writeManagedDataBytes value = putUvarint (of_nat (length value)) @ value"

definition readManagedDataBytes :: "64 word \<Rightarrow> reader \<Rightarrow> account_error + (byte list \<times> reader)" where
  "readManagedDataBytes limit r =
     rbind (readStateUvarint r) (\<lambda>(n, r).
       check (n = 0 \<or> n > limit \<or> unat n > length r) ErrRecoveryFailed (readFull ErrRecoveryFailed (unat n) r))"

definition encodeItem :: "ManagedDataItem \<Rightarrow> account_error + byte list" where
  "encodeItem item =
     rbind (writeStateString (mi_Provider item)) (\<lambda>provider.
       rbind (writeStateString (mi_Scope item)) (\<lambda>scope.
         Inr (provider @ scope @ writeManagedDataBytes (mi_Payload item))))"

definition EncodeManagedDataBundle :: "ManagedDataBundle \<Rightarrow> account_error + byte list" where
  "EncodeManagedDataBundle value =
     rbind (NormalizeManagedDataBundle value) (\<lambda>bundle.
       rbind (rmap encodeItem (mb_Items bundle)) (\<lambda>items.
         let buf = managedDataPlainMagic @ putUvarint (ucast (mb_Version bundle))
               @ putUvarint (mb_Revision bundle) @ putUvarint (of_nat (length (mb_Items bundle))) @ concat items
         in check (length buf > ManagedDataMaxPayload) ErrValueLimit (Inr buf)))"

definition decodeItem :: "reader \<Rightarrow> account_error + (ManagedDataItem \<times> reader)" where
  "decodeItem r =
     rbind (readStateString r) (\<lambda>(provider, r).
       rbind (readStateString r) (\<lambda>(scope, r).
         rbind (readManagedDataBytes (of_nat ManagedDataMaxPayload) r) (\<lambda>(payload, r).
           Inr (\<lparr>mi_Provider = provider, mi_Scope = scope, mi_Payload = payload\<rparr>, r))))"

definition DecodeManagedDataBundle :: "byte list \<Rightarrow> account_error + ManagedDataBundle" where
  "DecodeManagedDataBundle value =
     check (length value = 0 \<or> length value > ManagedDataMaxPayload) ErrRecoveryFailed
      (rbind (readFull ErrRecoveryFailed 3 value) (\<lambda>(magic, r).
        check (magic \<noteq> managedDataPlainMagic) ErrRecoveryFailed
         (rbind (readStateUvarint r) (\<lambda>(version, r).
           check ((ucast version :: 32 word) \<noteq> 1) ErrRecoveryFailed
            (rbind (readStateUvarint r) (\<lambda>(revision, r).
              check (revision = 0) ErrRecoveryFailed
               (rbind (readStateUvarint r) (\<lambda>(count, r).
                 check (count > of_nat managedDataMaxItems) ErrRecoveryFailed
                  (rbind (read_n decodeItem (unat count) r) (\<lambda>(items, r).
                    check (length r \<noteq> 0) ErrRecoveryFailed
                      (NormalizeManagedDataBundle
                        \<lparr>mb_Version = 1, mb_Revision = revision, mb_Items = items\<rparr>)))))))))))"

definition ManagedDataBundleHash :: "crypto \<Rightarrow> ManagedDataBundle \<Rightarrow> account_error + string" where
  "ManagedDataBundleHash C value =
     rbind (EncodeManagedDataBundle value) (\<lambda>encoded. Inr (hexEncode (sha256 C encoded)))"

definition ManagedDataBundleDigest :: "crypto \<Rightarrow> byte list \<Rightarrow> string" where
  "ManagedDataBundleDigest C value = hexEncode (sha256 C value)"

definition EncodeManagedDataRevision :: "64 word \<Rightarrow> byte list" where
  "EncodeManagedDataRevision value = putUint64BE value"

section \<open>Compression\<close>

text \<open>Writing to a \<open>bytes.Buffer\<close> does not fail, so neither do \<open>Write\<close> and \<open>Close\<close> of the compressor.\<close>

definition prepareManagedDataPlaintext :: "crypto \<Rightarrow> byte list \<Rightarrow> byte list \<times> bool" where
  "prepareManagedDataPlaintext C value =
     (if length value < 1024 then (value, False)
      else (let compressed = managedDataCompressedMagic @ zlibPack C value
            in if length compressed + 64 \<ge> length value then (value, False) else (compressed, True)))"

definition hasPrefix :: "byte list \<Rightarrow> byte list \<Rightarrow> bool" where
  "hasPrefix value pre \<longleftrightarrow> take (length pre) value = pre"

definition restoreManagedDataPlaintext :: "crypto \<Rightarrow> byte list \<Rightarrow> account_error + (byte list \<times> bool)" where
  "restoreManagedDataPlaintext C value =
     (if hasPrefix value managedDataPlainMagic then Inr (value, False)
      else check (\<not> hasPrefix value managedDataCompressedMagic) ErrRecoveryFailed
        (case zlibUnpack C (drop (length managedDataCompressedMagic) value) of
           None \<Rightarrow> Inl ErrRecoveryFailed
         | Some decoded \<Rightarrow>
             check (length decoded = 0 \<or> length decoded > ManagedDataMaxPayload
                 \<or> \<not> hasPrefix decoded managedDataPlainMagic) ErrRecoveryFailed
               (Inr (decoded, True))))"

definition ManagedDataBundleCompressionBeneficial :: "crypto \<Rightarrow> ManagedDataBundle \<Rightarrow> account_error + bool" where
  "ManagedDataBundleCompressionBeneficial C bundle =
     rbind (EncodeManagedDataBundle bundle) (\<lambda>plaintext. Inr (snd (prepareManagedDataPlaintext C plaintext)))"

section \<open>Sealing\<close>

definition managedDataKey :: "crypto \<Rightarrow> byte list \<Rightarrow> string \<Rightarrow> account_error + byte list" where
  "managedDataKey C = accountKey C ''sat20-account-managed-data''"

definition managedDataAAD :: "string \<Rightarrow> byte list" where
  "managedDataAAD accountID = bytes_of (''sat20-account-managed-data-aad|'' @ accountID)"

text \<open>The result is the envelope, its \<open>Compressed\<close> flag and the rest of the random source.\<close>

definition SealManagedDataBundleWithInfo :: "crypto \<Rightarrow> byte list \<Rightarrow> string \<Rightarrow> ManagedDataBundle \<Rightarrow> reader
    \<Rightarrow> account_error + (byte list \<times> bool \<times> reader)" where
  "SealManagedDataBundleWithInfo C secret accountID bundle random =
     rbind (EncodeManagedDataBundle bundle) (\<lambda>plaintext.
       let (payload, compressed) = prepareManagedDataPlaintext C plaintext
       in rbind (managedDataKey C secret accountID) (\<lambda>key.
            rbind (readFull ErrReadRandom gcmNonceSize random) (\<lambda>(nonce, random).
              let result = managedDataEnvelopeMagic @ nonce
                    @ gcmSeal C key nonce payload (managedDataAAD accountID)
              in check (length result > ManagedDataMaxPayload) ErrValueLimit
                   (Inr (result, compressed, random)))))"

definition SealManagedDataBundle :: "crypto \<Rightarrow> byte list \<Rightarrow> string \<Rightarrow> ManagedDataBundle \<Rightarrow> reader
    \<Rightarrow> account_error + (byte list \<times> reader)" where
  "SealManagedDataBundle C secret accountID bundle random =
     rbind (SealManagedDataBundleWithInfo C secret accountID bundle random) (\<lambda>(value, _, random).
       Inr (value, random))"

definition OpenManagedDataBundleWithInfo :: "crypto \<Rightarrow> byte list \<Rightarrow> string \<Rightarrow> byte list
    \<Rightarrow> account_error + (ManagedDataBundle \<times> bool)" where
  "OpenManagedDataBundleWithInfo C secret accountID value =
     rbind (managedDataKey C secret accountID) (\<lambda>key.
       check (length value < length managedDataEnvelopeMagic + gcmNonceSize + gcmOverhead
           \<or> take (length managedDataEnvelopeMagic) value \<noteq> managedDataEnvelopeMagic) ErrRecoveryFailed
        (let offset = length managedDataEnvelopeMagic;
             nonce = take gcmNonceSize (drop offset value);
             ciphertext = drop (offset + gcmNonceSize) value
         in case gcmOpen C key nonce ciphertext (managedDataAAD accountID) of
              None \<Rightarrow> Inl ErrRecoveryFailed
            | Some payload \<Rightarrow>
                rbind (restoreManagedDataPlaintext C payload) (\<lambda>(plaintext, expanded).
                  rbind (DecodeManagedDataBundle plaintext) (\<lambda>bundle. Inr (bundle, expanded)))))"

definition OpenManagedDataBundle :: "crypto \<Rightarrow> byte list \<Rightarrow> string \<Rightarrow> byte list
    \<Rightarrow> account_error + ManagedDataBundle" where
  "OpenManagedDataBundle C secret accountID value =
     rbind (OpenManagedDataBundleWithInfo C secret accountID value) (\<lambda>(bundle, _). Inr bundle)"

section \<open>Normal bundles\<close>

definition normal_item :: "ManagedDataItem \<Rightarrow> bool" where
  "normal_item it \<longleftrightarrow> validManagedDataName (mi_Provider it) managedDataMaxProvider
     \<and> validManagedDataName (mi_Scope it) managedDataMaxScope
     \<and> trimSpace (mi_Provider it) = mi_Provider it \<and> trimSpace (mi_Scope it) = mi_Scope it
     \<and> mi_Payload it \<noteq> [] \<and> length (mi_Payload it) \<le> ManagedDataMaxPayload"

definition trimItem :: "ManagedDataItem \<Rightarrow> ManagedDataItem" where
  "trimItem it = it\<lparr>mi_Provider := trimSpace (mi_Provider it), mi_Scope := trimSpace (mi_Scope it)\<rparr>"

definition normal_bundle :: "ManagedDataBundle \<Rightarrow> bool" where
  "normal_bundle b \<longleftrightarrow> mb_Version b = 1 \<and> mb_Revision b \<noteq> 0 \<and> length (mb_Items b) \<le> managedDataMaxItems
     \<and> (\<forall>it\<in>set (mb_Items b). normal_item it) \<and> sorted_wrt (<) (map itemKey (mb_Items b))"

lemma nameChar_printable: "nameChar c \<Longrightarrow> printable c"
  by (auto simp: nameChar_def printable_def Let_def)

lemma normal_trimItem: "normal_item (trimItem it) \<longleftrightarrow>
    validManagedDataName (trimSpace (mi_Provider it)) managedDataMaxProvider
  \<and> validManagedDataName (trimSpace (mi_Scope it)) managedDataMaxScope
  \<and> mi_Payload it \<noteq> [] \<and> length (mi_Payload it) \<le> ManagedDataMaxPayload"
  by (auto simp: normal_item_def trimItem_def)

lemma valid_name_no_nul: "validManagedDataName s n \<Longrightarrow> trimSpace s = s \<Longrightarrow> CHR 0x00 \<notin> set s"
  by (auto simp: validManagedDataName_def list_all_iff nameChar_def)

lemma append_sep_inject:
  "c \<notin> set p \<Longrightarrow> c \<notin> set q \<Longrightarrow> p @ c # s = q @ c # t \<longleftrightarrow> p = q \<and> s = t"
proof (induction p arbitrary: q)
  case Nil then show ?case by (cases q) auto
next
  case (Cons x p) then show ?case by (cases q) auto
qed

definition keyText :: "ManagedDataItem \<Rightarrow> string" where
  "keyText it = mi_Provider it @ [CHR 0x00] @ mi_Scope it"

lemma normal_item_no_nul: "normal_item it \<Longrightarrow> CHR 0x00 \<notin> set (mi_Provider it)"
  using valid_name_no_nul unfolding normal_item_def by blast

lemma keyText_inject: "normal_item a \<Longrightarrow> normal_item b \<Longrightarrow> keyText a = keyText b \<longleftrightarrow> itemKey a = itemKey b"
  using append_sep_inject [OF normal_item_no_nul normal_item_no_nul]
  by (simp add: keyText_def itemKey_def)

lemma normalizeDataItems_eq:
  "normalizeDataItems seen raws =
     (if (\<forall>it\<in>set raws. normal_item (trimItem it)) \<and> distinct (map (\<lambda>it. keyText (trimItem it)) raws)
          \<and> set seen \<inter> (\<lambda>it. keyText (trimItem it)) ` set raws = {}
      then Inr (map trimItem raws) else Inl ErrInvalidBackup)"
proof (induction raws arbitrary: seen)
  case (Cons raw raws)
  let ?key = "trimSpace (mi_Provider raw) @ [CHR 0x00] @ trimSpace (mi_Scope raw)"
  have k: "keyText (trimItem raw) = ?key" by (simp add: keyText_def trimItem_def)
  have t: "\<lparr>mi_Provider = trimSpace (mi_Provider raw), mi_Scope = trimSpace (mi_Scope raw),
      mi_Payload = mi_Payload raw\<rparr> = trimItem raw" by (cases raw) (simp add: trimItem_def)
  show ?case
  proof (cases "normal_item (trimItem raw) \<and> keyText (trimItem raw) \<notin> set seen")
    case True
    then have "normalizeDataItems seen (raw # raws)
        = rbind (normalizeDataItems (keyText (trimItem raw) # seen) raws) (\<lambda>items. Inr (trimItem raw # items))"
      by (auto simp: Let_def check_def normal_trimItem k t)
    then show ?thesis using True unfolding Cons.IH by auto
  next
    case False
    then have "normalizeDataItems seen (raw # raws) = Inl ErrInvalidBackup"
      by (auto simp: Let_def check_def normal_trimItem k not_le)
    then show ?thesis using False by auto
  qed
qed simp

lemma distinct_map_inj_cong:
  "(\<And>x y. x \<in> set xs \<Longrightarrow> y \<in> set xs \<Longrightarrow> f x = f y \<longleftrightarrow> g x = g y) \<Longrightarrow> distinct (map f xs) = distinct (map g xs)"
  by (auto simp: distinct_map inj_on_def)

lemma NormalizeBundle_iff:
  "NormalizeManagedDataBundle v = Inr b \<longleftrightarrow>
     mb_Version v = 1 \<and> mb_Revision v \<noteq> 0 \<and> length (mb_Items v) \<le> managedDataMaxItems
     \<and> (\<forall>it\<in>set (mb_Items v). normal_item (trimItem it)) \<and> distinct (map itemKey (map trimItem (mb_Items v)))
     \<and> b = \<lparr>mb_Version = 1, mb_Revision = mb_Revision v, mb_Items = sort_key itemKey (map trimItem (mb_Items v))\<rparr>"
proof -
  have "distinct (map (\<lambda>it. keyText (trimItem it)) (mb_Items v)) = distinct (map itemKey (map trimItem (mb_Items v)))"
    if "\<forall>it\<in>set (mb_Items v). normal_item (trimItem it)"
    unfolding map_map by (rule distinct_map_inj_cong) (use that keyText_inject in auto)
  then show ?thesis
    by (auto simp: NormalizeManagedDataBundle_def normalizeDataItems_eq result_simps split: if_splits)
qed

lemma Normalize_error: "NormalizeManagedDataBundle v = Inl e \<Longrightarrow> e = ErrInvalidBackup"
  by (auto simp: NormalizeManagedDataBundle_def normalizeDataItems_eq check_def split: if_splits)

lemma sorted_key_strict: "distinct (map f xs) \<Longrightarrow> sorted_wrt (<) (map f (sort_key f xs))"
proof -
  assume d: "distinct (map f xs)"
  have "mset (map f (sort_key f xs)) = mset (map f xs)" by (simp only: mset_map mset_sort)
  then have "distinct (map f (sort_key f xs))" using d by (metis mset_eq_imp_distinct_iff)
  then show ?thesis by (simp add: strict_sorted_iff)
qed

lemma Normalize_normal: "NormalizeManagedDataBundle v = Inr b \<Longrightarrow> normal_bundle b"
  unfolding NormalizeBundle_iff normal_bundle_def by (auto intro: sorted_key_strict)

lemma normal_bundle_fixed:
  assumes "normal_bundle b"
  shows "NormalizeManagedDataBundle b = Inr b"
proof -
  have t: "trimItem it = it" if "normal_item it" for it
    using that by (cases it) (simp add: normal_item_def trimItem_def)
  then have m: "map trimItem (mb_Items b) = mb_Items b"
    using assms by (intro map_idI) (auto simp: normal_bundle_def)
  moreover have "sort_key itemKey (mb_Items b) = mb_Items b"
    using assms by (intro sort_key_id_if_sorted) (auto simp: normal_bundle_def strict_sorted_iff)
  ultimately show ?thesis
    using assms t unfolding NormalizeBundle_iff m by (cases b) (auto simp: normal_bundle_def strict_sorted_iff)
qed

section \<open>Decoding inverts encoding\<close>

definition itemBytes :: "ManagedDataItem \<Rightarrow> byte list" where
  "itemBytes it = stateString (mi_Provider it) @ stateString (mi_Scope it) @ writeManagedDataBytes (mi_Payload it)"

lemma encodeItem_iff:
  "encodeItem it = Inr b \<longleftrightarrow> (string_ok (mi_Provider it) \<and> string_ok (mi_Scope it)) \<and> b = itemBytes it"
  by (auto simp: encodeItem_def itemBytes_def result_simps writeStateString_iff)

lemma normal_item_strings: "normal_item it \<Longrightarrow> string_ok (mi_Provider it) \<and> string_ok (mi_Scope it)"
  by (auto simp: normal_item_def validManagedDataName_def Let_def string_ok_def managedStateMaxString_def
      managedDataMaxProvider_def managedDataMaxScope_def)

interpretation data_bytes: codec writeManagedDataBytes "readManagedDataBytes (of_nat ManagedDataMaxPayload)"
  "\<lambda>b. b \<noteq> [] \<and> length b \<le> ManagedDataMaxPayload"
proof
  fix b :: "byte list" and rest assume b: "b \<noteq> [] \<and> length b \<le> ManagedDataMaxPayload"
  then have n: "length b \<le> 2 ^ 20" by (simp add: ManagedDataMaxPayload_def)
  then have u: "unat (of_nat (length b) :: 64 word) = length b" by (intro unat_of_nat64) simp
  have nz: "(of_nat (length b) :: 64 word) \<noteq> 0"
  proof
    assume "(of_nat (length b) :: 64 word) = 0"
    then have "unat (of_nat (length b) :: 64 word) = 0" by simp
    then show False using b unfolding u by simp
  qed
  have "\<not> (of_nat (length b) :: 64 word) > of_nat ManagedDataMaxPayload"
    using n by (simp add: ManagedDataMaxPayload_def word_less_nat_alt u)
  then show "readManagedDataBytes (of_nat ManagedDataMaxPayload) (writeManagedDataBytes b @ rest) = Inr (b, rest)"
    using nz u by (simp add: readManagedDataBytes_def writeManagedDataBytes_def state_uvarint.dec_enc check_def)
qed

interpretation data_item: codec itemBytes decodeItem normal_item
proof
  fix it rest assume n: "normal_item it"
  then have "mi_Payload it \<noteq> [] \<and> length (mi_Payload it) \<le> ManagedDataMaxPayload" by (simp add: normal_item_def)
  then show "decodeItem (itemBytes it @ rest) = Inr (it, rest)"
    using normal_item_strings [OF n]
    by (simp add: decodeItem_def itemBytes_def state_string.dec_enc data_bytes.dec_enc)
qed

definition bundleBytes :: "ManagedDataBundle \<Rightarrow> byte list" where
  "bundleBytes b = managedDataPlainMagic @ putUvarint (ucast (mb_Version b)) @ putUvarint (mb_Revision b)
     @ putUvarint (of_nat (length (mb_Items b))) @ concat (map itemBytes (mb_Items b))"

lemma Encode_iff:
  "EncodeManagedDataBundle v = Inr z \<longleftrightarrow>
     (\<exists>b. NormalizeManagedDataBundle v = Inr b \<and> z = bundleBytes b \<and> length z \<le> ManagedDataMaxPayload)"
proof -
  have "rmap encodeItem (mb_Items b) = Inr (map itemBytes (mb_Items b))" if "normal_bundle b" for b
    using that normal_item_strings
    by (auto simp: normal_bundle_def rmap_partial [where f = encodeItem and g = itemBytes
        and ok = "\<lambda>it. string_ok (mi_Provider it) \<and> string_ok (mi_Scope it)", OF encodeItem_iff])
  then show ?thesis
    using Normalize_normal by (auto simp: EncodeManagedDataBundle_def result_simps bundleBytes_def Let_def)
qed

lemma Decode_bytes:
  assumes b: "normal_bundle b" and l: "length (bundleBytes b) \<le> ManagedDataMaxPayload"
  shows "DecodeManagedDataBundle (bundleBytes b) = Inr b"
proof -
  have n: "length (mb_Items b) \<le> 4096" using b by (simp add: normal_bundle_def managedDataMaxItems_def)
  then have u: "unat (of_nat (length (mb_Items b)) :: 64 word) = length (mb_Items b)"
    by (intro unat_of_nat64) simp
  have c: "\<not> (of_nat (length (mb_Items b)) :: 64 word) > of_nat managedDataMaxItems"
    using n by (simp add: word_less_nat_alt managedDataMaxItems_def u)
  have i: "read_n decodeItem (length (mb_Items b)) (concat (map itemBytes (mb_Items b))) = Inr (mb_Items b, [])"
    using data_item.read_n_concat [of "mb_Items b" "[]"] b by (simp add: normal_bundle_def)
  have v: "ucast (ucast (1 :: 32 word) :: 64 word) = (1 :: 32 word)" by (rule ucast_32_64_32)
  have m: "length managedDataPlainMagic = 3" by (simp add: managedDataPlainMagic_def)
  have "bundleBytes b \<noteq> []" using m by (auto simp: bundleBytes_def)
  moreover have vr: "mb_Version b = 1" "mb_Revision b \<noteq> 0" using b by (simp_all add: normal_bundle_def)
  moreover from vr(1) have e: "\<lparr>mb_Version = 1, mb_Revision = mb_Revision b, mb_Items = mb_Items b\<rparr> = b"
    by (cases b) simp
  ultimately show ?thesis
    using l c i v m u normal_bundle_fixed [OF b]
    by (simp add: DecodeManagedDataBundle_def check_def)
      (simp add: bundleBytes_def state_uvarint.dec_enc check_def e)
qed

section \<open>The plaintext and its compressed form\<close>

lemma bundleBytes_plain: "hasPrefix (bundleBytes b) managedDataPlainMagic"
  by (simp add: hasPrefix_def bundleBytes_def)

lemma bundleBytes_nonempty: "bundleBytes b \<noteq> []"
  by (simp add: bundleBytes_def managedDataPlainMagic_def bytes_of_def)

lemma compressed_not_plain: "\<not> hasPrefix (managedDataCompressedMagic @ z) managedDataPlainMagic"
  by (simp add: hasPrefix_def managedDataCompressedMagic_def managedDataPlainMagic_def bytes_of_def
      byte_of_char_def)

lemma restore_prepare:
  assumes "crypto_laws C" "hasPrefix v managedDataPlainMagic" "v \<noteq> []" "length v \<le> ManagedDataMaxPayload"
    and "prepareManagedDataPlaintext C v = (p, c)"
  shows "restoreManagedDataPlaintext C p = Inr (v, c)"
proof -
  have z: "zlibUnpack C (zlibPack C v) = Some v" using assms(1) by (simp add: crypto_laws_def)
  have h: "hasPrefix (managedDataCompressedMagic @ q) managedDataCompressedMagic" for q by (simp add: hasPrefix_def)
  have "restoreManagedDataPlaintext C (managedDataCompressedMagic @ zlibPack C v) = Inr (v, True)"
    using compressed_not_plain z h assms(2-4) by (simp add: restoreManagedDataPlaintext_def check_def)
  moreover have "restoreManagedDataPlaintext C v = Inr (v, False)"
    using assms(2) by (simp add: restoreManagedDataPlaintext_def)
  ultimately show ?thesis
    using assms(5) by (auto simp: prepareManagedDataPlaintext_def Let_def split: if_splits)
qed

lemma SealInfo_facts:
  assumes "SealManagedDataBundleWithInfo C secret accountID v random = Inr (blob, c, random')"
  shows "\<exists>b p key nonce. NormalizeManagedDataBundle v = Inr b \<and> length (bundleBytes b) \<le> ManagedDataMaxPayload
    \<and> prepareManagedDataPlaintext C (bundleBytes b) = (p, c) \<and> managedDataKey C secret accountID = Inr key
    \<and> length nonce = gcmNonceSize
    \<and> blob = managedDataEnvelopeMagic @ nonce @ gcmSeal C key nonce p (managedDataAAD accountID)
    \<and> length blob \<le> ManagedDataMaxPayload"
proof -
  obtain z where z: "EncodeManagedDataBundle v = Inr z"
    using assms by (cases "EncodeManagedDataBundle v") (auto simp: SealManagedDataBundleWithInfo_def)
  then obtain b where b: "NormalizeManagedDataBundle v = Inr b" "z = bundleBytes b" "length z \<le> ManagedDataMaxPayload"
    by (auto simp: Encode_iff)
  obtain p c' where p: "prepareManagedDataPlaintext C z = (p, c')" by fastforce
  show ?thesis
    using assms b p z by (auto simp: SealManagedDataBundleWithInfo_def result_simps Let_def not_less)
qed

text \<open>
  Managed data survives storage: what \<open>SealManagedDataBundleWithInfo\<close> wrote is opened in normal form, with
  the same use of compression.
\<close>

lemma managed_data_open:
  assumes "crypto_laws C" and "SealManagedDataBundleWithInfo C secret accountID v random = Inr (blob, c, random')"
  shows "\<exists>b. NormalizeManagedDataBundle v = Inr b \<and> normal_bundle b
    \<and> OpenManagedDataBundleWithInfo C secret accountID blob = Inr (b, c)"
proof -
  obtain b p key nonce where b: "NormalizeManagedDataBundle v = Inr b"
    and l: "length (bundleBytes b) \<le> ManagedDataMaxPayload"
    and p: "prepareManagedDataPlaintext C (bundleBytes b) = (p, c)"
    and k: "managedDataKey C secret accountID = Inr key" and n: "length nonce = gcmNonceSize"
    and blob: "blob = managedDataEnvelopeMagic @ nonce @ gcmSeal C key nonce p (managedDataAAD accountID)"
    using SealInfo_facts [OF assms(2)] by blast
  note nb = Normalize_normal [OF b]
  have g: "gcmOpen C key nonce (gcmSeal C key nonce p a) a = Some p"
    "length (gcmSeal C key nonce p a) = length p + gcmOverhead" for a
    using assms(1) by (simp_all add: crypto_laws_def gcmOverhead_def)
  have "restoreManagedDataPlaintext C p = Inr (bundleBytes b, c)"
    by (rule restore_prepare [OF assms(1) bundleBytes_plain bundleBytes_nonempty l p])
  then have "OpenManagedDataBundleWithInfo C secret accountID blob = Inr (b, c)"
    using Decode_bytes [OF nb l] k n g by (simp add: OpenManagedDataBundleWithInfo_def blob check_def)
  then show ?thesis using b nb by blast
qed

section \<open>The properties\<close>

text \<open>
  C33: Two devices that list the same items in different orders produce the same plaintext, hence
  the same bundle hash: the encoding is a function of the multiset of items.
\<close>

theorem managed_data_canonical:
  assumes "mb_Version v = mb_Version w" and "mb_Revision v = mb_Revision w"
    and "mset (mb_Items v) = mset (mb_Items w)"
  shows "EncodeManagedDataBundle v = EncodeManagedDataBundle w
    \<and> ManagedDataBundleHash C v = ManagedDataBundleHash C w"
proof -
  have m: "mset (map trimItem (mb_Items v)) = mset (map trimItem (mb_Items w))" using assms(3) by simp
  have s: "set (mb_Items v) = set (mb_Items w)" using assms(3) by (rule mset_eq_setD)
  have l: "length (mb_Items v) = length (mb_Items w)" using assms(3) by (rule mset_eq_length)
  have "mset (map itemKey (map trimItem (mb_Items v))) = mset (map itemKey (map trimItem (mb_Items w)))"
    using m by (simp only: mset_map)
  then have d: "distinct (map itemKey (map trimItem (mb_Items v))) = distinct (map itemKey (map trimItem (mb_Items w)))"
    by (rule mset_eq_imp_distinct_iff)
  have k: "sort_key itemKey (map trimItem (mb_Items v)) = sort_key itemKey (map trimItem (mb_Items w))"
    if "distinct (map itemKey (map trimItem (mb_Items v)))"
  proof (rule sort_key_inj_key_eq)
    show "inj_on itemKey (set (map trimItem (mb_Items v)))" using that by (simp only: distinct_map)
  qed (use m in simp_all)
  have i: "NormalizeManagedDataBundle v = Inr b \<longleftrightarrow> NormalizeManagedDataBundle w = Inr b" for b
    unfolding NormalizeBundle_iff assms(1,2) s l using d k by auto
  have "NormalizeManagedDataBundle v = NormalizeManagedDataBundle w"
  proof (cases "NormalizeManagedDataBundle v")
    case (Inr b) then show ?thesis using i by simp
  next
    case (Inl e)
    then obtain e' where "NormalizeManagedDataBundle w = Inl e'"
      using i by (cases "NormalizeManagedDataBundle w") auto
    then show ?thesis using Inl Normalize_error by metis
  qed
  then show ?thesis by (simp add: EncodeManagedDataBundle_def ManagedDataBundleHash_def)
qed

text \<open>
  C34: Compression is used only when it pays: the stored envelope is never more than 31 bytes longer
  than the plaintext, and a compressed one is shorter than the plaintext by more than 33 bytes and
  only made for plaintexts of at least 1024 bytes.
\<close>

theorem managed_data_size:
  assumes "crypto_laws C" and "SealManagedDataBundleWithInfo C secret accountID v random = Inr (blob, c, random')"
    and "EncodeManagedDataBundle v = Inr plain"
  shows "length blob \<le> length plain + 31 \<and> length blob \<le> ManagedDataMaxPayload
    \<and> (c \<longrightarrow> 1024 \<le> length plain \<and> length blob + 33 < length plain)"
proof -
  obtain b p key nonce where b: "NormalizeManagedDataBundle v = Inr b"
    and p: "prepareManagedDataPlaintext C (bundleBytes b) = (p, c)" and n: "length nonce = gcmNonceSize"
    and blob: "blob = managedDataEnvelopeMagic @ nonce @ gcmSeal C key nonce p (managedDataAAD accountID)"
    "length blob \<le> ManagedDataMaxPayload"
    using SealInfo_facts [OF assms(2)] by blast
  have plain: "plain = bundleBytes b" using assms(3) b by (auto simp: Encode_iff)
  have g: "length (gcmSeal C key nonce p a) = length p + 16" for a
    using assms(1) by (simp add: crypto_laws_def)
  have "length blob = length p + 31"
    using n g by (simp add: blob(1) managedDataEnvelopeMagic_def gcmNonceSize_def)
  then show ?thesis
    using p blob(2) by (auto simp: plain prepareManagedDataPlaintext_def Let_def split: if_splits)
qed

definition demo_items :: "ManagedDataItem list" where
  "demo_items = [\<lparr>mi_Provider = ''dkvs'', mi_Scope = ''apps'', mi_Payload = [4]\<rparr>,
     \<lparr>mi_Provider = ''rgb11'', mi_Scope = ''main'', mi_Payload = [1, 2, 3]\<rparr>]"

definition demo_bundle :: ManagedDataBundle where
  "demo_bundle = \<lparr>mb_Version = 1, mb_Revision = 3, mb_Items = demo_items\<rparr>"

lemma demo_bundle_normal: "normal_bundle demo_bundle"
proof -
  have v: "validManagedDataName s n \<and> trimSpace s = s"
    if "s \<in> {''dkvs'', ''apps'', ''rgb11'', ''main''}" "5 \<le> n" for s n
  proof -
    have "\<forall>c\<in>set s. nameChar c" using that(1) by (auto simp: nameChar_def)
    moreover from this have "trimSpace s = s" using nameChar_printable by (intro printable_trim) blast
    moreover have "s \<noteq> [] \<and> length s \<le> n" using that by auto
    ultimately show ?thesis by (simp add: validManagedDataName_def list_all_iff)
  qed
  have "normal_item \<lparr>mi_Provider = p, mi_Scope = s, mi_Payload = x # xs\<rparr>"
    if "p \<in> {''dkvs'', ''rgb11''}" "s \<in> {''apps'', ''main''}" "length xs < 10" for p s x xs
    using v [of p 128] v [of s 1024] that
    by (simp add: normal_item_def managedDataMaxProvider_def managedDataMaxScope_def
        ManagedDataMaxPayload_def del: insert_iff) blast
  then have "list_all normal_item demo_items" by (simp add: demo_items_def)
  moreover have "sorted_wrt (<) (map itemKey demo_items)"
    by (simp add: demo_items_def itemKey_def)
  ultimately show ?thesis
    by (simp add: normal_bundle_def demo_bundle_def list_all_iff managedDataMaxItems_def)
      (simp add: demo_items_def)
qed

lemma demo_bundle_short: "length (bundleBytes demo_bundle) < 100"
  by code_simp

lemma demo_encode_data: "EncodeManagedDataBundle demo_bundle = Inr (bundleBytes demo_bundle)"
proof -
  have "length (bundleBytes demo_bundle) \<le> ManagedDataMaxPayload"
    using demo_bundle_short by (simp add: ManagedDataMaxPayload_def)
  then show ?thesis unfolding Encode_iff using normal_bundle_fixed [OF demo_bundle_normal] by blast
qed

definition demo_blob :: "byte list" where
  "demo_blob = managedDataEnvelopeMagic @ replicate 12 7 @ bundleBytes demo_bundle @ replicate 16 0"

lemma demo_seal_data:
  "SealManagedDataBundleWithInfo (demo_crypto []) (replicate 32 0) (hexEncode (replicate 32 0)) demo_bundle (replicate 12 7)
   = Inr (demo_blob, False, [])"
proof -
  have l: "length (bundleBytes demo_bundle) < 100" by (rule demo_bundle_short)
  have "length managedDataEnvelopeMagic = 3" by (simp add: managedDataEnvelopeMagic_def)
  with l show ?thesis
    using demo_encode_data
    by (simp add: SealManagedDataBundleWithInfo_def managedDataKey_def accountKey_def gcmNonceSize_def
        prepareManagedDataPlaintext_def check_def readFull_def Let_def ManagedDataMaxPayload_def demo_blob_def)
      (simp add: demo_crypto_def)
qed

lemma demo_data_opens:
  "\<exists>b. NormalizeManagedDataBundle demo_bundle = Inr b \<and> normal_bundle b
    \<and> OpenManagedDataBundleWithInfo (demo_crypto []) (replicate 32 0) (hexEncode (replicate 32 0)) demo_blob = Inr (b, False)"
  by (rule managed_data_open [OF demo_crypto_laws demo_seal_data])

theorem managed_data_canonical_witness:
  "EncodeManagedDataBundle (demo_bundle\<lparr>mb_Items := rev demo_items\<rparr>) = EncodeManagedDataBundle demo_bundle
    \<and> ManagedDataBundleHash (demo_crypto []) (demo_bundle\<lparr>mb_Items := rev demo_items\<rparr>)
      = ManagedDataBundleHash (demo_crypto []) demo_bundle"
  by (rule managed_data_canonical) (simp_all add: demo_bundle_def)

theorem managed_data_size_witness: "length demo_blob \<le> length (bundleBytes demo_bundle) + 31"
  using managed_data_size [OF demo_crypto_laws demo_seal_data demo_encode_data] by blast

end
