(* ===== verification/Runes.thy ===== *)
theory Runes
  imports Encoding
begin

text \<open>
  Go's conversion between strings and runes (UTF-8), used by the feature extraction of the recovery
  questions: \<open>decodeRune\<close> is \<open>utf8.DecodeRuneInString\<close> on a non-empty string, \<open>runes\<close> is
  \<open>[]rune(s)\<close>, \<open>encodeRune\<close> is \<open>string(r)\<close>, \<open>mapRunes\<close> is \<open>strings.Map\<close>.  An invalid byte
  decodes to U+FFFD, one byte at a time.
\<close>

definition runeError :: nat where "runeError = 65533"

definition isCont :: "nat \<Rightarrow> bool" where "isCont b \<longleftrightarrow> 128 \<le> b \<and> b < 192"

text \<open>The range of the second byte depends on the first one.\<close>

definition secondOk :: "nat \<Rightarrow> nat \<Rightarrow> bool" where
  "secondOk a b \<longleftrightarrow> isCont b \<and> (a = 224 \<longrightarrow> 160 \<le> b) \<and> (a = 237 \<longrightarrow> b < 160)
     \<and> (a = 240 \<longrightarrow> 144 \<le> b) \<and> (a = 244 \<longrightarrow> b < 144)"

fun decodeRune :: "nat list \<Rightarrow> nat \<times> nat" where
  "decodeRune [] = (runeError, 0)"
| "decodeRune (a # r) =
     (if a < 128 then (a, 1)
      else if 194 \<le> a \<and> a < 224 then
        (case r of b # _ \<Rightarrow> if isCont b then ((a - 192) * 64 + (b - 128), 2) else (runeError, 1)
         | [] \<Rightarrow> (runeError, 1))
      else if 224 \<le> a \<and> a < 240 then
        (case r of b # c # _ \<Rightarrow>
            if secondOk a b \<and> isCont c then ((a - 224) * 4096 + (b - 128) * 64 + (c - 128), 3) else (runeError, 1)
         | _ \<Rightarrow> (runeError, 1))
      else if 240 \<le> a \<and> a < 245 then
        (case r of b # c # d # _ \<Rightarrow>
            if secondOk a b \<and> isCont c \<and> isCont d
            then ((a - 240) * 262144 + (b - 128) * 4096 + (c - 128) * 64 + (d - 128), 4) else (runeError, 1)
         | _ \<Rightarrow> (runeError, 1))
      else (runeError, 1))"

lemma decodeRune_width: "0 < snd (decodeRune (a # r))"
  by (auto split: list.splits)

function decodeRunes :: "nat list \<Rightarrow> nat list" where
  "decodeRunes s = (if s = [] then []
     else fst (decodeRune s) # decodeRunes (drop (snd (decodeRune s)) s))"
  by pat_completeness auto
termination
proof (relation "measure length")
  fix s :: "nat list" assume s: "s \<noteq> []"
  then obtain a r where "s = a # r" by (cases s) auto
  then have "0 < snd (decodeRune s)" using decodeRune_width by blast
  then show "(drop (snd (decodeRune s)) s, s) \<in> measure length" using s by simp
qed simp

declare decodeRunes.simps [simp del]

definition runes :: "string \<Rightarrow> nat list" where
  "runes s = decodeRunes (map of_char s)"

definition validRune :: "nat \<Rightarrow> bool" where
  "validRune n \<longleftrightarrow> n < 55296 \<or> 57344 \<le> n \<and> n < 1114112"

definition runeBytes :: "nat \<Rightarrow> nat list" where
  "runeBytes n =
     (if n < 128 then [n]
      else if n < 2048 then [192 + n div 64, 128 + n mod 64]
      else if \<not> validRune n then [239, 191, 189]
      else if n < 65536 then [224 + n div 4096, 128 + n div 64 mod 64, 128 + n mod 64]
      else [240 + n div 262144, 128 + n div 4096 mod 64, 128 + n div 64 mod 64, 128 + n mod 64])"

definition encodeRune :: "nat \<Rightarrow> string" where
  "encodeRune n = map char_of (runeBytes n)"

text \<open>\<open>strings.Map\<close>: a negative result (\<open>None\<close>) drops the rune.\<close>

definition mapRunes :: "(nat \<Rightarrow> nat option) \<Rightarrow> string \<Rightarrow> string" where
  "mapRunes f s = concat (map encodeRune (List.map_filter f (runes s)))"

text \<open>A string is valid UTF-8 when re-encoding its runes gives it back.\<close>

definition validUTF8 :: "string \<Rightarrow> bool" where
  "validUTF8 s \<longleftrightarrow> concat (map encodeRune (runes s)) = s"

section \<open>Facts\<close>

lemma decode_two: "2 \<le> a \<Longrightarrow> a < 32 \<Longrightarrow> b < 64 \<Longrightarrow>
    decodeRune ((192 + a) # (128 + b) # rest) = (a * 64 + b, 2)"
  by (simp add: isCont_def)

lemma decode_three: "a < 16 \<Longrightarrow> b < 64 \<Longrightarrow> c < 64 \<Longrightarrow> a = 0 \<longrightarrow> 32 \<le> b \<Longrightarrow> a = 13 \<longrightarrow> b < 32 \<Longrightarrow>
    decodeRune ((224 + a) # (128 + b) # (128 + c) # rest) = (a * 4096 + b * 64 + c, 3)"
  by (simp add: isCont_def secondOk_def)

lemma decode_four: "a < 5 \<Longrightarrow> b < 64 \<Longrightarrow> c < 64 \<Longrightarrow> d < 64 \<Longrightarrow> a = 0 \<longrightarrow> 16 \<le> b \<Longrightarrow> a = 4 \<longrightarrow> b < 16 \<Longrightarrow>
    decodeRune ((240 + a) # (128 + b) # (128 + c) # (128 + d) # rest) = (a * 262144 + b * 4096 + c * 64 + d, 4)"
  by (simp add: isCont_def secondOk_def)

lemma decodeRune_bytes:
  assumes "validRune n"
  shows "decodeRune (runeBytes n @ rest) = (n, length (runeBytes n))"
proof -
  consider "n < 128" | "128 \<le> n" "n < 2048" | "2048 \<le> n" "n < 65536" | "65536 \<le> n" by linarith
  then show ?thesis
  proof cases
    case 1
    then show ?thesis by (simp add: runeBytes_def)
  next
    case 2
    define a b where "a = n div 64" "b = n mod 64"
    have n: "a * 64 + b = n" "b < 64" by (simp_all add: a_b_def)
    then have "2 \<le> a" "a < 32" using 2 by linarith+
    moreover have "runeBytes n = [192 + a, 128 + b]" using 2 by (simp add: runeBytes_def a_b_def)
    ultimately show ?thesis using decode_two [of a b rest] n by simp
  next
    case 3
    define a b c where "a = n div 4096" "b = n div 64 mod 64" "c = n mod 64"
    have "n div 64 = a * 64 + b" using div_mult_mod_eq [of "n div 64" 64] by (simp add: a_b_c_def div_mult2_eq [symmetric])
    moreover have "n div 64 * 64 + c = n" by (simp add: a_b_c_def)
    moreover have n: "b < 64" "c < 64" by (simp_all add: a_b_c_def)
    ultimately have s: "a * 4096 + b * 64 + c = n" by linarith
    have "a < 16" "a = 0 \<longrightarrow> 32 \<le> b" using 3 s n by linarith+
    moreover have "a = 13 \<longrightarrow> b < 32" using assms s n unfolding validRune_def by linarith
    moreover have "runeBytes n = [224 + a, 128 + b, 128 + c]" using 3 assms by (simp add: runeBytes_def a_b_c_def)
    ultimately show ?thesis using decode_three [of a b c rest] n s by simp
  next
    case 4
    define a b c d where "a = n div 262144" "b = n div 4096 mod 64" "c = n div 64 mod 64" "d = n mod 64"
    have "n div 4096 = a * 64 + b" using div_mult_mod_eq [of "n div 4096" 64] by (simp add: a_b_c_d_def div_mult2_eq [symmetric])
    moreover have "n div 64 = n div 4096 * 64 + c"
      using div_mult_mod_eq [of "n div 64" 64] by (simp add: a_b_c_d_def div_mult2_eq [symmetric])
    moreover have "n div 64 * 64 + d = n" by (simp add: a_b_c_d_def)
    moreover have n: "b < 64" "c < 64" "d < 64" by (simp_all add: a_b_c_d_def)
    ultimately have s: "a * 262144 + b * 4096 + c * 64 + d = n" by linarith
    have l: "n < 1114112" using assms 4 unfolding validRune_def by linarith
    have "a < 5" "a = 0 \<longrightarrow> 16 \<le> b" "a = 4 \<longrightarrow> b < 16" using n s 4 l by linarith+
    moreover have "runeBytes n = [240 + a, 128 + b, 128 + c, 128 + d]" using 4 assms by (simp add: runeBytes_def a_b_c_d_def)
    ultimately show ?thesis using decode_four [of a b c d rest] n s by simp
  qed
qed

lemma runeBytes_nonempty: "runeBytes n \<noteq> []"
  by (simp add: runeBytes_def)

lemma runeBytes_small: "\<forall>b\<in>set (runeBytes n). b < 256"
proof -
  have "n div 64 < 32" if "n < 2048" using that by (simp add: div_less_iff_less_mult)
  moreover have "n div 4096 < 16" if "n < 65536" using that by (simp add: div_less_iff_less_mult)
  moreover have "n div 262144 < 5" if "validRune n" using that by (auto simp: div_less_iff_less_mult validRune_def)
  moreover have "x mod 64 < 64" for x :: nat by simp
  ultimately show ?thesis by (auto simp: runeBytes_def intro: less_trans)
qed

lemma decodeRunes_bytes: "\<forall>n\<in>set ns. validRune n \<Longrightarrow> decodeRunes (concat (map runeBytes ns)) = ns"
proof (induction ns)
  case (Cons n ns)
  then show ?case
    using decodeRune_bytes [of n "concat (map runeBytes ns)"] runeBytes_nonempty [of n]
    by (subst decodeRunes.simps) simp
qed (simp add: decodeRunes.simps)

lemma runes_encode: "\<forall>n\<in>set ns. validRune n \<Longrightarrow> runes (concat (map encodeRune ns)) = ns"
proof -
  assume v: "\<forall>n\<in>set ns. validRune n"
  have "map of_char (encodeRune n) = runeBytes n" for n
    using runeBytes_small [of n] by (auto simp: encodeRune_def comp_def intro!: map_idI)
  then have "map of_char (concat (map encodeRune ns)) = concat (map runeBytes ns)"
    by (simp add: map_concat comp_def)
  then show ?thesis using decodeRunes_bytes [OF v] by (simp add: runes_def)
qed

lemma decodeRunes_ascii: "\<forall>b\<in>set bs. b < 128 \<Longrightarrow> decodeRunes bs = bs"
  by (induction bs) (simp_all add: decodeRunes.simps)

lemma ascii_utf8: "\<forall>c\<in>set s. of_char c < (128 :: nat) \<Longrightarrow> validUTF8 s"
proof -
  assume a: "\<forall>c\<in>set s. of_char c < (128 :: nat)"
  then have "runes s = map of_char s" unfolding runes_def by (intro decodeRunes_ascii) auto
  moreover have "concat (map encodeRune (map of_char s)) = s"
    using a by (induction s) (auto simp: encodeRune_def runeBytes_def)
  ultimately show ?thesis by (simp add: validUTF8_def)
qed

lemma printable_ascii: "printable c \<Longrightarrow> of_char c < (128 :: nat)"
  by (simp add: printable_def Let_def)

end
