(* ===== verification/RecoveryShare.thy ===== *)
theory RecoveryShare
  imports ManagedState Runes
begin

text \<open>
  \<open>sdk/account/share.go\<close>, \<open>crypto.go\<close> and \<open>codec.go\<close>: the recovery shares of an account secret,
  the encryption of the backup under a key derived from that secret, and the text forms of shares
  and locators.  \<open>encoding/json\<close> of the package's structures is the record \<open>marshal\<close>.
\<close>

section \<open>Types and parameters\<close>

definition ShareRoleUser :: ShareRole where "ShareRoleUser = ''user''"
definition ShareRoleDKVS :: ShareRole where "ShareRoleDKVS = ''dkvs''"
definition ShareRoleGuardian :: ShareRole where "ShareRoleGuardian = ''guardian''"
definition accountSecretSize :: nat where "accountSecretSize = 32"

record RecoveryShare =
  sh_Version :: "32 word"
  sh_PackageID :: string
  sh_Threshold :: byte
  sh_Total :: byte
  sh_Index :: byte
  sh_Role :: ShareRole
  sh_Data :: string
  sh_Checksum :: string

record GuardianShareCapsule =
  gc_Version :: "32 word"
  gc_PackageID :: string
  gc_ShareID :: string
  gc_Algorithm :: string
  gc_EphemeralPublicKey :: string
  gc_Nonce :: string
  gc_Ciphertext :: string

text \<open>
  \<open>json.Marshal\<close> and \<open>json.Unmarshal\<close> of each structure; unmarshalling fails with \<open>None\<close>.
  Marshalling a structure of strings, integers and slices of such structures does not fail.
\<close>

record marshal =
  jsonShare :: "RecoveryShare \<Rightarrow> byte list"
  jsonShareOf :: "byte list \<Rightarrow> RecoveryShare option"
  jsonBackup :: "Backup \<Rightarrow> byte list"
  jsonBackupOf :: "byte list \<Rightarrow> Backup option"
  jsonLocator :: "Locator \<Rightarrow> byte list"
  jsonLocatorOf :: "byte list \<Rightarrow> Locator option"
  jsonEnvelope :: "Envelope \<Rightarrow> byte list"
  jsonCapsule :: "GuardianShareCapsule \<Rightarrow> byte list"

text \<open>
  The documented behaviour the code relies on: unmarshalling restores a marshalled value whose
  strings are valid UTF-8 (other bytes are replaced).
\<close>

definition share_utf8 :: "RecoveryShare \<Rightarrow> bool" where
  "share_utf8 s \<longleftrightarrow> validUTF8 (sh_PackageID s) \<and> validUTF8 (sh_Role s) \<and> validUTF8 (sh_Data s)
     \<and> validUTF8 (sh_Checksum s)"

definition backup_utf8 :: "Backup \<Rightarrow> bool" where
  "backup_utf8 b \<longleftrightarrow> (\<forall>w\<in>set (bk_Wallets b). validUTF8 (wb_Name w) \<and> validUTF8 (wb_Mnemonic w)
     \<and> (\<forall>s\<in>set (wb_SubAccounts w). validUTF8 (sa_Name s) \<and> validUTF8 (sa_DID s)))"

definition locator_utf8 :: "Locator \<Rightarrow> bool" where
  "locator_utf8 l \<longleftrightarrow> validUTF8 (loc_AccountID l) \<and> validUTF8 (loc_PackageID l) \<and> validUTF8 (loc_RecoveryMode l)"

definition marshal_laws :: "marshal \<Rightarrow> bool" where
  "marshal_laws J \<longleftrightarrow> (\<forall>s. jsonShare J s \<noteq> [] \<and> (share_utf8 s \<longrightarrow> jsonShareOf J (jsonShare J s) = Some s))
     \<and> (\<forall>b. backup_utf8 b \<longrightarrow> jsonBackupOf J (jsonBackup J b) = Some b)
     \<and> (\<forall>l. locator_utf8 l \<longrightarrow> jsonLocatorOf J (jsonLocator J l) = Some l)"

text \<open>An error of another package, wrapped.\<close>

definition wrapErr :: "('f \<Rightarrow> 'e) \<Rightarrow> 'f + 'a \<Rightarrow> 'e + 'a" where
  "wrapErr w m = (case m of Inl e \<Rightarrow> Inl (w e) | Inr a \<Rightarrow> Inr a)"

lemma wrapErr_simps [simp]: "wrapErr w (Inl e) = Inl (w e)" "wrapErr w (Inr a) = Inr a"
  by (simp_all add: wrapErr_def)

lemma wrapErr_eq_Inr [result_simps]: "wrapErr w m = Inr a \<longleftrightarrow> m = Inr a"
  by (cases m) auto

section \<open>Shares\<close>

definition expectedRole :: "byte \<Rightarrow> byte \<Rightarrow> ShareRole" where
  "expectedRole tot index =
     (if tot = 2 \<and> index = 1 then ShareRoleUser
      else if tot = 2 \<and> index = 2 then ShareRoleDKVS
      else if tot = 3 \<and> index = 1 then ShareRoleUser
      else if tot = 3 \<and> index = 2 then ShareRoleDKVS
      else if tot = 3 \<and> index = 3 then ShareRoleGuardian
      else '''')"

definition shareChecksum :: "crypto \<Rightarrow> marshal \<Rightarrow> RecoveryShare \<Rightarrow> string" where
  "shareChecksum C J value = hexEncode (take 8 (sha256 C (jsonShare J (value\<lparr>sh_Checksum := ''''\<rparr>))))"

definition validateShare :: "crypto \<Rightarrow> marshal \<Rightarrow> RecoveryShare \<Rightarrow> account_error + byte list" where
  "validateShare C J value =
     check (sh_Version value \<noteq> 1 \<or> \<not> validHex (sh_PackageID value) 32 \<or> sh_Threshold value \<noteq> 2
         \<or> (sh_Total value \<noteq> 2 \<and> sh_Total value \<noteq> 3) \<or> sh_Index value < 1 \<or> sh_Index value > sh_Total value
         \<or> sh_Role value \<noteq> expectedRole (sh_Total value) (sh_Index value)
         \<or> \<not> validHex (sh_Checksum value) 16 \<or> shareChecksum C J value \<noteq> sh_Checksum value) ErrInvalidShare
      (case rawURLDecode (sh_Data value) of
         None \<Rightarrow> Inl ErrInvalidShare
       | Some raw \<Rightarrow>
           check (length raw \<noteq> accountSecretSize + ShareOverhead \<or> last raw \<noteq> sh_Index value) ErrInvalidShare
             (Inr raw))"

definition newRecoveryShare ::
    "crypto \<Rightarrow> marshal \<Rightarrow> string \<Rightarrow> byte \<Rightarrow> byte \<Rightarrow> byte list \<Rightarrow> account_error + RecoveryShare" where
  "newRecoveryShare C J packageID tot index data =
     (let value = \<lparr>sh_Version = 1, sh_PackageID = packageID, sh_Threshold = 2, sh_Total = tot, sh_Index = index,
            sh_Role = expectedRole tot index, sh_Data = rawURLEncode data, sh_Checksum = ''''\<rparr>;
          value = value\<lparr>sh_Checksum := shareChecksum C J value\<rparr>
      in rbind (validateShare C J value) (\<lambda>_. Inr value))"

definition splitSecret :: "crypto \<Rightarrow> marshal \<Rightarrow> byte list \<Rightarrow> string \<Rightarrow> RecoveryMode \<Rightarrow> reader
    \<Rightarrow> account_error + (RecoveryShare list \<times> reader)" where
  "splitSecret C J secret packageID mode random =
     check (mode \<noteq> RecoveryMode2Of3 \<and> mode \<noteq> RecoveryMode2Of2) ErrInvalidRecoveryPackage
      (let tot = (if mode = RecoveryMode2Of3 then 3 else 2)
       in rbind (wrapErr ErrShamir (Split secret tot 2 random)) (\<lambda>(rawShares, random).
            rbind (rmap (\<lambda>(i, raw). newRecoveryShare C J packageID (of_int tot) (of_nat (i + 1)) raw)
                (enumerate 0 rawShares)) (\<lambda>shares.
              Inr (shares, random))))"

text \<open>The loop of \<open>CombineShares\<close>, with the map \<open>seen\<close> as a list.\<close>

fun combine_loop :: "crypto \<Rightarrow> marshal \<Rightarrow> RecoveryShare \<Rightarrow> byte list \<Rightarrow> RecoveryShare list
    \<Rightarrow> account_error + byte list list" where
  "combine_loop C J reference seen [] = Inr []"
| "combine_loop C J reference seen (share # shares) =
     check (sh_PackageID share \<noteq> sh_PackageID reference \<or> sh_Total share \<noteq> sh_Total reference
         \<or> sh_Threshold share \<noteq> sh_Threshold reference) ErrInvalidShare
      (check (sh_Index share \<in> set seen) ErrInvalidShare
        (rbind (validateShare C J share) (\<lambda>decoded.
          rbind (combine_loop C J reference (sh_Index share # seen) shares) (\<lambda>raw. Inr (decoded # raw)))))"

definition CombineShares :: "crypto \<Rightarrow> marshal \<Rightarrow> RecoveryShare list \<Rightarrow> account_error + byte list" where
  "CombineShares C J shares =
     check (length shares < 2) ErrInsufficientShares
      (rbind (combine_loop C J (shares ! 0) [] shares) (\<lambda>raw.
        rbind (mapErr ErrRecoveryFailed (Combine (take 2 raw))) (\<lambda>secret.
          check (length secret \<noteq> accountSecretSize) ErrRecoveryFailed (Inr secret))))"

section \<open>Text forms\<close>

definition sharePrefix :: string where "sharePrefix = ''sat20-share-v1:''"
definition locatorEncodingPrefix :: string where "locatorEncodingPrefix = ''sat20locator1:''"

definition EncodeRecoveryShare :: "crypto \<Rightarrow> marshal \<Rightarrow> RecoveryShare \<Rightarrow> account_error + string" where
  "EncodeRecoveryShare C J value =
     rbind (validateShare C J value) (\<lambda>_. Inr (sharePrefix @ rawURLEncode (jsonShare J value)))"

definition DecodeRecoveryShare :: "crypto \<Rightarrow> marshal \<Rightarrow> string \<Rightarrow> account_error + RecoveryShare" where
  "DecodeRecoveryShare C J value =
     check (length value \<le> length sharePrefix \<or> take (length sharePrefix) value \<noteq> sharePrefix) ErrInvalidShare
      (case rawURLDecode (drop (length sharePrefix) value) of
         None \<Rightarrow> Inl ErrInvalidShare
       | Some raw \<Rightarrow>
           (case jsonShareOf J raw of
              None \<Rightarrow> Inl ErrInvalidShare
            | Some share \<Rightarrow> rbind (validateShare C J share) (\<lambda>_. Inr share)))"

definition EncodeLocator :: "marshal \<Rightarrow> Locator \<Rightarrow> account_error + string" where
  "EncodeLocator J locator =
     rbind (ValidateLocator locator) (\<lambda>_. Inr (locatorEncodingPrefix @ rawURLEncode (jsonLocator J locator)))"

definition DecodeLocator :: "marshal \<Rightarrow> string \<Rightarrow> account_error + Locator" where
  "DecodeLocator J value =
     (let value = trimSpace value
      in check (take (length locatorEncodingPrefix) value \<noteq> locatorEncodingPrefix) ErrInvalidRecoveryPackage
          (case rawURLDecode (drop (length locatorEncodingPrefix) value) of
             None \<Rightarrow> Inl ErrInvalidRecoveryPackage
           | Some encoded \<Rightarrow>
               (case jsonLocatorOf J encoded of
                  None \<Rightarrow> Inl ErrInvalidRecoveryPackage
                | Some locator \<Rightarrow> rbind (ValidateLocator locator) (\<lambda>_. Inr locator))))"

section \<open>Sealed bytes\<close>

definition locatorAAD :: "Locator \<Rightarrow> string \<Rightarrow> byte list" where
  "locatorAAD locator domain = bytes_of (domain @ ''|'' @ decimal (unat (loc_Version locator)) @ ''|''
     @ loc_AccountID locator @ ''|'' @ loc_PackageID locator @ ''|'' @ loc_RecoveryMode locator)"

definition deriveBackupKey :: "crypto \<Rightarrow> byte list \<Rightarrow> Locator \<Rightarrow> byte list" where
  "deriveBackupKey C secret locator =
     hkdfSHA256 C secret (bytes_of (loc_PackageID locator))
       (bytes_of (''sat20-account-backup-v1|'' @ loc_AccountID locator)) 32"

definition sealBytes :: "crypto \<Rightarrow> byte list \<Rightarrow> byte list \<Rightarrow> byte list \<Rightarrow> reader
    \<Rightarrow> account_error + (string \<times> string \<times> reader)" where
  "sealBytes C key plaintext aad random =
     check (length key \<noteq> 32) ErrInvalidRecoveryPackage
      (rbind (readFull ErrReadRandom gcmNonceSize random) (\<lambda>(nonceBytes, random).
        Inr (rawURLEncode nonceBytes, rawURLEncode (gcmSeal C key nonceBytes plaintext aad), random)))"

text \<open>\<open>aes.NewCipher\<close> accepts keys of 16, 24 and 32 bytes.\<close>

definition openSealed :: "crypto \<Rightarrow> byte list \<Rightarrow> string \<Rightarrow> string \<Rightarrow> byte list \<Rightarrow> account_error + byte list" where
  "openSealed C key nonceText ciphertextText aad =
     (case rawURLDecode nonceText of
        None \<Rightarrow> Inl ErrRecoveryFailed
      | Some nonce \<Rightarrow>
          (case rawURLDecode ciphertextText of
             None \<Rightarrow> Inl ErrRecoveryFailed
           | Some ciphertext \<Rightarrow>
               check (length key \<notin> {16, 24, 32}) ErrRecoveryFailed
                (check (length nonce \<noteq> gcmNonceSize) ErrRecoveryFailed
                  (case gcmOpen C key nonce ciphertext aad of
                     None \<Rightarrow> Inl ErrRecoveryFailed
                   | Some plaintext \<Rightarrow> Inr plaintext))))"

definition encryptBackup :: "crypto \<Rightarrow> marshal \<Rightarrow> byte list \<Rightarrow> Locator \<Rightarrow> Backup \<Rightarrow> reader
    \<Rightarrow> account_error + (EncryptedBlob \<times> reader)" where
  "encryptBackup C J secret locator backup random =
     rbind (sealBytes C (deriveBackupKey C secret locator) (jsonBackup J backup)
         (locatorAAD locator ''sat20-account-backup-aad-v1'') random) (\<lambda>(nonce, ciphertext, random).
       Inr (\<lparr>eb_Algorithm = ''aes-256-gcm'', eb_Nonce = nonce, eb_Ciphertext = ciphertext\<rparr>, random))"

definition decryptBackup :: "crypto \<Rightarrow> marshal \<Rightarrow> (string \<Rightarrow> bool) \<Rightarrow> byte list \<Rightarrow> Locator \<Rightarrow> EncryptedBlob
    \<Rightarrow> account_error + Backup" where
  "decryptBackup C J bip39 secret locator encrypted =
     rbind (validateEncryptedBlob encrypted) (\<lambda>_.
       rbind (openSealed C (deriveBackupKey C secret locator) (eb_Nonce encrypted) (eb_Ciphertext encrypted)
           (locatorAAD locator ''sat20-account-backup-aad-v1'')) (\<lambda>plaintext.
         case jsonBackupOf J plaintext of
           None \<Rightarrow> Inl ErrRecoveryFailed
         | Some backup \<Rightarrow> NormalizeBackup bip39 backup))"

section \<open>What validation accepts\<close>

lemma hexDecode_chars: "hexDecode s \<noteq> None \<Longrightarrow> \<forall>c\<in>set s. hexVal c \<noteq> None"
  by (induction s rule: hexDecode.induct) (auto split: option.splits)

lemma hex_utf8: "hexDecode s \<noteq> None \<Longrightarrow> validUTF8 s"
  using hexDecode_chars hexVal_printable printable_ascii by (intro ascii_utf8) blast

lemma those_Some_all: "those (map f xs) \<noteq> None \<Longrightarrow> \<forall>x\<in>set xs. f x \<noteq> None"
  by (induction xs) (auto split: option.splits)

lemma b64Val_ascii: "b64Val c \<noteq> None \<or> b64Break c \<Longrightarrow> of_char c < (128 :: nat)"
  by (auto simp: b64Val_def b64Break_def Let_def split: if_splits)

lemma base64_utf8: "rawURLDecode s \<noteq> None \<Longrightarrow> validUTF8 s"
proof (rule ascii_utf8, rule ballI)
  fix c assume d: "rawURLDecode s \<noteq> None" and c: "c \<in> set s"
  from d have "those (map b64Val (filter (\<lambda>c. \<not> b64Break c) s)) \<noteq> None"
    by (auto simp: rawURLDecode_def split: option.splits)
  then have "\<forall>c\<in>set (filter (\<lambda>c. \<not> b64Break c) s). b64Val c \<noteq> None" by (rule those_Some_all)
  then show "of_char c < (128 :: nat)" using c by (intro b64Val_ascii) auto
qed

lemma short_utf8: "validUTF8 ''''" "validUTF8 ShareRoleUser" "validUTF8 ShareRoleDKVS" "validUTF8 ShareRoleGuardian"
  "validUTF8 RecoveryMode2Of2" "validUTF8 RecoveryMode2Of3"
  by (rule ascii_utf8, simp add: ShareRoleUser_def ShareRoleDKVS_def ShareRoleGuardian_def
      RecoveryMode2Of2_def RecoveryMode2Of3_def)+

lemma validateShare_raw:
  assumes "validateShare C J s = Inr raw"
  shows "rawURLDecode (sh_Data s) = Some raw" "length raw = 33" "last raw = sh_Index s" "share_utf8 s"
    "sh_Role s = expectedRole (sh_Total s) (sh_Index s)"
proof -
  have v: "rawURLDecode (sh_Data s) = Some raw \<and> length raw = 33 \<and> last raw = sh_Index s
    \<and> validHex (sh_PackageID s) 32 \<and> validHex (sh_Checksum s) 16
    \<and> sh_Role s = expectedRole (sh_Total s) (sh_Index s)"
    using assms by (auto simp: validateShare_def result_simps accountSecretSize_def ShareOverhead_def
        split: option.splits)
  then show "rawURLDecode (sh_Data s) = Some raw" "length raw = 33" "last raw = sh_Index s"
    "sh_Role s = expectedRole (sh_Total s) (sh_Index s)" by blast+
  show "share_utf8 s"
    using v short_utf8 base64_utf8 [of "sh_Data s"] hex_utf8
    by (auto simp: share_utf8_def validHex_def expectedRole_def)
qed

lemma newRecoveryShare_ok:
  assumes "newRecoveryShare C J packageID tot index data = Inr s"
  shows "validateShare C J s = Inr data" "sh_PackageID s = packageID" "sh_Total s = tot" "sh_Threshold s = 2"
    "sh_Index s = index"
proof -
  obtain raw where v: "validateShare C J s = Inr raw" and d: "sh_Data s = rawURLEncode data"
    and f: "sh_PackageID s = packageID" "sh_Total s = tot" "sh_Threshold s = 2" "sh_Index s = index"
    using assms by (auto simp: newRecoveryShare_def Let_def result_simps)
  then have "raw = data" using validateShare_raw(1) [OF v] by simp
  then show "validateShare C J s = Inr data" "sh_PackageID s = packageID" "sh_Total s = tot"
    "sh_Threshold s = 2" "sh_Index s = index" using v f by simp_all
qed

lemma locator_utf8_valid: "ValidateLocator l = Inr u \<Longrightarrow> locator_utf8 l"
  using hex_utf8 short_utf8 by (auto simp: ValidateLocator_def result_simps locator_utf8_def validHex_def)

section \<open>Splitting and combining\<close>

lemma splitSecret_facts:
  assumes "splitSecret C J secret packageID mode random = Inr (shares, rest)"
  shows "\<exists>tot raws. Split secret tot 2 random = Inr (raws, rest) \<and> (tot = 2 \<or> tot = 3)
    \<and> (tot = 3 \<longleftrightarrow> mode = RecoveryMode2Of3) \<and> length shares = nat tot \<and> length raws = nat tot
    \<and> (\<forall>i<length shares. validateShare C J (shares ! i) = Inr (raws ! i) \<and> sh_PackageID (shares ! i) = packageID
        \<and> sh_Total (shares ! i) = of_int tot \<and> sh_Threshold (shares ! i) = 2
        \<and> sh_Index (shares ! i) = of_nat (i + 1))"
proof -
  define tot :: int where "tot = (if mode = RecoveryMode2Of3 then 3 else 2)"
  from assms obtain raws where raws: "Split secret tot 2 random = Inr (raws, rest)"
    and sh: "rmap (\<lambda>(i, raw). newRecoveryShare C J packageID (of_int tot) (of_nat (i + 1)) raw) (enumerate 0 raws)
      = Inr shares"
    by (auto simp: splitSecret_def Let_def result_simps tot_def)
  have "length raws = nat tot" by (rule Split_Inr [OF raws]) simp
  moreover have "length shares = length raws" using rmap_length [OF sh] by simp
  moreover have "validateShare C J (shares ! i) = Inr (raws ! i) \<and> sh_PackageID (shares ! i) = packageID
        \<and> sh_Total (shares ! i) = of_int tot \<and> sh_Threshold (shares ! i) = 2
        \<and> sh_Index (shares ! i) = of_nat (i + 1)" if "i < length shares" for i
  proof -
    have "newRecoveryShare C J packageID (of_int tot) (of_nat (i + 1)) (raws ! i) = Inr (shares ! i)"
      using rmap_nth [OF sh, of i] that calculation(2) by (simp add: nth_enumerate_eq)
    from newRecoveryShare_ok [OF this] show ?thesis by blast
  qed
  ultimately show ?thesis
    using raws by (intro exI [of _ tot] exI [of _ raws]) (simp add: tot_def RecoveryMode2Of3_def)
qed

lemma combine_loop_ok:
  assumes "\<And>s. s \<in> set shares \<Longrightarrow> validateShare C J s = Inr (rawOf s)
      \<and> sh_PackageID s = sh_PackageID reference \<and> sh_Total s = sh_Total reference \<and> sh_Threshold s = sh_Threshold reference"
    and "distinct (map sh_Index shares)" and "sh_Index ` set shares \<inter> set seen = {}"
  shows "combine_loop C J reference seen shares = Inr (map rawOf shares)"
  using assms
proof (induction shares arbitrary: seen)
  case (Cons s shares)
  have "combine_loop C J reference (sh_Index s # seen) shares = Inr (map rawOf shares)"
    using Cons.prems by (intro Cons.IH) auto
  then show ?case using Cons.prems(1) [of s] Cons.prems(3) by (simp add: check_def)
qed simp

lemma combine_loop_Inr:
  assumes "combine_loop C J reference seen shares = Inr raws"
  shows "length raws = length shares \<and> distinct (map sh_Index shares) \<and> sh_Index ` set shares \<inter> set seen = {}
    \<and> (\<forall>i<length shares. validateShare C J (shares ! i) = Inr (raws ! i)
      \<and> sh_PackageID (shares ! i) = sh_PackageID reference)"
  using assms
proof (induction shares arbitrary: seen raws)
  case (Cons s shares)
  then obtain d rs where d: "validateShare C J s = Inr d" "sh_Index s \<notin> set seen"
    "sh_PackageID s = sh_PackageID reference"
    and rs: "combine_loop C J reference (sh_Index s # seen) shares = Inr rs" "raws = d # rs"
    by (auto simp: result_simps)
  show ?case using d rs(2) Cons.IH [OF rs(1)] by (auto simp: nth_Cons split: nat.splits)
qed simp

lemma shares_combine_eq:
  assumes split: "splitSecret C J secret packageID mode random = Inr (shares, rest)"
    and idx: "distinct idx" "set idx \<subseteq> {..<length shares}" "2 \<le> length idx"
  shows "CombineShares C J (map (\<lambda>i. shares ! i) idx) = Inr secret"
proof -
  obtain tot raws where sp: "Split secret tot 2 random = Inr (raws, rest)" and tot: "tot = 2 \<or> tot = 3"
    and len: "length shares = nat tot" "length raws = nat tot"
    and sh: "\<forall>i<length shares. validateShare C J (shares ! i) = Inr (raws ! i) \<and> sh_PackageID (shares ! i) = packageID
        \<and> sh_Total (shares ! i) = of_int tot \<and> sh_Threshold (shares ! i) = 2 \<and> sh_Index (shares ! i) = of_nat (i + 1)"
    using splitSecret_facts [OF split] by blast
  let ?ss = "map (\<lambda>i. shares ! i) idx"
  have small: "i < 3" if "i \<in> set idx" for i using that idx(2) len(1) tot by auto
  have inj: "inj_on (\<lambda>i. sh_Index (shares ! i)) (set idx)"
  proof (rule inj_onI)
    fix i j assume ij: "i \<in> set idx" "j \<in> set idx" "sh_Index (shares ! i) = sh_Index (shares ! j)"
    then have "sh_Index (shares ! i) = of_nat (i + 1)" "sh_Index (shares ! j) = of_nat (j + 1)"
      using sh idx(2) by blast+
    then have "(of_nat (i + 1) :: byte) = of_nat (j + 1)" using ij(3) by (simp only:)
    then have "unat (of_nat (i + 1) :: byte) = unat (of_nat (j + 1) :: byte)" by simp
    then show "i = j" using small [OF ij(1)] small [OF ij(2)] by (simp add: unat_of_nat del: of_nat_Suc of_nat_add)
  qed
  have "combine_loop C J (?ss ! 0) [] ?ss = Inr (map (\<lambda>s. the (rawURLDecode (sh_Data s))) ?ss)"
  proof (rule combine_loop_ok)
    fix s assume "s \<in> set ?ss"
    then obtain i where i: "i \<in> set idx" "s = shares ! i" by auto
    have "idx ! 0 \<in> set idx" using idx(3) by (intro nth_mem) linarith
    then have "idx ! 0 < length shares" "i < length shares" using i idx(2) by auto
    moreover have "?ss ! 0 = shares ! (idx ! 0)" using idx(3) by (intro nth_map) linarith
    ultimately show "validateShare C J s = Inr (the (rawURLDecode (sh_Data s)))
        \<and> sh_PackageID s = sh_PackageID (?ss ! 0) \<and> sh_Total s = sh_Total (?ss ! 0)
        \<and> sh_Threshold s = sh_Threshold (?ss ! 0)"
      using sh i validateShare_raw(1) [of C J s "raws ! i"] by simp
  qed (use idx(1) inj in \<open>simp_all add: distinct_map comp_def\<close>)
  moreover have "map (\<lambda>s. the (rawURLDecode (sh_Data s))) ?ss = map (\<lambda>i. raws ! i) idx"
  proof -
    have "the (rawURLDecode (sh_Data (shares ! i))) = raws ! i" if "i \<in> set idx" for i
    proof -
      have "validateShare C J (shares ! i) = Inr (raws ! i)" using sh that idx(2) by blast
      from validateShare_raw(1) [OF this] show ?thesis by simp
    qed
    then show ?thesis by simp
  qed
  ultimately have loop: "combine_loop C J (?ss ! 0) [] ?ss = Inr (map (\<lambda>i. raws ! i) idx)" by (simp only:)
  have "Combine (take 2 (map (\<lambda>i. raws ! i) idx)) = Inr secret"
    unfolding take_map
    by (rule split_combine [OF sp]) (use idx len in \<open>auto dest: in_set_takeD\<close>)
  moreover have "length secret = 32"
  proof -
    have z: "0 < length shares" using len tot by auto
    then have "length (raws ! 0) = 33" using sh validateShare_raw(2) by blast
    moreover have "length (raws ! 0) = length secret + 1"
      by (rule Split_Inr [OF sp]) (use z len in simp)
    ultimately show ?thesis by simp
  qed
  ultimately show ?thesis using idx(3) loop by (simp add: CombineShares_def accountSecretSize_def check_def)
qed

section \<open>Sealing and opening\<close>

lemma sealBytes_open:
  assumes "crypto_laws C" "sealBytes C key plaintext aad random = Inr (nonce, ciphertext, random')"
  shows "openSealed C key nonce ciphertext aad = Inr plaintext" "nonce \<noteq> ''''" "ciphertext \<noteq> ''''"
    "length key = 32" "length random = length random' + gcmNonceSize"
proof -
  have g: "gcmOpen C k n (gcmSeal C k n p a) a = Some p" "length (gcmSeal C k n p a) = length p + 16" for k n p a
    using assms(1) by (simp_all add: crypto_laws_def)
  then have ne: "gcmSeal C k n p a \<noteq> []" for k n p a by (metis add_is_0 list.size(3) zero_neq_numeral)
  have f: "length key = 32 \<and> (\<exists>nb. length nb = gcmNonceSize \<and> random = nb @ random' \<and> nonce = rawURLEncode nb
      \<and> ciphertext = rawURLEncode (gcmSeal C key nb plaintext aad))"
    using assms(2) by (auto simp: sealBytes_def result_simps)
  then show "openSealed C key nonce ciphertext aad = Inr plaintext" "nonce \<noteq> ''''" "ciphertext \<noteq> ''''"
    "length key = 32" "length random = length random' + gcmNonceSize"
    using g ne by (auto simp: openSealed_def gcmNonceSize_def)
qed

lemma encrypt_decrypt:
  assumes "crypto_laws C" "marshal_laws J" "backup_utf8 backup"
    and "encryptBackup C J secret locator backup random = Inr (blob, random')"
  shows "decryptBackup C J bip39 secret locator blob = NormalizeBackup bip39 backup" "validateEncryptedBlob blob = Inr ()"
proof -
  obtain nonce ct where s: "sealBytes C (deriveBackupKey C secret locator) (jsonBackup J backup)
         (locatorAAD locator ''sat20-account-backup-aad-v1'') random = Inr (nonce, ct, random')"
    and b: "blob = \<lparr>eb_Algorithm = ''aes-256-gcm'', eb_Nonce = nonce, eb_Ciphertext = ct\<rparr>"
    using assms(4) by (auto simp: encryptBackup_def result_simps)
  note S = sealBytes_open [OF assms(1) s]
  show v: "validateEncryptedBlob blob = Inr ()" using S b by (simp add: validateEncryptedBlob_def)
  show "decryptBackup C J bip39 secret locator blob = NormalizeBackup bip39 backup"
    unfolding decryptBackup_def v using S b assms(2,3) by (simp add: marshal_laws_def)
qed

lemma b64Char_printable: "n < 64 \<Longrightarrow> printable (b64Char n)"
proof -
  have "list_all printable b64Alphabet" by (simp add: b64Alphabet_def printable_def)
  then show "n < 64 \<Longrightarrow> printable (b64Char n)" by (simp add: b64Char_def list_all_length b64_alphabet_length)
qed

lemma rawURLEncode_printable: "\<forall>c\<in>set (rawURLEncode bs). printable c"
  using sextets_small [of bs] b64Char_printable by (auto simp: rawURLEncode_sextets)

end
