(* ===== verification/FuzzyRecovery.thy ===== *)
theory FuzzyRecovery
  imports FuzzyVault
begin

text \<open>
  The guarantees of the secure sketch of \<open>sdk/account/fuzzy\<close>, over the definitions of
  \<open>FuzzyMath\<close> and \<open>FuzzyVault\<close>: enough right features recover the locked set and the key.
\<close>

section \<open>What \<open>Lock\<close> publishes\<close>

lemma Lock_facts:
  assumes l: "Lock scrypt (Some P) ids = Some (Inr v)" and p: "Prime P < 2 ^ 31"
  shows "valid_params P" "normalizeFeatures ids (SetSize P) (CorpusSize P) = Inr (sort ids)"
    "validateVault v = Some (Inr ())"
    "SetSize v = SetSize P" "CorrectThreshold v = CorrectThreshold P" "CorpusSize v = CorpusSize P"
    "Prime v = Prime P" "Extractor v = Extractor P" "Salt v = Salt P"
    "Sketch v = drop (nat (SetSize P - errorThreshold (SetSize P) (CorrectThreshold P)))
        (take (nat (SetSize P)) (coeffs (polyFromRoots (sort ids) (Prime P))))"
    "slowSetHash scrypt (sort ids) (Salt P) = Inr (SetHash v)"
proof -
  obtain u where "validate P = Some (Inr u)" using l by (auto simp: Lock_def split: option.splits sum.splits)
  then have "validate P = Some (Inr ())" by simp
  then show vp: "valid_params P" using validate_iff [of P] p by simp
  obtain out where n: "normalizeFeatures ids (SetSize P) (CorpusSize P) = Inr out"
    using l by (auto simp: Lock_def split: option.splits sum.splits)
  then have out: "out = sort ids" by (simp add: normalizeFeatures_iff)
  then show n': "normalizeFeatures ids (SetSize P) (CorpusSize P) = Inr (sort ids)" using n by simp
  show "validateVault v = Some (Inr ())"
    "SetSize v = SetSize P" "CorrectThreshold v = CorrectThreshold P" "CorpusSize v = CorpusSize P"
    "Prime v = Prime P" "Extractor v = Extractor P" "Salt v = Salt P"
    "Sketch v = drop (nat (SetSize P - errorThreshold (SetSize P) (CorrectThreshold P)))
        (take (nat (SetSize P)) (coeffs (polyFromRoots (sort ids) (Prime P))))"
    "slowSetHash scrypt (sort ids) (Salt P) = Inr (SetHash v)"
    using l n' by (auto simp: Lock_def Let_def result_simps split: option.splits sum.splits if_splits)
qed

lemma valid_modulus: "valid_params P \<Longrightarrow> Prime P < 2 ^ 31 \<Longrightarrow> modulus (Prime P)"
  by unfold_locales (auto simp: valid_params_def small_def)

section \<open>Correcting a feature set\<close>

text \<open>The wrong positions are those whose candidate is not a locked feature.\<close>

lemma few_wrong:
  assumes cand: "distinct cand" "length cand = n" and t: "t \<le> card (S \<inter> set cand)"
    and r: "\<And>i. i < n \<Longrightarrow> cand ! i \<in> S \<Longrightarrow> p dvd ys ! i - peval f (cand ! i)"
  shows "card (wrong p cand ys f) \<le> n - t"
proof -
  have "card (wrong p cand ys f) = card ((!) cand ` wrong p cand ys f)"
    using cand(1) by (intro card_image [symmetric]) (auto simp: inj_on_def wrong_def nth_eq_iff_index_eq)
  also have "\<dots> \<le> card (set cand - S)"
    using r cand(2) by (intro card_mono) (auto simp: wrong_def)
  also have "\<dots> = n - card (S \<inter> set cand)"
    using cand by (simp add: card_Diff_subset_Int distinct_card Int_commute)
  finally show ?thesis using t by linarith
qed

lemma peval_uminus: "peval (map uminus cs) x = - peval cs (x :: int)"
  by (induction cs) (simp_all add: algebra_simps)

context modulus begin

lemma split_high_low:
  assumes "k \<le> length c"
  shows "peval (c @ [1]) x = peval (replicate k 0 @ drop k c @ [1]) x + peval (take k c) x"
proof -
  have "peval (c @ [1]) x = peval (take k c @ (drop k c @ [1])) x"
    by (simp only: append_assoc [symmetric] append_take_drop_id)
  also have "\<dots> = peval (take k c) x + x ^ k * peval (drop k c @ [1]) x"
    using assms by (simp only: peval_append length_take min_absorb2)
  finally show ?thesis by (simp add: peval_append [of "replicate k 0"])
qed

lemma recover_core:
  assumes feats: "distinct feats" "\<forall>x\<in>set feats. residue p x" "length feats = n" "n < nat p"
    and cand: "distinct cand" "\<forall>x\<in>set cand. residue p x" "length cand = n"
    and t: "0 < t" "t < n" "2 * (n - t) < n" "t \<le> card (set feats \<inter> set cand)"
    and k: "k = n - 2 * (n - t)"
    and c: "residues p (c @ [1])" "length c = n" "cong_poly p (c @ [1]) (\<lambda>x. \<Prod>r\<leftarrow>feats. x - r)"
  defines "high \<equiv> newPolynomial p (replicate k 0 @ drop k c @ [1])"
  shows "\<exists>low. berlekampWelch cand (map (poly_eval high) cand) (int k) (int (n - t)) p = Some (Inr low)
    \<and> findRoots (poly_sub high low) (int n) = Inr (sort feats)"
proof -
  let ?h = "replicate k 0 @ drop k c @ [1]"
  let ?f = "map uminus (take k c)"
  let ?ys = "map (poly_eval high) cand"
  have kc: "k \<le> length c" using k c(2) by simp
  have hr: "residues p ?h" using c(1) small by (auto simp: residues_def dest: in_set_dropD)
  have high: "high = \<lparr>prime = p, coeffs = ?h\<rparr>" unfolding high_def using hr by (intro new_id) auto
  have ev: "poly_eval high x = peval ?h x mod p" if "residue p x" for x
    unfolding high by (rule eval_correct [OF hr that])
  have good: "p dvd ?ys ! i - peval ?f (cand ! i)" if i: "i < n" "cand ! i \<in> set feats" for i
  proof -
    let ?x = "cand ! i"
    have x: "residue p ?x" using feats(2) i by blast
    have "p dvd (\<Prod>r\<leftarrow>feats. ?x - r)" using root_iff [OF feats(2) x] i(2) by simp
    then have "p dvd peval (c @ [1]) ?x" using c(3) unfolding cong_poly_def by (metis zdvd_zdiffD dvd_diff_commute)
    then have "p dvd (peval ?h ?x mod p - peval ?h ?x) + peval (c @ [1]) ?x" by simp
    then show ?thesis
      unfolding split_high_low [OF kc] using ev [OF x] i(1) cand(3) by (simp add: peval_uminus)
  qed
  have "card (wrong p cand ?ys ?f) \<le> n - t"
    by (rule few_wrong [OF cand(1,3) t(4)]) (use good in auto)
  then have bw: "berlekampWelch cand ?ys (int k) (int (n - t)) p = Some (Inr (newPolynomial p ?f))"
    using cand t k kc ev by (intro berlekampWelch_correct) (auto simp: small)
  have "poly_sub high (newPolynomial p ?f) = \<lparr>prime = p, coeffs = c @ [1]\<rparr>"
    unfolding high_def
    by (rule sub_restores) (use c feats(4) kc in \<open>auto simp: peval_uminus\<close>)
  then have "findRoots (poly_sub high (newPolynomial p ?f)) (int (length feats)) = Inr (sort feats)"
    using findRoots_product [OF c(1) _ feats(1,2) c(3)] c(2) feats(3) by simp
  then show ?thesis using bw feats(3) by blast
qed

end

lemma recover_locked:
  assumes l: "Lock scrypt (Some P) ids = Some (Inr v)" and p: "Prime P < 2 ^ 31"
    and n: "normalizeFeatures ids' (SetSize P) (CorpusSize P) = Inr cand"
    and t: "CorrectThreshold P \<le> int (card (set ids \<inter> set ids'))"
  shows "recoverFeatureSet v cand = Some (Inr (sort ids))"
proof -
  note F = Lock_facts [OF l p]
  have vp: "valid_params P" by (rule F)
  have vb: "2 \<le> SetSize P" "SetSize P \<le> 64" "2 \<le> CorrectThreshold P" "CorrectThreshold P < SetSize P"
    "2 * (SetSize P - CorrectThreshold P) < SetSize P" "SetSize P \<le> CorpusSize P" "CorpusSize P < Prime P"
    using vp by (simp_all add: valid_params_def)
  let ?p = "Prime P" and ?n = "nat (SetSize P)" and ?t = "nat (CorrectThreshold P)"
  have M: "modulus ?p" by (rule valid_modulus [OF vp p])
  have ids: "distinct ids" "\<forall>x\<in>set ids. 0 \<le> x \<and> x < CorpusSize P" "length ids = ?n"
    using F(2) by (auto simp: normalizeFeatures_iff)
  have cand: "distinct cand" "\<forall>x\<in>set cand. residue ?p x" "length cand = ?n" "set cand = set ids'"
    using n vb by (auto simp: normalizeFeatures_iff residue_def)
  have feats: "distinct (sort ids)" "\<forall>x\<in>set (sort ids). residue ?p x" "length (sort ids) = ?n"
    using ids vb by (auto simp: residue_def)
  have np: "?n < nat ?p" using vb by linarith
  obtain c where c: "polyFromRoots (sort ids) ?p = \<lparr>prime = ?p, coeffs = c @ [1]\<rparr>"
    "residues ?p (c @ [1])" "length c = ?n" "cong_poly ?p (c @ [1]) (\<lambda>x. \<Prod>r\<leftarrow>sort ids. x - r)"
    using modulus.polyFromRoots_correct [OF M feats(2)] np ids(3) by auto
  define k where "k = ?n - 2 * (?n - ?t)"
  have et: "errorThreshold (SetSize P) (CorrectThreshold P) = 2 * (SetSize P - CorrectThreshold P)"
    using vb by (intro errorThreshold_eq) linarith+
  have tn: "0 < ?t" "?t < ?n" "2 * (?n - ?t) < ?n" and t': "?t \<le> card (set (sort ids) \<inter> set cand)"
    using vb t cand(4) by simp_all
  have N: "int ?n = SetSize P" "int ?t = CorrectThreshold P" using vb by simp_all
  have le: "?t \<le> ?n" "2 * (?n - ?t) \<le> ?n" using tn by linarith+
  have d: "int (?n - ?t) = SetSize P - CorrectThreshold P" using le(1) N by (simp only: of_nat_diff)
  have ek: "SetSize P - 2 * (SetSize P - CorrectThreshold P) = int k"
    using le(2) by (simp only: k_def of_nat_diff of_nat_mult d N of_nat_numeral)
  have ek2: "nat (2 * (SetSize P - CorrectThreshold P)) = 2 * (?n - ?t)"
    unfolding d [symmetric] by (metis nat_int of_nat_mult of_nat_numeral)
  have ek3: "2 * (SetSize P - CorrectThreshold P) div 2 = int (?n - ?t)" unfolding d by simp
  have ek4: "?n - 2 * (?n - ?t) = k" by (simp add: k_def)
  have "Sketch v = drop k c" unfolding F(10) c(1) et ek by (simp add: c(3))
  moreover have "length (drop k c) = 2 * (?n - ?t)" "?n - 2 * (?n - ?t) = k"
    using ek4 le(2) c(3) unfolding length_drop by linarith+
  ultimately have sk: "sketch_coeffs v ?n (2 * (?n - ?t)) = replicate k 0 @ drop k c @ [1]"
    by (simp only: sketch_coeffs_def) simp
  obtain low where low: "berlekampWelch cand (map (poly_eval (newPolynomial ?p (replicate k 0 @ drop k c @ [1]))) cand)
      (int k) (int (?n - ?t)) ?p = Some (Inr low)"
    "findRoots (poly_sub (newPolynomial ?p (replicate k 0 @ drop k c @ [1])) low) (int ?n) = Inr (sort (sort ids))"
    using modulus.recover_core [OF M feats np cand(1-3) tn t' k_def c(2-4)] by blast
  have g: "goRem (2 * (SetSize P - CorrectThreshold P)) 2 = 0" "\<not> 2 * (SetSize P - CorrectThreshold P) \<le> 0"
    "\<not> 2 * (SetSize P - CorrectThreshold P) \<ge> SetSize P"
    using vb by (simp_all add: goRem_nonneg)
  have "\<not> list_ex (\<lambda>root. root < 0 \<or> root \<ge> CorpusSize P) (sort ids)"
    using ids(2) by (auto simp: list_ex_iff)
  then show ?thesis
    using low g cand(3) N(1) unfolding recoverFeatureSet_def F(4-7) et Let_def ek ek2 ek3 sk
    by (simp add: check_def sorted_sort_id)
qed

section \<open>The guarantees\<close>

text \<open>Deriving the same key from every sufficiently similar feature set.\<close>

lemma RecoverKey_locked:
  assumes l: "Lock scrypt (Some P) ids = Some (Inr v)" and p: "Prime P < 2 ^ 31"
    and n: "normalizeFeatures ids' (SetSize P) (CorpusSize P) = Inr cand"
    and t: "CorrectThreshold P \<le> int (card (set ids \<inter> set ids'))"
    and total: "\<And>pass salt. is_ok (scrypt pass salt)"
    and nocoll: "scrypt (featurePass ''original_words:'' cand) (Salt P)
        = scrypt (featurePass ''original_words:'' (sort ids)) (Salt P) \<Longrightarrow> cand = sort ids"
  shows "RecoverKey scrypt hmac (Some v) ids' i = Some (derive_key scrypt hmac v i (sort ids))"
proof -
  note F = Lock_facts [OF l p]
  obtain h where h: "scrypt (featurePass ''original_words:'' cand) (Salt P) = Inr h"
    using total [of "featurePass ''original_words:'' cand" "Salt P"] by (auto simp: is_ok_def split: sum.splits)
  have s: "scrypt (featurePass ''original_words:'' (sort ids)) (Salt P) = Inr (SetHash v)"
    using F(11) by (simp add: slowSetHash_def result_simps)
  show ?thesis
  proof (cases "h = SetHash v")
    case True
    then have "cand = sort ids" using nocoll h s by simp
    then show ?thesis using F n s by (simp add: RecoverKey_def slowSetHash_def)
  next
    case False
    then show ?thesis
      using F n s h recover_locked [OF l p n t] by (simp add: RecoverKey_def slowSetHash_def)
  qed
qed

lemma derive_key_ok:
  assumes "valid_params v" "int (length xs) = SetSize v" "\<And>pass salt. is_ok (scrypt pass salt)"
  shows "\<exists>key. derive_key scrypt hmac v i xs = Inr key"
  using assms(3) [of "bytes_of ''key:'' @ putUint32LE (of_int (extractor_product v xs))" "Salt v"] assms(1,2)
  by (auto simp: derive_key_def extractorKey_def valid_params_def is_ok_def split: sum.splits)

text \<open>A parameter set that \<open>GenerateParams\<close> returned can lock every acceptable feature set.\<close>

lemma GenerateParams_valid:
  assumes "GenerateParams n t corpus random = Some (Inr (P, r))"
  shows "valid_params P" "Prime P < 2 ^ 31" "SetSize P = n" "CorpusSize P = corpus" "CorrectThreshold P = t"
proof -
  have c: "1 \<le> corpus \<and> corpus < 1000000"
    using assms by (auto simp: GenerateParams_def firstPrimeGreaterThan_spec split: if_splits)
  then obtain q where q: "firstPrimeGreaterThan corpus = Some (Inr q)" "q \<le> 1000003"
    using firstPrimeGreaterThan_ok by blast
  have f: "validate P = Some (Inr ()) \<and> Prime P = q \<and> SetSize P = n \<and> CorpusSize P = corpus
      \<and> CorrectThreshold P = t"
    using assms q(1) by (auto simp: GenerateParams_def Let_def result_simps rbind_def split: if_splits sum.splits)
  then show "Prime P < 2 ^ 31" "SetSize P = n" "CorpusSize P = corpus" "CorrectThreshold P = t" using q by auto
  then show "valid_params P" using f validate_iff [of P] by simp
qed

lemma validateVault_iff:
  assumes "Prime v < 2 ^ 62"
  shows "validateVault v = Some (Inr ()) \<longleftrightarrow> valid_params v
    \<and> int (length (Sketch v)) = 2 * (SetSize v - CorrectThreshold v) \<and> length (SetHash v) = 64
    \<and> (\<forall>c\<in>set (Sketch v). 0 \<le> c \<and> c < Prime v)"
proof -
  obtain r where r: "validate v = Some r" using validate_returns [OF assms] by blast
  have et: "i64 (2 * i64 (SetSize v - CorrectThreshold v)) = 2 * (SetSize v - CorrectThreshold v)"
    if "valid_params v"
    using that errorThreshold_eq [of "CorrectThreshold v" "SetSize v"]
    by (simp add: errorThreshold_def valid_params_def)
  show ?thesis
  proof (cases "valid_params v")
    case True
    then have "r = Inr ()" using r validate_iff [OF assms] by simp
    then show ?thesis
      unfolding validateVault_def r using True et [OF True]
      by (auto simp: check_def list_ex_iff not_less not_le split: if_splits)
  next
    case False
    then have "r \<noteq> Inr ()" using r validate_iff [OF assms] by simp
    then obtain e where "r = Inl e" by (cases r) auto
    then show ?thesis using False r by (simp add: validateVault_def)
  qed
qed

lemma Lock_succeeds:
  assumes vp: "valid_params P" and p: "Prime P < 2 ^ 31"
    and n: "normalizeFeatures ids (SetSize P) (CorpusSize P) = Inr features"
    and sc: "\<And>pass salt. \<exists>k. scrypt pass salt = Inr k \<and> length k = 64"
  shows "\<exists>v. Lock scrypt (Some P) ids = Some (Inr v)"
proof -
  have M: "modulus (Prime P)" by (rule valid_modulus [OF vp p])
  have vb: "2 \<le> SetSize P" "2 \<le> CorrectThreshold P" "CorrectThreshold P < SetSize P" "SetSize P \<le> 64"
    "2 * (SetSize P - CorrectThreshold P) < SetSize P" "SetSize P \<le> CorpusSize P" "CorpusSize P < Prime P"
    using vp by (simp_all add: valid_params_def)
  have f: "\<forall>x\<in>set features. residue (Prime P) x" "int (length features) = SetSize P"
    using n vb by (auto simp: normalizeFeatures_iff residue_def)
  obtain c where c: "polyFromRoots features (Prime P) = \<lparr>prime = Prime P, coeffs = c @ [1]\<rparr>"
    "residues (Prime P) (c @ [1])" "length c = length features"
  proof -
    have "length features < nat (Prime P)" using f(2) vb by linarith
    then show ?thesis using that modulus.polyFromRoots_correct [OF M f(1)] by blast
  qed
  obtain h where h: "scrypt (featurePass ''original_words:'' features) (Salt P) = Inr h" "length h = 64"
    using sc by blast
  have v: "validate P = Some (Inr ())" using validate_iff [of P] vp p by simp
  have et: "errorThreshold (SetSize P) (CorrectThreshold P) = 2 * (SetSize P - CorrectThreshold P)"
    using vb by (intro errorThreshold_eq) linarith+
  define V where "V = \<lparr>Version = 1, SetSize = SetSize P, CorrectThreshold = CorrectThreshold P,
      CorpusSize = CorpusSize P, Prime = Prime P, Extractor = Extractor P, Salt = Salt P,
      Sketch = drop (nat (SetSize P - 2 * (SetSize P - CorrectThreshold P))) c, SetHash = h\<rparr>"
  have "valid_params V" using vp by (simp add: V_def valid_params_def)
  moreover have "int (length (Sketch V)) = 2 * (SetSize V - CorrectThreshold V)"
    using c(3) f(2) vb by (simp add: V_def)
  moreover have "\<forall>x\<in>set (Sketch V). 0 \<le> x \<and> x < Prime V"
    using c(2) by (auto simp: V_def residues_def residue_def dest: in_set_dropD)
  ultimately have "validateVault V = Some (Inr ())"
    using validateVault_iff [of V] h(2) p by (simp add: V_def)
  moreover have "length c = nat (SetSize P)" using c(3) f(2) by simp
  moreover have "\<not> SetSize P - 2 * (SetSize P - CorrectThreshold P) < 0" using vb by simp
  ultimately have "Lock scrypt (Some P) ids = Some (Inr V)"
    using v n h(1) c(1) f(2) et
    by (simp add: Lock_def Let_def slowSetHash_def V_def)
  then show ?thesis by blast
qed

section \<open>The properties\<close>

text \<open>
  C7: Whoever knows at least \<open>CorrectThreshold\<close> of the locked features derives the key of the
  locked set.  A vault locked with \<open>ids\<close> gives one and the same key to \<open>ids\<close> and to every
  acceptable feature set \<open>ids'\<close> that shares at least \<open>CorrectThreshold\<close> elements with it.  The
  hypotheses on the parameter \<open>scrypt\<close> are that it does not fail and that the two sets in question
  do not collide.
\<close>

theorem fuzzy_recovers_key:
  assumes "Lock scrypt (Some P) ids = Some (Inr v)" and "Prime P < 2 ^ 31"
    and "normalizeFeatures ids' (SetSize P) (CorpusSize P) = Inr cand"
    and "CorrectThreshold P \<le> int (card (set ids \<inter> set ids'))"
    and "\<And>pass salt. is_ok (scrypt pass salt)"
    and "scrypt (featurePass ''original_words:'' cand) (Salt P)
        = scrypt (featurePass ''original_words:'' (sort ids)) (Salt P) \<Longrightarrow> cand = sort ids"
  shows "\<exists>key. RecoverKey scrypt hmac (Some v) ids i = Some (Inr key)
    \<and> RecoverKey scrypt hmac (Some v) ids' i = Some (Inr key)"
proof -
  note F = Lock_facts [OF assms(1,2)]
  have "distinct ids" "int (length ids) = SetSize P" using F(2) by (auto simp: normalizeFeatures_iff)
  then have own: "CorrectThreshold P \<le> int (card (set ids \<inter> set ids))"
    using F(1) by (simp add: distinct_card valid_params_def)
  obtain key where "derive_key scrypt hmac v i (sort ids) = Inr key"
  proof -
    have "valid_params v" using F(3,7) validateVault_iff [of v] assms(2) by simp
    then have "\<exists>key. derive_key scrypt hmac v i (sort ids) = Inr key"
      using assms(5) \<open>int (length ids) = SetSize P\<close> F(4) by (intro derive_key_ok) simp_all
    then show ?thesis using that by blast
  qed
  then show ?thesis
    using RecoverKey_locked [OF assms(1,2) F(2) own assms(5)] RecoverKey_locked [OF assms] by simp
qed

definition demo_scrypt :: scrypt where
  "demo_scrypt pass salt = Inr (take 64 (pass @ replicate 64 0))"

definition demo_params :: Params where
  "demo_params = \<lparr>Version = 1, SetSize = 3, CorrectThreshold = 2, CorpusSize = 5, Prime = 7,
     Extractor = [1, 2, 3], Salt = replicate 32 0\<rparr>"

definition demo_vault :: Vault where
  "demo_vault = Params.extend demo_params
     \<lparr>Sketch = [2, 4], SetHash = take 64 (featurePass ''original_words:'' [0, 1, 2] @ replicate 64 0)\<rparr>"

lemma demo_scrypt_facts:
  "is_ok (demo_scrypt pass salt)" "\<exists>k. demo_scrypt pass salt = Inr k \<and> length k = 64"
  by (simp_all add: demo_scrypt_def)

lemma demo_lock: "Lock demo_scrypt (Some demo_params) [2, 0, 1] = Some (Inr demo_vault)"
  by code_simp

lemma demo_normalize: "normalizeFeatures [4, 2, 0] 3 5 = Inr [0, 2, 4]"
  by code_simp

text \<open>The set \<open>{0, 1, 2}\<close> is locked; \<open>{0, 2, 4}\<close> has two of its elements and gives the same key.\<close>

theorem fuzzy_recovers_key_witness:
  "\<exists>key. RecoverKey demo_scrypt (\<lambda>k m. k @ m) (Some demo_vault) [2, 0, 1] 7 = Some (Inr key)
    \<and> RecoverKey demo_scrypt (\<lambda>k m. k @ m) (Some demo_vault) [4, 2, 0] 7 = Some (Inr key)"
proof (rule fuzzy_recovers_key [OF demo_lock, of "[4, 2, 0]" "[0, 2, 4]"])
  have "demo_scrypt (featurePass ''original_words:'' [0, 2, 4]) (Salt demo_params)
      \<noteq> demo_scrypt (featurePass ''original_words:'' (sort [2, 0, 1])) (Salt demo_params)"
    by code_simp
  then show "[0, 2, 4] = sort [2, 0, 1]"
    if "demo_scrypt (featurePass ''original_words:'' [0, 2, 4]) (Salt demo_params)
      = demo_scrypt (featurePass ''original_words:'' (sort [2, 0, 1])) (Salt demo_params)"
    using that by blast
qed (simp_all add: demo_params_def demo_normalize demo_scrypt_def)

text \<open>
  C23: Parameters that \<open>GenerateParams\<close> returned lock every feature set of the right size inside the
  corpus: neither the polynomial construction nor the final validation of \<open>Lock\<close> can fail.
\<close>

theorem generated_params_lock:
  assumes "GenerateParams n t corpus random = Some (Inr (P, r))"
    and "distinct ids" "int (length ids) = n" "\<forall>x\<in>set ids. 0 \<le> x \<and> x < corpus"
    and "\<And>pass salt. \<exists>k. scrypt pass salt = Inr k \<and> length k = 64"
  shows "\<exists>v. Lock scrypt (Some P) ids = Some (Inr v)"
proof -
  note G = GenerateParams_valid [OF assms(1)]
  have "normalizeFeatures ids (SetSize P) (CorpusSize P) = Inr (sort ids)"
    using assms(2-4) G by (simp add: normalizeFeatures_iff)
  then show ?thesis by (rule Lock_succeeds [OF G(1,2) _ assms(5)])
qed

definition demo_random :: reader where
  "demo_random = replicate 32 0 @ [1, 0, 0, 0, 1, 0, 0, 0, 0, 0, 0, 0, 1, 0, 0, 0]"

text \<open>The third draw hits the excluded candidate zero and is repeated.\<close>

lemma demo_generate: "GenerateParams 3 2 5 demo_random = Some (Inr (demo_params, []))"
  by code_simp

theorem generated_params_lock_witness:
  "\<exists>v. Lock demo_scrypt (Some demo_params) [2, 0, 1] = Some (Inr v)"
  by (rule generated_params_lock [OF demo_generate]) (simp_all add: demo_scrypt_def)

text \<open>
  C21: The decoder corrects errors: from \<open>k + 2 * e\<close> points of which at most \<open>e\<close> are off a polynomial
  with \<open>k\<close> coefficients, \<open>berlekampWelch\<close> returns that polynomial, for every prime below \<open>2^31\<close>.
\<close>

theorem berlekampWelch_decodes:
  assumes "is_prime p" "p < 2 ^ 31" "distinct xs" "\<forall>x\<in>set xs. residue p x" "\<forall>y\<in>set ys. residue p y"
    and "length ys = length xs" "length xs = k + 2 * e" "0 < k" "0 < e"
    and "length f \<le> k" "card (wrong p xs ys f) \<le> e"
  shows "berlekampWelch xs ys (int k) (int e) p = Some (Inr (newPolynomial p f))"
proof -
  have "modulus p" using assms(1,2) is_prime_gt by unfold_locales (auto simp: small_def)
  from modulus.berlekampWelch_correct [OF this assms(3-11)] show ?thesis .
qed

lemma is_prime_7: "is_prime 7"
proof -
  have "isPrime 7 = Some True" by code_simp
  then show ?thesis using isPrime_eq [of 7] by simp
qed

theorem berlekampWelch_decodes_witness:
  "berlekampWelch [0, 1, 2] [3, 3, 5] (int 1) (int 1) 7 = Some (Inr (newPolynomial 7 [3]))"
proof (rule berlekampWelch_decodes [OF is_prime_7])
  have "wrong 7 [0, 1, 2] [3, 3, 5] [3] \<subseteq> {2}"
    by (auto simp: wrong_def less_Suc_eq numeral_3_eq_3)
  then show "card (wrong 7 [0, 1, 2] [3, 3, 5] [3]) \<le> 1" using card_mono [of "{2 :: nat}"] by fastforce
qed (simp_all add: residue_def)

text \<open>
  C22: Gauss-Jordan elimination decides the system: \<open>solveLinear\<close> returns a vector of residues that
  satisfies every equation modulo the prime, and fails only when no vector does.
\<close>

theorem solveLinear_decides:
  assumes "is_prime p" "p < 2 ^ 31" "a \<noteq> []" "length b = length a" "\<forall>row\<in>set a. length row = cols"
  shows "case solveLinear a b p of
      Inl e \<Rightarrow> \<not> (\<exists>x. length x = cols \<and> solves p cols (equations a b) x)
    | Inr x \<Rightarrow> length x = cols \<and> residues p x \<and> solves p cols (equations a b) x"
proof -
  have "modulus p" using assms(1,2) is_prime_gt by unfold_locales (auto simp: small_def)
  from modulus.solveLinear_correct [OF this assms(3-5)] show ?thesis .
qed

theorem solveLinear_decides_witness:
  "case solveLinear [[0, 2], [3, 4]] [5, 6] 7 of
      Inl e \<Rightarrow> \<not> (\<exists>x. length x = 2 \<and> solves 7 2 (equations [[0, 2], [3, 4]] [5, 6]) x)
    | Inr x \<Rightarrow> length x = 2 \<and> residues 7 x \<and> solves 7 2 (equations [[0, 2], [3, 4]] [5, 6]) x"
  by (rule solveLinear_decides [OF is_prime_7]) simp_all

text \<open>
  C24: \<open>isPrime\<close> returns for every \<open>n\<close> below \<open>2^62\<close>, without a wrong answer from wrap-around, and its
  answer is whether \<open>n\<close> is a prime.
\<close>

theorem isPrime_decides:
  assumes "n < 2 ^ 62"
  shows "isPrime n = Some (is_prime n)"
  by (rule isPrime_eq [OF assms])

theorem isPrime_decides_witness: "isPrime 1000003 = Some (is_prime 1000003)"
  by (rule isPrime_decides) simp

text \<open>
  \<open>firstPrimeGreaterThan\<close> returns the least prime above its argument on its whole domain
  \<open>1 \<dots> 999999\<close> and the parameter error outside; the search bound 1000003 is never what stops it.
\<close>

theorem next_prime_found:
  "firstPrimeGreaterThan n =
     (if 1 \<le> n \<and> n < 1000000
      then Some (Inr (LEAST q. n < q \<and> is_prime q)) else Some (Inl ErrInvalidParameters))"
  by (rule firstPrimeGreaterThan_spec)

subsection \<open>The extractor\<close>

lemma nonzero_product:
  assumes M: "modulus p" and v: "residue p a" "a \<noteq> 0"
    and f: "\<And>i. i \<in> set is \<Longrightarrow> residue p (f i) \<and> f i \<noteq> 0"
  shows "residue p (fold (\<lambda>i prd. modMul prd (f i) p) is a) \<and> fold (\<lambda>i prd. modMul prd (f i) p) is a \<noteq> 0"
  using v f
proof (induction "is" arbitrary: a)
  case (Cons i "is")
  have sm: "small p" and pr: "is_prime p" using M by (simp_all add: modulus_def)
  have "residue p (f i)" "f i \<noteq> 0" using Cons.prems(3) by simp_all
  then have "\<not> p dvd a * f i"
    using prime_dvd_mult [OF pr] Cons.prems(1,2) residue_dvd_iff by blast
  then have "residue p (modMul a (f i) p) \<and> modMul a (f i) p \<noteq> 0"
    using sm Cons.prems(1) \<open>residue p (f i)\<close> by (simp add: modMul_eq dvd_eq_mod_eq_0)
  then show ?case using Cons.IH Cons.prems(3) by simp
qed simp

text \<open>
  The extractor never degenerates: the product that seeds the key is non-zero modulo the prime,
  also when the set contains feature zero, and replacing zero by \<open>Prime - 1\<close> does not make two
  features of the corpus equal.
\<close>

theorem extractor_nonzero:
  assumes "valid_params v" "Prime v < 2 ^ 31"
    and "normalizeFeatures ids (SetSize v) (CorpusSize v) = Inr features"
  shows "0 < extractor_product v features \<and> extractor_product v features < Prime v
    \<and> inj_on (extractor_factor (Prime v)) {0..<CorpusSize v}"
proof -
  have M: "modulus (Prime v)" by (rule valid_modulus [OF assms(1,2)])
  have sm: "small (Prime v)" and pr: "is_prime (Prime v)" using M by (simp_all add: modulus_def)
  have cp: "CorpusSize v < Prime v" "0 < CorpusSize v" using assms(1) by (auto simp: valid_params_def)
  have w: "i64 (Prime v - 1) = Prime v - 1" using sm by (simp add: i64_id small_def)
  have f: "residue (Prime v) (modMul (extractor_factor (Prime v) (features ! i)) (Extractor v ! i) (Prime v))
      \<and> modMul (extractor_factor (Prime v) (features ! i)) (Extractor v ! i) (Prime v) \<noteq> 0"
    if i: "i \<in> set [0..<nat (SetSize v)]" for i
  proof -
    have "int (length features) = SetSize v" "int (length (Extractor v)) = SetSize v"
      using assms(1,3) by (auto simp: normalizeFeatures_iff valid_params_def)
    then have "features ! i \<in> set features" "Extractor v ! i \<in> set (Extractor v)"
      using i by (auto intro!: nth_mem)
    then have "0 \<le> features ! i" "features ! i < CorpusSize v"
      "0 < Extractor v ! i" "Extractor v ! i < Prime v"
      using assms(1,3) by (auto simp: normalizeFeatures_iff valid_params_def)
    then have r: "residue (Prime v) (extractor_factor (Prime v) (features ! i))"
      "extractor_factor (Prime v) (features ! i) \<noteq> 0"
      "residue (Prime v) (Extractor v ! i)" "Extractor v ! i \<noteq> 0"
      using cp w by (auto simp: extractor_factor_def residue_def)
    then have "\<not> Prime v dvd extractor_factor (Prime v) (features ! i) * Extractor v ! i"
      using prime_dvd_mult [OF pr] residue_dvd_iff by blast
    then show ?thesis using r sm by (simp add: modMul_eq dvd_eq_mod_eq_0)
  qed
  have "residue (Prime v) (extractor_product v features) \<and> extractor_product v features \<noteq> 0"
    unfolding extractor_product_def
    by (rule nonzero_product [OF M _ _ f]) (use sm in \<open>simp_all add: residue_def small_def\<close>)
  moreover have "inj_on (extractor_factor (Prime v)) {0..<CorpusSize v}"
    using cp by (auto simp: inj_on_def extractor_factor_def w)
  ultimately show ?thesis by (auto simp: residue_def)
qed

theorem extractor_nonzero_witness:
  "0 < extractor_product demo_vault [0, 2, 4] \<and> extractor_product demo_vault [0, 2, 4] < Prime demo_vault
    \<and> inj_on (extractor_factor (Prime demo_vault)) {0..<CorpusSize demo_vault}"
proof (rule extractor_nonzero)
  show "valid_params demo_vault"
    using is_prime_7 by (simp add: valid_params_def demo_vault_def demo_params_def Params.defs)
  show "Prime demo_vault < 2 ^ 31" by (simp add: demo_vault_def demo_params_def Params.defs)
  show "normalizeFeatures [4, 2, 0] (SetSize demo_vault) (CorpusSize demo_vault) = Inr [0, 2, 4]"
    using demo_normalize by (simp add: demo_vault_def demo_params_def Params.defs)
qed

end
