(* ===== verification/Questions.thy ===== *)
theory Questions
  imports RecoveryShare FuzzyRecovery
begin

text \<open>
  \<open>sdk/account/questions.go\<close> and \<open>fuzzy/codec.go\<close>: recovery by knowledge questions.  The key
  \<open>kDKVS\<close> that seals the DKVS share is split 2 of 3; each part is sealed under a key that the fuzzy
  vault of one question releases to whoever knows enough features of its answer.
\<close>

section \<open>Types and parameters\<close>

record KnowledgeQuestion =
  kq_ID :: string
  kq_Prompt :: string
  kq_CaseSensitive :: bool
  kq_IgnorePunctuation :: bool

record QuestionAnswer =
  qa_Question :: KnowledgeQuestion
  qa_Answer :: string
  qa_Confirmation :: string

record AnswerAttempt =
  aa_QuestionID :: string
  aa_Answer :: string

record EncryptedQuestionShare =
  qs_Question :: KnowledgeQuestion
  qs_Salt :: string
  qs_Vault :: "byte list"
  qs_Nonce :: string
  qs_Ciphertext :: string

record KnowledgeRecoveryBundle =
  kb_Version :: "32 word"
  kb_PackageID :: string
  kb_Threshold :: byte
  kb_Total :: byte
  kb_QuestionShares :: "EncryptedQuestionShare list"

record DKVSShareCapsule =
  dc_Version :: "32 word"
  dc_PackageID :: string
  dc_Algorithm :: string
  dc_Nonce :: string
  dc_Ciphertext :: string

text \<open>
  \<open>nfkc\<close> is \<open>norm.NFKC.String\<close> (golang.org/x/text); \<open>lowerRune\<close> and \<open>isPunct\<close> are the tables
  \<open>unicode.ToLower\<close> and \<open>unicode.IsPunct\<close>; \<open>kScrypt\<close> and \<open>hmacSHA3\<close> are the functions of the fuzzy
  vault; \<open>jsonVaultOf\<close> is the strict decoder (no unknown fields, nothing after the value).
\<close>

record knowledge =
  nfkc :: "string \<Rightarrow> string"
  lowerRune :: "nat \<Rightarrow> nat"
  isPunct :: "nat \<Rightarrow> bool"
  kScrypt :: scrypt
  hmacSHA3 :: "byte list \<Rightarrow> byte list \<Rightarrow> byte list"
  jsonVault :: "Vault \<Rightarrow> byte list"
  jsonVaultOf :: "byte list \<Rightarrow> Vault option"

definition knowledgeQuestionCount :: nat where "knowledgeQuestionCount = 3"
definition knowledgeQuestionThreshold :: nat where "knowledgeQuestionThreshold = 2"
definition featureSetSize :: nat where "featureSetSize = 24"
definition featureCorrectThreshold :: int where "featureCorrectThreshold = 15"
definition featureCorpusSize :: nat where "featureCorpusSize = 65536"
definition MaxPublicPayloadSize :: nat where "MaxPublicPayloadSize = 64 * 1024"

text \<open>Sequencing of calls that may fail or (a primality test without a bound) not return.\<close>

definition orbind :: "('e + 'a) option \<Rightarrow> ('a \<Rightarrow> ('e + 'b) option) \<Rightarrow> ('e + 'b) option" where
  "orbind m f = (case m of None \<Rightarrow> None | Some (Inl e) \<Rightarrow> Some (Inl e) | Some (Inr a) \<Rightarrow> f a)"

definition ocheck :: "bool \<Rightarrow> 'e \<Rightarrow> ('e + 'a) option \<Rightarrow> ('e + 'a) option" where
  "ocheck c e m = (if c then Some (Inl e) else m)"

section \<open>The codec of vaults\<close>

definition MarshalVault :: "knowledge \<Rightarrow> Vault \<Rightarrow> (fuzzy_error + byte list) option" where
  "MarshalVault K vault =
     map_option (\<lambda>r. case r of
         Inl _ \<Rightarrow> Inl ErrInvalidPublicPayload
       | Inr _ \<Rightarrow> check (length (jsonVault K vault) > MaxPublicPayloadSize) ErrInvalidPublicPayload
           (Inr (jsonVault K vault)))
       (validateVault vault)"

definition UnmarshalVault :: "knowledge \<Rightarrow> byte list \<Rightarrow> (fuzzy_error + Vault) option" where
  "UnmarshalVault K data =
     ocheck (length data = 0 \<or> length data > MaxPublicPayloadSize) ErrInvalidPublicPayload
      (case jsonVaultOf K data of
         None \<Rightarrow> Some (Inl ErrInvalidPublicPayload)
       | Some vault \<Rightarrow>
           map_option (\<lambda>r. case r of Inl _ \<Rightarrow> Inl ErrInvalidPublicPayload | Inr _ \<Rightarrow> Inr vault)
             (validateVault vault))"

section \<open>From answers to features\<close>

definition normalizeAnswer :: "knowledge \<Rightarrow> KnowledgeQuestion \<Rightarrow> string \<Rightarrow> account_error + string" where
  "normalizeAnswer K question value =
     (let value = nfkc K value;
          value = join '' '' (Fields value);
          value = (if \<not> kq_CaseSensitive question then mapRunes (\<lambda>r. Some (lowerRune K r)) value else value);
          value = (if kq_IgnorePunctuation question
                   then mapRunes (\<lambda>r. if isPunct K r then None else Some r) value else value);
          value = trimSpace value
      in check (length (runes value) < 8 \<or> length (runes value) > 256) ErrAnswerLength (Inr value))"

definition gram :: "string \<Rightarrow> nat list \<Rightarrow> nat \<Rightarrow> nat \<Rightarrow> string" where
  "gram tag rs i n = tag @ concat (map encodeRune (take n (drop i rs)))"

definition featureTokens :: "string \<Rightarrow> string list" where
  "featureTokens value =
     (let rs = runes (''^'' @ value @ ''$'')
      in concat (map (\<lambda>i. gram ''u:'' rs i 1
             # (if i + 1 < length rs then [gram ''b:'' rs i 2] else [])
             @ (if i + 2 < length rs then [gram ''t:'' rs i 3] else [])) [0..<length rs])
         @ map (\<lambda>word. ''w:'' @ word) (Fields value))"

definition uint32BE :: "byte list \<Rightarrow> nat" where
  "uint32BE b = unat (b ! 0) * 2 ^ 24 + unat (b ! 1) * 2 ^ 16 + unat (b ! 2) * 2 ^ 8 + unat (b ! 3)"

text \<open>The loop of \<open>featureIDs\<close>, with its two maps as lists; it collects ranks and ids.\<close>

fun rank_loop :: "crypto \<Rightarrow> string \<Rightarrow> byte list \<Rightarrow> string list \<Rightarrow> nat list \<Rightarrow> string list \<Rightarrow> (byte list \<times> nat) list" where
  "rank_loop C qid salt seenToken seenID [] = []"
| "rank_loop C qid salt seenToken seenID (token # tokens) =
     (if token \<in> set seenToken then rank_loop C qid salt seenToken seenID tokens
      else let digest = hmacSHA256 C salt (bytes_of qid @ [0] @ bytes_of token);
               rank = take 32 (digest @ replicate 32 0);
               fid = uint32BE digest mod featureCorpusSize
           in if fid \<in> set seenID then rank_loop C qid salt (token # seenToken) seenID tokens
              else (rank, fid) # rank_loop C qid salt (token # seenToken) (fid # seenID) tokens)"

text \<open>
  Ranks of different ids differ (the id is computed from the rank), so the unstable \<open>sort.Slice\<close>
  has one possible result.
\<close>

definition featureIDs ::
    "crypto \<Rightarrow> knowledge \<Rightarrow> KnowledgeQuestion \<Rightarrow> string \<Rightarrow> byte list \<Rightarrow> account_error + int list" where
  "featureIDs C K question answer salt =
     rbind (normalizeAnswer K question answer) (\<lambda>normalized.
       let ranked = sort_key fst (rank_loop C (kq_ID question) salt [] [] (featureTokens normalized))
       in check (length ranked < featureSetSize) ErrFewFeatures
            (Inr (sort (map (\<lambda>i. int (snd (ranked ! i))) [0..<featureSetSize]))))"

section \<open>Creating the bundle\<close>

definition questionAAD :: "string \<Rightarrow> string \<Rightarrow> byte list" where
  "questionAAD packageID questionID = bytes_of (''sat20-question-share-v1|'' @ packageID @ ''|'' @ questionID)"

definition dkvsCapsuleAAD :: "string \<Rightarrow> byte list" where
  "dkvsCapsuleAAD packageID = bytes_of (''sat20-dkvs-share-v1|'' @ packageID)"

definition knowledgeKEK :: "crypto \<Rightarrow> byte list \<Rightarrow> string \<Rightarrow> string \<Rightarrow> byte list" where
  "knowledgeKEK C key packageID questionID =
     hkdfSHA256 C key (bytes_of packageID) (bytes_of (''sat20-fuzzy-question-v1|'' @ questionID)) 32"

text \<open>
  One round of the loop over the questions, after the checks on the question itself: \<open>answer\<close> is
  the normalised answer, \<open>part\<close> the question's share of \<open>kDKVS\<close>.
\<close>

definition lock_question :: "crypto \<Rightarrow> knowledge \<Rightarrow> string \<Rightarrow> KnowledgeQuestion \<Rightarrow> string \<Rightarrow> byte list \<Rightarrow> reader
    \<Rightarrow> (account_error + (EncryptedQuestionShare \<times> reader)) option" where
  "lock_question C K packageID question answer part random =
     orbind (Some (readFull ErrReadRandom 32 random)) (\<lambda>(salt, random).
     orbind (Some (featureIDs C K question answer salt)) (\<lambda>ids.
     orbind (map_option (wrapErr ErrFuzzy)
         (GenerateParams (int featureSetSize) featureCorrectThreshold (int featureCorpusSize) random)) (\<lambda>(params, random).
     orbind (map_option (wrapErr ErrFuzzy) (Lock (kScrypt K) (Some params) ids)) (\<lambda>vault.
     orbind (map_option (wrapErr ErrFuzzy) (MarshalVault K vault)) (\<lambda>vaultBytes.
     orbind (map_option (wrapErr ErrFuzzy) (RecoverKey (kScrypt K) (hmacSHA3 K) (Some vault) ids 0)) (\<lambda>keyMaterial.
     orbind (Some (sealBytes C (knowledgeKEK C keyMaterial packageID (kq_ID question)) part
         (questionAAD packageID (kq_ID question)) random)) (\<lambda>(nonce, ciphertext, random).
       Some (Inr (\<lparr>qs_Question = question, qs_Salt = rawURLEncode salt, qs_Vault = vaultBytes,
         qs_Nonce = nonce, qs_Ciphertext = ciphertext\<rparr>, random)))))))))"

fun question_loop :: "crypto \<Rightarrow> knowledge \<Rightarrow> string \<Rightarrow> string list \<Rightarrow> (QuestionAnswer \<times> byte list) list \<Rightarrow> reader
    \<Rightarrow> (account_error + (EncryptedQuestionShare list \<times> reader)) option" where
  "question_loop C K packageID seen [] random = Some (Inr ([], random))"
| "question_loop C K packageID seen ((input, part) # inputs) random =
     (let question = (qa_Question input)\<lparr>kq_ID := normalizeSpace (kq_ID (qa_Question input)),
            kq_Prompt := normalizeSpace (kq_Prompt (qa_Question input))\<rparr>
      in ocheck (kq_ID question = '''' \<or> kq_Prompt question = '''') ErrInvalidQuestion
         (ocheck (kq_ID question \<in> set seen) ErrDuplicateQuestion
          (orbind (Some (normalizeAnswer K question (qa_Answer input))) (\<lambda>answer.
           orbind (Some (mapErr ErrAnswerConfirmation (normalizeAnswer K question (qa_Confirmation input)))) (\<lambda>confirmation.
           ocheck (answer \<noteq> confirmation) ErrAnswerConfirmation
            (orbind (lock_question C K packageID question answer part random) (\<lambda>(entry, random).
             orbind (question_loop C K packageID (kq_ID question # seen) inputs random) (\<lambda>(entries, random).
               Some (Inr (entry # entries, random))))))))))"

definition createKnowledgeRecovery :: "crypto \<Rightarrow> marshal \<Rightarrow> knowledge \<Rightarrow> string \<Rightarrow> RecoveryShare \<Rightarrow> QuestionAnswer list
    \<Rightarrow> reader \<Rightarrow> (account_error + (DKVSShareCapsule \<times> KnowledgeRecoveryBundle \<times> reader)) option" where
  "createKnowledgeRecovery C J K packageID dkvsShare questions random =
     ocheck (length questions \<noteq> knowledgeQuestionCount) ErrQuestionCount
      (orbind (Some (readFull ErrReadRandom 32 random)) (\<lambda>(kDKVS, random).
       orbind (Some (wrapErr ErrShamir (Split kDKVS (int knowledgeQuestionCount) (int knowledgeQuestionThreshold) random)))
        (\<lambda>(questionShares, random).
       orbind (question_loop C K packageID [] (zip questions questionShares) random) (\<lambda>(entries, random).
       orbind (Some (sealBytes C kDKVS (jsonShare J dkvsShare) (dkvsCapsuleAAD packageID) random))
        (\<lambda>(nonce, ciphertext, random).
         Some (Inr (\<lparr>dc_Version = 1, dc_PackageID = packageID, dc_Algorithm = ''aes-256-gcm'', dc_Nonce = nonce,
               dc_Ciphertext = ciphertext\<rparr>,
             \<lparr>kb_Version = 1, kb_PackageID = packageID, kb_Threshold = of_nat knowledgeQuestionThreshold,
               kb_Total = of_nat knowledgeQuestionCount, kb_QuestionShares = entries\<rparr>, random)))))))"

section \<open>Recovering the share\<close>

text \<open>The map of the answers: a later attempt at a question replaces an earlier one.\<close>

definition answerMap :: "AnswerAttempt list \<Rightarrow> string \<Rightarrow> string option" where
  "answerMap answers = map_of (rev (map (\<lambda>a. (normalizeSpace (aa_QuestionID a), aa_Answer a)) answers))"

text \<open>The body of the loop over the entries; an error is the \<open>continue\<close> of the code.\<close>

definition open_entry :: "crypto \<Rightarrow> knowledge \<Rightarrow> string \<Rightarrow> string \<Rightarrow> EncryptedQuestionShare
    \<Rightarrow> (account_error + byte list) option" where
  "open_entry C K packageID answer entry =
     (case rawURLDecode (qs_Salt entry) of
        None \<Rightarrow> Some (Inl ErrRecoveryFailed)
      | Some salt \<Rightarrow>
          ocheck (length salt \<noteq> 32) ErrRecoveryFailed
           (orbind (Some (featureIDs C K (qs_Question entry) answer salt)) (\<lambda>ids.
            orbind (map_option (wrapErr ErrFuzzy) (UnmarshalVault K (qs_Vault entry))) (\<lambda>vault.
            orbind (map_option (wrapErr ErrFuzzy) (RecoverKey (kScrypt K) (hmacSHA3 K) (Some vault) ids 0)) (\<lambda>keyMaterial.
              Some (openSealed C (knowledgeKEK C keyMaterial packageID (kq_ID (qs_Question entry)))
                (qs_Nonce entry) (qs_Ciphertext entry)
                (questionAAD packageID (kq_ID (qs_Question entry)))))))))"

fun recover_loop :: "crypto \<Rightarrow> knowledge \<Rightarrow> string \<Rightarrow> (string \<Rightarrow> string option) \<Rightarrow> byte list list
    \<Rightarrow> EncryptedQuestionShare list \<Rightarrow> byte list list option" where
  "recover_loop C K packageID answers recovered [] = Some recovered"
| "recover_loop C K packageID answers recovered (entry # entries) =
     (case answers (kq_ID (qs_Question entry)) of
        None \<Rightarrow> recover_loop C K packageID answers recovered entries
      | Some answer \<Rightarrow>
          (case open_entry C K packageID answer entry of
             None \<Rightarrow> None
           | Some (Inl _) \<Rightarrow> recover_loop C K packageID answers recovered entries
           | Some (Inr share) \<Rightarrow>
               if length (recovered @ [share]) = knowledgeQuestionThreshold then Some (recovered @ [share])
               else recover_loop C K packageID answers (recovered @ [share]) entries))"

definition recoverDKVSShare :: "crypto \<Rightarrow> marshal \<Rightarrow> knowledge \<Rightarrow> DKVSShareCapsule \<Rightarrow> KnowledgeRecoveryBundle
    \<Rightarrow> AnswerAttempt list \<Rightarrow> (account_error + RecoveryShare) option" where
  "recoverDKVSShare C J K capsule bundle answers =
     ocheck (dc_Version capsule \<noteq> 1 \<or> kb_Version bundle \<noteq> 1 \<or> dc_PackageID capsule \<noteq> kb_PackageID bundle
         \<or> kb_Threshold bundle \<noteq> of_nat knowledgeQuestionThreshold \<or> kb_Total bundle \<noteq> of_nat knowledgeQuestionCount
         \<or> length (kb_QuestionShares bundle) \<noteq> knowledgeQuestionCount) ErrInvalidRecoveryPackage
      (case recover_loop C K (kb_PackageID bundle) (answerMap answers) [] (kb_QuestionShares bundle) of
         None \<Rightarrow> None
       | Some recovered \<Rightarrow> Some (
           check (length recovered < knowledgeQuestionThreshold) ErrRecoveryFailed
            (case Combine recovered of
               Inl _ \<Rightarrow> Inl ErrRecoveryFailed
             | Inr kDKVS \<Rightarrow>
                 check (length kDKVS \<noteq> 32) ErrRecoveryFailed
                  (rbind (openSealed C kDKVS (dc_Nonce capsule) (dc_Ciphertext capsule)
                      (dkvsCapsuleAAD (kb_PackageID bundle))) (\<lambda>plaintext.
                    case jsonShareOf J plaintext of
                      None \<Rightarrow> Inl ErrRecoveryFailed
                    | Some share \<Rightarrow>
                        (case validateShare C J share of
                           Inl _ \<Rightarrow> Inl ErrRecoveryFailed
                         | Inr _ \<Rightarrow>
                             check (sh_Role share \<noteq> ShareRoleDKVS \<or> sh_PackageID share \<noteq> kb_PackageID bundle)
                               ErrRecoveryFailed (Inr share)))))))"

end
