(* ===== verification/FuzzyTotal.thy ===== *)
theory FuzzyTotal
  imports FuzzyRecovery
begin

text \<open>
  What \<open>RecoverKey\<close> of \<open>sdk/account/fuzzy\<close> does on arbitrary feature sets: it returns, with one of
  four errors when it fails (none of them a panic), and a key it returns is the key of the locked
  set.
\<close>

section \<open>The decoder returns\<close>

context modulus begin

lemma monic_new: "\<exists>d. newPolynomial p (w @ [1]) = \<lparr>prime = p, coeffs = d\<rparr> \<and> residues p d \<and> d \<noteq> [] \<and> last d \<noteq> 0"
proof -
  let ?m = "map (\<lambda>x. x mod p) (w @ [1])"
  have "last ?m \<noteq> 0" using small by (simp add: small_def)
  then have "newPolynomial p (w @ [1]) = \<lparr>prime = p, coeffs = ?m\<rparr>"
    by (simp add: newPolynomial_def modp_fun trim_id)
  moreover have "residues p ?m" by (rule residues_map_mod)
  ultimately show ?thesis using \<open>last ?m \<noteq> 0\<close> by (intro exI [of _ ?m]) simp
qed

lemma divRem_monic_returns: "\<exists>r. divRemPolynomial (newPolynomial p q) (newPolynomial p (w @ [1])) = Some r"
proof -
  obtain d where d: "newPolynomial p (w @ [1]) = \<lparr>prime = p, coeffs = d\<rparr>" "residues p d" "d \<noteq> []" "last d \<noteq> 0"
    using monic_new by blast
  define a where "a = coeffs (newPolynomial p q)"
  have "newPolynomial p q = \<lparr>prime = p, coeffs = a\<rparr>" by (simp add: a_def newPolynomial_def)
  moreover have "residues p a" "a = [] \<or> last a \<noteq> 0" unfolding a_def by (rule new_residues new_trimmed)+
  ultimately show ?thesis using divRem_correct [of a d] d by auto
qed

lemma berlekampWelch_returns: "\<exists>r. berlekampWelch xs ys k e p = Some r"
proof -
  have "\<exists>r. map_option f (divRemPolynomial (newPolynomial p (take n s)) (newPolynomial p (drop n s @ [1]))) = Some r"
    for f :: "fuzzy_error + (fpoly \<times> fpoly) \<Rightarrow> fuzzy_error + fpoly" and n s
    using divRem_monic_returns [of "take n s" "drop n s"] by auto
  then show ?thesis by (auto simp: berlekampWelch_def Let_def split: sum.splits)
qed

end

section \<open>Recovery on arbitrary input\<close>

text \<open>The result of a correction that succeeded is an acceptable feature set.\<close>

lemma recovered_set:
  assumes "recoverFeatureSet v cand = Some (Inr fs)"
  shows "distinct fs" "sorted fs" "int (length fs) = SetSize v" "\<forall>x\<in>set fs. 0 \<le> x \<and> x < CorpusSize v"
proof -
  have d: "distinct (map int [0..<k])" for k by (simp add: distinct_map)
  have split: "\<exists>z. m = Some z \<and> f z = Inr fs" if "map_option f m = Some (Inr fs)" for m and f :: "'x \<Rightarrow> fuzzy_error + int list"
    using that by auto
  obtain z pHigh where z: "(case z of
                  Inl (_ :: fuzzy_error) \<Rightarrow> Inl ErrInsufficientMatches
                | Inr pLow \<Rightarrow>
                    (case findRoots (poly_sub pHigh pLow) (SetSize v) of
                       Inl _ \<Rightarrow> Inl ErrInsufficientMatches
                     | Inr roots \<Rightarrow>
                         check (list_ex (\<lambda>root. root < 0 \<or> root \<ge> CorpusSize v) roots) ErrInsufficientMatches
                           (Inr (sort roots)))) = Inr fs"
    using assms unfolding recoverFeatureSet_def Let_def by (auto split: if_splits simp del: check_eq_Inr dest!: split)
  then obtain pLow where p: "z = Inr pLow" by (cases z) auto
  obtain roots where roots: "findRoots (poly_sub pHigh pLow) (SetSize v) = Inr roots"
    using z unfolding p by (cases "findRoots (poly_sub pHigh pLow) (SetSize v)") auto
  then have roots: "findRoots (poly_sub pHigh pLow) (SetSize v) = Inr roots"
    "\<not> list_ex (\<lambda>root. root < 0 \<or> root \<ge> CorpusSize v) roots" "fs = sort roots"
    using z unfolding p by (auto simp: result_simps)
  then have "distinct roots" "int (length roots) = SetSize v"
    by (auto simp: findRoots_def Let_def result_simps simp del: filter_map intro!: distinct_filter d)
  then show "distinct fs" "sorted fs" "int (length fs) = SetSize v" "\<forall>x\<in>set fs. 0 \<le> x \<and> x < CorpusSize v"
    using roots by (auto simp: list_ex_iff)
qed

definition recovery_errors :: "fuzzy_error set" where
  "recovery_errors = {ErrInvalidPublicPayload, ErrInvalidFeatureSet, ErrInsufficientMatches, ErrScrypt}"

lemma derive_key_error:
  assumes "valid_params v" "int (length fs) = SetSize v" "derive_key scrypt hmac v i fs = Inl e"
  shows "e \<in> recovery_errors"
  using assms by (auto simp: derive_key_def extractorKey_def valid_params_def recovery_errors_def rbind_eq_Inl
      check_eq_Inl mapErr_def split: sum.splits)

lemma slowSetHash_error: "slowSetHash scrypt fs salt = Inl e \<Longrightarrow> e \<in> recovery_errors"
  by (auto simp: slowSetHash_def mapErr_def recovery_errors_def split: sum.splits)

lemma recoverFeatureSet_returns:
  assumes v: "valid_params v" "Prime v < 2 ^ 31" and l: "int (length cand) = SetSize v"
  shows "\<exists>r. recoverFeatureSet v cand = Some r \<and> (\<forall>e. r = Inl e \<longrightarrow> e \<in> recovery_errors)"
proof -
  have M: "modulus (Prime v)" by (rule valid_modulus [OF v])
  note returns = modulus.berlekampWelch_returns [OF M]
  show ?thesis
  proof (cases "goRem (errorThreshold (SetSize v) (CorrectThreshold v)) 2 \<noteq> 0
      \<or> errorThreshold (SetSize v) (CorrectThreshold v) \<le> 0 \<or> errorThreshold (SetSize v) (CorrectThreshold v) \<ge> SetSize v")
    case True
    then show ?thesis by (auto simp: recoverFeatureSet_def Let_def recovery_errors_def)
  next
    case False
    define et where "et = errorThreshold (SetSize v) (CorrectThreshold v)"
    define pHigh where "pHigh = newPolynomial (Prime v) (sketch_coeffs v (nat (SetSize v)) (nat et))"
    obtain b where b: "berlekampWelch cand (map (poly_eval pHigh) cand) (SetSize v - et) (et div 2) (Prime v) = Some b"
      using returns by blast
    define body where "body = (\<lambda>r. case r of
                  Inl (_ :: fuzzy_error) \<Rightarrow> Inl ErrInsufficientMatches
                | Inr pLow \<Rightarrow>
                    (case findRoots (poly_sub pHigh pLow) (SetSize v) of
                       Inl _ \<Rightarrow> Inl ErrInsufficientMatches
                     | Inr roots \<Rightarrow>
                         check (list_ex (\<lambda>root. root < 0 \<or> root \<ge> CorpusSize v) roots) ErrInsufficientMatches
                           (Inr (sort roots))))"
    have "recoverFeatureSet v cand = Some (body b)"
      using False l b unfolding body_def pHigh_def et_def by (simp add: recoverFeatureSet_def Let_def)
    moreover have "e \<in> recovery_errors" if "body b = Inl e" for e
      using that by (auto simp: body_def recovery_errors_def check_eq_Inl split: sum.splits)
    ultimately show ?thesis by blast
  qed
qed

lemma RecoverKey_returns:
  assumes "Prime v < 2 ^ 31"
  shows "\<exists>r. RecoverKey scrypt hmac (Some v) ids i = Some r \<and> (\<forall>e. r = Inl e \<longrightarrow> e \<in> recovery_errors)"
proof -
  obtain u where u: "validateVault v = Some u"
    using validate_returns [of v] assms by (auto simp: validateVault_def)
  show ?thesis
  proof (cases u)
    case (Inl e)
    then show ?thesis using u by (simp add: RecoverKey_def recovery_errors_def)
  next
    case (Inr x)
    then have vp: "valid_params v" using u validateVault_iff [of v] assms by simp
    show ?thesis
    proof (cases "normalizeFeatures ids (SetSize v) (CorpusSize v)")
      case (Inl e)
      then show ?thesis using u Inr by (simp add: RecoverKey_def recovery_errors_def)
    next
      case fs: (Inr fs)
      then have l: "int (length fs) = SetSize v" by (auto simp: normalizeFeatures_iff)
      show ?thesis
      proof (cases "slowSetHash scrypt fs (Salt v)")
        case (Inl e)
        then show ?thesis using u Inr fs slowSetHash_error by (auto simp: RecoverKey_def)
      next
        case h: (Inr h)
        obtain r where r: "recoverFeatureSet v fs = Some r" "\<forall>e. r = Inl e \<longrightarrow> e \<in> recovery_errors"
          using recoverFeatureSet_returns [OF vp assms l] by blast
        have "e \<in> recovery_errors" if "rbind r (\<lambda>recovered.
                rbind (slowSetHash scrypt recovered (Salt v)) (\<lambda>recoveredHash.
                  check (recoveredHash \<noteq> SetHash v) ErrInsufficientMatches
                    (derive_key scrypt hmac v i recovered))) = Inl e" for e
        proof (cases r)
          case (Inr a)
          then have "int (length a) = SetSize v" using recovered_set(3) r(1) by simp
          then show ?thesis
            using that Inr derive_key_error [OF vp, of a] slowSetHash_error [of scrypt a "Salt v"]
            by (auto simp: rbind_eq_Inl check_eq_Inl) (simp add: recovery_errors_def)
        qed (use that r in simp)
        moreover have "e \<in> recovery_errors" if "derive_key scrypt hmac v i fs = Inl e" for e
          by (rule derive_key_error [OF vp l that])
        ultimately show ?thesis using u Inr fs h r(1) by (auto simp: RecoverKey_def)
      qed
    qed
  qed
qed

text \<open>Two feature sets that are acceptable for \<open>v\<close> do not have the same slow hash.\<close>

definition collision_free :: "scrypt \<Rightarrow> int \<Rightarrow> int \<Rightarrow> bool" where
  "collision_free scrypt n corpus \<longleftrightarrow> (\<forall>salt xs ys h.
     distinct xs \<and> sorted xs \<and> int (length xs) = n \<and> (\<forall>x\<in>set xs. 0 \<le> x \<and> x < corpus)
     \<and> distinct ys \<and> sorted ys \<and> int (length ys) = n \<and> (\<forall>y\<in>set ys. 0 \<le> y \<and> y < corpus)
     \<and> scrypt (featurePass ''original_words:'' xs) salt = Inr h
     \<and> scrypt (featurePass ''original_words:'' ys) salt = Inr h \<longrightarrow> xs = ys)"

lemma slowSetHash_unique:
  assumes "collision_free scrypt n corpus"
    and "distinct xs" "sorted xs" "int (length xs) = n" "\<forall>x\<in>set xs. 0 \<le> x \<and> x < corpus"
    and "distinct ys" "sorted ys" "int (length ys) = n" "\<forall>y\<in>set ys. 0 \<le> y \<and> y < corpus"
    and "slowSetHash scrypt xs salt = Inr h" "slowSetHash scrypt ys salt = Inr h"
  shows "xs = ys"
proof -
  have "scrypt (featurePass ''original_words:'' xs) salt = Inr h"
    "scrypt (featurePass ''original_words:'' ys) salt = Inr h"
    using assms(10,11) by (simp_all add: slowSetHash_def result_simps)
  then show ?thesis using assms(1-9) unfolding collision_free_def by blast
qed

lemma RecoverKey_sound:
  assumes l: "Lock scrypt (Some P) ids = Some (Inr v)" and p: "Prime P < 2 ^ 31"
    and cf: "collision_free scrypt (SetSize P) (CorpusSize P)"
    and k: "RecoverKey scrypt hmac (Some v) ids' i = Some (Inr key)"
  shows "derive_key scrypt hmac v i (sort ids) = Inr key"
proof -
  note F = Lock_facts [OF l p]
  have ids: "distinct (sort ids)" "sorted (sort ids)" "int (length (sort ids)) = SetSize P"
    "\<forall>x\<in>set (sort ids). 0 \<le> x \<and> x < CorpusSize P" "slowSetHash scrypt (sort ids) (Salt P) = Inr (SetHash v)"
    using F(2,11) by (auto simp: normalizeFeatures_iff)
  obtain fs where fs: "normalizeFeatures ids' (SetSize P) (CorpusSize P) = Inr fs"
    using k F(3-7) by (auto simp: RecoverKey_def split: sum.splits)
  have nf: "distinct fs" "sorted fs" "int (length fs) = SetSize P" "\<forall>x\<in>set fs. 0 \<le> x \<and> x < CorpusSize P"
    using fs by (auto simp: normalizeFeatures_iff)
  obtain h where h: "slowSetHash scrypt fs (Salt P) = Inr h"
    using k fs F(3-9) by (auto simp: RecoverKey_def split: sum.splits)
  show ?thesis
  proof (cases "h = SetHash v")
    case True
    then have "fs = sort ids" using slowSetHash_unique [OF cf nf ids(1-4)] h ids(5) by blast
    then show ?thesis using k fs h F(3-9) True by (simp add: RecoverKey_def)
  next
    case False
    then obtain rs where rs: "recoverFeatureSet v fs = Some (Inr rs)" "slowSetHash scrypt rs (Salt P) = Inr (SetHash v)"
      "derive_key scrypt hmac v i rs = Inr key"
      using k fs h F(3-9) by (auto simp: RecoverKey_def result_simps)
    have "distinct rs" "sorted rs" "int (length rs) = SetSize P" "\<forall>x\<in>set rs. 0 \<le> x \<and> x < CorpusSize P"
      using recovered_set [OF rs(1)] F(4,6) by simp_all
    then have "rs = sort ids" using slowSetHash_unique [OF cf _ _ _ _ ids(1-4) rs(2) ids(5)] by blast
    then show ?thesis using rs(3) by simp
  qed
qed

section \<open>The properties\<close>




lemma putUint32LE_of_int_inject:
  assumes "0 \<le> x" "x < 2 ^ 32" "0 \<le> y" "y < 2 ^ 32" "putUint32LE (of_int x) = putUint32LE (of_int y)"
  shows "x = y"
proof -
  have "uint (of_int x :: 32 word) = uint (of_int y :: 32 word)" using assms(5) by (simp only: putUint32LE_inject)
  then show ?thesis using assms(1-4) by (simp add: uint_word_of_int)
qed

lemma featurePass_inject:
  assumes "length xs = length ys" "\<forall>x\<in>set xs. 0 \<le> x \<and> x < 2 ^ 32" "\<forall>y\<in>set ys. 0 \<le> y \<and> y < 2 ^ 32"
    and "featurePass prefix xs = featurePass prefix ys"
  shows "xs = ys"
proof -
  have "concat (map (\<lambda>v. putUint32LE (of_int v)) xs) = concat (map (\<lambda>v. putUint32LE (of_int v)) ys)"
    using assms(4) by (simp add: featurePass_def)
  then show ?thesis using assms(2,3) using assms(1)
  proof (induction xs ys rule: list_induct2')
    case (4 x xs y ys)
    then have "putUint32LE (of_int x) = putUint32LE (of_int y)"
      "concat (map (\<lambda>v. putUint32LE (of_int v)) xs) = concat (map (\<lambda>v. putUint32LE (of_int v)) ys)"
      by (simp_all add: append_eq_append_conv)
    then show ?case using "4.IH" "4.prems" putUint32LE_of_int_inject [of x y] by auto
  qed simp_all
qed

lemma demo_collision_free: "collision_free demo_scrypt 3 5"
proof -
  have "xs = ys"
    if l: "int (length xs) = 3" "int (length ys) = 3" and r: "\<forall>x\<in>set xs. 0 \<le> x \<and> x < 5" "\<forall>y\<in>set ys. 0 \<le> y \<and> y < 5"
      and h: "demo_scrypt (featurePass ''original_words:'' xs) salt = demo_scrypt (featurePass ''original_words:'' ys) salt"
    for xs ys :: "int list" and salt
  proof (rule featurePass_inject [of _ _ "''original_words:''"])
    have "length (concat (map (\<lambda>v. putUint32LE (of_int v)) zs)) = 4 * length zs" for zs :: "int list"
      by (induction zs) simp_all
    then have "length (featurePass ''original_words:'' zs) = 15 + 4 * length zs" for zs
      by (simp add: featurePass_def)
    then show "featurePass ''original_words:'' xs = featurePass ''original_words:'' ys"
      using h l by (simp add: demo_scrypt_def)
  qed (use l r in \<open>fastforce+\<close>)
  then show ?thesis unfolding collision_free_def by metis
qed


end
