(* ===== verification/ShareProperties.thy ===== *)
theory ShareProperties
  imports RecoveryShare ManagedStateCodec
begin

text \<open>
  The properties of the recovery shares and text forms of \<open>sdk/account\<close>, and the marshaller that
  instantiates the parameter \<open>marshal\<close> in their examples.
\<close>

section \<open>A marshaller\<close>

fun unary :: "reader \<Rightarrow> unit + (nat \<times> reader)" where
  "unary [] = Inl ()"
| "unary (b # r) = (if b = 0 then Inr (0, r) else rbind (unary r) (\<lambda>(n, r). Inr (n + 1, r)))"

definition putUnary :: "nat \<Rightarrow> byte list" where
  "putUnary n = replicate n 1 @ [0]"

interpretation demo_nat: codec putUnary unary "\<lambda>n. True"
proof
  show "unary (putUnary n @ rest) = Inr (n, rest)" for n rest
    by (induction n) (simp_all add: putUnary_def)
qed

definition putText :: "string \<Rightarrow> byte list" where
  "putText s = putUnary (length s) @ bytes_of s"

definition getText :: "reader \<Rightarrow> unit + (string \<times> reader)" where
  "getText r = rbind (unary r) (\<lambda>(n, r). rbind (readFull () n r) (\<lambda>(bs, r). Inr (string_of bs, r)))"

interpretation demo_text: codec putText getText "\<lambda>s. True"
  by unfold_locales (simp add: putText_def getText_def demo_nat.dec_enc)

definition putAll :: "('a \<Rightarrow> byte list) \<Rightarrow> 'a list \<Rightarrow> byte list" where
  "putAll enc xs = putUnary (length xs) @ concat (map enc xs)"

definition getAll :: "(reader \<Rightarrow> unit + ('a \<times> reader)) \<Rightarrow> reader \<Rightarrow> unit + ('a list \<times> reader)" where
  "getAll dec r = rbind (unary r) (\<lambda>(n, r). read_n dec n r)"

definition putShare :: "RecoveryShare \<Rightarrow> byte list" where
  "putShare s = putUnary (unat (sh_Version s)) @ putText (sh_PackageID s) @ putUnary (unat (sh_Threshold s))
     @ putUnary (unat (sh_Total s)) @ putUnary (unat (sh_Index s)) @ putText (sh_Role s) @ putText (sh_Data s)
     @ putText (sh_Checksum s)"

definition getShare :: "reader \<Rightarrow> unit + (RecoveryShare \<times> reader)" where
  "getShare r =
     rbind (unary r) (\<lambda>(v, r). rbind (getText r) (\<lambda>(p, r). rbind (unary r) (\<lambda>(t, r).
       rbind (unary r) (\<lambda>(n, r). rbind (unary r) (\<lambda>(i, r). rbind (getText r) (\<lambda>(ro, r).
         rbind (getText r) (\<lambda>(d, r). rbind (getText r) (\<lambda>(c, r).
           Inr (\<lparr>sh_Version = of_nat v, sh_PackageID = p, sh_Threshold = of_nat t, sh_Total = of_nat n,
                 sh_Index = of_nat i, sh_Role = ro, sh_Data = d, sh_Checksum = c\<rparr>, r)))))))))"

interpretation demo_share: codec putShare getShare "\<lambda>s. True"
  by unfold_locales (simp add: putShare_def getShare_def demo_nat.dec_enc demo_text.dec_enc)

definition putSub :: "SubAccount \<Rightarrow> byte list" where
  "putSub s = putUnary (unat (sa_Index s)) @ putText (sa_Name s) @ putText (sa_DID s)"

definition getSub :: "reader \<Rightarrow> unit + (SubAccount \<times> reader)" where
  "getSub r = rbind (unary r) (\<lambda>(i, r). rbind (getText r) (\<lambda>(n, r). rbind (getText r) (\<lambda>(d, r).
     Inr (\<lparr>sa_Index = of_nat i, sa_Name = n, sa_DID = d\<rparr>, r))))"

interpretation demo_sub: codec putSub getSub "\<lambda>s. True"
  by unfold_locales (simp add: putSub_def getSub_def demo_nat.dec_enc demo_text.dec_enc)

definition putWallet :: "WalletBackup \<Rightarrow> byte list" where
  "putWallet w = putText (wb_Name w) @ putText (wb_Mnemonic w) @ putUnary (unat (wb_AccountCount w))
     @ putAll putSub (wb_SubAccounts w)"

definition getWallet :: "reader \<Rightarrow> unit + (WalletBackup \<times> reader)" where
  "getWallet r = rbind (getText r) (\<lambda>(n, r). rbind (getText r) (\<lambda>(m, r). rbind (unary r) (\<lambda>(c, r).
     rbind (getAll getSub r) (\<lambda>(ss, r).
       Inr (\<lparr>wb_Name = n, wb_Mnemonic = m, wb_AccountCount = of_nat c, wb_SubAccounts = ss\<rparr>, r)))))"

interpretation demo_wallets: codec putWallet getWallet "\<lambda>w. True"
  by unfold_locales (simp add: putWallet_def getWallet_def putAll_def getAll_def demo_nat.dec_enc demo_text.dec_enc
      demo_sub.read_n_concat)

definition putBackup :: "Backup \<Rightarrow> byte list" where
  "putBackup b = putUnary (unat (bk_Version b)) @ putAll putWallet (bk_Wallets b)"

definition getBackup :: "reader \<Rightarrow> unit + (Backup \<times> reader)" where
  "getBackup r = rbind (unary r) (\<lambda>(v, r). rbind (getAll getWallet r) (\<lambda>(ws, r).
     Inr (\<lparr>bk_Version = of_nat v, bk_Wallets = ws\<rparr>, r)))"

interpretation demo_backups: codec putBackup getBackup "\<lambda>b. True"
  by unfold_locales (simp add: putBackup_def getBackup_def putAll_def getAll_def demo_nat.dec_enc
      demo_wallets.read_n_concat)

definition putLocator :: "Locator \<Rightarrow> byte list" where
  "putLocator l = putUnary (unat (loc_Version l)) @ putText (loc_AccountID l) @ putText (loc_PackageID l)
     @ putText (loc_RecoveryMode l)"

definition getLocator :: "reader \<Rightarrow> unit + (Locator \<times> reader)" where
  "getLocator r = rbind (unary r) (\<lambda>(v, r). rbind (getText r) (\<lambda>(a, r). rbind (getText r) (\<lambda>(p, r).
     rbind (getText r) (\<lambda>(m, r).
       Inr (\<lparr>loc_Version = of_nat v, loc_AccountID = a, loc_PackageID = p, loc_RecoveryMode = m\<rparr>, r)))))"

interpretation demo_locator: codec putLocator getLocator "\<lambda>l. True"
  by unfold_locales (simp add: putLocator_def getLocator_def demo_nat.dec_enc demo_text.dec_enc)

definition whole :: "(reader \<Rightarrow> unit + ('a \<times> reader)) \<Rightarrow> byte list \<Rightarrow> 'a option" where
  "whole dec bs = (case dec bs of Inl _ \<Rightarrow> None | Inr (x, r) \<Rightarrow> if r = [] then Some x else None)"

definition demo_marshal :: marshal where
  "demo_marshal = \<lparr>jsonShare = putShare, jsonShareOf = whole getShare, jsonBackup = putBackup,
     jsonBackupOf = whole getBackup, jsonLocator = putLocator, jsonLocatorOf = whole getLocator,
     jsonEnvelope = (\<lambda>e. putText (eb_Nonce (env_EncryptedBackup e)) @ putText (eb_Ciphertext (env_EncryptedBackup e))),
     jsonCapsule = (\<lambda>c. putText (gc_Nonce c) @ putText (gc_Ciphertext c))\<rparr>"

lemma putUnary_nonempty: "putUnary n \<noteq> []"
  by (simp add: putUnary_def)

lemma demo_marshal_laws: "marshal_laws demo_marshal"
proof -
  have "whole getShare (putShare s) = Some s" "whole getBackup (putBackup b) = Some b"
    "whole getLocator (putLocator l) = Some l" for s b l
    using demo_share.dec_enc [of s "[]"] demo_backups.dec_enc [of b "[]"] demo_locator.dec_enc [of l "[]"]
    by (simp_all add: whole_def)
  then show ?thesis
    by (simp add: marshal_laws_def demo_marshal_def) (simp add: putShare_def putUnary_nonempty)
qed

lemma trimSpace_blank: "trimSpace (CHR '' '' # s) = trimSpace s"
  by (simp add: trimSpace_def trimLeft.simps [of "CHR '' '' # s"] spaceLen_blank)

section \<open>Splitting succeeds\<close>

lemma validHex_encode [simp]: "validHex (hexEncode bs) n \<longleftrightarrow> n = 2 * length bs"
  by (auto simp: validHex_def)

lemma newRecoveryShare_succeeds:
  assumes "\<And>m. 8 \<le> length (sha256 C m)" "validHex packageID 32" "tot = 2 \<or> tot = 3" "1 \<le> index" "index \<le> tot"
    and "length data = 33" "last data = index"
  shows "\<exists>s. newRecoveryShare C J packageID tot index data = Inr s"
proof -
  have "index \<noteq> 0" using assms(4) by auto
  then show ?thesis using assms
  by (simp add: newRecoveryShare_def validateShare_def shareChecksum_def Let_def check_def accountSecretSize_def
      ShareOverhead_def not_less min_absorb2)
qed

lemma rmap_succeeds: "(\<And>x. x \<in> set xs \<Longrightarrow> \<exists>y. f x = Inr y) \<Longrightarrow> \<exists>ys. rmap f xs = Inr ys"
  by (induction xs) fastforce+

lemma splitSecret_succeeds:
  assumes "\<And>m. 8 \<le> length (sha256 C m)" "validHex packageID 32" "length secret = 32" "32 \<le> length random"
    and "mode = RecoveryMode2Of2 \<or> mode = RecoveryMode2Of3"
  shows "\<exists>shares. splitSecret C J secret packageID mode random = Inr (shares, drop 32 random)"
proof -
  define tot :: int where "tot = (if mode = RecoveryMode2Of3 then 3 else 2)"
  have tot: "tot = 2 \<or> tot = 3" by (simp add: tot_def)
  define raws where "raws = map (share_of 2 secret random) [0..<nat tot]"
  have s: "Split secret tot 2 random = Inr (raws, drop 32 random)"
  proof -
    have "secret \<noteq> []" using assms(3) by auto
    then show ?thesis using Split_eq [of secret 2 "nat tot" random] assms(3,4) tot by (auto simp: raws_def)
  qed
  have "\<exists>s. newRecoveryShare C J packageID (of_int tot) (of_nat (i + 1)) raw = Inr s"
    if "(i, raw) \<in> set (enumerate 0 raws)" for i raw
  proof -
    from that have i: "i < nat tot" "raw = share_of 2 secret random i"
      by (auto simp: in_set_enumerate_eq raws_def)
    then have i3: "i = 0 \<or> i = 1 \<or> i = 2 \<and> tot = 3" using tot by auto
    show ?thesis
    proof (rule newRecoveryShare_succeeds [OF assms(1,2)])
      show "(of_int tot :: byte) = 2 \<or> (of_int tot :: byte) = 3" using tot by auto
      show "1 \<le> (of_nat (i + 1) :: byte)" "(of_nat (i + 1) :: byte) \<le> of_int tot" using i3 tot by auto
      show "length raw = 33" using assms(3) i by simp
      show "last raw = of_nat (i + 1)" using i by (simp add: share_of_def share_byte_def)
    qed
  qed
  then obtain shares where "rmap (\<lambda>(i, raw). newRecoveryShare C J packageID (of_int tot) (of_nat (i + 1)) raw)
      (enumerate 0 raws) = Inr shares"
    using rmap_succeeds [of "enumerate 0 raws"] by (metis (no_types, lifting) case_prodE2 prod.case surj_pair)
  then show ?thesis using assms(5) s by (auto simp: splitSecret_def tot_def Let_def RecoveryMode2Of2_def RecoveryMode2Of3_def)
qed

section \<open>The properties\<close>

text \<open>
  C17: The recovery contract of the account: from any two or more different shares that \<open>splitSecret\<close>
  made, in any order and for both recovery modes, \<open>CombineShares\<close> returns the account secret.
\<close>

theorem shares_combine:
  assumes "splitSecret C J secret packageID mode random = Inr (shares, rest)"
    and "distinct idx" and "set idx \<subseteq> {..<length shares}" and "2 \<le> length idx"
  shows "CombineShares C J (map (\<lambda>i. shares ! i) idx) = Inr secret"
  by (rule shares_combine_eq [OF assms])

lemma demo_split:
  obtains shares where
    "splitSecret (demo_crypto []) demo_marshal (replicate 32 5) (hexEncode (replicate 16 3)) RecoveryMode2Of3 (replicate 40 9)
      = Inr (shares, replicate 8 9)" "length shares = 3"
proof -
  obtain shares where s: "splitSecret (demo_crypto []) demo_marshal (replicate 32 5) (hexEncode (replicate 16 3))
      RecoveryMode2Of3 (replicate 40 9) = Inr (shares, replicate 8 9)"
    using splitSecret_succeeds [of "demo_crypto []" "hexEncode (replicate 16 3)" "replicate 32 5" "replicate 40 9"
        RecoveryMode2Of3 demo_marshal]
    by (auto simp: demo_crypto_def)
  moreover have "length shares = 3" using splitSecret_facts [OF s] by auto
  ultimately show ?thesis using that by blast
qed

theorem shares_combine_witness:
  "\<exists>shares rest. splitSecret (demo_crypto []) demo_marshal (replicate 32 5) (hexEncode (replicate 16 3)) RecoveryMode2Of3
      (replicate 40 9) = Inr (shares, rest)
    \<and> CombineShares (demo_crypto []) demo_marshal (map (\<lambda>i. shares ! i) [2, 0]) = Inr (replicate 32 5)"
proof -
  obtain shares where s: "splitSecret (demo_crypto []) demo_marshal (replicate 32 5) (hexEncode (replicate 16 3))
      RecoveryMode2Of3 (replicate 40 9) = Inr (shares, replicate 8 9)" and l: "length shares = 3"
    by (rule demo_split)
  have "CombineShares (demo_crypto []) demo_marshal (map (\<lambda>i. shares ! i) [2, 0]) = Inr (replicate 32 5)"
    by (rule shares_combine [OF s]) (use l in auto)
  with s show ?thesis by blast
qed

text \<open>
  What \<open>CombineShares\<close> accepts: at least two shares, each of which passes validation (checksum
  and role included), of one package and with pairwise different indices; the secret has 32 bytes.
\<close>

theorem combine_accepts:
  assumes "CombineShares C J shares = Inr secret"
  shows "2 \<le> length shares \<and> length secret = accountSecretSize \<and> distinct (map sh_Index shares)
    \<and> (\<forall>s\<in>set shares. is_ok (validateShare C J s) \<and> sh_PackageID s = sh_PackageID (shares ! 0)
        \<and> sh_Role s = expectedRole (sh_Total s) (sh_Index s))"
proof -
  obtain raws where l: "2 \<le> length shares" "combine_loop C J (shares ! 0) [] shares = Inr raws"
    "length secret = accountSecretSize"
    using assms by (auto simp: CombineShares_def result_simps)
  note L = combine_loop_Inr [OF l(2)]
  have "is_ok (validateShare C J s) \<and> sh_PackageID s = sh_PackageID (shares ! 0)
        \<and> sh_Role s = expectedRole (sh_Total s) (sh_Index s)" if s: "s \<in> set shares" for s
  proof -
    obtain i where i: "i < length shares" "s = shares ! i" using s by (auto simp: in_set_conv_nth)
    then have "validateShare C J s = Inr (raws ! i)" "sh_PackageID s = sh_PackageID (shares ! 0)" using L by blast+
    then show ?thesis using validateShare_raw(5) by simp
  qed
  then show ?thesis using l L by blast
qed

theorem combine_accepts_witness:
  "\<exists>shares. CombineShares (demo_crypto []) demo_marshal shares = Inr (replicate 32 5) \<and> distinct (map sh_Index shares)"
proof -
  obtain shares where s: "splitSecret (demo_crypto []) demo_marshal (replicate 32 5) (hexEncode (replicate 16 3))
      RecoveryMode2Of3 (replicate 40 9) = Inr (shares, replicate 8 9)" and l: "length shares = 3"
    by (rule demo_split)
  have "CombineShares (demo_crypto []) demo_marshal (map (\<lambda>i. shares ! i) [1, 2]) = Inr (replicate 32 5)"
    by (rule shares_combine_eq [OF s]) (use l in auto)
  from combine_accepts [OF this] this show ?thesis by blast
qed

text \<open>
  The text forms are faithful: a share or a locator that was encoded decodes to itself, also
  when white space surrounds the text of a locator.
\<close>

theorem share_locator_text:
  assumes "marshal_laws J"
  shows "(\<forall>t. EncodeRecoveryShare C J s = Inr t \<longrightarrow> DecodeRecoveryShare C J t = Inr s)
    \<and> (\<forall>t. EncodeLocator J l = Inr t \<longrightarrow> DecodeLocator J t = Inr l \<and> DecodeLocator J (CHR '' '' # t) = Inr l)"
proof -
  have "DecodeRecoveryShare C J t = Inr s" if enc: "EncodeRecoveryShare C J s = Inr t" for t
  proof -
    obtain raw where v: "validateShare C J s = Inr raw" and t: "t = sharePrefix @ rawURLEncode (jsonShare J s)"
      using enc by (auto simp: EncodeRecoveryShare_def result_simps)
    have "jsonShareOf J (jsonShare J s) = Some s" "jsonShare J s \<noteq> []"
      using assms validateShare_raw(4) [OF v] by (simp_all add: marshal_laws_def)
    then show ?thesis using v by (simp add: DecodeRecoveryShare_def t check_def)
  qed
  moreover have "DecodeLocator J t = Inr l \<and> DecodeLocator J (CHR '' '' # t) = Inr l" if enc: "EncodeLocator J l = Inr t" for t
  proof -
    obtain u where v: "ValidateLocator l = Inr u" and t: "t = locatorEncodingPrefix @ rawURLEncode (jsonLocator J l)"
      using enc by (auto simp: EncodeLocator_def result_simps)
    have j: "jsonLocatorOf J (jsonLocator J l) = Some l"
      using assms locator_utf8_valid [OF v] by (simp add: marshal_laws_def)
    have "\<forall>c\<in>set locatorEncodingPrefix. printable c" by (simp add: locatorEncodingPrefix_def printable_def)
    then have tr: "trimSpace t = t" unfolding t using rawURLEncode_printable by (intro printable_trim) auto
    have "DecodeLocator J t = Inr l"
      using j v by (simp add: DecodeLocator_def tr Let_def) (simp add: t check_def)
    moreover have "DecodeLocator J (CHR '' '' # t) = DecodeLocator J t"
      by (simp add: DecodeLocator_def trimSpace_blank)
    ultimately show ?thesis by simp
  qed
  ultimately show ?thesis by blast
qed

theorem share_locator_text_witness:
  "\<exists>t. EncodeLocator demo_marshal \<lparr>loc_Version = 1, loc_AccountID = hexEncode (replicate 32 1),
       loc_PackageID = hexEncode (replicate 16 3), loc_RecoveryMode = RecoveryMode2Of2\<rparr> = Inr t
    \<and> DecodeLocator demo_marshal t = Inr \<lparr>loc_Version = 1, loc_AccountID = hexEncode (replicate 32 1),
       loc_PackageID = hexEncode (replicate 16 3), loc_RecoveryMode = RecoveryMode2Of2\<rparr>"
proof -
  let ?l = "\<lparr>loc_Version = 1, loc_AccountID = hexEncode (replicate 32 1),
       loc_PackageID = hexEncode (replicate 16 3), loc_RecoveryMode = RecoveryMode2Of2\<rparr>"
  have "EncodeLocator demo_marshal ?l = Inr (locatorEncodingPrefix @ rawURLEncode (jsonLocator demo_marshal ?l))"
    by (simp add: EncodeLocator_def ValidateLocator_def check_def del: hexEncode.simps replicate.simps)
  then show ?thesis using share_locator_text [OF demo_marshal_laws, of "demo_crypto []" _ ?l] by blast
qed

end
