(* ===== verification/QuestionsRecovery.thy ===== *)
theory QuestionsRecovery
  imports Questions FuzzyTotal ShareProperties
begin

text \<open>
  The guarantees of the recovery by knowledge questions (\<open>sdk/account/questions.go\<close>): two well
  answered questions of three give the DKVS share back, and no set of answers gives a wrong one.
\<close>

section \<open>Sequencing\<close>

lemma orbind_eq [result_simps]: "orbind m f = Some (Inr b) \<longleftrightarrow> (\<exists>a. m = Some (Inr a) \<and> f a = Some (Inr b))"
  by (auto simp: orbind_def split: option.splits sum.splits)

lemma orbind_simps [simp]: "orbind (Some (Inr a)) f = f a" "orbind (Some (Inl e)) f = Some (Inl e)"
  by (simp_all add: orbind_def)

lemma ocheck_eq [result_simps]: "ocheck c e m = Some (Inr b) \<longleftrightarrow> \<not> c \<and> m = Some (Inr b)"
  by (simp add: ocheck_def)

lemma map_wrap_eq [result_simps]: "map_option (wrapErr w) m = Some (Inr a) \<longleftrightarrow> m = Some (Inr a)"
  by (cases m) (auto simp: wrapErr_eq_Inr)

section \<open>Feature sets\<close>

lemma rank_loop_ids:
  "distinct (map snd (rank_loop C qid salt seenToken seenID tokens))
   \<and> snd ` set (rank_loop C qid salt seenToken seenID tokens) \<inter> set seenID = {}
   \<and> (\<forall>x\<in>set (rank_loop C qid salt seenToken seenID tokens). snd x < featureCorpusSize)"
proof (induction tokens arbitrary: seenToken seenID)
  case (Cons token tokens)
  define fid where "fid = uint32BE (hmacSHA256 C salt (bytes_of qid @ 0 # bytes_of token)) mod featureCorpusSize"
  have "fid < featureCorpusSize" by (simp add: fid_def featureCorpusSize_def)
  then show ?case
    using Cons.IH [of seenToken seenID] Cons.IH [of "token # seenToken" seenID]
      Cons.IH [of "token # seenToken" "fid # seenID"]
    by (auto simp: Let_def fid_def [symmetric])
qed simp

lemma featureIDs_set:
  assumes "featureIDs C K q answer salt = Inr ids"
  shows "distinct ids" "sorted ids" "length ids = 24" "\<forall>x\<in>set ids. 0 \<le> x \<and> x < 65536"
proof -
  obtain normalized where
    n: "length (rank_loop C (kq_ID q) salt [] [] (featureTokens normalized)) \<ge> 24"
    and ids: "ids = sort (map (\<lambda>i. int (snd (sort_key fst (rank_loop C (kq_ID q) salt [] [] (featureTokens normalized)) ! i))) [0..<24])"
  proof -
    obtain a where "normalizeAnswer K q answer = Inr a" using assms by (auto simp: featureIDs_def result_simps)
    then show ?thesis using assms that [of a] by (simp add: featureIDs_def Let_def check_eq_Inr featureSetSize_def not_less)
  qed
  let ?r = "sort_key fst (rank_loop C (kq_ID q) salt [] [] (featureTokens normalized))"
  note L = rank_loop_ids [of C "kq_ID q" salt "[]" "[]" "featureTokens normalized"]
  have "mset (map snd ?r) = mset (map snd (rank_loop C (kq_ID q) salt [] [] (featureTokens normalized)))"
    by (simp only: mset_map mset_sort)
  then have d: "distinct (map snd ?r)" using L by (metis mset_eq_imp_distinct_iff)
  have t: "map (\<lambda>i. int (snd (?r ! i))) [0..<24] = map int (take 24 (map snd ?r))"
    using n by (intro nth_equalityI) simp_all
  have "distinct (take 24 (map snd ?r))" using d by (rule distinct_take)
  then have "distinct (map int (take 24 (map snd ?r)))" by (simp add: distinct_map)
  then show "distinct ids" "sorted ids" unfolding ids t by simp_all
  show "length ids = 24" using n unfolding ids by simp
  have "set ids = int ` set (take 24 (map snd ?r))" unfolding ids t by simp
  moreover have "y < 65536" if "y \<in> set (take 24 (map snd ?r))" for y
  proof -
    have "y \<in> set (map snd ?r)" using that by (rule in_set_takeD)
    then show ?thesis using L by (auto simp: featureCorpusSize_def)
  qed
  ultimately show "\<forall>x\<in>set ids. 0 \<le> x \<and> x < 65536" by auto
qed

lemma featureIDs_normal:
  assumes "featureIDs C K q answer salt = Inr ids"
  shows "normalizeFeatures ids 24 65536 = Inr ids"
  using featureIDs_set [OF assms] by (simp add: normalizeFeatures_iff sorted_sort_id)

section \<open>One question\<close>

text \<open>
  What the guarantees assume of the parameters: a validated vault survives its JSON form, scrypt does
  not fail and has no collision among feature sets.
\<close>

definition knowledge_laws :: "knowledge \<Rightarrow> bool" where
  "knowledge_laws K \<longleftrightarrow>
     (\<forall>v. validateVault v = Some (Inr ()) \<and> Prime v < 2 ^ 31 \<longrightarrow>
         jsonVault K v \<noteq> [] \<and> jsonVaultOf K (jsonVault K v) = Some v)
     \<and> (\<forall>pass salt. is_ok (kScrypt K pass salt)) \<and> collision_free (kScrypt K) 24 65536"

text \<open>\<open>entry\<close> holds \<open>part\<close> under the features of \<open>answer\<close>.\<close>

definition holds_part :: "crypto \<Rightarrow> knowledge \<Rightarrow> string \<Rightarrow> EncryptedQuestionShare \<Rightarrow> string \<Rightarrow> byte list \<Rightarrow> bool" where
  "holds_part C K packageID entry answer part \<longleftrightarrow> (\<exists>salt ids P v km random random'.
     rawURLDecode (qs_Salt entry) = Some salt \<and> length salt = 32
     \<and> featureIDs C K (qs_Question entry) answer salt = Inr ids
     \<and> SetSize P = 24 \<and> CorpusSize P = 65536 \<and> CorrectThreshold P = 15 \<and> Prime P < 2 ^ 31
     \<and> Lock (kScrypt K) (Some P) ids = Some (Inr v) \<and> UnmarshalVault K (qs_Vault entry) = Some (Inr v)
     \<and> RecoverKey (kScrypt K) (hmacSHA3 K) (Some v) ids 0 = Some (Inr km)
     \<and> sealBytes C (knowledgeKEK C km packageID (kq_ID (qs_Question entry))) part
         (questionAAD packageID (kq_ID (qs_Question entry))) random = Inr (qs_Nonce entry, qs_Ciphertext entry, random'))"

lemma MarshalVault_eq:
  "MarshalVault K v = Some (Inr bs) \<longleftrightarrow>
     validateVault v = Some (Inr ()) \<and> bs = jsonVault K v \<and> length bs \<le> MaxPublicPayloadSize"
proof (cases "validateVault v")
  case (Some u)
  then show ?thesis by (cases u) (auto simp: MarshalVault_def check_eq_Inr)
qed (simp add: MarshalVault_def)

lemma Unmarshal_Marshal:
  assumes "knowledge_laws K" "MarshalVault K v = Some (Inr bs)" "Prime v < 2 ^ 31"
  shows "UnmarshalVault K bs = Some (Inr v)"
  using assms by (auto simp: MarshalVault_eq UnmarshalVault_def knowledge_laws_def ocheck_def)

lemma lock_question_holds:
  assumes "knowledge_laws K" "lock_question C K packageID q answer part random = Some (Inr (entry, rest))"
  shows "holds_part C K packageID entry answer part" "qs_Question entry = q"
proof -
  obtain salt r1 ids P r2 v bs km nonce ct where
    l: "length salt = 32" "featureIDs C K q answer salt = Inr ids"
      "GenerateParams 24 15 65536 r1 = Some (Inr (P, r2))" "Lock (kScrypt K) (Some P) ids = Some (Inr v)"
      "MarshalVault K v = Some (Inr bs)" "RecoverKey (kScrypt K) (hmacSHA3 K) (Some v) ids 0 = Some (Inr km)"
      "sealBytes C (knowledgeKEK C km packageID (kq_ID q)) part (questionAAD packageID (kq_ID q)) r2 = Inr (nonce, ct, rest)"
    and e: "entry = \<lparr>qs_Question = q, qs_Salt = rawURLEncode salt, qs_Vault = bs, qs_Nonce = nonce, qs_Ciphertext = ct\<rparr>"
    using assms(2)
    by (auto simp: lock_question_def result_simps featureSetSize_def featureCorrectThreshold_def featureCorpusSize_def)
  note G = GenerateParams_valid [OF l(3)]
  have pv: "Prime v < 2 ^ 31" using Lock_facts(7) [OF l(4) G(2)] G(2) by simp
  show "holds_part C K packageID entry answer part"
    unfolding holds_part_def
    by (intro exI [of _ salt] exI [of _ ids] exI [of _ P] exI [of _ v] exI [of _ km] exI [of _ r2] exI [of _ rest])
      (use l e G Unmarshal_Marshal [OF assms(1) l(5) pv] in simp)
  show "qs_Question entry = q" by (simp add: e)
qed

text \<open>Features of an attempt that the locked features share.\<close>

definition shared_features :: "crypto \<Rightarrow> knowledge \<Rightarrow> EncryptedQuestionShare \<Rightarrow> string \<Rightarrow> string \<Rightarrow> nat" where
  "shared_features C K entry answer attempt =
     (case rawURLDecode (qs_Salt entry) of
        None \<Rightarrow> 0
      | Some salt \<Rightarrow>
          (case (featureIDs C K (qs_Question entry) answer salt, featureIDs C K (qs_Question entry) attempt salt) of
             (Inr ids, Inr ids') \<Rightarrow> card (set ids \<inter> set ids')
           | _ \<Rightarrow> 0))"

lemma open_entry_sound:
  assumes C: "crypto_laws C" and K: "knowledge_laws K" and h: "holds_part C K packageID entry answer part"
  shows "\<exists>r. open_entry C K packageID attempt entry = Some r \<and> (\<forall>x. r = Inr x \<longrightarrow> x = part)"
proof -
  obtain salt ids P v km random random' where
    s: "rawURLDecode (qs_Salt entry) = Some salt" "length salt = 32"
    and P: "SetSize P = 24" "CorpusSize P = 65536" "Prime P < 2 ^ 31"
    and l: "Lock (kScrypt K) (Some P) ids = Some (Inr v)" "UnmarshalVault K (qs_Vault entry) = Some (Inr v)"
    and km: "RecoverKey (kScrypt K) (hmacSHA3 K) (Some v) ids 0 = Some (Inr km)"
    and seal: "sealBytes C (knowledgeKEK C km packageID (kq_ID (qs_Question entry))) part
         (questionAAD packageID (kq_ID (qs_Question entry))) random = Inr (qs_Nonce entry, qs_Ciphertext entry, random')"
    using h unfolding holds_part_def by blast
  have cf: "collision_free (kScrypt K) (SetSize P) (CorpusSize P)" using K P by (simp add: knowledge_laws_def)
  note sound = RecoverKey_sound [OF l(1) P(3) cf]
  show ?thesis
  proof (cases "featureIDs C K (qs_Question entry) attempt salt")
    case (Inl e)
    then show ?thesis using s by (simp add: open_entry_def ocheck_def)
  next
    case ids': (Inr ids')
    have "Prime v < 2 ^ 31" using Lock_facts(7) [OF l(1) P(3)] P(3) by simp
    then obtain r where r: "RecoverKey (kScrypt K) (hmacSHA3 K) (Some v) ids' 0 = Some r"
      using RecoverKey_returns by blast
    show ?thesis
    proof (cases r)
      case (Inl e)
      then show ?thesis using s ids' l(2) r by (simp add: open_entry_def ocheck_def)
    next
      case (Inr km')
      then have "km' = km" using sound [OF km] sound [of "hmacSHA3 K" ids' 0 km'] r by simp
      then show ?thesis using s ids' l(2) r Inr sealBytes_open(1) [OF C seal] by (simp add: open_entry_def ocheck_def)
    qed
  qed
qed

lemma open_entry_complete:
  assumes C: "crypto_laws C" and K: "knowledge_laws K" and h: "holds_part C K packageID entry answer part"
    and m: "15 \<le> shared_features C K entry answer attempt"
  shows "open_entry C K packageID attempt entry = Some (Inr part)"
proof -
  obtain salt ids P v km random random' where
    s: "rawURLDecode (qs_Salt entry) = Some salt" "length salt = 32"
    and ids: "featureIDs C K (qs_Question entry) answer salt = Inr ids"
    and P: "SetSize P = 24" "CorpusSize P = 65536" "CorrectThreshold P = 15" "Prime P < 2 ^ 31"
    and l: "Lock (kScrypt K) (Some P) ids = Some (Inr v)" "UnmarshalVault K (qs_Vault entry) = Some (Inr v)"
    and km: "RecoverKey (kScrypt K) (hmacSHA3 K) (Some v) ids 0 = Some (Inr km)"
    and seal: "sealBytes C (knowledgeKEK C km packageID (kq_ID (qs_Question entry))) part
         (questionAAD packageID (kq_ID (qs_Question entry))) random = Inr (qs_Nonce entry, qs_Ciphertext entry, random')"
    using h unfolding holds_part_def by blast
  obtain ids' where ids': "featureIDs C K (qs_Question entry) attempt salt = Inr ids'" "15 \<le> card (set ids \<inter> set ids')"
    using m s(1) ids by (auto simp: shared_features_def split: sum.splits)
  have total: "\<And>pass salt. is_ok (kScrypt K pass salt)" and cf: "collision_free (kScrypt K) (SetSize P) (CorpusSize P)"
    using K P by (simp_all add: knowledge_laws_def)
  have n: "normalizeFeatures ids' (SetSize P) (CorpusSize P) = Inr ids'"
    using featureIDs_normal [OF ids'(1)] P by simp
  have "RecoverKey (kScrypt K) (hmacSHA3 K) (Some v) ids' 0
      = Some (derive_key (kScrypt K) (hmacSHA3 K) v 0 (sort ids))"
  proof (rule RecoverKey_locked [OF l(1) P(4) n _ total])
    show "CorrectThreshold P \<le> int (card (set ids \<inter> set ids'))" using ids'(2) P(3) by simp
    assume e: "kScrypt K (featurePass ''original_words:'' ids') (Salt P)
        = kScrypt K (featurePass ''original_words:'' (sort ids)) (Salt P)"
    obtain h where "kScrypt K (featurePass ''original_words:'' ids') (Salt P) = Inr h"
      using total [of "featurePass ''original_words:'' ids'" "Salt P"] by (auto simp: is_ok_def split: sum.splits)
    then show "ids' = sort ids"
      by (intro slowSetHash_unique [OF cf, where salt = "Salt P" and h = h])
        (use e featureIDs_set [OF ids'(1)] featureIDs_set [OF ids] P(1,2) in \<open>simp_all add: slowSetHash_def\<close>)
  qed
  moreover have "derive_key (kScrypt K) (hmacSHA3 K) v 0 (sort ids) = Inr km" by (rule RecoverKey_sound [OF l(1) P(4) cf km])
  ultimately have "RecoverKey (kScrypt K) (hmacSHA3 K) (Some v) ids' 0 = Some (Inr km)" by simp
  then show ?thesis using s ids' l(2) sealBytes_open(1) [OF C seal] by (simp add: open_entry_def ocheck_def)
qed

section \<open>The bundle\<close>

lemma question_loop_holds:
  assumes K: "knowledge_laws K" and q: "question_loop C K packageID seen inputs random = Some (Inr (entries, rest))"
  shows "length entries = length inputs \<and> (\<forall>i<length inputs. \<exists>answer.
      normalizeAnswer K (qs_Question (entries ! i)) (qa_Answer (fst (inputs ! i))) = Inr answer
      \<and> holds_part C K packageID (entries ! i) answer (snd (inputs ! i)))"
  using q
proof (induction inputs arbitrary: seen random entries rest)
  case (Cons inp inputs)
  obtain input part where inp: "inp = (input, part)" by fastforce
  define q where "q = (qa_Question input)\<lparr>kq_ID := normalizeSpace (kq_ID (qa_Question input)),
            kq_Prompt := normalizeSpace (kq_Prompt (qa_Question input))\<rparr>"
  obtain answer entry r1 es where a: "normalizeAnswer K q (qa_Answer input) = Inr answer"
    and e: "lock_question C K packageID q answer part random = Some (Inr (entry, r1))"
    and l: "question_loop C K packageID (kq_ID q # seen) inputs r1 = Some (Inr (es, rest))" "entries = entry # es"
    using Cons.prems unfolding inp question_loop.simps Let_def q_def [symmetric]
    by (auto simp: result_simps mapErr_eq_Inr)
  note E = lock_question_holds [OF K e]
  show ?case using Cons.IH [OF l(1)] l(2) E a by (auto simp: inp nth_Cons split: nat.splits)
qed simp

text \<open>
  The loop over the entries, when no entry can yield anything but its own part: it returns the first
  two parts that open.
\<close>

lemma recover_loop_filter:
  assumes "length entries = length parts" "length recovered < 2"
    and "\<And>i answer. i < length entries \<Longrightarrow> answers (kq_ID (qs_Question (entries ! i))) = Some answer \<Longrightarrow>
      \<exists>r. open_entry C K packageID answer (entries ! i) = Some r \<and> (\<forall>x. r = Inr x \<longrightarrow> x = parts ! i)"
  shows "recover_loop C K packageID answers recovered entries
    = Some (take 2 (recovered @ map snd (filter (\<lambda>(entry, part). \<exists>answer.
        answers (kq_ID (qs_Question entry)) = Some answer \<and> open_entry C K packageID answer entry = Some (Inr part))
        (zip entries parts))))"
  using assms
proof (induction entries parts arbitrary: recovered rule: list_induct2')
  case (4 entry entries part parts)
  let ?good = "\<lambda>(entry, part). \<exists>answer.
        answers (kq_ID (qs_Question entry)) = Some answer \<and> open_entry C K packageID answer entry = Some (Inr part)"
  have IH: "recover_loop C K packageID answers rc entries = Some (take 2 (rc @ map snd (filter ?good (zip entries parts))))"
    if "length rc < 2" for rc
    using that "4.prems"(1) "4.prems"(3) [of "Suc _"] by (intro "4.IH") auto
  show ?case
  proof (cases "answers (kq_ID (qs_Question entry))")
    case None
    then show ?thesis using IH [OF "4.prems"(2)] by simp
  next
    case (Some answer)
    obtain r where r: "open_entry C K packageID answer entry = Some r" "\<forall>x. r = Inr x \<longrightarrow> x = part"
      using "4.prems"(3) [of 0 answer] Some by auto
    show ?thesis
    proof (cases r)
      case (Inl e)
      then show ?thesis using IH [OF "4.prems"(2)] Some r by simp
    next
      case (Inr x)
      then have g: "?good (entry, part)" "x = part" using Some r by auto
      show ?thesis
      proof (cases "length recovered = 1")
        case True
        then show ?thesis using Some r(1) Inr g by (simp add: knowledgeQuestionThreshold_def)
      next
        case False
        then have "recovered = []" using "4.prems"(2) by (cases recovered) auto
        then show ?thesis using IH [of "[part]"] Some r(1) Inr g by (simp add: knowledgeQuestionThreshold_def)
      qed
    qed
  qed
qed simp_all

text \<open>Parts taken by a filter are parts at increasing, hence different, positions.\<close>

lemma filtered_parts:
  assumes "length entries = length parts"
  shows "\<exists>idx. map snd (filter P (zip entries parts)) = map (\<lambda>i. parts ! i) idx \<and> distinct idx
    \<and> set idx = {i. i < length parts \<and> P (entries ! i, parts ! i)}"
proof -
  let ?idx = "filter (\<lambda>i. P (entries ! i, parts ! i)) [0..<length parts]"
  have "zip entries parts = map (\<lambda>i. (entries ! i, parts ! i)) [0..<length parts]"
    using assms by (intro nth_equalityI) simp_all
  then have "map snd (filter P (zip entries parts)) = map (\<lambda>i. parts ! i) ?idx"
    by (simp add: filter_map comp_def)
  then show ?thesis by (intro exI [of _ ?idx]) auto
qed

lemma create_facts:
  assumes "createKnowledgeRecovery C J K packageID dkvsShare questions random = Some (Inr (capsule, bundle, rest))"
    and "knowledge_laws K"
  shows "\<exists>kDKVS r1 parts r2 r3. length kDKVS = 32 \<and> Split kDKVS 3 2 r1 = Inr (parts, r2) \<and> length parts = 3
    \<and> dc_Version capsule = 1 \<and> kb_Version bundle = 1 \<and> dc_PackageID capsule = packageID \<and> kb_PackageID bundle = packageID
    \<and> kb_Threshold bundle = 2 \<and> kb_Total bundle = 3 \<and> length (kb_QuestionShares bundle) = 3 \<and> length questions = 3
    \<and> sealBytes C kDKVS (jsonShare J dkvsShare) (dkvsCapsuleAAD packageID) r3
        = Inr (dc_Nonce capsule, dc_Ciphertext capsule, rest)
    \<and> (\<forall>i<3. \<exists>answer. normalizeAnswer K (qs_Question (kb_QuestionShares bundle ! i)) (qa_Answer (questions ! i)) = Inr answer
        \<and> holds_part C K packageID (kb_QuestionShares bundle ! i) answer (parts ! i))"
proof -
  obtain kDKVS r1 parts r2 entries r3 nonce ct where
    c: "length questions = 3" "length kDKVS = 32" "Split kDKVS 3 2 r1 = Inr (parts, r2)"
      "question_loop C K packageID [] (zip questions parts) r2 = Some (Inr (entries, r3))"
      "sealBytes C kDKVS (jsonShare J dkvsShare) (dkvsCapsuleAAD packageID) r3 = Inr (nonce, ct, rest)"
    and e: "capsule = \<lparr>dc_Version = 1, dc_PackageID = packageID, dc_Algorithm = ''aes-256-gcm'', dc_Nonce = nonce,
               dc_Ciphertext = ct\<rparr>" "bundle = \<lparr>kb_Version = 1, kb_PackageID = packageID, kb_Threshold = 2,
               kb_Total = 3, kb_QuestionShares = entries\<rparr>"
    using assms(1)
    by (auto simp: createKnowledgeRecovery_def result_simps knowledgeQuestionCount_def knowledgeQuestionThreshold_def)
  have p: "length parts = 3" by (rule Split_Inr [OF c(3)]) simp
  note L = question_loop_holds [OF assms(2) c(4)]
  show ?thesis
    by (rule exI [of _ kDKVS], rule exI [of _ r1], rule exI [of _ parts], rule exI [of _ r2], rule exI [of _ r3])
      (use c e p L in simp)
qed

text \<open>The recovery of a created bundle, for any answers.\<close>

lemma recover_created:
  assumes C: "crypto_laws C" and J: "marshal_laws J" and K: "knowledge_laws K"
    and c: "createKnowledgeRecovery C J K packageID dkvsShare questions random = Some (Inr (capsule, bundle, rest))"
    and sh: "validateShare C J dkvsShare = Inr raw" "sh_Role dkvsShare = ShareRoleDKVS" "sh_PackageID dkvsShare = packageID"
  shows "recoverDKVSShare C J K capsule bundle answers
    = Some (if 2 \<le> card {i. i < 3 \<and> (\<exists>answer. answerMap answers (kq_ID (qs_Question (kb_QuestionShares bundle ! i))) = Some answer
              \<and> is_ok (the (open_entry C K packageID answer (kb_QuestionShares bundle ! i))))}
            then Inr dkvsShare else Inl ErrRecoveryFailed)"
proof -
  let ?es = "kb_QuestionShares bundle"
  obtain kDKVS r1 parts r2 r3 where k: "length kDKVS = 32" "Split kDKVS 3 2 r1 = Inr (parts, r2)" "length parts = 3"
    and m: "dc_Version capsule = 1" "kb_Version bundle = 1" "dc_PackageID capsule = packageID" "kb_PackageID bundle = packageID"
      "kb_Threshold bundle = 2" "kb_Total bundle = 3" "length ?es = 3"
    and seal: "sealBytes C kDKVS (jsonShare J dkvsShare) (dkvsCapsuleAAD packageID) r3
        = Inr (dc_Nonce capsule, dc_Ciphertext capsule, rest)"
    and h: "\<forall>i<3. \<exists>answer. normalizeAnswer K (qs_Question (?es ! i)) (qa_Answer (questions ! i)) = Inr answer
        \<and> holds_part C K packageID (?es ! i) answer (parts ! i)"
    using create_facts [OF c K] by blast
  let ?good = "\<lambda>(entry, part). \<exists>answer. answerMap answers (kq_ID (qs_Question entry)) = Some answer
      \<and> open_entry C K packageID answer entry = Some (Inr part)"
  have own: "\<exists>r. open_entry C K packageID answer (?es ! i) = Some r \<and> (\<forall>x. r = Inr x \<longrightarrow> x = parts ! i)"
    if "i < 3" for i answer
    using h that open_entry_sound [OF C K] by blast
  have loop: "recover_loop C K packageID (answerMap answers) [] ?es = Some (take 2 (map snd (filter ?good (zip ?es parts))))"
    using recover_loop_filter [of ?es parts "[]" "answerMap answers" C K packageID] own m(7) k(3) by simp
  obtain idx where idx: "map snd (filter ?good (zip ?es parts)) = map (\<lambda>i. parts ! i) idx" "distinct idx"
    "set idx = {i. i < length parts \<and> ?good (?es ! i, parts ! i)}"
    using filtered_parts [of ?es parts ?good] m(7) k(3) by auto
  have "?good (?es ! i, parts ! i) \<longleftrightarrow> (\<exists>answer. answerMap answers (kq_ID (qs_Question (?es ! i))) = Some answer
              \<and> is_ok (the (open_entry C K packageID answer (?es ! i))))" if "i < 3" for i
  proof -
    have "open_entry C K packageID answer (?es ! i) = Some (Inr (parts ! i))
        \<longleftrightarrow> is_ok (the (open_entry C K packageID answer (?es ! i)))" for answer
      using own [OF that, of answer] by (auto simp: is_ok_def split: sum.splits)
    then show ?thesis by simp
  qed
  then have card: "card {i. i < 3 \<and> (\<exists>answer. answerMap answers (kq_ID (qs_Question (?es ! i))) = Some answer
              \<and> is_ok (the (open_entry C K packageID answer (?es ! i))))} = length idx"
    using idx(2,3) k(3) by (simp add: distinct_card [symmetric] cong: conj_cong)
  have lr: "length (take 2 (map (\<lambda>i. parts ! i) idx)) < knowledgeQuestionThreshold \<longleftrightarrow> length idx < 2"
    by (auto simp: knowledgeQuestionThreshold_def)
  have hd: "dc_Version capsule = 1 \<and> kb_Version bundle = 1 \<and> dc_PackageID capsule = kb_PackageID bundle
      \<and> kb_Threshold bundle = of_nat knowledgeQuestionThreshold \<and> kb_Total bundle = of_nat knowledgeQuestionCount
      \<and> length ?es = knowledgeQuestionCount"
    using m by (simp add: knowledgeQuestionThreshold_def knowledgeQuestionCount_def)
  show ?thesis
  proof (cases "length idx < 2")
    case True
    then show ?thesis
      using hd loop lr unfolding card m(4) idx(1) recoverDKVSShare_def ocheck_def by simp
  next
    case False
    then have "Combine (take 2 (map (\<lambda>i. parts ! i) idx)) = Inr kDKVS"
      unfolding take_map by (intro split_combine [OF k(2)]) (use idx k(3) in \<open>auto dest: in_set_takeD\<close>)
    moreover have "jsonShareOf J (jsonShare J dkvsShare) = Some dkvsShare"
      using J validateShare_raw(4) [OF sh(1)] by (simp add: marshal_laws_def)
    ultimately show ?thesis
      using hd loop lr False k(1) sh m(4) sealBytes_open(1) [OF C seal]
      unfolding card m(4) idx(1) recoverDKVSShare_def ocheck_def by simp
  qed
qed

text \<open>Two entries that open are enough.\<close>

lemma recover_from_two:
  assumes "crypto_laws C" "marshal_laws J" "knowledge_laws K"
    and "createKnowledgeRecovery C J K packageID dkvsShare questions random = Some (Inr (capsule, bundle, rest))"
    and "validateShare C J dkvsShare = Inr raw" "sh_Role dkvsShare = ShareRoleDKVS" "sh_PackageID dkvsShare = packageID"
    and "i < j" "j < 3"
    and "\<forall>k\<in>{i, j}. \<exists>answer attempt.
        normalizeAnswer K (qs_Question (kb_QuestionShares bundle ! k)) (qa_Answer (questions ! k)) = Inr answer
        \<and> answerMap answers (kq_ID (qs_Question (kb_QuestionShares bundle ! k))) = Some attempt
        \<and> 15 \<le> shared_features C K (kb_QuestionShares bundle ! k) answer attempt"
  shows "recoverDKVSShare C J K capsule bundle answers = Some (Inr dkvsShare)"
proof -
  let ?S = "{i. i < 3 \<and> (\<exists>answer. answerMap answers (kq_ID (qs_Question (kb_QuestionShares bundle ! i))) = Some answer
              \<and> is_ok (the (open_entry C K packageID answer (kb_QuestionShares bundle ! i))))}"
  have "k \<in> ?S" if k: "k \<in> {i, j}" for k
  proof -
    have k3: "k < 3" using k assms(8,9) by auto
    obtain parts :: "byte list list" where h: "\<forall>i<3. \<exists>answer.
        normalizeAnswer K (qs_Question (kb_QuestionShares bundle ! i)) (qa_Answer (questions ! i)) = Inr answer
        \<and> holds_part C K packageID (kb_QuestionShares bundle ! i) answer (parts ! i)"
      using create_facts [OF assms(4,3)] by blast
    obtain answer attempt where a: "normalizeAnswer K (qs_Question (kb_QuestionShares bundle ! k)) (qa_Answer (questions ! k)) = Inr answer"
      "answerMap answers (kq_ID (qs_Question (kb_QuestionShares bundle ! k))) = Some attempt"
      "15 \<le> shared_features C K (kb_QuestionShares bundle ! k) answer attempt"
      using assms(10) k by blast
    then have "holds_part C K packageID (kb_QuestionShares bundle ! k) answer (parts ! k)"
      using h k3 by fastforce
    then have "open_entry C K packageID attempt (kb_QuestionShares bundle ! k) = Some (Inr (parts ! k))"
      by (rule open_entry_complete [OF assms(1,3) _ a(3)])
    then show ?thesis using k3 a(2) by auto
  qed
  then have "{i, j} \<subseteq> ?S" by blast
  then have "card {i, j} \<le> card ?S" by (intro card_mono) auto
  then show ?thesis using recover_created [OF assms(1-7), of answers] assms(8) by simp
qed

section \<open>The properties\<close>



end
