(* ===== verification/RecoveryManager.thy ===== *)
theory RecoveryManager
  imports QuestionsRecovery
begin

text \<open>
  \<open>sdk/account/guardian.go\<close> and \<open>manager.go\<close>: the guardian's share, the creation of a recovery
  package and the recovery of an account from it.  X25519 (\<open>crypto/ecdh\<close>), the clock, the
  repository and the callbacks of a new device are parameters.
\<close>

section \<open>Guardian shares\<close>

text \<open>
  \<open>xGenerate\<close> is \<open>GenerateKey\<close> (it consumes the random source), \<open>xPublic\<close> the public key of a
  private one, \<open>xShared\<close> is \<open>ECDH\<close>.  \<open>NewPublicKey\<close> and \<open>NewPrivateKey\<close> accept 32 bytes.
\<close>

record x25519 =
  xGenerate :: "reader \<Rightarrow> (byte list \<times> reader) option"
  xPublic :: "byte list \<Rightarrow> byte list"
  xShared :: "byte list \<Rightarrow> byte list \<Rightarrow> byte list option"

definition x25519_laws :: "x25519 \<Rightarrow> bool" where
  "x25519_laws X \<longleftrightarrow> (\<forall>a. length (xPublic X a) = 32)
     \<and> (\<forall>a b. xShared X a (xPublic X b) = xShared X b (xPublic X a))"

definition GenerateGuardianKey :: "x25519 \<Rightarrow> reader \<Rightarrow> account_error + (byte list \<times> byte list \<times> reader)" where
  "GenerateGuardianKey X random =
     (case xGenerate X random of
        None \<Rightarrow> Inl ErrReadRandom
      | Some (key, random) \<Rightarrow> Inr (key, xPublic X key, random))"

definition guardianAAD :: "string \<Rightarrow> string \<Rightarrow> byte list" where
  "guardianAAD packageID shareID = bytes_of (''sat20-guardian-share-v1|'' @ packageID @ ''|'' @ shareID)"

definition guardianKey :: "crypto \<Rightarrow> byte list \<Rightarrow> string \<Rightarrow> string \<Rightarrow> byte list" where
  "guardianKey C shared packageID shareID =
     hkdfSHA256 C shared (bytes_of packageID) (bytes_of (''sat20-guardian-wrap-v1|'' @ shareID)) 32"

definition validateGuardianCapsule :: "GuardianShareCapsule \<Rightarrow> account_error + unit" where
  "validateGuardianCapsule value =
     check (gc_Version value \<noteq> 1 \<or> \<not> validHex (gc_PackageID value) 32 \<or> \<not> validHex (gc_ShareID value) 16
         \<or> gc_Algorithm value \<noteq> ''x25519-aes-256-gcm'' \<or> gc_EphemeralPublicKey value = ''''
         \<or> gc_Nonce value = '''' \<or> gc_Ciphertext value = '''') ErrInvalidRecoveryPackage (Inr ())"

definition HashGuardianCapsule :: "crypto \<Rightarrow> marshal \<Rightarrow> GuardianShareCapsule \<Rightarrow> account_error + string" where
  "HashGuardianCapsule C J value =
     rbind (validateGuardianCapsule value) (\<lambda>_. Inr (canonicalHash (sha256 C) (jsonCapsule J value)))"

definition EncryptGuardianShare :: "crypto \<Rightarrow> marshal \<Rightarrow> x25519 \<Rightarrow> RecoveryShare \<Rightarrow> byte list \<Rightarrow> reader
    \<Rightarrow> account_error + (GuardianShareCapsule \<times> reader)" where
  "EncryptGuardianShare C J X share guardianPublicKey random =
     check (\<not> is_ok (validateShare C J share) \<or> sh_Role share \<noteq> ShareRoleGuardian) ErrInvalidShare
      (check (length guardianPublicKey \<noteq> 32) ErrGuardianPublicKey
        (case xGenerate X random of
           None \<Rightarrow> Inl ErrReadRandom
         | Some (ephemeral, random) \<Rightarrow>
             (case xShared X ephemeral guardianPublicKey of
                None \<Rightarrow> Inl ErrGuardianECDH
              | Some shared \<Rightarrow>
                  rbind (sealBytes C (guardianKey C shared (sh_PackageID share) (sh_Checksum share)) (jsonShare J share)
                      (guardianAAD (sh_PackageID share) (sh_Checksum share)) random) (\<lambda>(nonce, ciphertext, random).
                    let capsule = \<lparr>gc_Version = 1, gc_PackageID = sh_PackageID share, gc_ShareID = sh_Checksum share,
                          gc_Algorithm = ''x25519-aes-256-gcm'',
                          gc_EphemeralPublicKey = rawURLEncode (xPublic X ephemeral), gc_Nonce = nonce,
                          gc_Ciphertext = ciphertext\<rparr>
                    in rbind (validateGuardianCapsule capsule) (\<lambda>_. Inr (capsule, random))))))"

definition DecryptGuardianShare :: "crypto \<Rightarrow> marshal \<Rightarrow> x25519 \<Rightarrow> GuardianShareCapsule \<Rightarrow> byte list
    \<Rightarrow> account_error + RecoveryShare" where
  "DecryptGuardianShare C J X capsule guardianPrivateKey =
     rbind (validateGuardianCapsule capsule) (\<lambda>_.
       check (length guardianPrivateKey \<noteq> 32) ErrRecoveryFailed
        (case rawURLDecode (gc_EphemeralPublicKey capsule) of
           None \<Rightarrow> Inl ErrRecoveryFailed
         | Some ephemeral \<Rightarrow>
             check (length ephemeral \<noteq> 32) ErrRecoveryFailed
              (case xShared X guardianPrivateKey ephemeral of
                 None \<Rightarrow> Inl ErrRecoveryFailed
               | Some shared \<Rightarrow>
                   rbind (mapErr ErrRecoveryFailed
                       (openSealed C (guardianKey C shared (gc_PackageID capsule) (gc_ShareID capsule))
                         (gc_Nonce capsule) (gc_Ciphertext capsule)
                         (guardianAAD (gc_PackageID capsule) (gc_ShareID capsule)))) (\<lambda>plaintext.
                     case jsonShareOf J plaintext of
                       None \<Rightarrow> Inl ErrRecoveryFailed
                     | Some share \<Rightarrow>
                         check (\<not> is_ok (validateShare C J share) \<or> sh_PackageID share \<noteq> gc_PackageID capsule
                             \<or> sh_Checksum share \<noteq> gc_ShareID capsule \<or> sh_Role share \<noteq> ShareRoleGuardian)
                           ErrRecoveryFailed (Inr share)))))"

section \<open>Recovery packages\<close>

record RecoveryPackage =
  rp_Envelope :: Envelope
  rp_Manifest :: Manifest
  rp_UserShare :: RecoveryShare
  rp_DKVSShareCapsule :: DKVSShareCapsule
  rp_KnowledgeBundle :: KnowledgeRecoveryBundle
  rp_GuardianCapsule :: "GuardianShareCapsule option"

record CreateOptions =
  co_AccountID :: string
  co_Backup :: Backup
  co_RecoveryMode :: RecoveryMode
  co_Questions :: "QuestionAnswer list"
  co_GuardianMailboxID :: string
  co_GuardianPublicKey :: "byte list"

definition randomHex :: "reader \<Rightarrow> nat \<Rightarrow> account_error + (string \<times> reader)" where
  "randomHex random n = rbind (readFull ErrReadRandom n random) (\<lambda>(value, random). Inr (hexEncode value, random))"

definition ValidateRecoveryPackage :: "crypto \<Rightarrow> marshal \<Rightarrow> RecoveryPackage \<Rightarrow> account_error + unit" where
  "ValidateRecoveryPackage C J value =
     (let packageID = loc_PackageID (env_Locator (rp_Envelope value))
      in rbind (validateEnvelope (rp_Envelope value)) (\<lambda>_.
         rbind (validateManifest (rp_Manifest value) (env_Locator (rp_Envelope value))) (\<lambda>_.
         rbind (mapErr ErrInvalidRecoveryPackage (HashEnvelope (sha256 C) (jsonEnvelope J) (rp_Envelope value))) (\<lambda>hash.
         check (hash \<noteq> mf_EnvelopeHash (rp_Manifest value)) ErrInvalidRecoveryPackage
          (check (\<not> is_ok (validateShare C J (rp_UserShare value)) \<or> sh_Role (rp_UserShare value) \<noteq> ShareRoleUser
              \<or> sh_PackageID (rp_UserShare value) \<noteq> packageID) ErrInvalidRecoveryPackage
          (check (dc_Version (rp_DKVSShareCapsule value) \<noteq> 1 \<or> dc_PackageID (rp_DKVSShareCapsule value) \<noteq> packageID
              \<or> kb_PackageID (rp_KnowledgeBundle value) \<noteq> packageID) ErrInvalidRecoveryPackage
          (if loc_RecoveryMode (env_Locator (rp_Envelope value)) = RecoveryMode2Of3
           then (case (rp_GuardianCapsule value, mf_Guardian (rp_Manifest value)) of
                   (Some capsule, Some guardian) \<Rightarrow>
                     rbind (mapErr ErrInvalidRecoveryPackage (HashGuardianCapsule C J capsule)) (\<lambda>hash.
                       check (hash \<noteq> gr_CapsuleHash guardian \<or> gc_ShareID capsule \<noteq> gr_ShareID guardian)
                         ErrInvalidRecoveryPackage (Inr ()))
                 | _ \<Rightarrow> Inl ErrInvalidRecoveryPackage)
           else Inr ())))))))"

text \<open>
  \<open>CreateRecoveryPackageWithSecret\<close> of a manager that is not \<open>nil\<close>; \<open>now\<close> is the time in
  milliseconds.  Wiping the secret on an error path has no counterpart in the model.
\<close>

definition CreateRecoveryPackageWithSecret ::
    "crypto \<Rightarrow> marshal \<Rightarrow> knowledge \<Rightarrow> x25519 \<Rightarrow> (string \<Rightarrow> bool) \<Rightarrow> int \<Rightarrow> CreateOptions \<Rightarrow> reader
      \<Rightarrow> (account_error + (RecoveryPackage \<times> byte list \<times> reader)) option" where
  "CreateRecoveryPackageWithSecret C J K X bip39 now options random =
     ocheck (\<not> validHex (co_AccountID options) 64) ErrInvalidAccountID
      (orbind (Some (NormalizeBackup bip39 (co_Backup options))) (\<lambda>backup.
       ocheck (co_RecoveryMode options \<noteq> RecoveryMode2Of2 \<and> co_RecoveryMode options \<noteq> RecoveryMode2Of3)
         ErrInvalidRecoveryPackage
      (ocheck (length (co_Questions options) \<noteq> knowledgeQuestionCount) ErrQuestionCount
      (ocheck (co_RecoveryMode options = RecoveryMode2Of3
          \<and> (length (co_GuardianPublicKey options) \<noteq> 32 \<or> \<not> validHex (co_GuardianMailboxID options) 64))
         ErrGuardianOptions
      (orbind (Some (randomHex random 16)) (\<lambda>(packageID, random).
       let locator = \<lparr>loc_Version = 1, loc_AccountID = co_AccountID options, loc_PackageID = packageID,
             loc_RecoveryMode = co_RecoveryMode options\<rparr>
       in orbind (Some (readFull ErrReadRandom accountSecretSize random)) (\<lambda>(secret, random).
          orbind (Some (splitSecret C J secret packageID (co_RecoveryMode options) random)) (\<lambda>(shares, random).
          orbind (Some (encryptBackup C J secret locator backup random)) (\<lambda>(encrypted, random).
          let envelope = \<lparr>env_Version = 1, env_Locator = locator, env_EncryptedBackup = encrypted\<rparr>
          in orbind (createKnowledgeRecovery C J K packageID (shares ! 1) (co_Questions options) random)
              (\<lambda>(dkvsCapsule, knowledge, random).
             orbind (Some (HashEnvelope (sha256 C) (jsonEnvelope J) envelope)) (\<lambda>envelopeHash.
             let manifest = \<lparr>mf_Version = 1, mf_Locator = locator, mf_Threshold = 2, mf_Total = of_nat (length shares),
                   mf_EnvelopeHash = envelopeHash, mf_CreatedAt = now, mf_Guardian = None\<rparr>;
                 result = \<lparr>rp_Envelope = envelope, rp_Manifest = manifest, rp_UserShare = shares ! 0,
                   rp_DKVSShareCapsule = dkvsCapsule, rp_KnowledgeBundle = knowledge, rp_GuardianCapsule = None\<rparr>
             in orbind (if co_RecoveryMode options = RecoveryMode2Of3
                  then Some (rbind (EncryptGuardianShare C J X (shares ! 2) (co_GuardianPublicKey options) random)
                    (\<lambda>(capsule, random).
                      rbind (HashGuardianCapsule C J capsule) (\<lambda>hash.
                        Inr (result\<lparr>rp_Manifest := manifest\<lparr>mf_Guardian := Some
                              \<lparr>gr_MailboxID = co_GuardianMailboxID options, gr_ShareID = gc_ShareID capsule,
                               gr_CapsuleHash = hash\<rparr>\<rparr>, rp_GuardianCapsule := Some capsule\<rparr>, random))))
                  else Some (Inr (result, random))) (\<lambda>(result, random).
                orbind (Some (ValidateRecoveryPackage C J result)) (\<lambda>_.
                  Some (Inr (result, secret, random)))))))))))))))"

definition CreateRecoveryPackage ::
    "crypto \<Rightarrow> marshal \<Rightarrow> knowledge \<Rightarrow> x25519 \<Rightarrow> (string \<Rightarrow> bool) \<Rightarrow> int \<Rightarrow> CreateOptions \<Rightarrow> reader
      \<Rightarrow> (account_error + (RecoveryPackage \<times> reader)) option" where
  "CreateRecoveryPackage C J K X bip39 now options random =
     orbind (CreateRecoveryPackageWithSecret C J K X bip39 now options random) (\<lambda>(result, secret, random).
       Some (Inr (result, random)))"

text \<open>The repository: an interface over a store of type \<open>'r\<close>; a manager may have none.\<close>

record 'r repository =
  saveRecoveryPackage :: "RecoveryPackage \<Rightarrow> 'r \<Rightarrow> account_error + 'r"
  loadRecoveryPackage :: "Locator \<Rightarrow> 'r \<Rightarrow> account_error + RecoveryPackage"

definition Publish :: "crypto \<Rightarrow> marshal \<Rightarrow> 'r repository option \<Rightarrow> RecoveryPackage \<Rightarrow> 'r \<Rightarrow> account_error + 'r" where
  "Publish C J repo value store =
     (case repo of
        None \<Rightarrow> Inl ErrNoRepository
      | Some repo \<Rightarrow> rbind (ValidateRecoveryPackage C J value) (\<lambda>_. saveRecoveryPackage repo value store))"

definition LoadPackage :: "'r repository option \<Rightarrow> Locator \<Rightarrow> 'r \<Rightarrow> account_error + RecoveryPackage" where
  "LoadPackage repo locator store =
     (case repo of
        None \<Rightarrow> Inl ErrNoRepository
      | Some repo \<Rightarrow> rbind (ValidateLocator locator) (\<lambda>_. loadRecoveryPackage repo locator store))"

section \<open>Recovery\<close>

definition RecoverAccount :: "crypto \<Rightarrow> marshal \<Rightarrow> (string \<Rightarrow> bool) \<Rightarrow> Envelope \<Rightarrow> RecoveryShare list
    \<Rightarrow> account_error + (Backup \<times> byte list)" where
  "RecoverAccount C J bip39 envelope shares =
     rbind (validateEnvelope envelope) (\<lambda>_.
       rbind (CombineShares C J shares) (\<lambda>secret.
         rbind (decryptBackup C J bip39 secret (env_Locator envelope) (env_EncryptedBackup envelope)) (\<lambda>backup.
           Inr (backup, secret))))"

definition RecoverWithKnowledge :: "crypto \<Rightarrow> marshal \<Rightarrow> knowledge \<Rightarrow> (string \<Rightarrow> bool) \<Rightarrow> Envelope \<Rightarrow> DKVSShareCapsule
    \<Rightarrow> KnowledgeRecoveryBundle \<Rightarrow> AnswerAttempt list \<Rightarrow> RecoveryShare \<Rightarrow> (account_error + (Backup \<times> byte list)) option" where
  "RecoverWithKnowledge C J K bip39 envelope capsule bundle answers companion =
     orbind (recoverDKVSShare C J K capsule bundle answers) (\<lambda>dkvsShare.
       Some (RecoverAccount C J bip39 envelope [dkvsShare, companion]))"

text \<open>\<open>persist\<close> changes the device's state \<open>'d\<close>.\<close>

definition RestoreOnNewDevice :: "crypto \<Rightarrow> marshal \<Rightarrow> (string \<Rightarrow> bool) \<Rightarrow> Envelope \<Rightarrow> RecoveryShare list
    \<Rightarrow> (RecoverySummary \<Rightarrow> account_error + bool) option \<Rightarrow> (byte list \<Rightarrow> Backup \<Rightarrow> 'd \<Rightarrow> account_error + 'd) option
    \<Rightarrow> 'd \<Rightarrow> account_error + (RecoverySummary \<times> 'd)" where
  "RestoreOnNewDevice C J bip39 envelope shares confirm persist device =
     rbind (RecoverAccount C J bip39 envelope shares) (\<lambda>(backup, secret).
       let summary = SummarizeBackup (env_Locator envelope) backup
       in case (confirm, persist) of
            (Some confirm, Some persist) \<Rightarrow>
              rbind (confirm summary) (\<lambda>ok.
                check (\<not> ok) ErrNotConfirmed
                  (rbind (persist secret backup device) (\<lambda>device. Inr (summary, device))))
          | _ \<Rightarrow> Inl ErrCallbacksRequired)"

end
