(* ===== verification/RecoveryStorage.thy ===== *)
theory RecoveryStorage
  imports RecoveryManager
begin

text \<open>
  \<open>sdk/account/recovery_storage_codec.go\<close>: the compact records in which guardian capsules and recovery
  packages are stored.  The strict encoding of the package \<open>rgb11/strict_encoding\<close> is a parameter.
\<close>

section \<open>Strict encoding\<close>

text \<open>
  Each writer appends its bytes or fails; each reader takes its bytes from the front of the reader and
  leaves the rest, or fails.
\<close>

record strict =
  stRaw :: "byte list \<Rightarrow> byte list option"
  stRawOf :: "nat \<Rightarrow> reader \<Rightarrow> (byte list \<times> reader) option"
  stU8 :: "byte \<Rightarrow> byte list option"
  stU8Of :: "reader \<Rightarrow> (byte \<times> reader) option"
  stU64 :: "64 word \<Rightarrow> byte list option"
  stU64Of :: "reader \<Rightarrow> (64 word \<times> reader) option"
  stBool :: "bool \<Rightarrow> byte list option"
  stBoolOf :: "reader \<Rightarrow> (bool \<times> reader) option"
  stBytes :: "byte list \<Rightarrow> nat \<Rightarrow> nat \<Rightarrow> byte list option"
  stBytesOf :: "nat \<Rightarrow> nat \<Rightarrow> reader \<Rightarrow> (byte list \<times> reader) option"
  stString :: "string \<Rightarrow> nat \<Rightarrow> nat \<Rightarrow> byte list option"
  stStringOf :: "nat \<Rightarrow> nat \<Rightarrow> reader \<Rightarrow> (string \<times> reader) option"
  stLength :: "nat \<Rightarrow> nat \<Rightarrow> byte list option"
  stLengthOf :: "nat \<Rightarrow> reader \<Rightarrow> (nat \<times> reader) option"

definition strict_laws :: "strict \<Rightarrow> bool" where
  "strict_laws S \<longleftrightarrow>
     (\<forall>x e r. stRaw S x = Some e \<longrightarrow> stRawOf S (length x) (e @ r) = Some (x, r))
   \<and> (\<forall>x e r. stU8 S x = Some e \<longrightarrow> e \<noteq> [] \<and> stU8Of S (e @ r) = Some (x, r))
   \<and> (\<forall>x e r. stU64 S x = Some e \<longrightarrow> stU64Of S (e @ r) = Some (x, r))
   \<and> (\<forall>x e r. stBool S x = Some e \<longrightarrow> stBoolOf S (e @ r) = Some (x, r))
   \<and> (\<forall>x lo hi e r. stBytes S x lo hi = Some e \<longrightarrow> stBytesOf S lo hi (e @ r) = Some (x, r))
   \<and> (\<forall>x lo hi e r. stString S x lo hi = Some e \<longrightarrow> stStringOf S lo hi (e @ r) = Some (x, r))
   \<and> (\<forall>x hi e r. stLength S x hi = Some e \<longrightarrow> stLengthOf S hi (e @ r) = Some (x, r))"

text \<open>A run of writers that stops at the first error, and one reader.\<close>

fun puts :: "byte list option list \<Rightarrow> account_error + byte list" where
  "puts [] = Inr []"
| "puts (None # ws) = Inl ErrStrictEncoding"
| "puts (Some e # ws) = rbind (puts ws) (\<lambda>es. Inr (e @ es))"

definition take_st :: "('a \<times> reader) option \<Rightarrow> account_error + ('a \<times> reader)" where
  "take_st m = (case m of None \<Rightarrow> Inl ErrStrictEncoding | Some x \<Rightarrow> Inr x)"

section \<open>Helpers\<close>

definition recoveryStorageMagic :: "byte list" where
  "recoveryStorageMagic = bytes_of ''ACRP''"

definition guardianStorageMagic :: "byte list" where
  "guardianStorageMagic = bytes_of ''AGRD''"

definition recoveryStorageCodecVersion :: byte where
  "recoveryStorageCodecVersion = 1"

definition maxRecoveryQuestions :: nat where
  "maxRecoveryQuestions = 16"

definition decodeRecoveryBase64 :: "string \<Rightarrow> account_error + byte list" where
  "decodeRecoveryBase64 value =
     (case rawURLDecode value of
        None \<Rightarrow> Inl ErrInvalidRecoveryPackage
      | Some decoded \<Rightarrow> check (decoded = []) ErrInvalidRecoveryPackage (Inr decoded))"

definition encodeRecoveryBase64 :: "byte list \<Rightarrow> string" where
  "encodeRecoveryBase64 value = rawURLEncode value"

definition recoveryModeCode :: "RecoveryMode \<Rightarrow> byte" where
  "recoveryModeCode mode = (if mode = RecoveryMode2Of3 then 2 else 1)"

definition recoveryModeFromCode :: "byte \<Rightarrow> account_error + RecoveryMode" where
  "recoveryModeFromCode value =
     (if value = 1 then Inr RecoveryMode2Of2 else if value = 2 then Inr RecoveryMode2Of3 else Inl ErrInvalidRecoveryPackage)"

definition validateStoredRecoveryPackage :: "crypto \<Rightarrow> marshal \<Rightarrow> RecoveryPackage \<Rightarrow> account_error + unit" where
  "validateStoredRecoveryPackage C J value =
     (let envelope = rp_Envelope value; manifest = rp_Manifest value; capsule = rp_DKVSShareCapsule value;
          kb = rp_KnowledgeBundle value; packageID = loc_PackageID (env_Locator envelope);
          mode = loc_RecoveryMode (env_Locator envelope)
      in rbind (validateEnvelope envelope) (\<lambda>_.
         rbind (validateManifest manifest (env_Locator envelope)) (\<lambda>_.
         rbind (mapErr ErrInvalidRecoveryPackage (HashEnvelope (sha256 C) (jsonEnvelope J) envelope)) (\<lambda>hash.
         check (hash \<noteq> mf_EnvelopeHash manifest) ErrInvalidRecoveryPackage
          (check (dc_Version capsule \<noteq> 1 \<or> dc_PackageID capsule \<noteq> packageID \<or> dc_Algorithm capsule \<noteq> ''aes-256-gcm''
              \<or> dc_Nonce capsule = '''' \<or> dc_Ciphertext capsule = '''' \<or> kb_Version kb \<noteq> 1 \<or> kb_PackageID kb \<noteq> packageID
              \<or> kb_Threshold kb \<noteq> 2 \<or> unat (kb_Total kb) \<noteq> length (kb_QuestionShares kb) \<or> length (kb_QuestionShares kb) = 0
              \<or> length (kb_QuestionShares kb) > maxRecoveryQuestions) ErrInvalidRecoveryPackage
          (check (mode = RecoveryMode2Of3 \<and> mf_Guardian manifest = None) ErrInvalidRecoveryPackage
          (check (mode = RecoveryMode2Of2 \<and> mf_Guardian manifest \<noteq> None) ErrInvalidRecoveryPackage
          (case mf_Guardian manifest of
             None \<Rightarrow> Inr ()
           | Some g \<Rightarrow> check (\<not> validHex (gr_MailboxID g) 64 \<or> \<not> validHex (gr_CapsuleHash g) 64 \<or> gr_ShareID g = '''')
               ErrInvalidRecoveryPackage (Inr ())))))))))"

section \<open>Guardian capsules\<close>

definition EncodeGuardianCapsuleStorage :: "strict \<Rightarrow> GuardianShareCapsule \<Rightarrow> account_error + byte list" where
  "EncodeGuardianCapsuleStorage S value =
     rbind (validateGuardianCapsule value) (\<lambda>_.
     rbind (decodeRecoveryBase64 (gc_EphemeralPublicKey value)) (\<lambda>epk.
     rbind (decodeRecoveryBase64 (gc_Nonce value)) (\<lambda>nonce.
     rbind (decodeRecoveryBase64 (gc_Ciphertext value)) (\<lambda>ciphertext.
       puts [stRaw S guardianStorageMagic, stU8 S recoveryStorageCodecVersion, stRaw S (hexBytes (gc_PackageID value)),
             stString S (gc_ShareID value) 1 128, stBytes S epk 32 32, stBytes S nonce 1 64,
             stBytes S ciphertext 1 MaxRecoveryObjectSize]))))"

definition DecodeGuardianCapsuleStorage :: "strict \<Rightarrow> byte list \<Rightarrow> account_error + GuardianShareCapsule" where
  "DecodeGuardianCapsuleStorage S value =
     rbind (mapErr ErrInvalidRecoveryPackage (take_st (stRawOf S 4 value))) (\<lambda>(magic, r).
     check (magic \<noteq> guardianStorageMagic) ErrInvalidRecoveryPackage
    (rbind (mapErr ErrInvalidRecoveryPackage (take_st (stU8Of S r))) (\<lambda>(version, r).
     check (version \<noteq> recoveryStorageCodecVersion) ErrInvalidRecoveryPackage
    (rbind (take_st (stRawOf S 16 r)) (\<lambda>(packageID, r).
     rbind (take_st (stStringOf S 1 128 r)) (\<lambda>(shareID, r).
     rbind (take_st (stBytesOf S 32 32 r)) (\<lambda>(epk, r).
     rbind (take_st (stBytesOf S 1 64 r)) (\<lambda>(nonce, r).
     rbind (mapErr ErrInvalidRecoveryPackage (take_st (stBytesOf S 1 MaxRecoveryObjectSize r))) (\<lambda>(ciphertext, r).
     check (r \<noteq> []) ErrInvalidRecoveryPackage
      (let result = \<lparr>gc_Version = 1, gc_PackageID = hexEncode packageID, gc_ShareID = shareID,
             gc_Algorithm = ''x25519-aes-256-gcm'', gc_EphemeralPublicKey = encodeRecoveryBase64 epk,
             gc_Nonce = encodeRecoveryBase64 nonce, gc_Ciphertext = encodeRecoveryBase64 ciphertext\<rparr>
       in rbind (validateGuardianCapsule result) (\<lambda>_. Inr result)))))))))))"

section \<open>Recovery packages\<close>

definition encodeGuardianReference :: "strict \<Rightarrow> GuardianReference option \<Rightarrow> account_error + byte list" where
  "encodeGuardianReference S guardian =
     (case guardian of
        None \<Rightarrow> Inr []
      | Some g \<Rightarrow> puts [stRaw S (hexBytes (gr_MailboxID g)), stString S (gr_ShareID g) 1 128,
                        stRaw S (hexBytes (gr_CapsuleHash g))])"

definition encodeQuestionShare :: "strict \<Rightarrow> EncryptedQuestionShare \<Rightarrow> account_error + byte list" where
  "encodeQuestionShare S share =
     rbind (decodeRecoveryBase64 (qs_Salt share)) (\<lambda>salt.
     rbind (decodeRecoveryBase64 (qs_Nonce share)) (\<lambda>nonce.
     rbind (decodeRecoveryBase64 (qs_Ciphertext share)) (\<lambda>ciphertext.
       puts [stString S (kq_ID (qs_Question share)) 1 128, stString S (kq_Prompt (qs_Question share)) 1 2048,
             stBool S (kq_CaseSensitive (qs_Question share)), stBool S (kq_IgnorePunctuation (qs_Question share)),
             stBytes S salt 1 64, stBytes S (qs_Vault share) 1 MaxRecoveryObjectSize, stBytes S nonce 1 64,
             stBytes S ciphertext 1 MaxRecoveryObjectSize])))"

text \<open>\<open>CreatedAt\<close> is an \<open>int64\<close>; \<open>uint64(...)\<close> reads it modulo \<open>2^64\<close>.\<close>

definition EncodeRecoveryPackageStorage :: "crypto \<Rightarrow> marshal \<Rightarrow> strict \<Rightarrow> RecoveryPackage \<Rightarrow> account_error + byte list" where
  "EncodeRecoveryPackageStorage C J S value =
     (let locator = env_Locator (rp_Envelope value); encrypted = env_EncryptedBackup (rp_Envelope value);
          shares = kb_QuestionShares (rp_KnowledgeBundle value); guardian = mf_Guardian (rp_Manifest value)
      in rbind (validateStoredRecoveryPackage C J value) (\<lambda>_.
         rbind (decodeRecoveryBase64 (eb_Nonce encrypted)) (\<lambda>envelopeNonce.
         rbind (decodeRecoveryBase64 (eb_Ciphertext encrypted)) (\<lambda>envelopeCiphertext.
         rbind (decodeRecoveryBase64 (dc_Nonce (rp_DKVSShareCapsule value))) (\<lambda>dkvsNonce.
         rbind (decodeRecoveryBase64 (dc_Ciphertext (rp_DKVSShareCapsule value))) (\<lambda>dkvsCiphertext.
         rbind (puts [stRaw S recoveryStorageMagic, stU8 S recoveryStorageCodecVersion,
                      stRaw S (hexBytes (loc_AccountID locator)), stRaw S (hexBytes (loc_PackageID locator)),
                      stU8 S (recoveryModeCode (loc_RecoveryMode locator)), stBytes S envelopeNonce 1 64,
                      stBytes S envelopeCiphertext 1 MaxRecoveryObjectSize,
                      stU64 S (word_of_int (mf_CreatedAt (rp_Manifest value))), stBool S (guardian \<noteq> None)]) (\<lambda>front.
         rbind (encodeGuardianReference S guardian) (\<lambda>reference.
         rbind (puts [stBytes S dkvsNonce 1 64, stBytes S dkvsCiphertext 1 MaxRecoveryObjectSize,
                      stLength S (length shares) maxRecoveryQuestions]) (\<lambda>middle.
         rbind (rmap (encodeQuestionShare S) shares) (\<lambda>questions.
           let buf = front @ reference @ middle @ concat questions
           in check (length buf > MaxRecoveryObjectSize) ErrInvalidRecoveryPackage (Inr buf)))))))))))"

definition decodeGuardianReference :: "strict \<Rightarrow> bool \<Rightarrow> reader \<Rightarrow> account_error + (GuardianReference option \<times> reader)" where
  "decodeGuardianReference S hasGuardian r =
     (if \<not> hasGuardian then Inr (None, r)
      else rbind (take_st (stRawOf S 32 r)) (\<lambda>(mailboxID, r).
           rbind (take_st (stStringOf S 1 128 r)) (\<lambda>(shareID, r).
           rbind (take_st (stRawOf S 32 r)) (\<lambda>(capsuleHash, r).
             Inr (Some \<lparr>gr_MailboxID = hexEncode mailboxID, gr_ShareID = shareID, gr_CapsuleHash = hexEncode capsuleHash\<rparr>, r)))))"

definition decodeQuestionShare :: "strict \<Rightarrow> reader \<Rightarrow> account_error + (EncryptedQuestionShare \<times> reader)" where
  "decodeQuestionShare S r =
     rbind (take_st (stStringOf S 1 128 r)) (\<lambda>(qid, r).
     rbind (take_st (stStringOf S 1 2048 r)) (\<lambda>(prompt, r).
     rbind (take_st (stBoolOf S r)) (\<lambda>(caseSensitive, r).
     rbind (take_st (stBoolOf S r)) (\<lambda>(ignorePunctuation, r).
     rbind (take_st (stBytesOf S 1 64 r)) (\<lambda>(salt, r).
     rbind (take_st (stBytesOf S 1 MaxRecoveryObjectSize r)) (\<lambda>(vault, r).
     rbind (take_st (stBytesOf S 1 64 r)) (\<lambda>(nonce, r).
     rbind (take_st (stBytesOf S 1 MaxRecoveryObjectSize r)) (\<lambda>(ciphertext, r).
       Inr (\<lparr>qs_Question = \<lparr>kq_ID = qid, kq_Prompt = prompt, kq_CaseSensitive = caseSensitive,
               kq_IgnorePunctuation = ignorePunctuation\<rparr>, qs_Salt = encodeRecoveryBase64 salt, qs_Vault = vault,
             qs_Nonce = encodeRecoveryBase64 nonce, qs_Ciphertext = encodeRecoveryBase64 ciphertext\<rparr>, r)))))))))"

text \<open>The fields a stored package does not carry keep Go's zero values.\<close>

definition zeroShare :: RecoveryShare where
  "zeroShare = \<lparr>sh_Version = 0, sh_PackageID = '''', sh_Threshold = 0, sh_Total = 0, sh_Index = 0, sh_Role = '''',
     sh_Data = '''', sh_Checksum = ''''\<rparr>"

definition DecodeRecoveryPackageStorage :: "crypto \<Rightarrow> marshal \<Rightarrow> strict \<Rightarrow> byte list \<Rightarrow> account_error + RecoveryPackage" where
  "DecodeRecoveryPackageStorage C J S value =
     check (value = [] \<or> length value > MaxRecoveryObjectSize) ErrInvalidRecoveryPackage
    (rbind (mapErr ErrInvalidRecoveryPackage (take_st (stRawOf S 4 value))) (\<lambda>(magic, r).
     check (magic \<noteq> recoveryStorageMagic) ErrInvalidRecoveryPackage
    (rbind (mapErr ErrInvalidRecoveryPackage (take_st (stU8Of S r))) (\<lambda>(codecVersion, r).
     check (codecVersion \<noteq> recoveryStorageCodecVersion) ErrInvalidRecoveryPackage
    (rbind (take_st (stRawOf S 32 r)) (\<lambda>(accountID, r).
     rbind (take_st (stRawOf S 16 r)) (\<lambda>(packageID, r).
     rbind (take_st (stU8Of S r)) (\<lambda>(modeCode, r).
     rbind (recoveryModeFromCode modeCode) (\<lambda>mode.
     rbind (take_st (stBytesOf S 1 64 r)) (\<lambda>(envelopeNonce, r).
     rbind (take_st (stBytesOf S 1 MaxRecoveryObjectSize r)) (\<lambda>(envelopeCiphertext, r).
     rbind (mapErr ErrInvalidRecoveryPackage (take_st (stU64Of S r))) (\<lambda>(createdAt, r).
     check (2 ^ 63 \<le> unat createdAt) ErrInvalidRecoveryPackage
    (rbind (take_st (stBoolOf S r)) (\<lambda>(hasGuardian, r).
     rbind (decodeGuardianReference S hasGuardian r) (\<lambda>(guardian, r).
     rbind (take_st (stBytesOf S 1 64 r)) (\<lambda>(dkvsNonce, r).
     rbind (take_st (stBytesOf S 1 MaxRecoveryObjectSize r)) (\<lambda>(dkvsCiphertext, r).
     rbind (mapErr ErrInvalidRecoveryPackage (take_st (stLengthOf S maxRecoveryQuestions r))) (\<lambda>(questionCount, r).
     check (questionCount = 0) ErrInvalidRecoveryPackage
    (rbind (read_n (decodeQuestionShare S) questionCount r) (\<lambda>(questions, r).
     check (r \<noteq> []) ErrInvalidRecoveryPackage
      (let locator = \<lparr>loc_Version = 1, loc_AccountID = hexEncode accountID, loc_PackageID = hexEncode packageID,
             loc_RecoveryMode = mode\<rparr>;
           envelope = \<lparr>env_Version = 1, env_Locator = locator, env_EncryptedBackup =
             \<lparr>eb_Algorithm = ''aes-256-gcm'', eb_Nonce = encodeRecoveryBase64 envelopeNonce,
              eb_Ciphertext = encodeRecoveryBase64 envelopeCiphertext\<rparr>\<rparr>
       in rbind (HashEnvelope (sha256 C) (jsonEnvelope J) envelope) (\<lambda>envelopeHash.
          let result = \<lparr>rp_Envelope = envelope,
                rp_Manifest = \<lparr>mf_Version = 1, mf_Locator = locator, mf_Threshold = 2,
                  mf_Total = (if mode = RecoveryMode2Of3 then 3 else 2), mf_EnvelopeHash = envelopeHash,
                  mf_CreatedAt = uint createdAt, mf_Guardian = guardian\<rparr>,
                rp_UserShare = zeroShare,
                rp_DKVSShareCapsule = \<lparr>dc_Version = 1, dc_PackageID = hexEncode packageID, dc_Algorithm = ''aes-256-gcm'',
                  dc_Nonce = encodeRecoveryBase64 dkvsNonce, dc_Ciphertext = encodeRecoveryBase64 dkvsCiphertext\<rparr>,
                rp_KnowledgeBundle = \<lparr>kb_Version = 1, kb_PackageID = hexEncode packageID, kb_Threshold = 2,
                  kb_Total = of_nat (length questions), kb_QuestionShares = questions\<rparr>,
                rp_GuardianCapsule = None\<rparr>
          in rbind (validateStoredRecoveryPackage C J result) (\<lambda>_. Inr result)))))))))))))))))))))))"

end
