(* ===== verification/QuestionsDemo.thy ===== *)
theory QuestionsDemo
  imports QuestionsRecovery
begin

text \<open>
  Conditions under which a question can be locked (the random source and the answer supply enough),
  and a concrete bundle on which the guarantees of \<open>QuestionsRecovery\<close> apply.
\<close>

section \<open>Enough features\<close>

definition token_id :: "crypto \<Rightarrow> string \<Rightarrow> byte list \<Rightarrow> string \<Rightarrow> nat" where
  "token_id C qid salt token = uint32BE (hmacSHA256 C salt (bytes_of qid @ [0] @ bytes_of token)) mod featureCorpusSize"

lemma rank_loop_covers:
  "token_id C qid salt ` set tokens \<subseteq> snd ` set (rank_loop C qid salt seenToken seenID tokens) \<union> set seenID
     \<union> token_id C qid salt ` set seenToken"
proof (induction tokens arbitrary: seenToken seenID)
  case (Cons token tokens)
  have i: "uint32BE (hmacSHA256 C salt (bytes_of qid @ 0 # bytes_of token)) mod featureCorpusSize = token_id C qid salt token"
    by (simp add: token_id_def)
  show ?case
    using Cons.IH [of seenToken seenID] Cons.IH [of "token # seenToken" seenID]
      Cons.IH [of "token # seenToken" "token_id C qid salt token # seenID"]
    by (auto simp: Let_def i)
qed simp

lemma enough_features:
  assumes "normalizeAnswer K q answer = Inr normalized"
    and "24 \<le> card (token_id C (kq_ID q) salt ` set (featureTokens normalized))"
  shows "\<exists>ids. featureIDs C K q answer salt = Inr ids"
proof -
  let ?r = "rank_loop C (kq_ID q) salt [] [] (featureTokens normalized)"
  have "token_id C (kq_ID q) salt ` set (featureTokens normalized) \<subseteq> snd ` set ?r"
    using rank_loop_covers [of C "kq_ID q" salt "featureTokens normalized" "[]" "[]"] by simp
  then have "card (token_id C (kq_ID q) salt ` set (featureTokens normalized)) \<le> card (snd ` set ?r)"
    by (intro card_mono) auto
  also have "\<dots> \<le> length ?r" by (metis card_image_le card_length finite_set le_trans)
  finally show ?thesis
    using assms by (simp add: featureIDs_def Let_def check_def featureSetSize_def)
qed

lemma unigram_tokens: "r \<in> set (runes (''^'' @ value @ ''$'')) \<Longrightarrow> ''u:'' @ encodeRune r \<in> set (featureTokens value)"
proof -
  assume "r \<in> set (runes (''^'' @ value @ ''$''))"
  then obtain i where i: "i < length (runes (''^'' @ value @ ''$''))" "runes (''^'' @ value @ ''$'') ! i = r"
    by (auto simp: in_set_conv_nth)
  have t: "take 1 (drop i rs) = [rs ! i]" if "i < length rs" for rs :: "nat list"
    using that by (metis One_nat_def drop_eq_Nil hd_drop_conv_nth leD take_Suc take0 take_0)
  have "gram ''u:'' (runes (''^'' @ value @ ''$'')) i 1 = ''u:'' @ encodeRune r"
    using i t by (simp add: gram_def)
  then show ?thesis
    using i(1) unfolding featureTokens_def Let_def set_append set_concat set_map
    by (intro UnI1 UN_I [of _ _ "\<lambda>i. i"] UN_I [of "set _"]) (auto intro!: bexI [of _ i])
qed

section \<open>A random source that suits \<open>GenerateParams\<close>\<close>

lemma draw_one:
  assumes "length candidates = 65537" "i < 24" "\<forall>j. i < j \<and> j < 65537 \<longrightarrow> candidates ! j = int j"
  shows "draw_loop 128 candidates i ([1, 0, 0, 0] @ r) = Inr (i + 1, r)"
proof -
  have u: "unat (uint32LE [1, 0, 0, 0]) = 1" by (simp add: uint32LE_def)
  have m: "1 mod (65537 - i) = 1" "65537 - i \<noteq> Suc 0" using assms(2) by (simp_all add: mod_less)
  have "draw_loop (Suc 127) candidates i ([1, 0, 0, 0] @ r) = Inr (i + 1, r)"
    unfolding draw_loop.simps using assms by (simp add: readFull_def u m Let_def)
  then show ?thesis by simp
qed

lemma extractor_ones:
  assumes "length candidates = 65537" "i + n \<le> 24" "\<forall>j. i < j \<and> j < 65537 \<longrightarrow> candidates ! j = int j"
  shows "extractor_loop n i extractor candidates (concat (replicate n [1, 0, 0, 0]) @ r)
    = Inr (extractor @ map int [i + 1..<i + 1 + n], r)"
  using assms
proof (induction n arbitrary: i extractor candidates)
  case (Suc n)
  have d: "draw_loop 128 candidates i ([1, 0, 0, 0] @ (concat (replicate n [1, 0, 0, 0]) @ r))
      = Inr (i + 1, concat (replicate n [1, 0, 0, 0]) @ r)"
    using Suc.prems by (intro draw_one) auto
  have "extractor_loop n (i + 1) (extractor @ [int (i + 1)]) (candidates[i + 1 := candidates ! i])
      (concat (replicate n [1, 0, 0, 0]) @ r) = Inr ((extractor @ [int (i + 1)]) @ map int [i + 1 + 1..<i + 1 + 1 + n], r)"
    using Suc.prems by (intro Suc.IH) (auto simp: nth_list_update)
  moreover have "candidates ! (i + 1) = int (i + 1)" using Suc.prems by auto
  moreover have "[i + 1..<i + 1 + Suc n] = (i + 1) # [i + 1 + 1..<i + 1 + 1 + n]" by (simp add: upt_conv_Cons)
  ultimately show ?case using d by simp
qed simp

definition params_random :: "byte list" where
  "params_random = replicate 32 0 @ concat (replicate 24 [1, 0, 0, 0])"

lemma generate_ones:
  "\<exists>P. GenerateParams 24 15 65536 (params_random @ r) = Some (Inr (P, r))"
proof -
  have p: "firstPrimeGreaterThan 65536 = Some (Inr 65537)"
  proof -
    have "(LEAST q. 65536 < q \<and> is_prime q) = (65537 :: int)"
      using is_prime_65537 by (intro Least_equality) auto
    then show ?thesis by (simp add: firstPrimeGreaterThan_spec)
  qed
  let ?P = "\<lparr>Version = 1, SetSize = 24, CorrectThreshold = 15, CorpusSize = 65536, Prime = 65537,
      Extractor = map int [1..<25], Salt = replicate 32 0\<rparr> :: Params"
  have e: "extractor_loop 24 0 [] (map int [0..<65537]) (concat (replicate 24 [1, 0, 0, 0]) @ r) = Inr (map int [1..<25], r)"
    using extractor_ones [of "map int [0..<65537]" 0 24 "[]" r] by (simp del: upt_conv_Nil replicate.simps)
  have "valid_params ?P"
    using is_prime_65537 by (auto simp: valid_params_def distinct_map)
  then have "validate ?P = Some (Inr ())" using validate_iff [of ?P] by simp
  then have "GenerateParams 24 15 65536 (params_random @ r) = Some (Inr (?P, r))"
    using e p by (simp add: GenerateParams_def params_random_def Let_def del: replicate.simps)
  then show ?thesis by blast
qed

section \<open>Locking succeeds\<close>

definition question_random :: "byte list" where
  "question_random = replicate 32 0 @ params_random @ replicate 12 0"

lemma lock_question_succeeds:
  assumes K: "\<And>pass salt. \<exists>k. kScrypt K pass salt = Inr k \<and> length k = 64" "collision_free (kScrypt K) 24 65536"
    "\<And>v. validateVault v = Some (Inr ()) \<Longrightarrow> Prime v < 2 ^ 31 \<Longrightarrow> length (jsonVault K v) \<le> MaxPublicPayloadSize"
    and C: "\<And>k m. hmacSHA256 C k m \<noteq> []"
    and f: "\<And>salt. \<exists>ids. featureIDs C K q answer salt = Inr ids"
  shows "\<exists>entry. lock_question C K packageID q answer part (question_random @ r) = Some (Inr (entry, r))"
proof -
  obtain ids where ids: "featureIDs C K q answer (replicate 32 0) = Inr ids" using f by blast
  obtain P where P: "GenerateParams 24 15 65536 (params_random @ replicate 12 0 @ r) = Some (Inr (P, replicate 12 0 @ r))"
    using generate_ones by blast
  note G = GenerateParams_valid [OF P]
  have n: "normalizeFeatures ids (SetSize P) (CorpusSize P) = Inr ids"
    using featureIDs_normal [OF ids] G by simp
  obtain v where v: "Lock (kScrypt K) (Some P) ids = Some (Inr v)"
    using Lock_succeeds [OF G(1,2) n, of "kScrypt K"] K(1) by blast
  note F = Lock_facts [OF v G(2)]
  have ok: "is_ok (kScrypt K pass salt)" for pass salt using K(1) [of pass salt] by auto
  have m: "MarshalVault K v = Some (Inr (jsonVault K v))" using K(3) F(3,7) G(2) by (simp add: MarshalVault_eq)
  have vp: "valid_params v" using F(3,7) G(2) validateVault_iff [of v] by simp
  have s: "sort ids = ids" "length ids = 24" "distinct ids" using featureIDs_set [OF ids] by (simp_all add: sorted_sort_id)
  have "int (length (sort ids)) = SetSize v" using F(4) G(3) s(2) by simp
  then obtain km where km: "derive_key (kScrypt K) (hmacSHA3 K) v 0 (sort ids) = Inr km"
    using derive_key_ok [OF vp, of "sort ids" "kScrypt K"] ok by blast
  have "CorrectThreshold P \<le> int (card (set ids \<inter> set ids))" using s(2,3) G(5) by (simp add: distinct_card)
  then have rk: "RecoverKey (kScrypt K) (hmacSHA3 K) (Some v) ids 0 = Some (Inr km)"
    using RecoverKey_locked [OF v G(2) n, of "hmacSHA3 K" 0] ok km s(1) by simp
  have "length (knowledgeKEK C km packageID (kq_ID q)) = 32" using C by (simp add: knowledgeKEK_def hkdf_length)
  then have seal: "\<exists>nonce ct. sealBytes C (knowledgeKEK C km packageID (kq_ID q)) part
      (questionAAD packageID (kq_ID q)) (replicate 12 0 @ r) = Inr (nonce, ct, r)"
    by (simp add: sealBytes_def gcmNonceSize_def)
  have "readFull ErrReadRandom 32 (question_random @ r) = Inr (replicate 32 0, params_random @ replicate 12 0 @ r)"
    unfolding question_random_def append_assoc by (rule readFull_append) simp
  then show ?thesis
    using ids P v m rk seal
    by (auto simp: lock_question_def featureSetSize_def featureCorrectThreshold_def featureCorpusSize_def)
qed

section \<open>A concrete bundle\<close>

fun low_halves :: "byte list \<Rightarrow> byte list" where
  "low_halves (a # b # c # d # r) = a # b # low_halves r"
| "low_halves r = []"

definition demo_q_scrypt :: scrypt where
  "demo_q_scrypt pass salt = Inr (take 64 (low_halves (drop 15 pass) @ replicate 64 0))"

lemma low_halves_features:
  "low_halves (concat (map (\<lambda>v. putUint32LE (of_int v)) xs)) = concat (map (\<lambda>v. take 2 (putUint32LE (of_int v))) xs)"
  by (induction xs) (simp_all add: putUint32LE_def)

lemma low_half_inject:
  assumes "0 \<le> x" "x < 65536" "0 \<le> y" "y < 65536" "take 2 (putUint32LE (of_int x)) = take 2 (putUint32LE (of_int y))"
  shows "x = y"
proof -
  have z: "drop 2 (putUint32LE (of_int z)) = [0, 0]" if "0 \<le> z" "z < 65536" for z
  proof -
    have u: "unat (of_int z :: 32 word) < 65536"
    proof -
      have "(of_int z :: 32 word) = of_nat (nat z)" using that by simp
      then have "unat (of_int z :: 32 word) = nat z mod 2 ^ 32" by (simp only: unat_of_nat) simp
      then show ?thesis using that by simp
    qed
    have "drop_bit n (of_int z :: 32 word) = 0" if "16 \<le> n" for n
    proof -
      have "unat (of_int z :: 32 word) < 2 ^ n"
        using u power_increasing [OF that, of "2 :: nat"] by simp
      then have "drop_bit n (unat (of_int z :: 32 word)) = 0" by (simp add: drop_bit_eq_div)
      then show ?thesis by (simp only: word_unat_eq_iff unat_drop_bit_eq unat_0)
    qed
    then show ?thesis by (simp add: putUint32LE_def)
  qed
  have "putUint32LE (of_int x) = putUint32LE (of_int y)"
    using assms(5) z [OF assms(1,2)] z [OF assms(3,4)] by (metis append_take_drop_id)
  then show ?thesis using assms(1-4) by (intro putUint32LE_of_int_inject) auto
qed

lemma demo_q_collision_free: "collision_free demo_q_scrypt 24 65536"
proof -
  have len: "length (concat (map (\<lambda>v. take 2 (putUint32LE (of_int v))) zs)) = 2 * length zs" for zs :: "int list"
    by (induction zs) simp_all
  have "xs = ys"
    if l: "int (length xs) = 24" "int (length ys) = 24" and r: "\<forall>x\<in>set xs. 0 \<le> x \<and> x < 65536" "\<forall>y\<in>set ys. 0 \<le> y \<and> y < 65536"
      and h: "demo_q_scrypt (featurePass ''original_words:'' xs) salt = demo_q_scrypt (featurePass ''original_words:'' ys) salt"
    for xs ys :: "int list" and salt
  proof -
    have e: "concat (map (\<lambda>v. take 2 (putUint32LE (of_int v))) xs) = concat (map (\<lambda>v. take 2 (putUint32LE (of_int v))) ys)"
      using h l by (simp add: demo_q_scrypt_def featurePass_def low_halves_features len)
    have "length xs = length ys" using l by simp
    then show ?thesis using e r
    proof (induction xs ys rule: list_induct2)
      case (Cons x xs y ys)
      then have "take 2 (putUint32LE (of_int x)) = take 2 (putUint32LE (of_int y))"
        "concat (map (\<lambda>v. take 2 (putUint32LE (of_int v))) xs) = concat (map (\<lambda>v. take 2 (putUint32LE (of_int v))) ys)"
        by (simp_all add: append_eq_append_conv)
      then show ?case using Cons low_half_inject [of x y] by auto
    qed simp
  qed
  then show ?thesis unfolding collision_free_def by metis
qed

text \<open>A vault codec over 32-bit numbers.\<close>

definition putInt :: "int \<Rightarrow> byte list" where
  "putInt z = putUint32LE (of_int z)"

definition getInt :: "reader \<Rightarrow> unit + (int \<times> reader)" where
  "getInt r = rbind (readFull () 4 r) (\<lambda>(b, r). Inr (int (unat (uint32LE b)), r))"

interpretation demo_int: codec putInt getInt "\<lambda>z. 0 \<le> z \<and> z < 2 ^ 32"
proof
  fix z :: int and rest assume z: "0 \<le> z \<and> z < 2 ^ 32"
  have "uint (of_int z :: 32 word) = z" using z by (simp add: uint_word_of_int)
  then show "getInt (putInt z @ rest) = Inr (z, rest)"
    using z uint32LE_put [of "of_int z" "[]"] by (simp add: getInt_def putInt_def)
qed

definition putInts :: "int list \<Rightarrow> byte list" where
  "putInts xs = putInt (int (length xs)) @ concat (map putInt xs)"

definition getInts :: "reader \<Rightarrow> unit + (int list \<times> reader)" where
  "getInts r = rbind (getInt r) (\<lambda>(n, r). read_n getInt (nat n) r)"

interpretation demo_ints: codec putInts getInts "\<lambda>xs. length xs < 2 ^ 32 \<and> (\<forall>x\<in>set xs. 0 \<le> x \<and> x < 2 ^ 32)"
proof
  fix xs :: "int list" and rest assume a: "length xs < 2 ^ 32 \<and> (\<forall>x\<in>set xs. 0 \<le> x \<and> x < 2 ^ 32)"
  then have "getInt (putInt (int (length xs)) @ concat (map putInt xs) @ rest)
      = Inr (int (length xs), concat (map putInt xs) @ rest)"
    by (intro demo_int.dec_enc) simp
  moreover have "read_n getInt (length xs) (concat (map putInt xs) @ rest) = Inr (xs, rest)"
    using a by (intro demo_int.read_n_concat) blast
  ultimately show "getInts (putInts xs @ rest) = Inr (xs, rest)" by (simp add: getInts_def putInts_def)
qed

definition putVault :: "Vault \<Rightarrow> byte list" where
  "putVault v = putInts ([SetSize v, CorrectThreshold v, CorpusSize v, Prime v]) @ putInts (Extractor v) @ Salt v
     @ putInts (Sketch v) @ SetHash v"

definition getVault :: "reader \<Rightarrow> unit + (Vault \<times> reader)" where
  "getVault r = rbind (getInts r) (\<lambda>(h, r). rbind (getInts r) (\<lambda>(e, r). rbind (readFull () 32 r) (\<lambda>(salt, r).
     rbind (getInts r) (\<lambda>(sk, r). rbind (readFull () 64 r) (\<lambda>(hash, r).
       Inr (\<lparr>Version = 1, SetSize = h ! 0, CorrectThreshold = h ! 1, CorpusSize = h ! 2, Prime = h ! 3,
             Extractor = e, Salt = salt, Sketch = sk, SetHash = hash\<rparr>, r))))))"

lemma length_putInts: "length (putInts xs) = 4 + 4 * length xs"
proof -
  have "length (concat (map putInt xs)) = 4 * length xs" by (induction xs) (simp_all add: putInt_def)
  then show ?thesis by (simp add: putInts_def putInt_def)
qed

lemma vault_facts:
  assumes "validateVault v = Some (Inr ())" "Prime v < 2 ^ 31"
  shows "Version v = 1" "length (Extractor v) \<le> 64" "length (Sketch v) \<le> 128" "length (Salt v) = 32" "length (SetHash v) = 64"
    "\<forall>x\<in>set [SetSize v, CorrectThreshold v, CorpusSize v, Prime v]. 0 \<le> x \<and> x < 2 ^ 32"
    "\<forall>x\<in>set (Extractor v). 0 \<le> x \<and> x < 2 ^ 32" "\<forall>x\<in>set (Sketch v). 0 \<le> x \<and> x < 2 ^ 32"
proof -
  have v: "valid_params v" "int (length (Sketch v)) = 2 * (SetSize v - CorrectThreshold v)" "length (SetHash v) = 64"
    "\<forall>c\<in>set (Sketch v). 0 \<le> c \<and> c < Prime v"
    using assms validateVault_iff [of v] by auto
  show "Version v = 1" "length (Extractor v) \<le> 64" "length (Sketch v) \<le> 128" "length (Salt v) = 32" "length (SetHash v) = 64"
    "\<forall>x\<in>set [SetSize v, CorrectThreshold v, CorpusSize v, Prime v]. 0 \<le> x \<and> x < 2 ^ 32"
    using v assms(2) by (auto simp: valid_params_def)
  show "\<forall>x\<in>set (Extractor v). 0 \<le> x \<and> x < 2 ^ 32" "\<forall>x\<in>set (Sketch v). 0 \<le> x \<and> x < 2 ^ 32"
    using v assms(2) by (fastforce simp: valid_params_def)+
qed

lemma getVault_put:
  assumes "validateVault v = Some (Inr ())" "Prime v < 2 ^ 31"
  shows "getVault (putVault v) = Inr (v, [])"
proof -
  note F = vault_facts [OF assms]
  have "getInts (putInts [SetSize v, CorrectThreshold v, CorpusSize v, Prime v] @ r)
      = Inr ([SetSize v, CorrectThreshold v, CorpusSize v, Prime v], r)" for r
    using F(6) by (intro demo_ints.dec_enc) simp
  moreover have "getInts (putInts (Extractor v) @ r) = Inr (Extractor v, r)" "getInts (putInts (Sketch v) @ r) = Inr (Sketch v, r)" for r
    using F(2,3,7,8) by (intro demo_ints.dec_enc; auto)+
  moreover have "readFull () 64 (SetHash v) = Inr (SetHash v, [])" using F(5) readFull_append [of "SetHash v" 64 "()" "[]"] by simp
  ultimately show ?thesis using F(1,4) by (cases v) (simp add: getVault_def putVault_def)
qed

definition demo_knowledge :: knowledge where
  "demo_knowledge = \<lparr>nfkc = (\<lambda>s. s), lowerRune = (\<lambda>r. r), isPunct = (\<lambda>r. False), kScrypt = demo_q_scrypt,
     hmacSHA3 = (\<lambda>k m. k @ m), jsonVault = putVault, jsonVaultOf = whole getVault\<rparr>"

lemma demo_knowledge_laws: "knowledge_laws demo_knowledge"
proof -
  have "putVault v \<noteq> []" for v by (metis add_is_0 length_putInts list.size(3) length_append putVault_def zero_neq_numeral)
  then show ?thesis
    using getVault_put demo_q_collision_free
    by (simp add: knowledge_laws_def demo_knowledge_def whole_def) (simp add: demo_q_scrypt_def)
qed

definition demo_q_crypto :: crypto where
  "demo_q_crypto = (demo_crypto [])\<lparr>hmacSHA256 := (\<lambda>k m. [0, 0, 0, last m] @ replicate 28 0)\<rparr>"

definition demo_answer :: string where
  "demo_answer = ''abcdefghijklmnopqrstuv''"

definition demo_question :: "string \<Rightarrow> KnowledgeQuestion" where
  "demo_question q = \<lparr>kq_ID = q, kq_Prompt = ''p'', kq_CaseSensitive = True, kq_IgnorePunctuation = False\<rparr>"

definition demo_questions :: "QuestionAnswer list" where
  "demo_questions = map (\<lambda>q. \<lparr>qa_Question = demo_question q, qa_Answer = demo_answer, qa_Confirmation = demo_answer\<rparr>)
     [''a'', ''b'', ''c'']"

lemma demo_answer_normal: "normalizeAnswer demo_knowledge (demo_question q) demo_answer = Inr demo_answer"
proof -
  have p: "\<forall>c\<in>set demo_answer. printable c" by (simp add: demo_answer_def printable_def)
  moreover have ne: "demo_answer \<noteq> []" "length demo_answer = 22" by (simp_all add: demo_answer_def)
  ultimately have "Fields demo_answer = [demo_answer]"
    using fields_join [of "[demo_answer]"] is_word_printable by simp
  moreover have "trimSpace demo_answer = demo_answer" using p by (rule printable_trim)
  moreover have "length (runes demo_answer) = 22"
  proof -
    have "runes demo_answer = map of_char demo_answer"
      unfolding runes_def by (intro decodeRunes_ascii) (use p printable_ascii in auto)
    then show ?thesis using ne(2) by simp
  qed
  ultimately show ?thesis by (simp add: normalizeAnswer_def demo_knowledge_def demo_question_def check_def)
qed

lemma demo_features: "\<exists>ids. featureIDs demo_q_crypto demo_knowledge (demo_question q) demo_answer salt = Inr ids"
proof (rule enough_features [OF demo_answer_normal])
  let ?s = "''^'' @ demo_answer @ ''$''"
  have a: "\<forall>c\<in>set ?s. of_char c < (128 :: nat)" by (simp add: demo_answer_def)
  have rs: "runes ?s = map of_char ?s" unfolding runes_def by (intro decodeRunes_ascii) (use a in auto)
  have "of_char c \<in> token_id demo_q_crypto q salt ` set (featureTokens demo_answer)" if c: "c \<in> set ?s" for c
  proof
    have "encodeRune (of_char c) = [c]" using a c by (auto simp: encodeRune_def runeBytes_def)
    then show "''u:'' @ [c] \<in> set (featureTokens demo_answer)"
      using unigram_tokens [of "of_char c" demo_answer] c unfolding rs by auto
    have "(of_char c :: nat) < 128" using a c by blast
    then have "(of_char c :: nat) mod 65536 = of_char c" by simp
    then show "of_char c = token_id demo_q_crypto q salt (''u:'' @ [c])"
      by (simp add: token_id_def demo_q_crypto_def uint32BE_def bytes_of_def featureCorpusSize_def)
  qed
  then have sub: "of_char ` set ?s \<subseteq> token_id demo_q_crypto q salt ` set (featureTokens demo_answer)" by blast
  have "card (of_char ` set ?s :: nat set) = card (set ?s)" by (rule card_image) (simp add: inj_on_def)
  also have "\<dots> = 24" by (simp add: demo_answer_def)
  finally show "24 \<le> card (token_id demo_q_crypto (kq_ID (demo_question q)) salt ` set (featureTokens demo_answer))"
    using card_mono [OF _ sub] by (simp add: demo_question_def)
qed

lemma demo_ids: "q \<in> {''a'', ''b'', ''c''} \<Longrightarrow> normalizeSpace q = q" "normalizeSpace ''p'' = ''p''"
proof -
  have "is_word ''p''" "q \<in> {''a'', ''b'', ''c''} \<Longrightarrow> is_word q"
    by (auto intro!: is_word_printable simp: printable_def)
  then show "q \<in> {''a'', ''b'', ''c''} \<Longrightarrow> normalizeSpace q = q" "normalizeSpace ''p'' = ''p''"
    using normalizeSpace_join [of "[q]"] normalizeSpace_join [of "[''p'']"] by auto
qed

lemma demo_lock_question:
  "\<exists>entry. lock_question demo_q_crypto demo_knowledge packageID (demo_question q) demo_answer part (question_random @ r)
    = Some (Inr (entry, r))"
proof (rule lock_question_succeeds)
  show "\<exists>k. kScrypt demo_knowledge pass salt = Inr k \<and> length k = 64" for pass salt
    by (simp add: demo_knowledge_def demo_q_scrypt_def)
  show "collision_free (kScrypt demo_knowledge) 24 65536" using demo_knowledge_laws by (simp add: knowledge_laws_def)
  show "length (jsonVault demo_knowledge v) \<le> MaxPublicPayloadSize"
    if "validateVault v = Some (Inr ())" "Prime v < 2 ^ 31" for v
    using vault_facts [OF that]
    by (simp add: demo_knowledge_def putVault_def length_putInts MaxPublicPayloadSize_def)
  show "hmacSHA256 demo_q_crypto k m \<noteq> []" for k m by (simp add: demo_q_crypto_def)
qed (rule demo_features)

definition demo_recovery_random :: "byte list" where
  "demo_recovery_random = replicate 64 0 @ question_random @ question_random @ question_random @ replicate 12 0"

lemma demo_question_loop:
  assumes "length parts = 3"
  shows "\<exists>entries. question_loop demo_q_crypto demo_knowledge packageID [] (zip demo_questions parts)
    (question_random @ question_random @ question_random @ r) = Some (Inr (entries, r))
    \<and> map qs_Question entries = map demo_question [''a'', ''b'', ''c'']"
proof -
  obtain p1 p2 p3 where p: "parts = [p1, p2, p3]" using assms by (auto simp: length_Suc_conv numeral_3_eq_3)

  have f: "kq_ID (demo_question q) = q" "kq_Prompt (demo_question q) = ''p''" for q by (simp_all add: demo_question_def)
  have z: "zip demo_questions parts = [(\<lparr>qa_Question = demo_question ''a'', qa_Answer = demo_answer, qa_Confirmation = demo_answer\<rparr>, p1),
      (\<lparr>qa_Question = demo_question ''b'', qa_Answer = demo_answer, qa_Confirmation = demo_answer\<rparr>, p2),
      (\<lparr>qa_Question = demo_question ''c'', qa_Answer = demo_answer, qa_Confirmation = demo_answer\<rparr>, p3)]"
    by (simp add: demo_questions_def p)
  obtain e1 e2 e3 where e: "lock_question demo_q_crypto demo_knowledge packageID (demo_question ''a'') demo_answer p1
      (question_random @ question_random @ question_random @ r) = Some (Inr (e1, question_random @ question_random @ r))"
    "lock_question demo_q_crypto demo_knowledge packageID (demo_question ''b'') demo_answer p2
      (question_random @ question_random @ r) = Some (Inr (e2, question_random @ r))"
    "lock_question demo_q_crypto demo_knowledge packageID (demo_question ''c'') demo_answer p3
      (question_random @ r) = Some (Inr (e3, r))"
    using demo_lock_question by metis
  have s: "question_loop demo_q_crypto demo_knowledge packageID seen
      ((\<lparr>qa_Question = demo_question q, qa_Answer = demo_answer, qa_Confirmation = demo_answer\<rparr>, part) # rest) random
    = orbind (lock_question demo_q_crypto demo_knowledge packageID (demo_question q) demo_answer part random) (\<lambda>(entry, random).
        orbind (question_loop demo_q_crypto demo_knowledge packageID (q # seen) rest random) (\<lambda>(entries, random).
          Some (Inr (entry # entries, random))))"
    if q3: "q \<in> {''a'', ''b'', ''c''}" "q \<notin> set seen" for q seen part rest random
  proof -
    have "normalizeSpace q = q" "q \<noteq> ''''" using q3(1) demo_ids(1) by auto
    moreover have u: "(demo_question q)\<lparr>kq_ID := q, kq_Prompt := ''p''\<rparr> = demo_question q" by (simp add: demo_question_def)
    ultimately show ?thesis using q3(2) f by (simp add: ocheck_def demo_answer_normal demo_ids(2) Let_def u)
  qed
  have "qs_Question e1 = demo_question ''a''" "qs_Question e2 = demo_question ''b''" "qs_Question e3 = demo_question ''c''"
    using lock_question_holds(2) [OF demo_knowledge_laws] e by blast+
  then show ?thesis unfolding z by (simp add: s e del: question_loop.simps(2))
qed

definition demo_package :: string where
  "demo_package = hexEncode (replicate 16 3)"

lemma demo_dkvs_share:
  "\<exists>s raw. newRecoveryShare demo_q_crypto demo_marshal demo_package 2 2 (replicate 32 5 @ [2]) = Inr s
    \<and> validateShare demo_q_crypto demo_marshal s = Inr raw \<and> sh_Role s = ShareRoleDKVS \<and> sh_PackageID s = demo_package"
proof -
  have "\<exists>s. newRecoveryShare demo_q_crypto demo_marshal demo_package 2 2 (replicate 32 5 @ [2]) = Inr s"
    by (rule newRecoveryShare_succeeds) (simp_all add: demo_q_crypto_def demo_crypto_def demo_package_def
        del: hexEncode.simps replicate.simps)
  then obtain s where s: "newRecoveryShare demo_q_crypto demo_marshal demo_package 2 2 (replicate 32 5 @ [2]) = Inr s" ..
  note N = newRecoveryShare_ok [OF s]
  have "sh_Role s = ShareRoleDKVS" using validateShare_raw(5) [OF N(1)] N(3,5) by (simp add: expectedRole_def)
  then show ?thesis using s N by blast
qed

lemma demo_create:
  "\<exists>capsule kb. createKnowledgeRecovery demo_q_crypto demo_marshal demo_knowledge packageID share demo_questions
      (demo_recovery_random @ rest) = Some (Inr (capsule, kb, rest))
    \<and> map qs_Question (kb_QuestionShares kb) = map demo_question [''a'', ''b'', ''c'']"
proof -
  let ?tape = "replicate 12 0 @ rest"
  let ?qs = "question_random @ question_random @ question_random @ ?tape"
  have r: "readFull ErrReadRandom 32 (demo_recovery_random @ rest) = Inr (replicate 32 0, replicate 32 0 @ ?qs)"
  proof -
    have "replicate 64 (0 :: byte) = replicate 32 0 @ replicate 32 0" by (simp add: replicate_add [symmetric])
    then show ?thesis unfolding demo_recovery_random_def by (simp del: replicate.simps)
  qed
  define parts where "parts = map (share_of 2 (replicate 32 0) (replicate 32 0 @ ?qs)) [0..<3]"
  have sp: "Split (replicate 32 0) 3 2 (replicate 32 0 @ ?qs) = Inr (parts, ?qs)"
  proof -
    have ne: "replicate 32 (0 :: byte) \<noteq> []" by simp
    show ?thesis
      using Split_eq [OF ne, of 2 3 "replicate 32 0 @ ?qs"] by (simp add: parts_def del: replicate.simps)
  qed
  have "length parts = 3" by (simp add: parts_def)
  from demo_question_loop [OF this, of packageID ?tape] obtain entries where
    q: "question_loop demo_q_crypto demo_knowledge packageID [] (zip demo_questions parts) ?qs
      = Some (Inr (entries, ?tape))" "map qs_Question entries = map demo_question [''a'', ''b'', ''c'']"
    by blast
  have "\<exists>nonce ct. sealBytes demo_q_crypto (replicate 32 0) (jsonShare demo_marshal share) (dkvsCapsuleAAD packageID) ?tape
      = Inr (nonce, ct, rest)"
    by (simp add: sealBytes_def gcmNonceSize_def readFull_def check_def)
  then obtain nonce ct where s: "sealBytes demo_q_crypto (replicate 32 0) (jsonShare demo_marshal share) (dkvsCapsuleAAD packageID)
      ?tape = Inr (nonce, ct, rest)" by blast
  have "length demo_questions = 3" by (simp add: demo_questions_def)
  then show ?thesis
    using r sp q s
    by (auto simp: createKnowledgeRecovery_def ocheck_def knowledgeQuestionCount_def knowledgeQuestionThreshold_def)
qed

lemma demo_bundle:
  obtains share raw capsule kb where
    "createKnowledgeRecovery demo_q_crypto demo_marshal demo_knowledge demo_package share demo_questions demo_recovery_random
      = Some (Inr (capsule, kb, []))"
    "validateShare demo_q_crypto demo_marshal share = Inr raw" "sh_Role share = ShareRoleDKVS" "sh_PackageID share = demo_package"
    "map qs_Question (kb_QuestionShares kb) = map demo_question [''a'', ''b'', ''c'']"
proof -
  obtain share raw where sh: "validateShare demo_q_crypto demo_marshal share = Inr raw" "sh_Role share = ShareRoleDKVS"
    "sh_PackageID share = demo_package"
    using demo_dkvs_share by blast
  show ?thesis using demo_create [of demo_package share "[]"] that [OF _ sh] by auto
qed

lemma demo_q_crypto_laws: "crypto_laws demo_q_crypto"
  using demo_crypto_laws by (simp add: crypto_laws_def demo_q_crypto_def)

definition demo_attempts :: "AnswerAttempt list" where
  "demo_attempts = [\<lparr>aa_QuestionID = ''a'', aa_Answer = demo_answer\<rparr>, \<lparr>aa_QuestionID = ''b'', aa_Answer = ''wrong''\<rparr>,
     \<lparr>aa_QuestionID = ''c'', aa_Answer = demo_answer\<rparr>]"

lemma demo_attempts_map:
  "answerMap demo_attempts ''a'' = Some demo_answer" "answerMap demo_attempts ''c'' = Some demo_answer"
proof -
  have "normalizeSpace ''a'' = ''a''" "normalizeSpace ''b'' = ''b''" "normalizeSpace ''c'' = ''c''"
    using demo_ids(1) by simp_all
  then show "answerMap demo_attempts ''a'' = Some demo_answer" "answerMap demo_attempts ''c'' = Some demo_answer"
    by (simp_all add: answerMap_def demo_attempts_def)
qed

text \<open>The attempts at the first and at the third question are good enough.\<close>

lemma demo_attempts_enough:
  assumes c: "createKnowledgeRecovery demo_q_crypto demo_marshal demo_knowledge packageID share demo_questions random
      = Some (Inr (capsule, kb, rest))"
    and q: "map qs_Question (kb_QuestionShares kb) = map demo_question [''a'', ''b'', ''c'']"
    and k: "k \<in> {0, 2}"
  shows "\<exists>answer attempt.
        normalizeAnswer demo_knowledge (qs_Question (kb_QuestionShares kb ! k)) (qa_Answer (demo_questions ! k)) = Inr answer
        \<and> answerMap demo_attempts (kq_ID (qs_Question (kb_QuestionShares kb ! k))) = Some attempt
        \<and> 15 \<le> shared_features demo_q_crypto demo_knowledge (kb_QuestionShares kb ! k) answer attempt"
proof -
  obtain parts :: "byte list list" where h: "\<forall>i<3. \<exists>answer.
      normalizeAnswer demo_knowledge (qs_Question (kb_QuestionShares kb ! i)) (qa_Answer (demo_questions ! i)) = Inr answer
      \<and> holds_part demo_q_crypto demo_knowledge packageID (kb_QuestionShares kb ! i) answer (parts ! i)"
    using create_facts [OF c demo_knowledge_laws] by blast
  have l: "length (kb_QuestionShares kb) = 3" using arg_cong [OF q, of length] by simp
  have own: "qs_Question (kb_QuestionShares kb ! i) = demo_question ([''a'', ''b'', ''c''] ! i)" if "i < 3" for i
  proof -
    have "map qs_Question (kb_QuestionShares kb) ! i = qs_Question (kb_QuestionShares kb ! i)"
      using l that by (intro nth_map) simp
    moreover have "map demo_question [''a'', ''b'', ''c''] ! i = demo_question ([''a'', ''b'', ''c''] ! i)"
      using that by (intro nth_map) simp
    ultimately show ?thesis unfolding q by (rule trans [OF sym])
  qed
  have k3: "k < 3" "qa_Answer (demo_questions ! k) = demo_answer" using k by (auto simp: demo_questions_def)
  then obtain answer where an: "normalizeAnswer demo_knowledge (qs_Question (kb_QuestionShares kb ! k)) demo_answer = Inr answer"
    "holds_part demo_q_crypto demo_knowledge packageID (kb_QuestionShares kb ! k) answer (parts ! k)"
    using h by auto
  then have "answer = demo_answer" using demo_answer_normal own [OF k3(1)] by simp
  moreover obtain salt ids where "rawURLDecode (qs_Salt (kb_QuestionShares kb ! k)) = Some salt"
    "featureIDs demo_q_crypto demo_knowledge (qs_Question (kb_QuestionShares kb ! k)) answer salt = Inr ids"
    using an(2) unfolding holds_part_def by blast
  ultimately have "15 \<le> shared_features demo_q_crypto demo_knowledge (kb_QuestionShares kb ! k) answer demo_answer"
    using featureIDs_set by (auto simp: shared_features_def distinct_card)
  moreover have "answerMap demo_attempts (kq_ID (qs_Question (kb_QuestionShares kb ! k))) = Some demo_answer"
    using own [OF k3(1)] k demo_attempts_map by (auto simp: demo_question_def)
  ultimately show ?thesis using an(1) k3(2) by auto
qed

section \<open>The guarantees at work\<close>



definition dash_knowledge :: knowledge where
  "dash_knowledge = demo_knowledge\<lparr>isPunct := (\<lambda>r. r = 45)\<rparr>"

definition dash_question :: KnowledgeQuestion where
  "dash_question = \<lparr>kq_ID = ''a'', kq_Prompt = ''p'', kq_CaseSensitive = True, kq_IgnorePunctuation = True\<rparr>"

text \<open>
  The answer is normalised once more when its features are locked, and only once when they are
  recovered; normalising is not idempotent, because punctuation is removed after the white space was
  collapsed.  An answer with punctuation that stands alone is locked as another text than the one
  its owner is checked against.
\<close>

theorem answer_normalised_twice:
  "normalizeAnswer dash_knowledge dash_question ''hello - worlds'' = Inr ''hello  worlds''
    \<and> normalizeAnswer dash_knowledge dash_question ''hello  worlds'' = Inr ''hello worlds''"
proof -
  have p: "isPunct dash_knowledge = (\<lambda>r. r = 45)" "nfkc dash_knowledge = (\<lambda>s. s)" by (simp_all add: dash_knowledge_def demo_knowledge_def)
  have f: "Fields ''hello - worlds'' = [''hello'', ''-'', ''worlds'']" "Fields ''hello  worlds'' = [''hello'', ''worlds'']"
    "Fields ''hello worlds'' = [''hello'', ''worlds'']"
    by code_simp+
  have m: "mapRunes (\<lambda>r. if r = 45 then None else Some r) ''hello - worlds'' = ''hello  worlds''"
    "mapRunes (\<lambda>r. if r = 45 then None else Some r) ''hello worlds'' = ''hello worlds''" by code_simp+
  have t: "trimSpace ''hello  worlds'' = ''hello  worlds''" "trimSpace ''hello worlds'' = ''hello worlds''" by code_simp+
  have l: "length (runes ''hello  worlds'') = 13" "length (runes ''hello worlds'') = 12" by code_simp+
  show ?thesis
    by (simp add: normalizeAnswer_def Let_def dash_question_def p f m t l check_def)
qed

end
