(* ===== verification/RecoveryEndToEnd.thy ===== *)
theory RecoveryEndToEnd
  imports RecoveryManager QuestionsDemo
begin

text \<open>
  From creating a recovery package (\<open>sdk/account/manager.go\<close>) to recovering the account from it, by
  questions or with the guardian.
\<close>

section \<open>The guardian\<close>

lemma guardian_opens:
  assumes "crypto_laws C" "marshal_laws J" "x25519_laws X" "length priv = 32"
    and "EncryptGuardianShare C J X share (xPublic X priv) random = Inr (capsule, random')"
  shows "DecryptGuardianShare C J X capsule priv = Inr share"
proof -
  obtain raw where v: "validateShare C J share = Inr raw" and role: "sh_Role share = ShareRoleGuardian"
    using assms(5) by (auto simp: EncryptGuardianShare_def result_simps is_ok_def split: sum.splits)
  obtain eph r1 where eph: "xGenerate X random = Some (eph, r1)"
    using assms(5) v role by (auto simp: EncryptGuardianShare_def result_simps split: option.splits)
  obtain shared where sh: "xShared X eph (xPublic X priv) = Some shared"
    using assms(5) v role eph by (auto simp: EncryptGuardianShare_def result_simps split: option.splits)
  obtain nonce ct where s: "sealBytes C (guardianKey C shared (sh_PackageID share) (sh_Checksum share)) (jsonShare J share)
        (guardianAAD (sh_PackageID share) (sh_Checksum share)) r1 = Inr (nonce, ct, random')"
    and c: "capsule = \<lparr>gc_Version = 1, gc_PackageID = sh_PackageID share, gc_ShareID = sh_Checksum share,
        gc_Algorithm = ''x25519-aes-256-gcm'', gc_EphemeralPublicKey = rawURLEncode (xPublic X eph),
        gc_Nonce = nonce, gc_Ciphertext = ct\<rparr>"
    and g: "validateGuardianCapsule capsule = Inr ()"
    using assms(5) v role eph sh by (auto simp: EncryptGuardianShare_def result_simps Let_def)
  have "length (xPublic X eph) = 32" "xShared X priv (xPublic X eph) = Some shared"
    using assms(3) sh by (simp_all add: x25519_laws_def)
  moreover have "jsonShareOf J (jsonShare J share) = Some share"
    using assms(2) validateShare_raw(4) [OF v] by (simp add: marshal_laws_def)
  ultimately show ?thesis
    unfolding DecryptGuardianShare_def g using sealBytes_open(1) [OF assms(1) s] assms(4) v role by (simp add: c)
qed

section \<open>What creation produces\<close>

lemma created_facts:
  assumes "CreateRecoveryPackageWithSecret C J K X bip39 now options random = Some (Inr (pkg, secret, rest))"
  shows "\<exists>backup packageID shares encrypted r0 r1 r2 r3. let locator = \<lparr>loc_Version = 1, loc_AccountID = co_AccountID options,
        loc_PackageID = packageID, loc_RecoveryMode = co_RecoveryMode options\<rparr> in
     NormalizeBackup bip39 (co_Backup options) = Inr backup
     \<and> splitSecret C J secret packageID (co_RecoveryMode options) r0 = Inr (shares, r1)
     \<and> encryptBackup C J secret locator backup r1 = Inr (encrypted, r2)
     \<and> rp_Envelope pkg = \<lparr>env_Version = 1, env_Locator = locator, env_EncryptedBackup = encrypted\<rparr>
     \<and> createKnowledgeRecovery C J K packageID (shares ! 1) (co_Questions options) r2
         = Some (Inr (rp_DKVSShareCapsule pkg, rp_KnowledgeBundle pkg, r3))
     \<and> rp_UserShare pkg = shares ! 0 \<and> ValidateRecoveryPackage C J pkg = Inr ()
     \<and> (co_RecoveryMode options = RecoveryMode2Of3 \<longrightarrow>
          (\<exists>capsule. rp_GuardianCapsule pkg = Some capsule
            \<and> EncryptGuardianShare C J X (shares ! 2) (co_GuardianPublicKey options) r3 = Inr (capsule, rest)))"
proof -
  have modes: "RecoveryMode2Of2 \<noteq> RecoveryMode2Of3" by (simp add: RecoveryMode2Of2_def RecoveryMode2Of3_def)
  show ?thesis
  proof (cases "co_RecoveryMode options = RecoveryMode2Of3")
    case True
    then show ?thesis using assms modes
      by (clarsimp simp: CreateRecoveryPackageWithSecret_def result_simps Let_def randomHex_def)
        (intro exI conjI, assumption+, (assumption | simp)+)
  next
    case False
    then show ?thesis using assms modes
      by (clarsimp simp: CreateRecoveryPackageWithSecret_def result_simps Let_def randomHex_def)
        (intro exI conjI, assumption+, (assumption | simp)+)
  qed
qed

lemma created_recovers:
  assumes C: "crypto_laws C" and J: "marshal_laws J"
    and e: "validateEnvelope env = Inr ()" "env_EncryptedBackup env = encrypted"
    and n: "NormalizeBackup bip39 b = Inr backup" "backup_utf8 backup"
    and s: "splitSecret C J secret packageID mode r0 = Inr (shares, r1)"
    and enc: "encryptBackup C J secret (env_Locator env) backup r1 = Inr (encrypted, r2)"
    and idx: "distinct idx" "set idx \<subseteq> {..<length shares}" "2 \<le> length idx"
  shows "RecoverAccount C J bip39 env (map (\<lambda>i. shares ! i) idx) = Inr (backup, secret)"
proof -
  have "NormalizeBackup bip39 backup = Inr backup" by (rule normal_backup_fixed [OF NormalizeBackup_normal [OF n(1)]])
  then have "decryptBackup C J bip39 secret (env_Locator env) encrypted = Inr backup"
    using encrypt_decrypt(1) [OF C J n(2) enc] by simp
  then show ?thesis
    using e shares_combine_eq [OF s idx] by (simp add: RecoverAccount_def)
qed

section \<open>The properties\<close>

text \<open>
  A guardian share survives its transport: what \<open>EncryptGuardianShare\<close> seals to a guardian's
  public key, \<open>DecryptGuardianShare\<close> opens with the guardian's private key, for every share, key and
  random source.
\<close>

theorem guardian_roundtrip:
  assumes "crypto_laws C" "marshal_laws J" "x25519_laws X" "length priv = 32"
    and "EncryptGuardianShare C J X share (xPublic X priv) random = Inr (capsule, random')"
  shows "DecryptGuardianShare C J X capsule priv = Inr share"
  by (rule guardian_opens [OF assms])


section \<open>A concrete recovery\<close>

definition pad32 :: "byte list \<Rightarrow> byte list" where
  "pad32 a = take 32 (a @ replicate 32 0)"

definition demo_x25519 :: x25519 where
  "demo_x25519 = \<lparr>xGenerate = (\<lambda>r. Some (replicate 32 7, r)), xPublic = pad32,
     xShared = (\<lambda>a p. Some (map2 (XOR) (pad32 a) p))\<rparr>"

lemma demo_x25519_laws: "x25519_laws demo_x25519"
proof -
  have "map2 (XOR) xs ys = map2 (XOR) ys (xs :: byte list)" for xs ys
    by (induction xs ys rule: list_induct2') (simp_all add: xor.commute)
  moreover have "length (pad32 a) = 32" for a by (auto simp: pad32_def min_def simp del: replicate.simps)
  ultimately show ?thesis by (simp add: x25519_laws_def demo_x25519_def)
qed

definition demo_options :: CreateOptions where
  "demo_options = \<lparr>co_AccountID = hexEncode (replicate 32 7), co_Backup = demo_backup,
     co_RecoveryMode = RecoveryMode2Of3, co_Questions = demo_questions,
     co_GuardianMailboxID = hexEncode (replicate 32 8), co_GuardianPublicKey = pad32 (replicate 32 1)\<rparr>"

definition demo_create_random :: "byte list" where
  "demo_create_random = replicate 16 3 @ replicate 32 5 @ replicate 32 9 @ replicate 12 0 @ demo_recovery_random
     @ replicate 12 0"

lemma sealBytes_succeeds:
  "length key = 32 \<Longrightarrow> \<exists>nonce ct. sealBytes C key p aad (replicate 12 0 @ rest) = Inr (nonce, ct, rest)"
  by (simp add: sealBytes_def gcmNonceSize_def readFull_def check_def del: replicate.simps)

lemma demo_key_length: "length (hkdfSHA256 demo_q_crypto s t u 32) = 32"
  by (rule hkdf_length) (simp add: demo_q_crypto_def)

lemma demo_encrypted:
  "\<exists>blob. encryptBackup demo_q_crypto demo_marshal secret l b (replicate 12 0 @ rest) = Inr (blob, rest)"
  using sealBytes_succeeds [OF demo_key_length, of demo_q_crypto secret "bytes_of (loc_PackageID l)"
      "bytes_of (''sat20-account-backup-v1|'' @ loc_AccountID l)" "jsonBackup demo_marshal b"
      "locatorAAD l ''sat20-account-backup-aad-v1''" rest]
  unfolding encryptBackup_def deriveBackupKey_def by (auto simp del: replicate.simps)

lemma guardian_sealed:
  assumes "is_ok (validateShare demo_q_crypto demo_marshal share)" "sh_Role share = ShareRoleGuardian"
    and "validHex (sh_PackageID share) 32" "validHex (sh_Checksum share) 16"
  shows "\<exists>capsule hash. EncryptGuardianShare demo_q_crypto demo_marshal demo_x25519 share (pad32 (replicate 32 1))
      (replicate 12 0) = Inr (capsule, []) \<and> HashGuardianCapsule demo_q_crypto demo_marshal capsule = Inr hash
      \<and> gc_ShareID capsule = sh_Checksum share"
proof -
  let ?C = demo_q_crypto
  obtain shared where sh: "xShared demo_x25519 (replicate 32 7) (pad32 (replicate 32 1)) = Some shared"
    by (simp add: demo_x25519_def)
  obtain nonce ct where s: "sealBytes ?C (guardianKey ?C shared (sh_PackageID share) (sh_Checksum share))
      (jsonShare demo_marshal share) (guardianAAD (sh_PackageID share) (sh_Checksum share)) (replicate 12 0) = Inr (nonce, ct, [])"
    using sealBytes_succeeds [where rest = "[]" and C = ?C] demo_key_length unfolding guardianKey_def append_Nil2 by blast
  have l: "length (xPublic demo_x25519 a) = 32" for a using demo_x25519_laws by (simp add: x25519_laws_def)
  then have "xPublic demo_x25519 (replicate 32 7) \<noteq> []" by (metis list.size(3) zero_neq_numeral)
  then have v: "validateGuardianCapsule \<lparr>gc_Version = 1, gc_PackageID = sh_PackageID share, gc_ShareID = sh_Checksum share,
        gc_Algorithm = ''x25519-aes-256-gcm'', gc_EphemeralPublicKey = rawURLEncode (xPublic demo_x25519 (replicate 32 7)),
        gc_Nonce = nonce, gc_Ciphertext = ct\<rparr> = Inr ()"
    using assms(3,4) sealBytes_open(2,3) [OF demo_q_crypto_laws s] by (simp add: validateGuardianCapsule_def)
  moreover have "length (pad32 (replicate 32 1)) = 32" using l [of "replicate 32 1"] by (simp add: demo_x25519_def)
  moreover have "xGenerate demo_x25519 (replicate 12 0) = Some (replicate 32 7, replicate 12 0)" by (simp add: demo_x25519_def)
  ultimately show ?thesis
    using assms(1,2) sh s unfolding EncryptGuardianShare_def by (simp add: HashGuardianCapsule_def del: replicate.simps)
qed

lemma demo_normalized_utf8: "backup_utf8 demo_normalized"
  by code_simp

lemma demo_created:
  obtains pkg secret where "CreateRecoveryPackageWithSecret demo_q_crypto demo_marshal demo_knowledge demo_x25519
      (\<lambda>m. m = ''a b'') 0 demo_options demo_create_random = Some (Inr (pkg, secret, []))"
    "map qs_Question (kb_QuestionShares (rp_KnowledgeBundle pkg)) = map demo_question [''a'', ''b'', ''c'']"
proof -
  let ?C = demo_q_crypto and ?J = demo_marshal and ?K = demo_knowledge
  let ?l = "\<lparr>loc_Version = 1, loc_AccountID = hexEncode (replicate 32 7), loc_PackageID = demo_package,
      loc_RecoveryMode = RecoveryMode2Of3\<rparr>"
  have r: "readFull ErrReadRandom n (replicate n b @ rest) = Inr (replicate n b, rest)" for n b and rest :: "byte list"
    by (simp add: readFull_def)
  have pid: "validHex demo_package 32" by (simp add: demo_package_def del: replicate.simps)
  obtain shares where s: "splitSecret ?C ?J (replicate 32 5) demo_package RecoveryMode2Of3
      (replicate 32 9 @ replicate 12 0 @ demo_recovery_random @ replicate 12 0)
      = Inr (shares, replicate 12 0 @ demo_recovery_random @ replicate 12 0)"
    using splitSecret_succeeds [of ?C demo_package "replicate 32 5"
        "replicate 32 9 @ replicate 12 0 @ demo_recovery_random @ replicate 12 0" RecoveryMode2Of3 ?J] pid
    by (auto simp: demo_q_crypto_def demo_crypto_def simp del: replicate.simps)
  obtain tot where tot: "length shares = nat tot" "tot = 3"
    and sh: "\<forall>i<length shares. (\<exists>raw. validateShare ?C ?J (shares ! i) = Inr raw) \<and> sh_PackageID (shares ! i) = demo_package
        \<and> sh_Total (shares ! i) = of_int tot \<and> sh_Index (shares ! i) = of_nat (i + 1)"
    using splitSecret_facts [OF s] by blast
  have role: "sh_Role (shares ! i) = expectedRole 3 (of_nat (i + 1))" "is_ok (validateShare ?C ?J (shares ! i))"
    "sh_PackageID (shares ! i) = demo_package" "validHex (sh_Checksum (shares ! i)) 16" if i: "i < 3" for i
  proof -
    obtain raw where v: "validateShare ?C ?J (shares ! i) = Inr raw" using sh tot i by auto
    show "sh_Role (shares ! i) = expectedRole 3 (of_nat (i + 1))" using validateShare_raw(5) [OF v] sh tot i by simp
    show "is_ok (validateShare ?C ?J (shares ! i))" by (simp add: v is_ok_def)
    show "sh_PackageID (shares ! i) = demo_package" using sh tot i by simp
    show "validHex (sh_Checksum (shares ! i)) 16" using v by (auto simp: validateShare_def result_simps split: option.splits)
  qed
  obtain encrypted where enc: "encryptBackup ?C ?J (replicate 32 5) ?l demo_normalized
      (replicate 12 0 @ demo_recovery_random @ replicate 12 0) = Inr (encrypted, demo_recovery_random @ replicate 12 0)"
    using demo_encrypted by blast
  obtain capsule kb where kn: "createKnowledgeRecovery ?C ?J ?K demo_package (shares ! 1) demo_questions
      (demo_recovery_random @ replicate 12 0) = Some (Inr (capsule, kb, replicate 12 0))"
    "map qs_Question (kb_QuestionShares kb) = map demo_question [''a'', ''b'', ''c'']"
    using demo_create by blast
  have kf: "dc_Version capsule = 1" "dc_PackageID capsule = demo_package" "kb_PackageID kb = demo_package"
    using create_facts [OF kn(1) demo_knowledge_laws] by auto
  obtain gcap ghash where g: "EncryptGuardianShare ?C ?J demo_x25519 (shares ! 2) (pad32 (replicate 32 1)) (replicate 12 0)
      = Inr (gcap, [])" "HashGuardianCapsule ?C ?J gcap = Inr ghash" "gc_ShareID gcap = sh_Checksum (shares ! 2)"
    using guardian_sealed [of "shares ! 2"] role [of 2] pid by (auto simp: expectedRole_def)
  let ?env = "\<lparr>env_Version = 1, env_Locator = ?l, env_EncryptedBackup = encrypted\<rparr>"
  have e: "validateEnvelope ?env = Inr ()"
    using encrypt_decrypt(2) [OF demo_q_crypto_laws demo_marshal_laws demo_normalized_utf8 enc] pid
    by (simp add: validateEnvelope_def ValidateLocator_def del: replicate.simps)
  obtain hash where h: "HashEnvelope (sha256 ?C) (jsonEnvelope ?J) ?env = Inr hash" "validHex hash 64"
    using e by (simp add: HashEnvelope_def canonicalHash_def demo_q_crypto_def demo_crypto_def del: replicate.simps)
  have "randomHex demo_create_random 16
      = Inr (demo_package, replicate 32 5 @ replicate 32 9 @ replicate 12 0 @ demo_recovery_random @ replicate 12 0)"
    using r unfolding randomHex_def demo_create_random_def demo_package_def by simp
  moreover have "validHex (hexEncode (replicate 32 7)) 64" "validHex (hexEncode (replicate 32 8)) 64"
    "length (pad32 (replicate 32 1)) = 32" "length demo_questions = 3"
    by (simp_all add: pad32_def demo_questions_def del: replicate.simps)
  ultimately show ?thesis
    using r [of 32 5] s enc kn(1) g e h that kn(2) role pid tot kf
    by (simp add: CreateRecoveryPackageWithSecret_def demo_options_def ocheck_def demo_normalize_backup
        knowledgeQuestionCount_def accountSecretSize_def Let_def ValidateRecoveryPackage_def validateManifest_def expectedRole_def
        del: replicate.simps hexEncode.simps)
qed

section \<open>The guarantees at work\<close>

lemma demo_guardian_share:
  obtains share where "is_ok (validateShare demo_q_crypto demo_marshal share)" "sh_Role share = ShareRoleGuardian"
    "validHex (sh_PackageID share) 32" "validHex (sh_Checksum share) 16"
proof -
  have "\<exists>s. newRecoveryShare demo_q_crypto demo_marshal demo_package 3 3 (replicate 32 5 @ [3]) = Inr s"
    by (rule newRecoveryShare_succeeds) (simp_all add: demo_q_crypto_def demo_crypto_def demo_package_def
        del: hexEncode.simps replicate.simps)
  then obtain s where s: "newRecoveryShare demo_q_crypto demo_marshal demo_package 3 3 (replicate 32 5 @ [3]) = Inr s" ..
  note N = newRecoveryShare_ok [OF s]
  have "sh_Role s = ShareRoleGuardian" using validateShare_raw(5) [OF N(1)] N(3,5) by (simp add: expectedRole_def)
  moreover have "validHex (sh_PackageID s) 32 \<and> validHex (sh_Checksum s) 16"
    using N(1) by (auto simp: validateShare_def result_simps split: option.splits)
  ultimately show ?thesis by (intro that [of s]) (simp_all add: N(1) del: replicate.simps)
qed

theorem guardian_roundtrip_witness:
  "\<exists>share capsule. EncryptGuardianShare demo_q_crypto demo_marshal demo_x25519 share (pad32 (replicate 32 1))
      (replicate 12 0) = Inr (capsule, [])
    \<and> DecryptGuardianShare demo_q_crypto demo_marshal demo_x25519 capsule (replicate 32 1) = Inr share"
proof -
  obtain share where sh: "is_ok (validateShare demo_q_crypto demo_marshal share)" "sh_Role share = ShareRoleGuardian"
    "validHex (sh_PackageID share) 32" "validHex (sh_Checksum share) 16"
    by (rule demo_guardian_share)
  obtain capsule where c: "EncryptGuardianShare demo_q_crypto demo_marshal demo_x25519 share (pad32 (replicate 32 1))
      (replicate 12 0) = Inr (capsule, [])"
    using guardian_sealed [OF sh] by blast
  then have "EncryptGuardianShare demo_q_crypto demo_marshal demo_x25519 share (xPublic demo_x25519 (replicate 32 1))
      (replicate 12 0) = Inr (capsule, [])"
    by (simp add: demo_x25519_def del: replicate.simps)
  then have "DecryptGuardianShare demo_q_crypto demo_marshal demo_x25519 capsule (replicate 32 1) = Inr share"
    by (intro guardian_roundtrip [OF demo_q_crypto_laws demo_marshal_laws demo_x25519_laws]) simp
  then show ?thesis using c by blast
qed


end
