(* ===== verification/StorageProperties.thy ===== *)
theory StorageProperties
  imports RecoveryStorage RecoveryEndToEnd
begin

text \<open>
  The compact records of guardian capsules and recovery packages: what is stored is read back, and
  what is read back is a valid package.
\<close>

section \<open>Hexadecimal and base64 fields\<close>

lemma hexDigit_hexVal:
  assumes "hexVal c = Some n" "lowerChar c = c"
  shows "hexDigit n = c" "n < 16"
proof -
  define k :: nat where "k = of_char c"
  have c: "c = char_of k" by (simp add: k_def)
  have "k < 256" by (simp add: k_def)
  have "\<not> (65 \<le> k \<and> k \<le> 90)"
  proof
    assume k: "65 \<le> k \<and> k \<le> 90"
    then have "char_of (k + 32) = c" using assms(2) by (simp add: lowerChar_def k_def [symmetric])
    then have "of_char (char_of (k + 32) :: char) = k" by (simp add: k_def)
    then show False using k by simp
  qed
  then have n: "n < 10 \<and> k = n + 48 \<or> 10 \<le> n \<and> n < 16 \<and> k = n + 87"
    using assms(1) by (auto simp: hexVal_def Let_def k_def [symmetric] split: if_splits)
  then show "n < 16" by auto
  then have "of_char (hexDigit n) = k"
    by (rule hexDigit_cases [elim_format]) (use n in \<open>elim insertE emptyE; simp add: hexDigit_def\<close>)
  then show "hexDigit n = c" by (simp add: k_def)
qed

lemma hexEncode_hexDecode: "hexDecode s = Some bs \<Longrightarrow> toLower s = s \<Longrightarrow> hexEncode bs = s"
proof (induction s arbitrary: bs rule: hexDecode.induct)
  case (3 c d s)
  then obtain x y t where xy: "hexVal c = Some x" "hexVal d = Some y" "hexDecode s = Some t" "bs = of_nat (16 * x + y) # t"
    by (auto split: option.splits)
  have l: "lowerChar c = c" "lowerChar d = d" "toLower s = s" using 3(3) by (simp_all add: toLower_def)
  have h: "x < 16" "y < 16" "hexDigit x = c" "hexDigit y = d"
    using hexDigit_hexVal [OF xy(1) l(1)] hexDigit_hexVal [OF xy(2) l(2)] by auto
  then have "unat (of_nat (16 * x + y) :: byte) = 16 * x + y"
    by (simp add: unat_of_nat take_bit_eq_mod del: of_nat_add of_nat_mult)
  then show ?case using 3(1) [OF xy(3) l(3)] h xy(4) by simp
qed simp_all

lemma validHex_bytes:
  assumes "validHex s n"
  shows "hexEncode (hexBytes s) = s" "n = 2 * length (hexBytes s)"
proof -
  obtain bs where "hexDecode s = Some bs" "toLower s = s" "length s = n" using assms by (auto simp: validHex_def)
  then show "hexEncode (hexBytes s) = s" "n = 2 * length (hexBytes s)"
    using hexEncode_hexDecode [of s bs] length_hexDecode [of s bs] by (auto simp: hexBytes_def)
qed

text \<open>A text that the storage keeps: the raw URL base64 of some bytes, as \<open>EncodeToString\<close> writes it.\<close>

definition canonical64 :: "string \<Rightarrow> bool" where
  "canonical64 t = (case rawURLDecode t of None \<Rightarrow> False | Some bs \<Rightarrow> rawURLEncode bs = t)"

lemma canonical64_encode [simp]: "canonical64 (rawURLEncode bs)"
  by (simp add: canonical64_def)

lemma decode64: "decodeRecoveryBase64 t = Inr bs \<Longrightarrow> canonical64 t \<Longrightarrow> encodeRecoveryBase64 bs = t"
  by (auto simp: decodeRecoveryBase64_def encodeRecoveryBase64_def canonical64_def result_simps split: option.splits)

section \<open>Runs of writers and readers\<close>

lemma puts_Cons [result_simps]: "puts (w # ws) = Inr bs \<longleftrightarrow> (\<exists>e es. w = Some e \<and> puts ws = Inr es \<and> bs = e @ es)"
  by (cases w) (auto simp: result_simps)

lemma take_st_Some [simp]: "take_st (Some x) = Inr x"
  by (simp add: take_st_def)

lemma take_st_eq [result_simps]: "take_st m = Inr x \<longleftrightarrow> m = Some x"
  by (cases m) (simp_all add: take_st_def)

lemma weak_calls:
  "m = m' \<Longrightarrow> rbind m f = rbind m' f" "c = c' \<Longrightarrow> check c e m = check c' e m"
  by simp_all

lemma st_raw: "strict_laws S \<Longrightarrow> stRaw S x = Some e \<Longrightarrow> length x = n \<Longrightarrow> stRawOf S n (e @ r) = Some (x, r)"
  by (auto simp: strict_laws_def)

lemma st_codes:
  assumes "strict_laws S"
  shows "stU8 S b = Some e \<Longrightarrow> stU8Of S (e @ r) = Some (b, r)"
    "stU64 S w = Some e \<Longrightarrow> stU64Of S (e @ r) = Some (w, r)"
    "stBool S p = Some e \<Longrightarrow> stBoolOf S (e @ r) = Some (p, r)"
    "stBytes S x lo hi = Some e \<Longrightarrow> stBytesOf S lo hi (e @ r) = Some (x, r)"
    "stString S t lo hi = Some e \<Longrightarrow> stStringOf S lo hi (e @ r) = Some (t, r)"
    "stLength S n hi = Some e \<Longrightarrow> stLengthOf S hi (e @ r) = Some (n, r)"
  using assms by (simp_all add: strict_laws_def)

section \<open>Guardian capsules\<close>

definition canonical_capsule :: "GuardianShareCapsule \<Rightarrow> bool" where
  "canonical_capsule g = (list_all canonical64 [gc_EphemeralPublicKey g, gc_Nonce g, gc_Ciphertext g])"

lemma magic_lengths [simp]: "length recoveryStorageMagic = 4" "length guardianStorageMagic = 4"
  by (simp_all add: recoveryStorageMagic_def guardianStorageMagic_def bytes_of_def)

lemma capsule_storage:
  assumes S: "strict_laws S" and c: "canonical_capsule g" and e: "EncodeGuardianCapsuleStorage S g = Inr value"
  shows "DecodeGuardianCapsuleStorage S value = Inr g"
proof -
  obtain epk nonce ct e1 e2 e3 e4 e5 e6 e7 where
    v: "validateGuardianCapsule g = Inr ()"
    and b: "decodeRecoveryBase64 (gc_EphemeralPublicKey g) = Inr epk" "decodeRecoveryBase64 (gc_Nonce g) = Inr nonce"
      "decodeRecoveryBase64 (gc_Ciphertext g) = Inr ct"
    and w: "stRaw S guardianStorageMagic = Some e1" "stU8 S recoveryStorageCodecVersion = Some e2"
      "stRaw S (hexBytes (gc_PackageID g)) = Some e3" "stString S (gc_ShareID g) 1 128 = Some e4"
      "stBytes S epk 32 32 = Some e5" "stBytes S nonce 1 64 = Some e6" "stBytes S ct 1 MaxRecoveryObjectSize = Some e7"
    and vl: "value = e1 @ e2 @ e3 @ e4 @ e5 @ e6 @ e7"
    using e by (auto simp: EncodeGuardianCapsuleStorage_def result_simps)
  have g: "gc_Version g = 1" "validHex (gc_PackageID g) 32" "gc_Algorithm g = ''x25519-aes-256-gcm''"
    using v by (simp_all add: validateGuardianCapsule_def result_simps)
  have t: "encodeRecoveryBase64 epk = gc_EphemeralPublicKey g" "encodeRecoveryBase64 nonce = gc_Nonce g"
    "encodeRecoveryBase64 ct = gc_Ciphertext g" "hexEncode (hexBytes (gc_PackageID g)) = gc_PackageID g"
    using b c decode64 validHex_bytes [OF g(2)] by (simp_all add: canonical_capsule_def)
  have rec: "\<lparr>gc_Version = 1, gc_PackageID = gc_PackageID g, gc_ShareID = gc_ShareID g,
      gc_Algorithm = ''x25519-aes-256-gcm'', gc_EphemeralPublicKey = gc_EphemeralPublicKey g, gc_Nonce = gc_Nonce g,
      gc_Ciphertext = gc_Ciphertext g\<rparr> = g"
    using g(1,3) by (cases g) simp
  have n: "length (hexBytes (gc_PackageID g)) = 16" using validHex_bytes(2) [OF g(2)] by simp
  note r = st_raw [OF S w(1)] st_codes(1) [OF S w(2)] st_raw [OF S w(3)] st_codes(5) [OF S w(4)]
    st_codes(4) [OF S w(5)] st_codes(4) [OF S w(6)] st_codes(4) [OF S w(7), of "[]", unfolded append_Nil2]
  show ?thesis
    unfolding DecodeGuardianCapsuleStorage_def vl
    by (simp add: r n t rec v Let_def del: One_nat_def cong: weak_calls)
qed


section \<open>Recovery packages\<close>

definition canonical_question :: "EncryptedQuestionShare \<Rightarrow> bool" where
  "canonical_question q = (list_all canonical64 [qs_Salt q, qs_Nonce q, qs_Ciphertext q])"

lemma question_storage:
  assumes S: "strict_laws S" and c: "canonical_question q" and e: "encodeQuestionShare S q = Inr bytes"
  shows "decodeQuestionShare S (bytes @ rest) = Inr (q, rest)"
proof -
  obtain salt nonce ct e1 e2 e3 e4 e5 e6 e7 e8 where
    b: "decodeRecoveryBase64 (qs_Salt q) = Inr salt" "decodeRecoveryBase64 (qs_Nonce q) = Inr nonce"
      "decodeRecoveryBase64 (qs_Ciphertext q) = Inr ct"
    and w: "stString S (kq_ID (qs_Question q)) 1 128 = Some e1" "stString S (kq_Prompt (qs_Question q)) 1 2048 = Some e2"
      "stBool S (kq_CaseSensitive (qs_Question q)) = Some e3" "stBool S (kq_IgnorePunctuation (qs_Question q)) = Some e4"
      "stBytes S salt 1 64 = Some e5" "stBytes S (qs_Vault q) 1 MaxRecoveryObjectSize = Some e6"
      "stBytes S nonce 1 64 = Some e7" "stBytes S ct 1 MaxRecoveryObjectSize = Some e8"
    and vl: "bytes = e1 @ e2 @ e3 @ e4 @ e5 @ e6 @ e7 @ e8"
    using e by (auto simp: encodeQuestionShare_def result_simps)
  have t: "encodeRecoveryBase64 salt = qs_Salt q" "encodeRecoveryBase64 nonce = qs_Nonce q"
    "encodeRecoveryBase64 ct = qs_Ciphertext q"
    using b c decode64 by (simp_all add: canonical_question_def)
  note r = st_codes(5) [OF S w(1)] st_codes(5) [OF S w(2)] st_codes(3) [OF S w(3)] st_codes(3) [OF S w(4)]
    st_codes(4) [OF S w(5)] st_codes(4) [OF S w(6)] st_codes(4) [OF S w(7)] st_codes(4) [OF S w(8)]
  show ?thesis
    unfolding decodeQuestionShare_def vl by (simp add: r t del: One_nat_def cong: weak_calls)
qed

lemma questions_storage:
  assumes S: "strict_laws S" and "list_all canonical_question qs" "rmap (encodeQuestionShare S) qs = Inr bytes"
  shows "read_n (decodeQuestionShare S) (length qs) (concat bytes @ rest) = Inr (qs, rest)"
  using assms(2,3)
proof (induction qs arbitrary: bytes)
  case (Cons q qs)
  then obtain b bs where "encodeQuestionShare S q = Inr b" "rmap (encodeQuestionShare S) qs = Inr bs" "bytes = b # bs"
    by (auto simp: result_simps)
  then show ?case using Cons question_storage [OF S _ \<open>encodeQuestionShare S q = Inr b\<close>] by simp
qed simp

lemma guardian_reference_storage:
  assumes S: "strict_laws S" and e: "encodeGuardianReference S g = Inr bytes"
    and g: "\<And>x. g = Some x \<Longrightarrow> validHex (gr_MailboxID x) 64 \<and> validHex (gr_CapsuleHash x) 64"
  shows "decodeGuardianReference S (g \<noteq> None) (bytes @ rest) = Inr (g, rest)"
proof (cases g)
  case (Some x)
  then obtain e1 e2 e3 where
    w: "stRaw S (hexBytes (gr_MailboxID x)) = Some e1" "stString S (gr_ShareID x) 1 128 = Some e2"
      "stRaw S (hexBytes (gr_CapsuleHash x)) = Some e3"
    and b: "bytes = e1 @ e2 @ e3"
    using e by (auto simp: encodeGuardianReference_def result_simps)
  have h: "hexEncode (hexBytes (gr_MailboxID x)) = gr_MailboxID x" "length (hexBytes (gr_MailboxID x)) = 32"
    "hexEncode (hexBytes (gr_CapsuleHash x)) = gr_CapsuleHash x" "length (hexBytes (gr_CapsuleHash x)) = 32"
    using validHex_bytes [of "gr_MailboxID x" 64] validHex_bytes [of "gr_CapsuleHash x" 64] g [OF Some] by auto
  note r = st_raw [OF S w(1) h(2)] st_codes(5) [OF S w(2)] st_raw [OF S w(3) h(4)]
  show ?thesis unfolding decodeGuardianReference_def b
    using Some by (simp add: r h del: One_nat_def cong: weak_calls)
qed (use e in \<open>simp add: encodeGuardianReference_def decodeGuardianReference_def\<close>)


text \<open>The record of a package that the storage keeps: it has no user share and no guardian capsule.\<close>

definition stored_package :: "RecoveryPackage \<Rightarrow> RecoveryPackage" where
  "stored_package p = p\<lparr>rp_UserShare := zeroShare, rp_GuardianCapsule := None\<rparr>"

definition canonical_package :: "RecoveryPackage \<Rightarrow> bool" where
  "canonical_package p =
     (list_all canonical64 [eb_Nonce (env_EncryptedBackup (rp_Envelope p)), eb_Ciphertext (env_EncryptedBackup (rp_Envelope p)),
        dc_Nonce (rp_DKVSShareCapsule p), dc_Ciphertext (rp_DKVSShareCapsule p)]
      \<and> list_all canonical_question (kb_QuestionShares (rp_KnowledgeBundle p))
      \<and> 0 \<le> mf_CreatedAt (rp_Manifest p) \<and> mf_CreatedAt (rp_Manifest p) < 2 ^ 63)"

lemma validateStored_facts:
  assumes "validateStoredRecoveryPackage C J p = Inr ()"
  shows "validateEnvelope (rp_Envelope p) = Inr ()" "env_Version (rp_Envelope p) = 1"
    "loc_Version (env_Locator (rp_Envelope p)) = 1"
    "validHex (loc_AccountID (env_Locator (rp_Envelope p))) 64" "validHex (loc_PackageID (env_Locator (rp_Envelope p))) 32"
    "loc_RecoveryMode (env_Locator (rp_Envelope p)) \<in> {RecoveryMode2Of2, RecoveryMode2Of3}"
    "eb_Algorithm (env_EncryptedBackup (rp_Envelope p)) = ''aes-256-gcm''"
    "mf_Version (rp_Manifest p) = 1" "mf_Locator (rp_Manifest p) = env_Locator (rp_Envelope p)"
    "mf_Threshold (rp_Manifest p) = 2"
    "mf_Total (rp_Manifest p) = (if loc_RecoveryMode (env_Locator (rp_Envelope p)) = RecoveryMode2Of3 then 3 else 2)"
    "HashEnvelope (sha256 C) (jsonEnvelope J) (rp_Envelope p) = Inr (mf_EnvelopeHash (rp_Manifest p))"
    "dc_Version (rp_DKVSShareCapsule p) = 1"
    "dc_PackageID (rp_DKVSShareCapsule p) = loc_PackageID (env_Locator (rp_Envelope p))"
    "dc_Algorithm (rp_DKVSShareCapsule p) = ''aes-256-gcm''"
    "kb_Version (rp_KnowledgeBundle p) = 1" "kb_PackageID (rp_KnowledgeBundle p) = loc_PackageID (env_Locator (rp_Envelope p))"
    "kb_Threshold (rp_KnowledgeBundle p) = 2"
    "unat (kb_Total (rp_KnowledgeBundle p)) = length (kb_QuestionShares (rp_KnowledgeBundle p))"
    "kb_QuestionShares (rp_KnowledgeBundle p) \<noteq> []"
    "length (kb_QuestionShares (rp_KnowledgeBundle p)) \<le> maxRecoveryQuestions"
    "loc_RecoveryMode (env_Locator (rp_Envelope p)) = RecoveryMode2Of3 \<longleftrightarrow> mf_Guardian (rp_Manifest p) \<noteq> None"
    "mf_Guardian (rp_Manifest p) = Some g \<Longrightarrow> validHex (gr_MailboxID g) 64 \<and> validHex (gr_CapsuleHash g) 64"
proof -
  have e: "validateEnvelope (rp_Envelope p) = Inr ()" and m: "validateManifest (rp_Manifest p) (env_Locator (rp_Envelope p)) = Inr ()"
    using assms by (simp_all add: validateStoredRecoveryPackage_def Let_def result_simps)
  show "validateEnvelope (rp_Envelope p) = Inr ()" by (fact e)
  show "env_Version (rp_Envelope p) = 1" "loc_Version (env_Locator (rp_Envelope p)) = 1"
    "validHex (loc_AccountID (env_Locator (rp_Envelope p))) 64" "validHex (loc_PackageID (env_Locator (rp_Envelope p))) 32"
    and mode: "loc_RecoveryMode (env_Locator (rp_Envelope p)) \<in> {RecoveryMode2Of2, RecoveryMode2Of3}"
    and "eb_Algorithm (env_EncryptedBackup (rp_Envelope p)) = ''aes-256-gcm''"
    using e by (auto simp: validateEnvelope_def ValidateLocator_def validateEncryptedBlob_def result_simps)
  show "mf_Version (rp_Manifest p) = 1" "mf_Locator (rp_Manifest p) = env_Locator (rp_Envelope p)"
    "mf_Threshold (rp_Manifest p) = 2"
    "mf_Total (rp_Manifest p) = (if loc_RecoveryMode (env_Locator (rp_Envelope p)) = RecoveryMode2Of3 then 3 else 2)"
    using m by (auto simp: validateManifest_def Let_def result_simps)
  show "HashEnvelope (sha256 C) (jsonEnvelope J) (rp_Envelope p) = Inr (mf_EnvelopeHash (rp_Manifest p))"
    "dc_Version (rp_DKVSShareCapsule p) = 1"
    "dc_PackageID (rp_DKVSShareCapsule p) = loc_PackageID (env_Locator (rp_Envelope p))"
    "dc_Algorithm (rp_DKVSShareCapsule p) = ''aes-256-gcm''"
    "kb_Version (rp_KnowledgeBundle p) = 1" "kb_PackageID (rp_KnowledgeBundle p) = loc_PackageID (env_Locator (rp_Envelope p))"
    "kb_Threshold (rp_KnowledgeBundle p) = 2"
    "unat (kb_Total (rp_KnowledgeBundle p)) = length (kb_QuestionShares (rp_KnowledgeBundle p))"
    "kb_QuestionShares (rp_KnowledgeBundle p) \<noteq> []"
    "length (kb_QuestionShares (rp_KnowledgeBundle p)) \<le> maxRecoveryQuestions"
    using assms by (auto simp: validateStoredRecoveryPackage_def Let_def result_simps)
  show "loc_RecoveryMode (env_Locator (rp_Envelope p)) = RecoveryMode2Of3 \<longleftrightarrow> mf_Guardian (rp_Manifest p) \<noteq> None"
    using assms mode by (auto simp: validateStoredRecoveryPackage_def Let_def result_simps RecoveryMode2Of2_def RecoveryMode2Of3_def)
  show "mf_Guardian (rp_Manifest p) = Some g \<Longrightarrow> validHex (gr_MailboxID g) 64 \<and> validHex (gr_CapsuleHash g) 64"
    using assms by (auto simp: validateStoredRecoveryPackage_def Let_def result_simps)
qed


lemma stored_record:
  assumes v: "validateStoredRecoveryPackage C J p = Inr ()" and mode: "mode = loc_RecoveryMode (env_Locator (rp_Envelope p))"
    and len: "length (kb_QuestionShares (rp_KnowledgeBundle p)) = n"
  shows "\<lparr>rp_Envelope = \<lparr>env_Version = 1, env_Locator = \<lparr>loc_Version = 1,
            loc_AccountID = loc_AccountID (env_Locator (rp_Envelope p)), loc_PackageID = loc_PackageID (env_Locator (rp_Envelope p)),
            loc_RecoveryMode = mode\<rparr>,
          env_EncryptedBackup = \<lparr>eb_Algorithm = ''aes-256-gcm'', eb_Nonce = eb_Nonce (env_EncryptedBackup (rp_Envelope p)),
            eb_Ciphertext = eb_Ciphertext (env_EncryptedBackup (rp_Envelope p))\<rparr>\<rparr>,
        rp_Manifest = \<lparr>mf_Version = 1, mf_Locator = \<lparr>loc_Version = 1,
            loc_AccountID = loc_AccountID (env_Locator (rp_Envelope p)), loc_PackageID = loc_PackageID (env_Locator (rp_Envelope p)),
            loc_RecoveryMode = mode\<rparr>, mf_Threshold = 2, mf_Total = (if mode = RecoveryMode2Of3 then 3 else 2),
          mf_EnvelopeHash = mf_EnvelopeHash (rp_Manifest p), mf_CreatedAt = mf_CreatedAt (rp_Manifest p),
          mf_Guardian = mf_Guardian (rp_Manifest p)\<rparr>,
        rp_UserShare = zeroShare,
        rp_DKVSShareCapsule = \<lparr>dc_Version = 1, dc_PackageID = loc_PackageID (env_Locator (rp_Envelope p)),
          dc_Algorithm = ''aes-256-gcm'', dc_Nonce = dc_Nonce (rp_DKVSShareCapsule p),
          dc_Ciphertext = dc_Ciphertext (rp_DKVSShareCapsule p)\<rparr>,
        rp_KnowledgeBundle = \<lparr>kb_Version = 1, kb_PackageID = loc_PackageID (env_Locator (rp_Envelope p)), kb_Threshold = 2,
          kb_Total = of_nat n, kb_QuestionShares = kb_QuestionShares (rp_KnowledgeBundle p)\<rparr>,
        rp_GuardianCapsule = None\<rparr> = stored_package p" (is "?package = _")
    and "\<lparr>env_Version = 1, env_Locator = \<lparr>loc_Version = 1,
            loc_AccountID = loc_AccountID (env_Locator (rp_Envelope p)), loc_PackageID = loc_PackageID (env_Locator (rp_Envelope p)),
            loc_RecoveryMode = mode\<rparr>,
          env_EncryptedBackup = \<lparr>eb_Algorithm = ''aes-256-gcm'', eb_Nonce = eb_Nonce (env_EncryptedBackup (rp_Envelope p)),
            eb_Ciphertext = eb_Ciphertext (env_EncryptedBackup (rp_Envelope p))\<rparr>\<rparr> = rp_Envelope p" (is "?envelope = _")
proof -
  note F = validateStored_facts [OF v]
  have "of_nat n = (of_nat (unat (kb_Total (rp_KnowledgeBundle p))) :: byte)" using F(19) len by simp
  then have k: "kb_Total (rp_KnowledgeBundle p) = of_nat n" by simp
  have loc: "\<lparr>loc_Version = 1, loc_AccountID = loc_AccountID (env_Locator (rp_Envelope p)),
      loc_PackageID = loc_PackageID (env_Locator (rp_Envelope p)), loc_RecoveryMode = mode\<rparr> = env_Locator (rp_Envelope p)"
    using F(3) mode by simp
  show e: "?envelope = rp_Envelope p"
    unfolding loc using F(2,7) by (intro Envelope.equality EncryptedBlob.equality) simp_all
  show "?package = stored_package p"
    unfolding e unfolding loc stored_package_def
    using F(8-11) F(13-18) k mode by (cases p; cases "rp_Manifest p"; cases "rp_DKVSShareCapsule p"; cases "rp_KnowledgeBundle p") simp
qed


lemma package_storage:
  assumes S: "strict_laws S" and c: "canonical_package p" and e: "EncodeRecoveryPackageStorage C J S p = Inr value"
  shows "DecodeRecoveryPackageStorage C J S value = Inr (stored_package p)"
proof -
  let ?l = "env_Locator (rp_Envelope p)" and ?eb = "env_EncryptedBackup (rp_Envelope p)" and ?dc = "rp_DKVSShareCapsule p"
    and ?qs = "kb_QuestionShares (rp_KnowledgeBundle p)" and ?g = "mf_Guardian (rp_Manifest p)" and ?t = "mf_CreatedAt (rp_Manifest p)"
  obtain n1 c1 n2 c2 reference questions e1 e2 e3 e4 e5 e6 e7 e8 e9 e10 e11 e12 where
    v: "validateStoredRecoveryPackage C J p = Inr ()"
    and b: "decodeRecoveryBase64 (eb_Nonce ?eb) = Inr n1" "decodeRecoveryBase64 (eb_Ciphertext ?eb) = Inr c1"
      "decodeRecoveryBase64 (dc_Nonce ?dc) = Inr n2" "decodeRecoveryBase64 (dc_Ciphertext ?dc) = Inr c2"
    and w: "stRaw S recoveryStorageMagic = Some e1" "stU8 S recoveryStorageCodecVersion = Some e2"
      "stRaw S (hexBytes (loc_AccountID ?l)) = Some e3" "stRaw S (hexBytes (loc_PackageID ?l)) = Some e4"
      "stU8 S (recoveryModeCode (loc_RecoveryMode ?l)) = Some e5" "stBytes S n1 1 64 = Some e6"
      "stBytes S c1 1 MaxRecoveryObjectSize = Some e7" "stU64 S (word_of_int ?t) = Some e8" "stBool S (?g \<noteq> None) = Some e9"
      "stBytes S n2 1 64 = Some e10" "stBytes S c2 1 MaxRecoveryObjectSize = Some e11"
      "stLength S (length ?qs) maxRecoveryQuestions = Some e12"
    and g: "encodeGuardianReference S ?g = Inr reference" and q: "rmap (encodeQuestionShare S) ?qs = Inr questions"
    and vl: "value = e1 @ e2 @ e3 @ e4 @ e5 @ e6 @ e7 @ e8 @ e9 @ reference @ e10 @ e11 @ e12 @ concat questions"
    and len: "length value \<le> MaxRecoveryObjectSize"
    using e unfolding EncodeRecoveryPackageStorage_def Let_def result_simps by auto
  note F = validateStored_facts [OF v]
  have t: "encodeRecoveryBase64 n1 = eb_Nonce ?eb" "encodeRecoveryBase64 c1 = eb_Ciphertext ?eb"
    "encodeRecoveryBase64 n2 = dc_Nonce ?dc" "encodeRecoveryBase64 c2 = dc_Ciphertext ?dc"
    using b c decode64 by (simp_all add: canonical_package_def)
  have h: "hexEncode (hexBytes (loc_AccountID ?l)) = loc_AccountID ?l" "length (hexBytes (loc_AccountID ?l)) = 32"
    "hexEncode (hexBytes (loc_PackageID ?l)) = loc_PackageID ?l" "length (hexBytes (loc_PackageID ?l)) = 16"
    using validHex_bytes [OF F(4)] validHex_bytes [OF F(5)] by simp_all
  have m: "recoveryModeFromCode (recoveryModeCode (loc_RecoveryMode ?l)) = Inr (loc_RecoveryMode ?l)"
    using F(6) by (auto simp: recoveryModeFromCode_def recoveryModeCode_def RecoveryMode2Of2_def RecoveryMode2Of3_def)
  have at: "uint (word_of_int ?t :: 64 word) = ?t" "\<not> 9223372036854775808 \<le> unat (word_of_int ?t :: 64 word)"
    using c by (auto simp: canonical_package_def uint_word_of_int unat_eq_nat_uint nat_le_iff le_nat_iff)
  have gs: "decodeGuardianReference S (?g \<noteq> None) (reference @ r) = Inr (?g, r)" for r
    by (rule guardian_reference_storage [OF S g]) (rule F(23))
  have qs: "read_n (decodeQuestionShare S) (length ?qs) (concat questions) = Inr (?qs, [])"
    using questions_storage [OF S _ q, of "[]"] c by (simp add: canonical_package_def)
  have "e2 \<noteq> []" using S w(2) by (auto simp: strict_laws_def)
  then have ne: "\<not> (value = [] \<or> MaxRecoveryObjectSize < length value)" using vl len by auto
  have sv: "validateStoredRecoveryPackage C J (stored_package p) = Inr ()"
    using v by (simp add: validateStoredRecoveryPackage_def stored_package_def)
  note en = stored_record(2) [OF v refl refl]
  note pk = stored_record(1) [OF v refl refl, unfolded en]
  note r = st_raw [OF S w(1) magic_lengths(1)] st_codes(1) [OF S w(2)] st_raw [OF S w(3) h(2)] st_raw [OF S w(4) h(4)]
    st_codes(1) [OF S w(5)] st_codes(4) [OF S w(6)] st_codes(4) [OF S w(7)] st_codes(2) [OF S w(8)] st_codes(3) [OF S w(9)]
    st_codes(4) [OF S w(10)] st_codes(4) [OF S w(11)] st_codes(6) [OF S w(12)]
  show ?thesis
    unfolding DecodeRecoveryPackageStorage_def if_not_P [OF ne] check_def [of "value = [] \<or> _"] unfolding vl
    by (simp add: r gs qs t h(1,3) m at F(20) F(12) en pk sv Let_def
        del: One_nat_def not_None_eq cong: weak_calls split del: if_split)
qed


section \<open>What creation stores\<close>

lemma sealed_canonical:
  assumes "sealBytes C key plaintext aad random = Inr (nonce, ciphertext, random')"
  shows "canonical64 nonce" "canonical64 ciphertext"
  using assms by (auto simp: sealBytes_def result_simps)


lemma question_canonical:
  "lock_question C K packageID q answer part random = Some (Inr (entry, rest)) \<Longrightarrow> canonical_question entry"
  by (auto simp: lock_question_def result_simps canonical_question_def dest: sealed_canonical)

lemma question_loop_canonical:
  "question_loop C K packageID seen inputs random = Some (Inr (entries, rest)) \<Longrightarrow> list_all canonical_question entries"
proof (induction inputs arbitrary: seen random entries rest)
  case (Cons inp inputs)
  obtain input part where inp: "inp = (input, part)" by fastforce
  define q where "q = (qa_Question input)\<lparr>kq_ID := normalizeSpace (kq_ID (qa_Question input)),
            kq_Prompt := normalizeSpace (kq_Prompt (qa_Question input))\<rparr>"
  obtain answer entry r1 es where "lock_question C K packageID q answer part random = Some (Inr (entry, r1))"
    and "question_loop C K packageID (kq_ID q # seen) inputs r1 = Some (Inr (es, rest))" "entries = entry # es"
    using Cons.prems unfolding inp question_loop.simps Let_def q_def [symmetric] by (auto simp: result_simps)
  then show ?case using Cons.IH question_canonical by simp
qed simp

lemma knowledge_canonical:
  assumes "createKnowledgeRecovery C J K packageID dkvsShare questions random = Some (Inr (capsule, bundle, rest))"
  shows "canonical64 (dc_Nonce capsule)" "canonical64 (dc_Ciphertext capsule)" "dc_Algorithm capsule = ''aes-256-gcm''"
    "list_all canonical_question (kb_QuestionShares bundle)"
  using assms by (auto simp: createKnowledgeRecovery_def result_simps dest: sealed_canonical question_loop_canonical)

lemma created_manifest:
  assumes "CreateRecoveryPackageWithSecret C J K X bip39 now options random = Some (Inr (pkg, secret, rest))"
  shows "mf_CreatedAt (rp_Manifest pkg) = now"
    "co_RecoveryMode options \<noteq> RecoveryMode2Of3 \<longrightarrow> mf_Guardian (rp_Manifest pkg) = None"
    "co_RecoveryMode options = RecoveryMode2Of3 \<longrightarrow> validHex (co_GuardianMailboxID options) 64 \<and>
       (\<exists>capsule hash. HashGuardianCapsule C J capsule = Inr hash \<and> mf_Guardian (rp_Manifest pkg) = Some
         \<lparr>gr_MailboxID = co_GuardianMailboxID options, gr_ShareID = gc_ShareID capsule, gr_CapsuleHash = hash\<rparr>)"
  using assms by (auto simp: CreateRecoveryPackageWithSecret_def result_simps Let_def randomHex_def split: if_splits)

lemma created_canonical:
  assumes c: "CreateRecoveryPackageWithSecret C J K X bip39 now options random = Some (Inr (pkg, secret, rest))"
    and now: "0 \<le> now" "now < 2 ^ 63"
  shows "canonical_package pkg"
proof -
  obtain packageID shares r2 r3 encrypted locator backup r1 where
    kn: "createKnowledgeRecovery C J K packageID (shares ! 1) (co_Questions options) r2
         = Some (Inr (rp_DKVSShareCapsule pkg, rp_KnowledgeBundle pkg, r3))"
    and enc: "encryptBackup C J secret locator backup r1 = Inr (encrypted, r2)" "env_EncryptedBackup (rp_Envelope pkg) = encrypted"
    using created_facts [OF c] unfolding Let_def by fastforce
  have "canonical64 (eb_Nonce encrypted)" "canonical64 (eb_Ciphertext encrypted)"
    using enc(1) by (auto simp: encryptBackup_def result_simps dest: sealed_canonical)
  then show ?thesis using knowledge_canonical [OF kn] enc(2) now created_manifest(1) [OF c]
    by (simp add: canonical_package_def)
qed

lemma created_stored_valid:
  assumes C: "crypto_laws C" "\<And>m. length (sha256 C m) = 32" and K: "knowledge_laws K"
    and c: "CreateRecoveryPackageWithSecret C J K X bip39 now options random = Some (Inr (pkg, secret, rest))"
  shows "validateStoredRecoveryPackage C J pkg = Inr ()"
proof -
  obtain packageID shares r2 r3 locator where
    kn: "createKnowledgeRecovery C J K packageID (shares ! 1) (co_Questions options) r2
         = Some (Inr (rp_DKVSShareCapsule pkg, rp_KnowledgeBundle pkg, r3))"
    and l: "locator = \<lparr>loc_Version = 1, loc_AccountID = co_AccountID options,
        loc_PackageID = packageID, loc_RecoveryMode = co_RecoveryMode options\<rparr>"
    and env: "env_Locator (rp_Envelope pkg) = locator" and v: "ValidateRecoveryPackage C J pkg = Inr ()"
    using created_facts [OF c] unfolding Let_def by fastforce
  have m: "loc_RecoveryMode (env_Locator (rp_Envelope pkg)) = co_RecoveryMode options"
    "loc_PackageID (env_Locator (rp_Envelope pkg)) = packageID" by (simp_all add: env l)
  obtain kDKVS dshare r4 where k: "dc_Version (rp_DKVSShareCapsule pkg) = 1" "kb_Version (rp_KnowledgeBundle pkg) = 1"
    "dc_PackageID (rp_DKVSShareCapsule pkg) = packageID" "kb_PackageID (rp_KnowledgeBundle pkg) = packageID"
    "kb_Threshold (rp_KnowledgeBundle pkg) = 2" "kb_Total (rp_KnowledgeBundle pkg) = 3"
    "length (kb_QuestionShares (rp_KnowledgeBundle pkg)) = 3"
    "sealBytes C kDKVS dshare (dkvsCapsuleAAD packageID) r4
        = Inr (dc_Nonce (rp_DKVSShareCapsule pkg), dc_Ciphertext (rp_DKVSShareCapsule pkg), r3)"
    using create_facts [OF kn K] by blast
  note s = sealBytes_open(2,3) [OF C(1) k(8)] and a = knowledge_canonical(3) [OF kn]
  have v': "validateEnvelope (rp_Envelope pkg) = Inr ()" "validateManifest (rp_Manifest pkg) (env_Locator (rp_Envelope pkg)) = Inr ()"
    "HashEnvelope (sha256 C) (jsonEnvelope J) (rp_Envelope pkg) = Inr (mf_EnvelopeHash (rp_Manifest pkg))"
    using v by (auto simp: ValidateRecoveryPackage_def Let_def result_simps)
  have g: "validHex (gr_MailboxID g) 64 \<and> validHex (gr_CapsuleHash g) 64 \<and> gr_ShareID g \<noteq> ''''"
    if "mf_Guardian (rp_Manifest pkg) = Some g" for g
    using that created_manifest(2,3) [OF c] C(2)
    by (cases "co_RecoveryMode options = RecoveryMode2Of3")
      (auto simp: HashGuardianCapsule_def canonicalHash_def validateGuardianCapsule_def validHex_def [of _ 16] result_simps)
  have r: "mf_Guardian (rp_Manifest pkg) = None \<longleftrightarrow> co_RecoveryMode options \<noteq> RecoveryMode2Of3"
    using created_manifest(2,3) [OF c] by auto
  have "kb_QuestionShares (rp_KnowledgeBundle pkg) \<noteq> []" using k(7) by auto
  then show ?thesis
    using v' k(1-7) s a g r
    by (auto simp: validateStoredRecoveryPackage_def Let_def m maxRecoveryQuestions_def RecoveryMode2Of2_def RecoveryMode2Of3_def
        split: option.split)
qed


section \<open>What decoding accepts\<close>

lemma decoded_question:
  "decodeQuestionShare S r = Inr (q, r') \<Longrightarrow> canonical_question q"
  unfolding decodeQuestionShare_def
  by (auto simp: result_simps canonical_question_def encodeRecoveryBase64_def)

lemma decoded_questions:
  "read_n (decodeQuestionShare S) n r = Inr (qs, r') \<Longrightarrow> list_all canonical_question qs"
  by (induction n arbitrary: r qs r') (auto simp: result_simps dest: decoded_question)

text \<open>What holds of the result of a call that succeeds, one rule for each way calls are sequenced.\<close>

definition post :: "'e + 'a \<Rightarrow> ('a \<Rightarrow> bool) \<Rightarrow> bool" where
  "post m P = (\<forall>a. m = Inr a \<longrightarrow> P a)"

lemma post_call: "(\<And>a. m = Inr a \<Longrightarrow> post (f a) P) \<Longrightarrow> post (rbind m f) P"
  by (auto simp: post_def result_simps)

lemma post_call2: "(\<And>x y. m = Inr (x, y) \<Longrightarrow> post (f x y) P) \<Longrightarrow> post (rbind m (\<lambda>(x, y). f x y)) P"
  by (auto simp: post_def result_simps)

lemma post_drop2: "(\<And>x y. post (f x y) P) \<Longrightarrow> post (rbind m (\<lambda>(x, y). f x y)) P"
  by (auto simp: post_def result_simps)

lemma post_check: "(\<not> c \<Longrightarrow> post m P) \<Longrightarrow> post (check c e m) P"
  by (simp add: post_def result_simps)

lemma post_Inr: "P a \<Longrightarrow> post (Inr a) P"
  by (simp add: post_def)

lemma created_bound: "unat t < 9223372036854775808 \<Longrightarrow> uint t < 9223372036854775808" for t :: "64 word"
  unfolding uint_nat by linarith

lemma decoded_package:
  assumes "DecodeRecoveryPackageStorage C J S value = Inr p"
  shows "validateStoredRecoveryPackage C J p = Inr ()" "canonical_package p" "stored_package p = p"
    "length value \<le> MaxRecoveryObjectSize"
proof -
  have "post (DecodeRecoveryPackageStorage C J S value) (\<lambda>p. validateStoredRecoveryPackage C J p = Inr () \<and> canonical_package p
      \<and> stored_package p = p \<and> length value \<le> MaxRecoveryObjectSize)"
    unfolding DecodeRecoveryPackageStorage_def Let_def
    by (rule post_check post_call2 [of "read_n _ _ _"] post_drop2 post_call post_Inr)+
      (simp add: stored_package_def canonical_package_def encodeRecoveryBase64_def decoded_questions created_bound not_le)
  then show "validateStoredRecoveryPackage C J p = Inr ()" "canonical_package p" "stored_package p = p"
    "length value \<le> MaxRecoveryObjectSize"
    using assms by (simp_all add: post_def)
qed


section \<open>The properties\<close>

text \<open>
  C27: Storing a recovery package loses only what is meant to stay out of it: whatever package
  \<open>EncodeRecoveryPackageStorage\<close> takes, \<open>DecodeRecoveryPackageStorage\<close> returns it without the user's
  share and the guardian's capsule, provided its texts are base64 as the wallet writes it and its time
  is not negative.
\<close>

theorem stored_package_read_back:
  assumes "strict_laws S" "canonical_package p" "EncodeRecoveryPackageStorage C J S p = Inr value"
  shows "DecodeRecoveryPackageStorage C J S value = Inr (stored_package p)"
  by (rule package_storage [OF assms])

text \<open>
  The capsule of a guardian's share is read back from its record unchanged.
\<close>

theorem guardian_capsule_read_back:
  assumes "strict_laws S" "canonical_capsule g" "EncodeGuardianCapsuleStorage S g = Inr value"
  shows "DecodeGuardianCapsuleStorage S value = Inr g"
  by (rule capsule_storage [OF assms])


text \<open>
  C28: Only well-formed packages come out of the storage: whatever bytes a decode accepts, the package
  is valid, its envelope has the hash its manifest names, it has between 1 and 16 questions, a
  guardian exactly in the 2-of-3 mode, canonical texts, a time that is not negative, and no user
  share.
\<close>

theorem decoded_package_wellformed:
  assumes "DecodeRecoveryPackageStorage C J S value = Inr p"
  shows "validateStoredRecoveryPackage C J p = Inr () \<and> canonical_package p \<and> rp_UserShare p = zeroShare
    \<and> HashEnvelope (sha256 C) (jsonEnvelope J) (rp_Envelope p) = Inr (mf_EnvelopeHash (rp_Manifest p))
    \<and> length (kb_QuestionShares (rp_KnowledgeBundle p)) \<in> {1..16}
    \<and> (loc_RecoveryMode (env_Locator (rp_Envelope p)) = RecoveryMode2Of3 \<longleftrightarrow> mf_Guardian (rp_Manifest p) \<noteq> None)"
proof -
  note D = decoded_package [OF assms]
  note F = validateStored_facts [OF D(1)]
  have "rp_UserShare p = zeroShare" using D(3) by (metis RecoveryPackage.ext_inject RecoveryPackage.surjective
      RecoveryPackage.update_convs(3) RecoveryPackage.update_convs(6) stored_package_def)
  then show ?thesis using D(1,2) F(12,20,21,22) by (simp add: maxRecoveryQuestions_def Suc_le_eq)
qed

section \<open>A store\<close>

text \<open>A strict encoding: lengths in unary before every text.\<close>

definition demo_put :: "byte list \<Rightarrow> nat \<Rightarrow> nat \<Rightarrow> byte list option" where
  "demo_put x lo hi = (if lo \<le> length x \<and> length x \<le> hi then Some (putUnary (length x) @ x) else None)"

definition demo_get :: "nat \<Rightarrow> nat \<Rightarrow> reader \<Rightarrow> (byte list \<times> reader) option" where
  "demo_get lo hi r = (case unary r of Inl _ \<Rightarrow> None
     | Inr (n, r) \<Rightarrow> if lo \<le> n \<and> n \<le> hi \<and> n \<le> length r then Some (take n r, drop n r) else None)"

definition demo_strict :: strict where
  "demo_strict = \<lparr>stRaw = Some, stRawOf = (\<lambda>n r. if n \<le> length r then Some (take n r, drop n r) else None),
     stU8 = (\<lambda>b. Some [b]), stU8Of = (\<lambda>r. case r of [] \<Rightarrow> None | b # r \<Rightarrow> Some (b, r)),
     stU64 = (\<lambda>w. Some (putUnary (unat w))),
     stU64Of = (\<lambda>r. case unary r of Inl _ \<Rightarrow> None | Inr (n, r) \<Rightarrow> Some (of_nat n, r)),
     stBool = (\<lambda>b. Some [if b then 1 else 0]), stBoolOf = (\<lambda>r. case r of [] \<Rightarrow> None | b # r \<Rightarrow> Some (b = 1, r)),
     stBytes = demo_put, stBytesOf = demo_get,
     stString = (\<lambda>s. demo_put (bytes_of s)), stStringOf = (\<lambda>lo hi r. map_option (\<lambda>(b, r). (string_of b, r)) (demo_get lo hi r)),
     stLength = (\<lambda>n hi. if n \<le> hi then Some (putUnary n) else None),
     stLengthOf = (\<lambda>hi r. case unary r of Inl _ \<Rightarrow> None | Inr (n, r) \<Rightarrow> if n \<le> hi then Some (n, r) else None)\<rparr>"

lemma demo_get_put: "demo_put x lo hi = Some e \<Longrightarrow> demo_get lo hi (e @ r) = Some (x, r)"
  by (auto simp: demo_put_def demo_get_def demo_nat.dec_enc split: if_splits)

lemma demo_strict_laws: "strict_laws demo_strict"
  by (auto simp: strict_laws_def demo_strict_def demo_nat.dec_enc demo_get_put split: if_splits)


definition demo_stored :: RecoveryPackage where
  "demo_stored =
     (let l = \<lparr>loc_Version = 1, loc_AccountID = hexEncode (replicate 32 7), loc_PackageID = hexEncode (replicate 16 3),
            loc_RecoveryMode = RecoveryMode2Of3\<rparr>
      in \<lparr>rp_Envelope = \<lparr>env_Version = 1, env_Locator = l, env_EncryptedBackup =
            \<lparr>eb_Algorithm = ''aes-256-gcm'', eb_Nonce = rawURLEncode [1], eb_Ciphertext = rawURLEncode [2, 3]\<rparr>\<rparr>,
          rp_Manifest = \<lparr>mf_Version = 1, mf_Locator = l, mf_Threshold = 2, mf_Total = 3,
            mf_EnvelopeHash = hexEncode (replicate 32 0), mf_CreatedAt = 5, mf_Guardian = Some
              \<lparr>gr_MailboxID = hexEncode (replicate 32 8), gr_ShareID = ''00ff00ff00ff00ff'', gr_CapsuleHash = hexEncode (replicate 32 9)\<rparr>\<rparr>,
          rp_UserShare = zeroShare\<lparr>sh_Index := 1\<rparr>,
          rp_DKVSShareCapsule = \<lparr>dc_Version = 1, dc_PackageID = hexEncode (replicate 16 3), dc_Algorithm = ''aes-256-gcm'',
            dc_Nonce = rawURLEncode [4], dc_Ciphertext = rawURLEncode [5]\<rparr>,
          rp_KnowledgeBundle = \<lparr>kb_Version = 1, kb_PackageID = hexEncode (replicate 16 3), kb_Threshold = 2, kb_Total = 1,
            kb_QuestionShares = [\<lparr>qs_Question = demo_question ''a'', qs_Salt = rawURLEncode [6], qs_Vault = [7],
              qs_Nonce = rawURLEncode [8], qs_Ciphertext = rawURLEncode [9]\<rparr>]\<rparr>,
          rp_GuardianCapsule = None\<rparr>)"

lemma decode64_encode [simp]: "bs \<noteq> [] \<Longrightarrow> decodeRecoveryBase64 (rawURLEncode bs) = Inr bs"
  by (simp add: decodeRecoveryBase64_def)

lemma demo_stored_canonical: "canonical_package demo_stored"
  by (simp add: demo_stored_def canonical_package_def canonical_question_def Let_def del: rawURLEncode.simps hexEncode.simps)

lemma demo_stored_valid: "validateStoredRecoveryPackage demo_q_crypto demo_marshal demo_stored = Inr ()"
  by (simp add: demo_stored_def validateStoredRecoveryPackage_def Let_def validateEnvelope_def ValidateLocator_def
      validateEncryptedBlob_def validateManifest_def HashEnvelope_def canonicalHash_def demo_q_crypto_def demo_crypto_def
      maxRecoveryQuestions_def RecoveryMode2Of2_def RecoveryMode2Of3_def del: hexEncode.simps replicate.simps)

lemma demo_encoded: "\<exists>value. EncodeRecoveryPackageStorage demo_q_crypto demo_marshal demo_strict demo_stored = Inr value"
  using demo_stored_valid
  by (simp add: EncodeRecoveryPackageStorage_def demo_stored_def Let_def encodeGuardianReference_def encodeQuestionShare_def
      demo_strict_def demo_put_def demo_question_def MaxRecoveryObjectSize_def maxRecoveryQuestions_def putUnary_def
      bytes_of_def recoveryStorageMagic_def del: rawURLEncode.simps hexEncode.simps replicate.simps)

theorem stored_package_read_back_witness:
  "\<exists>value. EncodeRecoveryPackageStorage demo_q_crypto demo_marshal demo_strict demo_stored = Inr value
    \<and> DecodeRecoveryPackageStorage demo_q_crypto demo_marshal demo_strict value = Inr (stored_package demo_stored)"
  using stored_package_read_back [OF demo_strict_laws demo_stored_canonical] demo_encoded by blast

theorem decoded_package_wellformed_witness:
  "\<exists>vl p. DecodeRecoveryPackageStorage demo_q_crypto demo_marshal demo_strict vl = Inr p
    \<and> rp_UserShare p = zeroShare \<and> length (kb_QuestionShares (rp_KnowledgeBundle p)) \<in> {1..16}"
proof -
  obtain vl where "EncodeRecoveryPackageStorage demo_q_crypto demo_marshal demo_strict demo_stored = Inr vl"
    using demo_encoded by blast
  note d = package_storage [OF demo_strict_laws demo_stored_canonical this]
  show ?thesis using decoded_package_wellformed [OF d] d by blast
qed

definition demo_guardian_capsule :: GuardianShareCapsule where
  "demo_guardian_capsule = \<lparr>gc_Version = 1, gc_PackageID = hexEncode (replicate 16 3), gc_ShareID = hexEncode (replicate 8 4),
     gc_Algorithm = ''x25519-aes-256-gcm'', gc_EphemeralPublicKey = rawURLEncode (replicate 32 5),
     gc_Nonce = rawURLEncode [6], gc_Ciphertext = rawURLEncode [7]\<rparr>"

theorem guardian_capsule_read_back_witness:
  "\<exists>value. EncodeGuardianCapsuleStorage demo_strict demo_guardian_capsule = Inr value
    \<and> DecodeGuardianCapsuleStorage demo_strict value = Inr demo_guardian_capsule"
proof -
  have v: "validateGuardianCapsule demo_guardian_capsule = Inr ()"
    by (simp add: validateGuardianCapsule_def demo_guardian_capsule_def replicate_eq_replicate
        del: rawURLEncode.simps hexEncode.simps replicate.simps)
  have "\<exists>value. EncodeGuardianCapsuleStorage demo_strict demo_guardian_capsule = Inr value"
    unfolding EncodeGuardianCapsuleStorage_def v
    by (simp add: demo_guardian_capsule_def demo_strict_def demo_put_def MaxRecoveryObjectSize_def bytes_of_def
        del: rawURLEncode.simps hexEncode.simps replicate.simps)
  moreover have "canonical_capsule demo_guardian_capsule"
    by (simp add: canonical_capsule_def demo_guardian_capsule_def del: rawURLEncode.simps)
  ultimately show ?thesis using guardian_capsule_read_back [OF demo_strict_laws] by blast
qed


end
