(* ===== verification/KeyValue.thy ===== *)
theory KeyValue
  imports Base64 "HOL-Library.AList" "HOL-Library.Sublist"
begin

text \<open>
  The key-value store under the wallet: the interface \<open>db.KVDB\<close> (declared outside the repository)
  as a record of operations, its contract as a locale, and the store the browser build provides,
  \<open>sdk/wallet/lightnode/kvdb.go\<close> on \<open>localStorage\<close>, with its write batches.
\<close>

section \<open>The interface\<close>

text \<open>
  The \<open>bool\<close> of a writing operation is \<open>False\<close> when it returns an error.  \<open>kvScan\<close> lists the pairs
  that \<open>BatchRead\<close> hands to its callback, in order.  \<open>kvFlush\<close> is the life of a write batch: it
  fails when creating, filling or flushing the batch fails.
\<close>

datatype batch_op = BPut string "byte list" | BDelete string

record 's kvdb =
  kvRead :: "string \<Rightarrow> 's \<Rightarrow> byte list option"
  kvWrite :: "string \<Rightarrow> byte list \<Rightarrow> 's \<Rightarrow> bool \<times> 's"
  kvDelete :: "string \<Rightarrow> 's \<Rightarrow> bool \<times> 's"
  kvScan :: "string \<Rightarrow> 's \<Rightarrow> (string \<times> byte list) list"
  kvFlush :: "batch_op list \<Rightarrow> 's \<Rightarrow> bool \<times> 's"

fun apply_op :: "batch_op \<Rightarrow> (string \<rightharpoonup> byte list) \<Rightarrow> (string \<rightharpoonup> byte list)" where
  "apply_op (BPut k v) m = m(k \<mapsto> v)"
| "apply_op (BDelete k) m = m(k := None)"

text \<open>
  The contract: the store is a map, a failed operation leaves it as it was, a batch takes effect as
  a whole and in the order of its calls, and a scan lists the keys with the prefix once each.
\<close>

locale kvdb_store =
  fixes D :: "'s kvdb" and content :: "'s \<Rightarrow> string \<rightharpoonup> byte list" and good :: "'s \<Rightarrow> bool"
  assumes read_content: "good s \<Longrightarrow> kvRead D k s = content s k"
    and write_content: "good s \<Longrightarrow> kvWrite D k v s = (ok, s') \<Longrightarrow>
      good s' \<and> content s' = (if ok then (content s)(k \<mapsto> v) else content s)"
    and delete_content: "good s \<Longrightarrow> kvDelete D k s = (ok, s') \<Longrightarrow>
      good s' \<and> content s' = (if ok then (content s)(k := None) else content s)"
    and scan_distinct: "good s \<Longrightarrow> distinct (map fst (kvScan D p s))"
    and scan_iff: "good s \<Longrightarrow> (k, v) \<in> set (kvScan D p s) \<longleftrightarrow> prefix p k \<and> content s k = Some v"
    and flush_content: "good s \<Longrightarrow> kvFlush D ops s = (ok, s') \<Longrightarrow>
      good s' \<and> content s' = (if ok then fold apply_op ops (content s) else content s)"

section \<open>base64.StdEncoding\<close>

definition toStd :: "char \<Rightarrow> char" where
  "toStd c = (if c = CHR ''-'' then CHR ''+'' else if c = CHR ''_'' then CHR ''/'' else c)"

definition ofStd :: "char \<Rightarrow> char" where
  "ofStd c = (if c = CHR ''+'' then CHR ''-'' else if c = CHR ''/'' then CHR ''_'' else c)"

definition stdEncode :: "byte list \<Rightarrow> string" where
  "stdEncode bs = (let s = map toStd (rawURLEncode bs)
     in s @ replicate (if length s mod 4 = 0 then 0 else 4 - length s mod 4) CHR ''='')"

text \<open>Up to two padding characters at the end.\<close>

definition stripPad :: "string \<Rightarrow> string" where
  "stripPad s = (if s \<noteq> [] \<and> last s = CHR ''=''
     then (let t = butlast s in if t \<noteq> [] \<and> last t = CHR ''='' then butlast t else t) else s)"

definition stdDecode :: "string \<Rightarrow> byte list option" where
  "stdDecode s =
     (let t = filter (\<lambda>c. \<not> b64Break c) s; u = stripPad t
      in if length t mod 4 \<noteq> 0 \<or> CHR ''-'' \<in> set u \<or> CHR ''_'' \<in> set u then None
         else rawURLDecode (map ofStd u))"

lemma sextets_mod: "length (sextets bs) mod 4 \<noteq> 1"
  by (induction bs rule: sextets.induct) simp_all

lemma b64_alphabet_std: "list_all (\<lambda>c. ofStd (toStd c) = c \<and> \<not> b64Break (toStd c) \<and> toStd c \<notin> {CHR ''-'', CHR ''_'', CHR ''=''})
    b64Alphabet"
  by (simp add: b64Alphabet_def b64Break_def toStd_def ofStd_def)

lemma b64Char_std:
  assumes "n < 64"
  shows "ofStd (toStd (b64Char n)) = b64Char n" "\<not> b64Break (toStd (b64Char n))"
    "toStd (b64Char n) \<notin> {CHR ''-'', CHR ''_'', CHR ''=''}"
  using b64_alphabet_std assms by (simp_all add: b64Char_def list_all_length b64_alphabet_length)

lemma stripPad_pad:
  assumes "CHR ''='' \<notin> set s" "n \<in> {0, 1, 2}"
  shows "stripPad (s @ replicate n CHR ''='') = s"
proof -
  have "s = [] \<or> last s \<noteq> CHR ''=''" using assms(1) last_in_set by metis
  then show ?thesis using assms(2) by (auto simp: stripPad_def butlast_append numeral_2_eq_2 Let_def)
qed

lemma stdDecode_encode [simp]: "stdDecode (stdEncode bs) = Some bs"
proof -
  let ?s = "map toStd (rawURLEncode bs)" and ?e = "CHR ''=''"
  have c: "\<forall>c\<in>set ?s. \<not> b64Break c \<and> c \<notin> {CHR ''-'', CHR ''_'', ?e}" and o: "map ofStd ?s = rawURLEncode bs"
    using b64Char_std sextets_small [of bs] by (auto simp: rawURLEncode_sextets)
  have m: "length ?s mod 4 \<noteq> 1" using sextets_mod [of bs] by (simp add: rawURLEncode_sextets)
  define n where "n = (if length ?s mod 4 = 0 then 0 else 4 - length ?s mod 4)"
  have n: "n \<in> {0, 1, 2}" "(length ?s + n) mod 4 = 0"
  proof -
    have "length ?s mod 4 \<in> {0, 2, 3}" using m by auto
    then show "n \<in> {0, 1, 2}" by (auto simp: n_def)
    show "(length ?s + n) mod 4 = 0" unfolding n_def by presburger
  qed
  have e: "stdEncode bs = ?s @ replicate n ?e" by (simp add: stdEncode_def Let_def n_def)
  have f: "filter (\<lambda>c. \<not> b64Break c) (stdEncode bs) = ?s @ replicate n ?e"
    using c unfolding e by (auto simp: filter_id_conv b64Break_def)
  have "stripPad (?s @ replicate n ?e) = ?s"
    by (rule stripPad_pad [OF _ n(1)]) (use c in auto)
  then show ?thesis
    using n(2) c o unfolding stdDecode_def f by auto
qed

section \<open>The browser store\<close>

text \<open>
  \<open>jsDB\<close> in a page: \<open>localStorage\<close> is the list of its items in the order of \<open>key(i)\<close>; a value is the
  base64 text of the bytes.  Writing and removing report no error.  Keys are text.
\<close>

type_synonym localStorage = "(string \<times> string) list"

definition js_Read :: "string \<Rightarrow> localStorage \<Rightarrow> byte list option" where
  "js_Read key db = Option.bind (map_of db key) stdDecode"

definition js_Write :: "string \<Rightarrow> byte list \<Rightarrow> localStorage \<Rightarrow> bool \<times> localStorage" where
  "js_Write key value db = (True, AList.update key (stdEncode value) db)"

definition js_Delete :: "string \<Rightarrow> localStorage \<Rightarrow> bool \<times> localStorage" where
  "js_Delete key db = (True, AList.delete key db)"

text \<open>\<open>BatchRead\<close> stops at a value that is not base64; the flag says whether it got to the end.\<close>

fun js_BatchRead :: "string \<Rightarrow> localStorage \<Rightarrow> (string \<times> byte list) list \<times> bool" where
  "js_BatchRead pfx [] = ([], True)"
| "js_BatchRead pfx ((key, text) # db) =
     (if prefix pfx key
      then (case stdDecode text of
              None \<Rightarrow> ([], False)
            | Some value \<Rightarrow> (let (pairs, done) = js_BatchRead pfx db in ((key, value) # pairs, done)))
      else js_BatchRead pfx db)"

text \<open>\<open>jsBatchWrite\<close>: the map of pending values and the list of pending deletions.\<close>

record js_batch =
  jb_batch :: "(string \<times> string) list"
  jb_deletions :: "string list"

definition js_NewWriteBatch :: js_batch where
  "js_NewWriteBatch = \<lparr>jb_batch = [], jb_deletions = []\<rparr>"

definition js_Put :: "string \<Rightarrow> byte list \<Rightarrow> js_batch \<Rightarrow> js_batch" where
  "js_Put key value b = b\<lparr>jb_batch := AList.update key (stdEncode value) (jb_batch b),
     jb_deletions := filter (\<lambda>k. k \<noteq> key) (jb_deletions b)\<rparr>"

definition js_BatchDelete :: "string \<Rightarrow> js_batch \<Rightarrow> js_batch" where
  "js_BatchDelete key b = b\<lparr>jb_batch := AList.delete key (jb_batch b),
     jb_deletions := (if key \<in> set (jb_deletions b) then jb_deletions b else jb_deletions b @ [key])\<rparr>"

definition js_Flush :: "js_batch \<Rightarrow> localStorage \<Rightarrow> localStorage" where
  "js_Flush b db = fold AList.delete (jb_deletions b) (fold (\<lambda>(key, text). AList.update key text) (jb_batch b) db)"

fun js_call :: "batch_op \<Rightarrow> js_batch \<Rightarrow> js_batch" where
  "js_call (BPut key value) = js_Put key value"
| "js_call (BDelete key) = js_BatchDelete key"

definition js_batch_write :: "batch_op list \<Rightarrow> localStorage \<Rightarrow> bool \<times> localStorage" where
  "js_batch_write ops db = (True, js_Flush (fold js_call ops js_NewWriteBatch) db)"

definition js_DropPrefix :: "string \<Rightarrow> localStorage \<Rightarrow> bool \<times> localStorage" where
  "js_DropPrefix pfx db =
     (case js_BatchRead pfx db of
        (pairs, False) \<Rightarrow> (False, db)
      | (pairs, True) \<Rightarrow> js_batch_write (map (\<lambda>(key, value). BDelete key) pairs) db)"

definition js_DropAll :: "localStorage \<Rightarrow> bool \<times> localStorage" where
  "js_DropAll db = js_DropPrefix '''' db"

definition jsDB :: "localStorage kvdb" where
  "jsDB = \<lparr>kvRead = js_Read, kvWrite = js_Write, kvDelete = js_Delete,
     kvScan = (\<lambda>pfx db. fst (js_BatchRead pfx db)), kvFlush = js_batch_write\<rparr>"

text \<open>The keys are distinct and every value is base64.\<close>

definition js_good :: "localStorage \<Rightarrow> bool" where
  "js_good db \<longleftrightarrow> distinct (map fst db) \<and> (\<forall>(key, text)\<in>set db. stdDecode text \<noteq> None)"

definition js_content :: "localStorage \<Rightarrow> string \<rightharpoonup> byte list" where
  "js_content db = (\<lambda>key. Option.bind (map_of db key) stdDecode)"

section \<open>The browser store keeps the contract\<close>

lemma js_good_iff: "js_good db \<longleftrightarrow> distinct (map fst db) \<and> (\<forall>key text. map_of db key = Some text \<longrightarrow> stdDecode text \<noteq> None)"
  by (auto simp: js_good_def)

lemma js_update:
  assumes "js_good db" "stdDecode text = Some value"
  shows "js_good (AList.update key text db)" "js_content (AList.update key text db) = (js_content db)(key \<mapsto> value)"
  using assms by (auto simp: js_good_iff js_content_def update_conv' distinct_update fun_eq_iff)

lemma js_delete:
  assumes "js_good db"
  shows "js_good (AList.delete key db)" "js_content (AList.delete key db) = (js_content db)(key := None)"
  using assms by (auto simp: js_good_iff js_content_def delete_conv' distinct_delete fun_eq_iff)

lemma js_scan:
  assumes "js_good db"
  shows "js_BatchRead pfx db = (map (\<lambda>(key, text). (key, the (stdDecode text))) (filter (\<lambda>(key, text). prefix pfx key) db), True)"
  using assms by (induction db) (auto simp: js_good_def)

definition batch_ok :: "js_batch \<Rightarrow> bool" where
  "batch_ok b \<longleftrightarrow> distinct (map fst (jb_batch b)) \<and> (\<forall>(key, text)\<in>set (jb_batch b). stdDecode text \<noteq> None)
     \<and> set (jb_deletions b) \<inter> fst ` set (jb_batch b) = {}"

definition batch_effect :: "js_batch \<Rightarrow> (string \<rightharpoonup> byte list) \<Rightarrow> (string \<rightharpoonup> byte list)" where
  "batch_effect b m = (\<lambda>key. if key \<in> set (jb_deletions b) then None
     else case map_of (jb_batch b) key of None \<Rightarrow> m key | Some text \<Rightarrow> stdDecode text)"

lemma set_update_pair: "(k', v') \<in> set (AList.update k v xs) \<Longrightarrow> (k', v') = (k, v) \<or> (k', v') \<in> set xs"
  by (induction xs) (auto split: if_splits)

lemma set_delete_pair: "x \<in> set (AList.delete k xs) \<Longrightarrow> x \<in> set xs"
  by (induction xs) (auto split: if_splits)

lemma batch_call:
  assumes "batch_ok b"
  shows "batch_ok (js_call op b)" "batch_effect (js_call op b) m = apply_op op (batch_effect b m)"
proof -
  show "batch_ok (js_call op b)"
  proof -
    have "stdDecode tx \<noteq> None" if "(key, tx) \<in> set (jb_batch (js_call op b))" for key tx
    proof (cases op)
      case (BPut k v)
      then have "(key, tx) \<in> set (AList.update k (stdEncode v) (jb_batch b))" using that by (simp add: js_Put_def)
      from set_update_pair [OF this] have "(key, tx) = (k, stdEncode v) \<or> (key, tx) \<in> set (jb_batch b)" .
      then show ?thesis using assms by (auto simp: batch_ok_def)
    next
      case (BDelete k)
      then have "(key, tx) \<in> set (AList.delete k (jb_batch b))" using that by (simp add: js_BatchDelete_def)
      from set_delete_pair [OF this] have "(key, tx) \<in> set (jb_batch b)" .
      then show ?thesis using assms by (auto simp: batch_ok_def)
    qed
    moreover have "distinct (map fst (jb_batch (js_call op b)))
        \<and> set (jb_deletions (js_call op b)) \<inter> fst ` set (jb_batch (js_call op b)) = {}"
      using assms by (cases op) (auto simp: batch_ok_def js_Put_def js_BatchDelete_def distinct_update distinct_delete
        update_conv' delete_conv' dom_map_of_conv_image_fst [symmetric])
    ultimately show ?thesis by (auto simp: batch_ok_def)
  qed
  show "batch_effect (js_call op b) m = apply_op op (batch_effect b m)"
    using assms by (cases op) (auto simp: batch_effect_def js_Put_def js_BatchDelete_def update_conv' delete_conv'
        fun_eq_iff split: option.splits)
qed

lemma batch_calls:
  "batch_ok b \<Longrightarrow> batch_ok (fold js_call ops b) \<and> batch_effect (fold js_call ops b) m = fold apply_op ops (batch_effect b m)"
proof (induction ops arbitrary: b)
  case (Cons op ops)
  show ?case using Cons.IH [OF batch_call(1) [OF Cons.prems, of op]] batch_call(2) [OF Cons.prems] by simp
qed simp

lemma js_set_items:
  assumes "js_good db" "\<forall>(key, text)\<in>set items. stdDecode text \<noteq> None" "distinct (map fst items)"
  shows "js_good (fold (\<lambda>(key, text). AList.update key text) items db) \<and>
    js_content (fold (\<lambda>(key, text). AList.update key text) items db)
      = (\<lambda>key. case map_of items key of None \<Rightarrow> js_content db key | Some text \<Rightarrow> stdDecode text)"
  using assms
proof (induction items arbitrary: db)
  case (Cons item items)
  obtain key tx v where i: "item = (key, tx)" "stdDecode tx = Some v"
    using Cons.prems(2) by (cases item) auto
  have "map_of items key = None" using Cons.prems(3) i by (auto simp: map_of_eq_None_iff)
  then show ?case
    using Cons.IH [OF js_update(1) [OF Cons.prems(1) i(2)]] js_update(2) [OF Cons.prems(1) i(2)] Cons.prems(2,3) i
    by (auto simp: fun_eq_iff split: option.splits)
qed (simp add: js_good_def)

lemma js_remove_items:
  "js_good db \<Longrightarrow> js_good (fold AList.delete keys db) \<and>
    js_content (fold AList.delete keys db) = (\<lambda>key. if key \<in> set keys then None else js_content db key)"
proof (induction keys arbitrary: db)
  case (Cons key keys)
  show ?case using Cons.IH [OF js_delete(1) [OF Cons.prems]] js_delete(2) [OF Cons.prems] by (auto simp: fun_eq_iff)
qed simp

lemma js_flush_effect:
  assumes "js_good db" "batch_ok b"
  shows "js_good (js_Flush b db)" "js_content (js_Flush b db) = batch_effect b (js_content db)"
proof -
  note S = js_set_items [OF assms(1), of "jb_batch b"]
  have "js_good (fold (\<lambda>(key, text). AList.update key text) (jb_batch b) db)" using S assms(2) by (simp add: batch_ok_def)
  from js_remove_items [OF this, of "jb_deletions b"] S assms(2)
  show "js_good (js_Flush b db)" "js_content (js_Flush b db) = batch_effect b (js_content db)"
    by (auto simp: js_Flush_def batch_effect_def batch_ok_def fun_eq_iff)
qed

lemma js_batch_write_content:
  assumes "js_good db" "js_batch_write ops db = (ok, db')"
  shows "ok" "js_good db'" "js_content db' = fold apply_op ops (js_content db)"
proof -
  have b: "batch_ok js_NewWriteBatch" "batch_effect js_NewWriteBatch m = m" for m
    by (simp_all add: batch_ok_def batch_effect_def js_NewWriteBatch_def)
  note F = batch_calls [OF b(1), of ops "js_content db", unfolded b(2)]
  show "ok" "js_good db'" "js_content db' = fold apply_op ops (js_content db)"
    using assms(2) F js_flush_effect [OF assms(1)] by (auto simp: js_batch_write_def)
qed

interpretation js: kvdb_store jsDB js_content js_good
proof
  fix s k v p ops ok s'
  assume g: "js_good s"
  show "kvRead jsDB k s = js_content s k" by (simp add: jsDB_def js_Read_def js_content_def)
  show "kvWrite jsDB k v s = (ok, s') \<Longrightarrow> js_good s' \<and> js_content s' = (if ok then (js_content s)(k \<mapsto> v) else js_content s)"
    using js_update [OF g stdDecode_encode] by (auto simp: jsDB_def js_Write_def)
  show "kvDelete jsDB k s = (ok, s') \<Longrightarrow> js_good s' \<and> js_content s' = (if ok then (js_content s)(k := None) else js_content s)"
    using js_delete [OF g] by (auto simp: jsDB_def js_Delete_def)
  show "distinct (map fst (kvScan jsDB p s))"
    using g by (auto simp: jsDB_def js_scan js_good_def distinct_map comp_def case_prod_unfold
        intro: distinct_filter inj_on_subset)
  show "(k, v) \<in> set (kvScan jsDB p s) \<longleftrightarrow> prefix p k \<and> js_content s k = Some v"
    using g by (auto simp: jsDB_def js_scan js_content_def js_good_def image_iff case_prod_unfold bind_eq_Some_conv
        dest: map_of_SomeD) (metis option.sel snd_conv)
  show "kvFlush jsDB ops s = (ok, s') \<Longrightarrow> js_good s' \<and> js_content s' = (if ok then fold apply_op ops (js_content s) else js_content s)"
    using js_batch_write_content [OF g, of ops ok s'] by (simp add: jsDB_def)
qed

section \<open>The properties\<close>

text \<open>
  A write batch of the browser store implements the calls made on it: whatever puts and deletions
  were collected, in whatever order and on the same keys, flushing leaves the contents that applying
  the calls one by one in their order would leave, and the store stays readable.
\<close>

theorem js_batch_in_order:
  assumes "js_good db"
  shows "js_content (snd (js_batch_write ops db)) = fold apply_op ops (js_content db)
    \<and> js_good (snd (js_batch_write ops db))"
  using js_batch_write_content [OF assms prod.collapse [symmetric]] by simp_all

text \<open>
  \<open>DropPrefix\<close> removes the keys with the prefix and no other; it succeeds on every readable store.
\<close>

lemma js_drop_prefix:
  assumes "js_good db"
  shows "fst (js_DropPrefix pfx db)"
    and "js_content (snd (js_DropPrefix pfx db)) = (\<lambda>key. if prefix pfx key then None else js_content db key)"
proof -
  have f: "fold apply_op (map (\<lambda>(key, value). BDelete key) pairs) m = (\<lambda>key. if key \<in> fst ` set pairs then None else m key)"
    for pairs :: "(string \<times> byte list) list" and m
    by (induction pairs arbitrary: m) (auto simp: fun_eq_iff)
  let ?ps = "fst (js_BatchRead pfx db)"
  have d: "js_DropPrefix pfx db = js_batch_write (map (\<lambda>(key, value). BDelete key) ?ps) db"
    unfolding js_DropPrefix_def by (simp add: js_scan [OF assms])
  have k: "prefix pfx key \<and> js_content db key \<noteq> None \<longleftrightarrow> key \<in> fst ` set ?ps" for key
  proof -
    have "(key, v) \<in> set ?ps \<longleftrightarrow> prefix pfx key \<and> js_content db key = Some v" for v
      using js.scan_iff [OF assms, of key v pfx] by (simp add: jsDB_def)
    then have "(\<exists>v. (key, v) \<in> set ?ps) \<longleftrightarrow> prefix pfx key \<and> js_content db key \<noteq> None" by simp
    moreover have "key \<in> fst ` set ?ps \<longleftrightarrow> (\<exists>v. (key, v) \<in> set ?ps)" by force
    ultimately show ?thesis by blast
  qed
  show "fst (js_DropPrefix pfx db)" unfolding d by (simp add: js_batch_write_def)
  show "js_content (snd (js_DropPrefix pfx db)) = (\<lambda>key. if prefix pfx key then None else js_content db key)"
    unfolding d js_batch_write_content(3) [OF assms prod.collapse [symmetric]] f
  proof
    fix key
    show "(if key \<in> fst ` set ?ps then None else js_content db key) = (if prefix pfx key then None else js_content db key)"
      using k [of key] by (cases "js_content db key") auto
  qed
qed

definition demo_store :: localStorage where
  "demo_store = [(''l-a'', stdEncode [1]), (''x'', stdEncode [2, 3])]"

lemma demo_store_good: "js_good demo_store"
  by (simp add: js_good_def demo_store_def)

theorem js_batch_in_order_witness:
  "js_content (snd (js_batch_write [BDelete ''x'', BPut ''x'' [9], BPut ''l-a'' [7], BDelete ''l-a''] demo_store)) ''x'' = Some [9]
    \<and> js_content (snd (js_batch_write [BDelete ''x'', BPut ''x'' [9], BPut ''l-a'' [7], BDelete ''l-a''] demo_store)) ''l-a'' = None"
  using js_batch_in_order [OF demo_store_good, of "[BDelete ''x'', BPut ''x'' [9], BPut ''l-a'' [7], BDelete ''l-a'']"] by simp

end
