(* ===== verification/UtxoLocker.thy ===== *)
theory UtxoLocker
  imports KeyValue
begin

text \<open>
  \<open>sdk/wallet/utxolocker.go\<close>, \<open>utxolocker_reason.go\<close> and the lock records of \<open>db.go\<close>: the table of
  locked and reserved outputs, cached in memory and kept in the wallet's key-value store, which
  other contexts of the wallet share.

  The store is the record \<open>kvdb\<close>; gob, the clock and the indexer are parameters.  The mutex makes
  every operation one step; a step reads the clock once, in milliseconds.  A pair \<open>(p, s)\<close> is the
  locker and the store; an operation returns its error, if any, with the new pair, because an error
  can leave part of the work done.
\<close>

section \<open>Records\<close>

record 'a LockedUtxo =
  lu_LockedTime :: int
  lu_Reason :: string
  lu_ReservationID :: string
  lu_ReservationPreviousReason :: string
  lu_Value :: int
  lu_Assets :: "'a list"

datatype locker_error = ErrUtxoReserved string | ErrUtxoReservationOwner string | ErrInvalidReservation
  | ErrReservationEmpty | ErrLockEncode | ErrLockStore | ErrIndexer

text \<open>\<open>EncodeToBytes\<close> and \<open>DecodeFromBytes\<close> (gob) at the two types stored.\<close>

record 'a gob =
  gobLock :: "'a LockedUtxo \<Rightarrow> byte list option"
  gobLockOf :: "byte list \<Rightarrow> 'a LockedUtxo option"
  gobTime :: "int \<Rightarrow> byte list option"
  gobTimeOf :: "byte list \<Rightarrow> int option"

definition gob_laws :: "'a gob \<Rightarrow> bool" where
  "gob_laws G \<longleftrightarrow> (\<forall>l b. gobLock G l = Some b \<longrightarrow> gobLockOf G b = Some l)
     \<and> (\<forall>t b. gobTime G t = Some b \<longrightarrow> gobTimeOf G b = Some t)"

text \<open>
  The lock table in memory is a list of pairs with distinct keys.  The prefix is the result of
  \<open>GetDBKeyPrefix\<close>, which depends on global settings only.
\<close>

record 'a UtxoLocker =
  ul_network :: string
  ul_lockmap :: "(string \<times> 'a LockedUtxo) list"
  ul_refreshTime :: int

type_synonym ('a, 's) locker = "'a UtxoLocker \<times> 's"

section \<open>Lock records in the store\<close>

definition LIGHT_NODE :: string where
  "LIGHT_NODE = ''light''"

definition GetDBKeyPrefix :: "string \<Rightarrow> string \<Rightarrow> string \<Rightarrow> string" where
  "GetDBKeyPrefix mode env chain = (if mode = LIGHT_NODE then env @ ''-'' @ chain @ ''-'' else '''')"

definition GetLockedUtxoKey :: "string \<Rightarrow> string \<Rightarrow> string \<Rightarrow> string" where
  "GetLockedUtxoKey P network utxo = P @ ''l-'' @ network @ ''-'' @ utxo"

text \<open>\<open>strings.Split(s, "-")\<close>.\<close>

fun splitDash :: "string \<Rightarrow> string list" where
  "splitDash [] = [[]]"
| "splitDash (c # s) = (if c = CHR ''-'' then [] # splitDash s
     else (case splitDash s of [] \<Rightarrow> [[c]] | part # parts \<Rightarrow> (c # part) # parts))"

definition ParseLockedUtxoKey :: "string \<Rightarrow> string \<Rightarrow> (string \<times> string) option" where
  "ParseLockedUtxoKey P key =
     (let pfx = P @ ''l-''
      in if \<not> prefix pfx key then None
         else (case splitDash (drop (length pfx) key) of [network, utxo] \<Rightarrow> Some (network, utxo) | _ \<Rightarrow> None))"

definition saveLockedUtxo :: "'s kvdb \<Rightarrow> 'a gob \<Rightarrow> string \<Rightarrow> string \<Rightarrow> string \<Rightarrow> 'a LockedUtxo \<Rightarrow> 's
    \<Rightarrow> locker_error option \<times> 's" where
  "saveLockedUtxo D G P network utxo lock s =
     (case gobLock G lock of
        None \<Rightarrow> (Some ErrLockEncode, s)
      | Some buf \<Rightarrow> (case kvWrite D (GetLockedUtxoKey P network utxo) buf s of (ok, s) \<Rightarrow> (if ok then None else Some ErrLockStore, s)))"

definition DeleteLockedUtxo :: "'s kvdb \<Rightarrow> string \<Rightarrow> string \<Rightarrow> string \<Rightarrow> 's \<Rightarrow> bool \<times> 's" where
  "DeleteLockedUtxo D P network utxo s = kvDelete D (GetLockedUtxoKey P network utxo) s"

text \<open>The callback of \<open>loadAllLockedUtxoFromDB\<close>; an error ends the scan and what was read so far is used.\<close>

fun load_locks :: "'a gob \<Rightarrow> string \<Rightarrow> (string \<times> byte list) list \<Rightarrow> (string \<times> 'a LockedUtxo) list
    \<Rightarrow> (string \<times> 'a LockedUtxo) list" where
  "load_locks G P [] result = result"
| "load_locks G P ((k, v) # pairs) result =
     (case ParseLockedUtxoKey P k of
        None \<Rightarrow> result
      | Some (_, utxo) \<Rightarrow>
          (case gobLockOf G v of
             None \<Rightarrow> result
           | Some lock \<Rightarrow> load_locks G P pairs (AList.update utxo lock result)))"

definition loadAllLockedUtxoFromDB :: "'s kvdb \<Rightarrow> 'a gob \<Rightarrow> string \<Rightarrow> string \<Rightarrow> 's \<Rightarrow> (string \<times> 'a LockedUtxo) list" where
  "loadAllLockedUtxoFromDB D G P network s = load_locks G P (kvScan D (P @ ''l-'' @ network) s) []"

definition GeLastLockTimeKey :: "string \<Rightarrow> string \<Rightarrow> string" where
  "GeLastLockTimeKey P network = P @ ''lt-'' @ network"

text \<open>The callers of \<open>saveLastLockTime\<close> ignore its error.\<close>

definition saveLastLockTime :: "'s kvdb \<Rightarrow> 'a gob \<Rightarrow> string \<Rightarrow> string \<Rightarrow> int \<Rightarrow> 's \<Rightarrow> 's" where
  "saveLastLockTime D G P network t s =
     (case gobTime G t of None \<Rightarrow> s | Some buf \<Rightarrow> snd (kvWrite D (GeLastLockTimeKey P network) buf s))"

definition loadLastLockTime :: "'s kvdb \<Rightarrow> 'a gob \<Rightarrow> string \<Rightarrow> string \<Rightarrow> 's \<Rightarrow> int option" where
  "loadLastLockTime D G P network s =
     Option.bind (kvRead D (GeLastLockTimeKey P network) s) (gobTimeOf G)"

section \<open>Loading\<close>

definition NewUtxoLocker :: "string \<Rightarrow> 'a UtxoLocker" where
  "NewUtxoLocker network = \<lparr>ul_network = network, ul_lockmap = [], ul_refreshTime = 0\<rparr>"

definition reload :: "'s kvdb \<Rightarrow> 'a gob \<Rightarrow> string \<Rightarrow> ('a, 's) locker \<Rightarrow> ('a, 's) locker" where
  "reload D G P = (\<lambda>(p, s).
     let lastTime = loadLastLockTime D G P (ul_network p) s
     in if lastTime = Some (ul_refreshTime p) then (p, s)
        else (p\<lparr>ul_lockmap := loadAllLockedUtxoFromDB D G P (ul_network p) s,
                ul_refreshTime := (case lastTime of None \<Rightarrow> 0 | Some t \<Rightarrow> t)\<rparr>, s))"

definition refresh :: "'s kvdb \<Rightarrow> 'a gob \<Rightarrow> string \<Rightarrow> int \<Rightarrow> ('a, 's) locker \<Rightarrow> ('a, 's) locker" where
  "refresh D G P now = (\<lambda>(p, s). (p\<lparr>ul_refreshTime := now\<rparr>, saveLastLockTime D G P (ul_network p) now s))"

section \<open>Plain locks\<close>

definition lockUtxo :: "'s kvdb \<Rightarrow> 'a gob \<Rightarrow> string \<Rightarrow> int \<Rightarrow> string \<Rightarrow> string \<Rightarrow> ('a, 's) locker
    \<Rightarrow> locker_error option \<times> ('a, 's) locker" where
  "lockUtxo D G P now utxo reason = (\<lambda>(p, s).
     case map_of (ul_lockmap p) utxo of
       Some _ \<Rightarrow> (None, (p, s))
     | None \<Rightarrow>
         let lock = \<lparr>lu_LockedTime = now div 1000, lu_Reason = reason, lu_ReservationID = '''',
               lu_ReservationPreviousReason = '''', lu_Value = 0, lu_Assets = []\<rparr>
         in (case saveLockedUtxo D G P (ul_network p) utxo lock s of
               (Some e, s) \<Rightarrow> (Some e, (p, s))
             | (None, s) \<Rightarrow> (None, (p\<lparr>ul_lockmap := AList.update utxo lock (ul_lockmap p)\<rparr>, s))))"

text \<open>\<open>unlockUtxo\<close> ignores the error of the deletion.\<close>

definition unlockUtxo :: "'s kvdb \<Rightarrow> string \<Rightarrow> string \<Rightarrow> ('a, 's) locker \<Rightarrow> ('a, 's) locker" where
  "unlockUtxo D P utxo = (\<lambda>(p, s).
     case map_of (ul_lockmap p) utxo of
       None \<Rightarrow> (p, s)
     | Some _ \<Rightarrow> (p\<lparr>ul_lockmap := AList.delete utxo (ul_lockmap p)\<rparr>, snd (DeleteLockedUtxo D P (ul_network p) utxo s)))"

fun lock_loop :: "'s kvdb \<Rightarrow> 'a gob \<Rightarrow> string \<Rightarrow> int \<Rightarrow> string \<Rightarrow> string list \<Rightarrow> ('a, 's) locker
    \<Rightarrow> locker_error option \<times> ('a, 's) locker" where
  "lock_loop D G P now reason [] st = (None, st)"
| "lock_loop D G P now reason (utxo # utxos) st =
     (case lockUtxo D G P now utxo reason st of
        (Some e, st) \<Rightarrow> (Some e, st)
      | (None, st) \<Rightarrow> lock_loop D G P now reason utxos st)"

definition LockUtxos :: "'s kvdb \<Rightarrow> 'a gob \<Rightarrow> string \<Rightarrow> int \<Rightarrow> string list \<Rightarrow> string \<Rightarrow> ('a, 's) locker
    \<Rightarrow> locker_error option \<times> ('a, 's) locker" where
  "LockUtxos D G P now utxos reason st =
     (case lock_loop D G P now reason utxos st of
        (Some e, st) \<Rightarrow> (Some e, st)
      | (None, st) \<Rightarrow> (None, refresh D G P now st))"

definition LockUtxo :: "'s kvdb \<Rightarrow> 'a gob \<Rightarrow> string \<Rightarrow> int \<Rightarrow> string \<Rightarrow> string \<Rightarrow> ('a, 's) locker
    \<Rightarrow> locker_error option \<times> ('a, 's) locker" where
  "LockUtxo D G P now utxo reason st =
     (case lockUtxo D G P now utxo reason st of
        (Some e, st) \<Rightarrow> (Some e, st)
      | (None, st) \<Rightarrow> (None, refresh D G P now st))"

text \<open>A transaction is the list of the outputs it spends, as text; \<open>None\<close> is a nil transaction.\<close>

definition LockUtxosWithTx :: "'s kvdb \<Rightarrow> 'a gob \<Rightarrow> string \<Rightarrow> int \<Rightarrow> string list option \<Rightarrow> ('a, 's) locker
    \<Rightarrow> locker_error option \<times> ('a, 's) locker" where
  "LockUtxosWithTx D G P now tx st =
     (case tx of
        None \<Rightarrow> (None, st)
      | Some inputs \<Rightarrow>
          (case lock_loop D G P now ''broadcasted'' inputs st of
             (Some e, st) \<Rightarrow> (Some e, st)
           | (None, st) \<Rightarrow> (None, refresh D G P now st)))"

definition UnlockUtxosWithTx :: "'s kvdb \<Rightarrow> 'a gob \<Rightarrow> string \<Rightarrow> int \<Rightarrow> string list option \<Rightarrow> ('a, 's) locker \<Rightarrow> ('a, 's) locker" where
  "UnlockUtxosWithTx D G P now tx st =
     (case tx of None \<Rightarrow> st | Some inputs \<Rightarrow> refresh D G P now (fold (unlockUtxo D P) inputs st))"

definition UnlockUtxo :: "'s kvdb \<Rightarrow> 'a gob \<Rightarrow> string \<Rightarrow> int \<Rightarrow> string \<Rightarrow> ('a, 's) locker \<Rightarrow> ('a, 's) locker" where
  "UnlockUtxo D G P now utxo st = refresh D G P now (unlockUtxo D P utxo st)"

section \<open>Reservations\<close>

text \<open>The set of the trimmed names, sorted.\<close>

definition normalizedReservationUtxos :: "string list \<Rightarrow> string list" where
  "normalizedReservationUtxos utxos = sort (remdups (filter (\<lambda>u. u \<noteq> '''') (map trimSpace utxos)))"

text \<open>\<open>cloneLockedUtxo\<close> of a lock that is not nil copies it; values need no copy here.\<close>

text \<open>The batch of \<open>persistReservationChangesLocked\<close>: the puts, the deletions and the refresh marker.\<close>

fun put_ops :: "'a gob \<Rightarrow> string \<Rightarrow> string \<Rightarrow> (string \<times> 'a LockedUtxo) list \<Rightarrow> batch_op list option" where
  "put_ops G P network [] = Some []"
| "put_ops G P network ((utxo, lock) # puts) =
     (case gobLock G lock of
        None \<Rightarrow> None
      | Some encoded \<Rightarrow> map_option (\<lambda>ops. BPut (GetLockedUtxoKey P network utxo) encoded # ops) (put_ops G P network puts))"

definition persistReservationChangesLocked :: "'s kvdb \<Rightarrow> 'a gob \<Rightarrow> string \<Rightarrow> int \<Rightarrow> (string \<times> 'a LockedUtxo) list
    \<Rightarrow> string list \<Rightarrow> ('a, 's) locker \<Rightarrow> locker_error option \<times> ('a, 's) locker" where
  "persistReservationChangesLocked D G P now puts deletes = (\<lambda>(p, s).
     case put_ops G P (ul_network p) puts of
       None \<Rightarrow> (Some ErrLockEncode, (p, s))
     | Some ops \<Rightarrow>
         (case gobTime G now of
            None \<Rightarrow> (Some ErrLockEncode, (p, s))
          | Some encodedTime \<Rightarrow>
              (case kvFlush D (ops @ map (\<lambda>utxo. BDelete (GetLockedUtxoKey P (ul_network p) utxo)) deletes
                     @ [BPut (GeLastLockTimeKey P (ul_network p)) encodedTime]) s of
                 (False, s) \<Rightarrow> (Some ErrLockStore, (p, s))
               | (True, s) \<Rightarrow>
                   (None, (p\<lparr>ul_lockmap := fold AList.delete deletes
                                 (fold (\<lambda>(utxo, lock). AList.update utxo lock) puts (ul_lockmap p)),
                             ul_refreshTime := now\<rparr>, s)))))"

definition blank :: "string \<Rightarrow> bool" where
  "blank s = (trimSpace s = '''')"

fun reserve_loop :: "int \<Rightarrow> string \<Rightarrow> string \<Rightarrow> string list \<Rightarrow> (string \<rightharpoonup> 'a LockedUtxo) \<Rightarrow> string list
    \<Rightarrow> locker_error + (string \<times> 'a LockedUtxo) list" where
  "reserve_loop now reason reservationID claimable locks [] = Inr []"
| "reserve_loop now reason reservationID claimable locks (utxo # utxos) =
     rbind (case locks utxo of
         None \<Rightarrow> Inr \<lparr>lu_LockedTime = now div 1000, lu_Reason = reason, lu_ReservationID = reservationID,
                      lu_ReservationPreviousReason = '''', lu_Value = 0, lu_Assets = []\<rparr>
       | Some current \<Rightarrow>
           if lu_ReservationID current = reservationID then Inr (current\<lparr>lu_Reason := reason\<rparr>)
           else check (lu_ReservationID current \<noteq> '''' \<or> lu_Reason current \<notin> set claimable) (ErrUtxoReserved utxo)
             (Inr (current\<lparr>lu_ReservationPreviousReason := lu_Reason current, lu_Reason := reason,
                           lu_ReservationID := reservationID\<rparr>)))
       (\<lambda>updated. rbind (reserve_loop now reason reservationID claimable locks utxos) (\<lambda>puts.
          Inr ((utxo, updated) # puts)))"

definition TryReserve :: "'s kvdb \<Rightarrow> 'a gob \<Rightarrow> string \<Rightarrow> int \<Rightarrow> string list \<Rightarrow> string \<Rightarrow> string \<Rightarrow> string list
    \<Rightarrow> ('a, 's) locker \<Rightarrow> locker_error option \<times> ('a, 's) locker" where
  "TryReserve D G P now utxos reason reservationID claimable st =
     (if blank reason \<or> blank reservationID then (Some ErrInvalidReservation, st)
      else let utxos = normalizedReservationUtxos utxos
      in if utxos = [] then (Some ErrReservationEmpty, st)
         else let st = reload D G P st
         in (case reserve_loop now reason reservationID claimable (map_of (ul_lockmap (fst st))) utxos of
               Inl e \<Rightarrow> (Some e, st)
             | Inr puts \<Rightarrow> persistReservationChangesLocked D G P now puts [] st))"

fun ensure_loop :: "int \<Rightarrow> string \<Rightarrow> string \<Rightarrow> (string \<times> string) list \<Rightarrow> (string \<rightharpoonup> 'a LockedUtxo) \<Rightarrow> string list
    \<Rightarrow> locker_error + (string \<times> 'a LockedUtxo) list" where
  "ensure_loop now reason reservationID previousReasons locks [] = Inr []"
| "ensure_loop now reason reservationID previousReasons locks (utxo # utxos) =
     (let previous = (case map_of previousReasons utxo of None \<Rightarrow> '''' | Some r \<Rightarrow> r)
      in rbind (case locks utxo of
           None \<Rightarrow> Inr \<lparr>lu_LockedTime = now div 1000, lu_Reason = reason, lu_ReservationID = reservationID,
                        lu_ReservationPreviousReason = previous, lu_Value = 0, lu_Assets = []\<rparr>
         | Some current \<Rightarrow>
             check (lu_ReservationID current \<noteq> '''' \<and> lu_ReservationID current \<noteq> reservationID) (ErrUtxoReserved utxo)
              (check (lu_ReservationID current = '''' \<and> lu_Reason current \<noteq> reason
                  \<and> (previous = '''' \<or> lu_Reason current \<noteq> previous)) (ErrUtxoReserved utxo)
                (Inr (current\<lparr>lu_Reason := reason, lu_ReservationID := reservationID,
                              lu_ReservationPreviousReason := previous\<rparr>))))
         (\<lambda>updated. rbind (ensure_loop now reason reservationID previousReasons locks utxos) (\<lambda>puts.
            Inr ((utxo, updated) # puts))))"

definition EnsureReservation :: "'s kvdb \<Rightarrow> 'a gob \<Rightarrow> string \<Rightarrow> int \<Rightarrow> string list \<Rightarrow> string \<Rightarrow> string \<Rightarrow> (string \<times> string) list
    \<Rightarrow> ('a, 's) locker \<Rightarrow> locker_error option \<times> ('a, 's) locker" where
  "EnsureReservation D G P now utxos reason reservationID previousReasons st =
     (if blank reason \<or> blank reservationID then (Some ErrInvalidReservation, st)
      else let utxos = normalizedReservationUtxos utxos
      in if utxos = [] then (None, st)
         else let st = reload D G P st
         in (case ensure_loop now reason reservationID previousReasons (map_of (ul_lockmap (fst st))) utxos of
               Inl e \<Rightarrow> (Some e, st)
             | Inr puts \<Rightarrow> persistReservationChangesLocked D G P now puts [] st))"

fun finalize_loop :: "int \<Rightarrow> string \<Rightarrow> string \<Rightarrow> (string \<rightharpoonup> 'a LockedUtxo) \<Rightarrow> string list
    \<Rightarrow> locker_error + (string \<times> 'a LockedUtxo) list" where
  "finalize_loop now reservationID reason locks [] = Inr []"
| "finalize_loop now reservationID reason locks (utxo # utxos) =
     rbind (case locks utxo of
         None \<Rightarrow> Inr \<lparr>lu_LockedTime = now div 1000, lu_Reason = reason, lu_ReservationID = '''',
                      lu_ReservationPreviousReason = '''', lu_Value = 0, lu_Assets = []\<rparr>
       | Some current \<Rightarrow>
           check (lu_ReservationID current \<noteq> '''' \<and> lu_ReservationID current \<noteq> reservationID) (ErrUtxoReservationOwner utxo)
             (Inr (current\<lparr>lu_Reason := reason, lu_ReservationID := '''', lu_ReservationPreviousReason := ''''\<rparr>)))
       (\<lambda>updated. rbind (finalize_loop now reservationID reason locks utxos) (\<lambda>puts. Inr ((utxo, updated) # puts)))"

definition FinalizeReservation :: "'s kvdb \<Rightarrow> 'a gob \<Rightarrow> string \<Rightarrow> int \<Rightarrow> string list \<Rightarrow> string \<Rightarrow> string
    \<Rightarrow> ('a, 's) locker \<Rightarrow> locker_error option \<times> ('a, 's) locker" where
  "FinalizeReservation D G P now utxos reservationID reason st =
     (if blank reservationID \<or> blank reason then (Some ErrInvalidReservation, st)
      else let utxos = normalizedReservationUtxos utxos
      in if utxos = [] then (None, st)
         else let st = reload D G P st
         in (case finalize_loop now reservationID reason (map_of (ul_lockmap (fst st))) utxos of
               Inl e \<Rightarrow> (Some e, st)
             | Inr puts \<Rightarrow> persistReservationChangesLocked D G P now puts [] st))"

fun release_loop :: "string \<Rightarrow> (string \<rightharpoonup> 'a LockedUtxo) \<Rightarrow> string list
    \<Rightarrow> locker_error + ((string \<times> 'a LockedUtxo) list \<times> string list)" where
  "release_loop reservationID locks [] = Inr ([], [])"
| "release_loop reservationID locks (utxo # utxos) =
     (case locks utxo of
        None \<Rightarrow> release_loop reservationID locks utxos
      | Some current \<Rightarrow>
          check (lu_ReservationID current \<noteq> reservationID) (ErrUtxoReservationOwner utxo)
           (rbind (release_loop reservationID locks utxos) (\<lambda>(puts, deletes).
              if lu_ReservationPreviousReason current = '''' then Inr (puts, utxo # deletes)
              else Inr ((utxo, current\<lparr>lu_Reason := lu_ReservationPreviousReason current, lu_ReservationID := '''',
                          lu_ReservationPreviousReason := ''''\<rparr>) # puts, deletes))))"

definition ReleaseReservation :: "'s kvdb \<Rightarrow> 'a gob \<Rightarrow> string \<Rightarrow> int \<Rightarrow> string list \<Rightarrow> string
    \<Rightarrow> ('a, 's) locker \<Rightarrow> locker_error option \<times> ('a, 's) locker" where
  "ReleaseReservation D G P now utxos reservationID st =
     (if blank reservationID then (Some ErrInvalidReservation, st)
      else let st = reload D G P st
      in (case release_loop reservationID (map_of (ul_lockmap (fst st))) (normalizedReservationUtxos utxos) of
            Inl e \<Rightarrow> (Some e, st)
          | Inr (puts, deletes) \<Rightarrow>
              if puts = [] \<and> deletes = [] then (None, st)
              else persistReservationChangesLocked D G P now puts deletes st))"

definition SetLockReason :: "'s kvdb \<Rightarrow> 'a gob \<Rightarrow> string \<Rightarrow> int \<Rightarrow> string \<Rightarrow> string
    \<Rightarrow> ('a, 's) locker \<Rightarrow> locker_error option \<times> ('a, 's) locker" where
  "SetLockReason D G P now utxo reason st =
     (if utxo = '''' \<or> reason = '''' then (None, st)
      else let st = reload D G P st;
               locked = (case map_of (ul_lockmap (fst st)) utxo of
                   None \<Rightarrow> \<lparr>lu_LockedTime = now div 1000, lu_Reason = '''', lu_ReservationID = '''',
                            lu_ReservationPreviousReason = '''', lu_Value = 0, lu_Assets = []\<rparr>
                 | Some current \<Rightarrow> current)
           in if lu_Reason locked = reason then (None, st)
              else persistReservationChangesLocked D G P now [(utxo, locked\<lparr>lu_Reason := reason\<rparr>)] [] st)"

section \<open>Queries and clean-up\<close>

definition IsLocked :: "string \<Rightarrow> ('a, 's) locker \<Rightarrow> bool" where
  "IsLocked utxo = (\<lambda>(p, s). map_of (ul_lockmap p) utxo \<noteq> None)"

definition GetLockedUtxoList :: "'s kvdb \<Rightarrow> 'a gob \<Rightarrow> string \<Rightarrow> ('a, 's) locker
    \<Rightarrow> (string \<times> 'a LockedUtxo) list \<times> ('a, 's) locker" where
  "GetLockedUtxoList D G P st = (let st = reload D G P st in (ul_lockmap (fst st), st))"

definition GetLockedUtxoListV2 :: "'s kvdb \<Rightarrow> 'a gob \<Rightarrow> string \<Rightarrow> ('a, 's) locker
    \<Rightarrow> (string \<times> bool) list \<times> ('a, 's) locker" where
  "GetLockedUtxoListV2 D G P st = (let st = reload D G P st in (map (\<lambda>(k, _). (k, True)) (ul_lockmap (fst st)), st))"

definition CheckUtxos :: "'s kvdb \<Rightarrow> 'a gob \<Rightarrow> string \<Rightarrow> string list \<Rightarrow> ('a, 's) locker \<Rightarrow> string \<times> ('a, 's) locker" where
  "CheckUtxos D G P utxos st =
     (let st = reload D G P st
      in (case find (\<lambda>utxo. IsLocked utxo st) utxos of None \<Rightarrow> '''' | Some utxo \<Rightarrow> utxo, st))"

text \<open>One input of a block's transaction; the flag is \<open>bUpdated\<close>.\<close>

definition block_input :: "'s kvdb \<Rightarrow> string \<Rightarrow> string \<Rightarrow> bool \<times> ('a, 's) locker \<Rightarrow> bool \<times> ('a, 's) locker" where
  "block_input D P utxo = (\<lambda>(updated, st).
     if IsLocked utxo st then (True, unlockUtxo D P utxo st) else (updated, st))"

definition CheckBlock :: "'s kvdb \<Rightarrow> 'a gob \<Rightarrow> string \<Rightarrow> int \<Rightarrow> string list list \<Rightarrow> ('a, 's) locker \<Rightarrow> ('a, 's) locker" where
  "CheckBlock D G P now transactions st =
     (case fold (block_input D P) (concat transactions) (False, reload D G P st) of
        (True, st) \<Rightarrow> refresh D G P now st
      | (False, st) \<Rightarrow> st)"

text \<open>\<open>existing\<close> is the indexer's \<open>GetExistingUtxos\<close>.\<close>

definition CheckExisting :: "'s kvdb \<Rightarrow> 'a gob \<Rightarrow> string \<Rightarrow> int \<Rightarrow> (string list \<Rightarrow> string list option)
    \<Rightarrow> ('a, 's) locker \<Rightarrow> ('a, 's) locker" where
  "CheckExisting D G P now existing st =
     (let st = reload D G P st;
          utxos = map fst (ul_lockmap (fst st))
      in case existing utxos of
           None \<Rightarrow> st
         | Some existingUtxos \<Rightarrow>
             if length existingUtxos = length utxos then st
             else refresh D G P now
               (fold (unlockUtxo D P) (filter (\<lambda>k. k \<notin> set existingUtxos) utxos) st))"

text \<open>
  \<open>FillAsset\<close> completes the lock it is given and saves it; \<open>output\<close> is the indexer's \<open>GetTxOutput\<close>.
  It returns the lock as it is afterwards.
\<close>

definition FillAsset :: "'s kvdb \<Rightarrow> 'a gob \<Rightarrow> string \<Rightarrow> (string \<Rightarrow> (int \<times> 'a list) option) \<Rightarrow> string \<Rightarrow> 'a LockedUtxo
    \<Rightarrow> ('a, 's) locker \<Rightarrow> locker_error option \<times> 'a LockedUtxo \<times> ('a, 's) locker" where
  "FillAsset D G P txOutput utxo lock = (\<lambda>(p, s).
     case txOutput utxo of
       None \<Rightarrow> (Some ErrIndexer, lock, (p, s))
     | Some (value, assets) \<Rightarrow>
         let lock = lock\<lparr>lu_Value := value, lu_Assets := assets\<rparr>
         in (case saveLockedUtxo D G P (ul_network p) utxo lock s of (e, s) \<Rightarrow> (e, lock, (p, s))))"

end
