(* ===== verification/LockTable.thy ===== *)
theory LockTable
  imports UtxoLocker
begin

text \<open>
  The table of locks as one map from outputs to locks: what the store holds, and the contract every
  operation of the locker keeps with it.
\<close>

section \<open>The table in the store\<close>

definition stored :: "('s \<Rightarrow> string \<rightharpoonup> byte list) \<Rightarrow> 'a gob \<Rightarrow> string \<Rightarrow> string \<Rightarrow> 's \<Rightarrow> string \<rightharpoonup> 'a LockedUtxo" where
  "stored content G P network s = (\<lambda>u. Option.bind (content s (GetLockedUtxoKey P network u)) (gobLockOf G))"

definition plain :: "string \<Rightarrow> bool" where
  "plain u \<longleftrightarrow> CHR ''-'' \<notin> set u"

text \<open>Every key under the prefix of the network's locks is a lock record of a plain output.\<close>

definition db_ok :: "('s \<Rightarrow> string \<rightharpoonup> byte list) \<Rightarrow> 'a gob \<Rightarrow> string \<Rightarrow> string \<Rightarrow> 's \<Rightarrow> bool" where
  "db_ok content G P network s \<longleftrightarrow> (\<forall>k v. content s k = Some v \<longrightarrow> prefix (P @ ''l-'' @ network) k \<longrightarrow>
     (\<exists>u. plain u \<and> k = GetLockedUtxoKey P network u \<and> gobLockOf G v \<noteq> None))"

lemma key_inject [simp]: "GetLockedUtxoKey P network u = GetLockedUtxoKey P network v \<longleftrightarrow> u = v"
  by (simp add: GetLockedUtxoKey_def)

lemma time_key [simp]: "GetLockedUtxoKey P network u \<noteq> GeLastLockTimeKey P network"
  "GeLastLockTimeKey P network \<noteq> GetLockedUtxoKey P network u"
  "\<not> prefix (P @ CHR ''l'' # CHR ''-'' # network) (GeLastLockTimeKey P network)"
  by (simp_all add: GetLockedUtxoKey_def GeLastLockTimeKey_def)

lemma key_prefix [simp]: "prefix (P @ CHR ''l'' # CHR ''-'' # network) (GetLockedUtxoKey P network u)"
  by (simp add: GetLockedUtxoKey_def)

lemma splitDash_plain: "plain s \<Longrightarrow> splitDash s = [s]"
  by (induction s) (auto simp: plain_def)

lemma splitDash_append: "plain s \<Longrightarrow> splitDash (s @ CHR ''-'' # t) = s # splitDash t"
  by (induction s) (auto simp: plain_def)

lemma parse_key: "plain network \<Longrightarrow> plain u \<Longrightarrow> ParseLockedUtxoKey P (GetLockedUtxoKey P network u) = Some (network, u)"
  by (simp add: ParseLockedUtxoKey_def GetLockedUtxoKey_def splitDash_append splitDash_plain)

lemma load_locks_eq:
  assumes "plain network"
    and "\<forall>(k, v)\<in>set pairs. \<exists>u. plain u \<and> k = GetLockedUtxoKey P network u \<and> gobLockOf G v \<noteq> None"
    and "distinct (map fst pairs)" "distinct (map fst result)"
  shows "distinct (map fst (load_locks G P pairs result))
    \<and> map_of (load_locks G P pairs result) = (\<lambda>u. case map_of pairs (GetLockedUtxoKey P network u) of
          None \<Rightarrow> map_of result u | Some v \<Rightarrow> gobLockOf G v)"
  using assms(2-4)
proof (induction pairs arbitrary: result)
  case (Cons pair pairs)
  obtain k v where kv: "pair = (k, v)" by (cases pair)
  then obtain u lock where u: "plain u" "k = GetLockedUtxoKey P network u" "gobLockOf G v = Some lock"
    using Cons.prems(1) by auto
  have "map_of pairs k = None" using Cons.prems(2) kv by (auto simp: map_of_eq_None_iff)
  moreover have "distinct (map fst (AList.update u lock result))" using Cons.prems(3) by (rule distinct_update)
  ultimately show ?case
    using Cons.IH [of "AList.update u lock result"] Cons.prems(1,2) kv u parse_key [OF assms(1) u(1), of P]
    by (auto simp: update_conv' fun_eq_iff split: option.splits)
qed simp

section \<open>The cache and the store\<close>

text \<open>The cache agrees with the store.\<close>

definition synced :: "('s \<Rightarrow> string \<rightharpoonup> byte list) \<Rightarrow> ('s \<Rightarrow> bool) \<Rightarrow> 'a gob \<Rightarrow> string \<Rightarrow> ('a, 's) locker \<Rightarrow> bool" where
  "synced content good G P = (\<lambda>(p, s). good s \<and> plain (ul_network p) \<and> db_ok content G P (ul_network p) s
     \<and> distinct (map fst (ul_lockmap p)) \<and> map_of (ul_lockmap p) = stored content G P (ul_network p) s)"

definition table :: "('a, 's) locker \<Rightarrow> string \<rightharpoonup> 'a LockedUtxo" where
  "table st = map_of (ul_lockmap (fst st))"

text \<open>A lock as a plain lock starts, and a table with changes.\<close>

definition new_lock :: "int \<Rightarrow> string \<Rightarrow> 'a LockedUtxo" where
  "new_lock now reason = \<lparr>lu_LockedTime = now div 1000, lu_Reason = reason, lu_ReservationID = '''',
     lu_ReservationPreviousReason = '''', lu_Value = 0, lu_Assets = []\<rparr>"

definition changed :: "(string \<times> 'a LockedUtxo) list \<Rightarrow> string list \<Rightarrow> (string \<rightharpoonup> 'a LockedUtxo) \<Rightarrow> (string \<rightharpoonup> 'a LockedUtxo)" where
  "changed puts deletes T = (\<lambda>u. if u \<in> set deletes then None
     else case map_of puts u of None \<Rightarrow> T u | Some lock \<Rightarrow> Some lock)"

context kvdb_store
begin

lemma loaded:
  assumes "good s" "plain network" "db_ok content G P network s"
  shows "distinct (map fst (loadAllLockedUtxoFromDB D G P network s))"
    and "map_of (loadAllLockedUtxoFromDB D G P network s) = stored content G P network s"
proof -
  let ?pairs = "kvScan D (P @ ''l-'' @ network) s"
  have d: "distinct (map fst ?pairs)" by (rule scan_distinct [OF assms(1)])
  have "\<forall>(k, v)\<in>set ?pairs. \<exists>u. plain u \<and> k = GetLockedUtxoKey P network u \<and> gobLockOf G v \<noteq> None"
    using assms(3) scan_iff [OF assms(1)] unfolding db_ok_def by fastforce
  note L = load_locks_eq [OF assms(2) this d, of "[]"]
  have "map_of ?pairs (GetLockedUtxoKey P network u) = content s (GetLockedUtxoKey P network u)" for u
  proof (cases "content s (GetLockedUtxoKey P network u)")
    case None
    then show ?thesis using scan_iff [OF assms(1)] by (auto simp: map_of_eq_None_iff)
  next
    case (Some v)
    then show ?thesis using scan_iff [OF assms(1), of _ v] d by (simp add: map_of_eq_Some_iff)
  qed
  then show "map_of (loadAllLockedUtxoFromDB D G P network s) = stored content G P network s"
    using L by (auto simp: loadAllLockedUtxoFromDB_def stored_def fun_eq_iff split: option.splits)
  show "distinct (map fst (loadAllLockedUtxoFromDB D G P network s))"
    using L by (simp add: loadAllLockedUtxoFromDB_def)
qed

lemma reload_synced:
  assumes "synced content good G P st"
  shows "synced content good G P (reload D G P st)" "table (reload D G P st) = table st"
    "snd (reload D G P st) = snd st" "ul_network (fst (reload D G P st)) = ul_network (fst st)"
  using assms loaded by (auto simp: synced_def reload_def table_def Let_def split: prod.splits)

lemma refresh_synced:
  assumes "gob_laws G" "synced content good G P st"
  shows "synced content good G P (refresh D G P now st)" "table (refresh D G P now st) = table st"
proof -
  obtain p s where st: "st = (p, s)" by (cases st)
  show "table (refresh D G P now st) = table st" by (simp add: refresh_def table_def st)
  show "synced content good G P (refresh D G P now st)"
  proof (cases "gobTime G now")
    case None
    then show ?thesis using assms(2) by (simp add: synced_def refresh_def st saveLastLockTime_def)
  next
    case (Some buf)
    obtain ok s' where w: "kvWrite D (GeLastLockTimeKey P (ul_network p)) buf s = (ok, s')" by fastforce
    have g: "good s" using assms(2) by (simp add: synced_def st)
    note W = write_content [OF g w]
    have "db_ok content G P (ul_network p) s'" "stored content G P (ul_network p) s' = stored content G P (ul_network p) s"
      using W assms(2) by (auto simp: synced_def st db_ok_def stored_def fun_eq_iff)
    then show ?thesis using W assms(2) w Some by (simp add: synced_def refresh_def st saveLastLockTime_def)
  qed
qed

lemma store_changes:
  assumes "good s" "plain network" "db_ok content G P network s"
    and "good s'" "content s' = (content s)(GetLockedUtxoKey P network u := v)"
    and "\<forall>b. v = Some b \<longrightarrow> plain u \<and> gobLockOf G b \<noteq> None"
  shows "db_ok content G P network s'"
    and "stored content G P network s' = (stored content G P network s)(u := Option.bind v (gobLockOf G))"
  using assms(3,5,6) by (auto simp: db_ok_def stored_def fun_eq_iff)

lemma unlock_synced:
  assumes "\<forall>k s. fst (kvDelete D k s)" "synced content good G P st"
  shows "synced content good G P (unlockUtxo D P u st)" "table (unlockUtxo D P u st) = (table st)(u := None)"
    "ul_network (fst (unlockUtxo D P u st)) = ul_network (fst st)"
proof -
  obtain p s where st: "st = (p, s)" by (cases st)
  show "table (unlockUtxo D P u st) = (table st)(u := None)"
    by (auto simp: table_def unlockUtxo_def st delete_conv' split: option.splits)
  show "ul_network (fst (unlockUtxo D P u st)) = ul_network (fst st)"
    by (simp add: unlockUtxo_def st split: option.splits)
  obtain ok s' where d: "DeleteLockedUtxo D P (ul_network p) u s = (ok, s')" by fastforce
  have g: "good s" "plain (ul_network p)" "db_ok content G P (ul_network p) s" using assms(2) by (simp_all add: synced_def st)
  have "ok" using assms(1) d by (metis DeleteLockedUtxo_def fst_conv)
  with delete_content [OF g(1), of _ ok s'] d
  have c: "good s'" "content s' = (content s)(GetLockedUtxoKey P (ul_network p) u := None)"
    by (simp_all add: DeleteLockedUtxo_def)
  show "synced content good G P (unlockUtxo D P u st)"
    using store_changes [OF g c] c(1) assms(2) d
    by (auto simp: synced_def st unlockUtxo_def distinct_delete delete_conv' split: option.splits)
qed

lemma lock_synced:
  assumes "gob_laws G" "synced content good G P st" "plain u" "lockUtxo D G P now u reason st = (e, st')"
  shows "synced content good G P st'" "ul_network (fst st') = ul_network (fst st)"
    "table st' = (if e = None \<and> table st u = None then (table st)(u \<mapsto> new_lock now reason) else table st)"
proof -
  obtain p s where st: "st = (p, s)" by (cases st)
  have g: "good s" "plain (ul_network p)" "db_ok content G P (ul_network p) s" using assms(2) by (simp_all add: synced_def st)
  have "synced content good G P st' \<and> ul_network (fst st') = ul_network (fst st)
    \<and> table st' = (if e = None \<and> table st u = None then (table st)(u \<mapsto> new_lock now reason) else table st)"
  proof (cases "map_of (ul_lockmap p) u")
    case (Some l)
    then show ?thesis using assms(2,4) by (auto simp: lockUtxo_def st table_def)
  next
    case None
    show ?thesis
    proof (cases "gobLock G (new_lock now reason)")
      case None': None
      then show ?thesis using assms(2,4) None by (auto simp: lockUtxo_def st table_def saveLockedUtxo_def new_lock_def)
    next
      case (Some buf)
      obtain ok s' where w: "kvWrite D (GetLockedUtxoKey P (ul_network p) u) buf s = (ok, s')" by fastforce
      note W = write_content [OF g(1) w]
      have buf: "gobLockOf G buf = Some (new_lock now reason)" using assms(1) Some by (simp add: gob_laws_def)
      show ?thesis
      proof (cases ok)
        case True
        then have c: "good s'" "content s' = (content s)(GetLockedUtxoKey P (ul_network p) u := Some buf)" using W by simp_all
        show ?thesis using store_changes [OF g c] c(1) assms(2,3,4) None Some w buf True
          by (auto simp: lockUtxo_def st table_def saveLockedUtxo_def new_lock_def [symmetric] synced_def distinct_update update_conv')
      next
        case False
        then have "good s'" "content s' = content s" using W by simp_all
        then show ?thesis using assms(2,4) None Some w False
          by (auto simp: lockUtxo_def st table_def saveLockedUtxo_def new_lock_def [symmetric] synced_def db_ok_def stored_def)
      qed
    qed
  qed
  then show "synced content good G P st'" "ul_network (fst st') = ul_network (fst st)"
    "table st' = (if e = None \<and> table st u = None then (table st)(u \<mapsto> new_lock now reason) else table st)" by blast+
qed

lemma put_ops_effect:
  assumes "gob_laws G" "put_ops G P network puts = Some ops" "distinct (map fst puts)"
  shows "fold apply_op ops m (GetLockedUtxoKey P network u) = (case map_of puts u of
        None \<Rightarrow> m (GetLockedUtxoKey P network u) | Some lock \<Rightarrow> gobLock G lock)"
    and "(\<And>u. k \<noteq> GetLockedUtxoKey P network u) \<Longrightarrow> fold apply_op ops m k = m k"
    and "map_of puts u = Some lock \<Longrightarrow> gobLock G lock \<noteq> None"
  using assms(2,3)
proof (induction puts arbitrary: ops m)
  case (Cons put puts)
  { case 1
    then have "map_of puts (fst put) = None" by (simp add: map_of_eq_None_iff)
    then show ?case using 1 Cons.IH(1) by (cases put) (auto split: option.split_asm) }
  { case 2 then show ?case using Cons.IH(2) by (cases put) (auto split: option.splits) }
  { case 3 then show ?case using Cons.IH(3) by (cases put) (auto split: option.splits if_splits) }
qed simp_all

lemma delete_ops_effect:
  "fold apply_op (map (\<lambda>u. BDelete (GetLockedUtxoKey P network u)) deletes) m
    = (\<lambda>k. if k \<in> GetLockedUtxoKey P network ` set deletes then None else m k)"
  by (induction deletes arbitrary: m) (auto simp: fun_eq_iff)

lemma fold_update_map: "distinct (map fst puts) \<Longrightarrow> distinct (map fst xs) \<Longrightarrow>
  distinct (map fst (fold (\<lambda>(u, l). AList.update u l) puts xs)) \<and>
  map_of (fold (\<lambda>(u, l). AList.update u l) puts xs) = (\<lambda>u. case map_of puts u of None \<Rightarrow> map_of xs u | Some l \<Rightarrow> Some l)"
proof (induction puts arbitrary: xs)
  case (Cons put puts)
  obtain u l where p: "put = (u, l)" by (cases put)
  have "map_of puts u = None" using Cons.prems(1) p by (auto simp: map_of_eq_None_iff)
  then show ?case
    using Cons.IH [of "AList.update u l xs"] Cons.prems p
    by (auto simp: update_conv' distinct_update fun_eq_iff split: option.splits)
qed simp

lemma fold_delete_map: "distinct (map fst xs) \<Longrightarrow> distinct (map fst (fold AList.delete deletes xs)) \<and>
  map_of (fold AList.delete deletes xs) = (\<lambda>u. if u \<in> set deletes then None else map_of xs u)"
  by (induction deletes arbitrary: xs) (auto simp: delete_conv' distinct_delete fun_eq_iff)

text \<open>What a flushed batch of changes does to the table.\<close>

lemma flush_changes:
  fixes network P puts deletes ops buf
  defines "all \<equiv> ops @ map (\<lambda>u. BDelete (GetLockedUtxoKey P network u)) deletes @ [BPut (GeLastLockTimeKey P network) buf]"
  assumes G: "gob_laws G" and db: "db_ok content G P network s"
    and puts: "distinct (map fst puts)" "\<forall>u\<in>fst ` set puts. plain u" "put_ops G P network puts = Some ops"
    and c: "content s' = fold apply_op all (content s)"
  shows "db_ok content G P network s'"
    and "stored content G P network s' = changed puts deletes (stored content G P network s)"
proof -
  note E = put_ops_effect [OF G puts(3,1)]
  have key: "content s' (GetLockedUtxoKey P network u) = (if u \<in> set deletes then None
      else case map_of puts u of None \<Rightarrow> content s (GetLockedUtxoKey P network u) | Some lock \<Rightarrow> gobLock G lock)" for u
    by (auto simp: c all_def delete_ops_effect E(1))
  have enc: "\<exists>b. gobLock G lock = Some b \<and> gobLockOf G b = Some lock" if "map_of puts u = Some lock" for u lock
    using E(3) [OF that] G by (auto simp: gob_laws_def)
  show "stored content G P network s' = changed puts deletes (stored content G P network s)"
    using enc by (fastforce simp: stored_def changed_def key fun_eq_iff split: option.splits)
  have lock: "plain u \<and> gobLockOf G v \<noteq> None" if v: "content s' (GetLockedUtxoKey P network u) = Some v" for u v
  proof (cases "map_of puts u")
    case None
    then have "content s (GetLockedUtxoKey P network u) = Some v" using v by (simp add: key split: if_splits)
    then show ?thesis using db unfolding db_ok_def by fastforce
  next
    case (Some l)
    then have "gobLock G l = Some v" using v by (simp add: key split: if_splits)
    moreover have "plain u" using puts(2) Some by (force dest: map_of_SomeD)
    ultimately show ?thesis using enc [OF Some] by auto
  qed
  show "db_ok content G P network s'"
    unfolding db_ok_def
  proof (intro allI impI)
    fix k v
    assume kv: "content s' k = Some v" "prefix (P @ ''l-'' @ network) k"
    show "\<exists>u. plain u \<and> k = GetLockedUtxoKey P network u \<and> gobLockOf G v \<noteq> None"
    proof (cases "\<exists>u. k = GetLockedUtxoKey P network u")
      case True
      then show ?thesis using lock kv(1) by blast
    next
      case False
      then have "content s' k = (if k = GeLastLockTimeKey P network then Some buf else content s k)"
        by (auto simp: c all_def delete_ops_effect E(2))
      then have "content s k = Some v" using kv by (auto split: if_splits)
      then show ?thesis using db kv(2) unfolding db_ok_def by blast
    qed
  qed
qed

lemma persist_synced:
  assumes G: "gob_laws G" and st: "synced content good G P st"
    and puts: "distinct (map fst puts)" "\<forall>u\<in>fst ` set puts. plain u"
    and r: "persistReservationChangesLocked D G P now puts deletes st = (e, st')"
  shows "synced content good G P st'" "ul_network (fst st') = ul_network (fst st)"
    "table st' = (if e = None then changed puts deletes (table st) else table st)"
    "e \<noteq> None \<Longrightarrow> e = Some ErrLockEncode \<or> e = Some ErrLockStore"
proof -
  obtain p s where ps: "st = (p, s)" by (cases st)
  let ?n = "ul_network p"
  have "synced content good G P st' \<and> ul_network (fst st') = ul_network (fst st)
    \<and> table st' = (if e = None then changed puts deletes (table st) else table st)
    \<and> (e \<noteq> None \<longrightarrow> e = Some ErrLockEncode \<or> e = Some ErrLockStore)"
  proof (cases "put_ops G P ?n puts = None \<or> gobTime G now = None")
    case True
    then show ?thesis using st r by (auto simp: persistReservationChangesLocked_def ps split: option.splits)
  next
    case False
    then obtain ops buf where ops: "put_ops G P ?n puts = Some ops" "gobTime G now = Some buf" by auto
    let ?all = "ops @ map (\<lambda>u. BDelete (GetLockedUtxoKey P ?n u)) deletes @ [BPut (GeLastLockTimeKey P ?n) buf]"
    obtain ok s' where f: "kvFlush D ?all s = (ok, s')" by fastforce
    have g: "good s" "plain ?n" "db_ok content G P ?n s" "distinct (map fst (ul_lockmap p))"
      "map_of (ul_lockmap p) = stored content G P ?n s"
      using st by (simp_all add: synced_def ps)
    note F = flush_content [OF g(1) f]
    show ?thesis
    proof (cases ok)
      case False
      then show ?thesis using r F ops f st
        by (auto simp: persistReservationChangesLocked_def ps synced_def table_def db_ok_def stored_def)
    next
      case True
      then have c: "content s' = fold apply_op ?all (content s)" using F by simp
      let ?map = "fold AList.delete deletes (fold (\<lambda>(u, l). AList.update u l) puts (ul_lockmap p))"
      have "map_of ?map = changed puts deletes (map_of (ul_lockmap p))"
        using fold_update_map [OF puts(1) g(4)] fold_delete_map by (fastforce simp: changed_def fun_eq_iff)
      moreover have "distinct (map fst ?map)"
        using fold_update_map [OF puts(1) g(4)] fold_delete_map by blast
      ultimately show ?thesis using r F ops f g True flush_changes [OF G g(3) puts ops(1) c]
        by (auto simp: persistReservationChangesLocked_def ps synced_def table_def)
    qed
  qed
  then show "synced content good G P st'" "ul_network (fst st') = ul_network (fst st)"
    "table st' = (if e = None then changed puts deletes (table st) else table st)"
    "e \<noteq> None \<Longrightarrow> e = Some ErrLockEncode \<or> e = Some ErrLockStore" by blast+
qed

end

end
