(* ===== verification/LockSpec.thy ===== *)
theory LockSpec
  imports LockTable
begin

text \<open>
  What each operation of the locker does to the table, output by output, and the proof that the
  detailed operations do exactly that: all of it, or nothing when they return an error.
\<close>

section \<open>The specification\<close>

definition reserve_entry :: "int \<Rightarrow> string \<Rightarrow> string \<Rightarrow> string list \<Rightarrow> string \<Rightarrow> 'a LockedUtxo option
    \<Rightarrow> locker_error + 'a LockedUtxo option" where
  "reserve_entry now reason reservationID claimable u current =
     (case current of
        None \<Rightarrow> Inr (Some ((new_lock now reason)\<lparr>lu_ReservationID := reservationID\<rparr>))
      | Some c \<Rightarrow>
          if lu_ReservationID c = reservationID then Inr (Some (c\<lparr>lu_Reason := reason\<rparr>))
          else if lu_ReservationID c = '''' \<and> lu_Reason c \<in> set claimable
          then Inr (Some (c\<lparr>lu_ReservationPreviousReason := lu_Reason c, lu_Reason := reason, lu_ReservationID := reservationID\<rparr>))
          else Inl (ErrUtxoReserved u))"

definition previous_reason :: "(string \<times> string) list \<Rightarrow> string \<Rightarrow> string" where
  "previous_reason previousReasons u = (case map_of previousReasons u of None \<Rightarrow> '''' | Some r \<Rightarrow> r)"

definition ensure_entry :: "int \<Rightarrow> string \<Rightarrow> string \<Rightarrow> (string \<times> string) list \<Rightarrow> string \<Rightarrow> 'a LockedUtxo option
    \<Rightarrow> locker_error + 'a LockedUtxo option" where
  "ensure_entry now reason reservationID previousReasons u current =
     (let previous = previous_reason previousReasons u
      in case current of
        None \<Rightarrow> Inr (Some ((new_lock now reason)\<lparr>lu_ReservationID := reservationID, lu_ReservationPreviousReason := previous\<rparr>))
      | Some c \<Rightarrow>
          if lu_ReservationID c = reservationID
             \<or> lu_ReservationID c = '''' \<and> (lu_Reason c = reason \<or> previous \<noteq> '''' \<and> lu_Reason c = previous)
          then Inr (Some (c\<lparr>lu_Reason := reason, lu_ReservationID := reservationID, lu_ReservationPreviousReason := previous\<rparr>))
          else Inl (ErrUtxoReserved u))"

definition finalize_entry :: "int \<Rightarrow> string \<Rightarrow> string \<Rightarrow> string \<Rightarrow> 'a LockedUtxo option
    \<Rightarrow> locker_error + 'a LockedUtxo option" where
  "finalize_entry now reservationID reason u current =
     (case current of
        None \<Rightarrow> Inr (Some (new_lock now reason))
      | Some c \<Rightarrow>
          if lu_ReservationID c \<in> {'''', reservationID}
          then Inr (Some (c\<lparr>lu_Reason := reason, lu_ReservationID := '''', lu_ReservationPreviousReason := ''''\<rparr>))
          else Inl (ErrUtxoReservationOwner u))"

definition release_entry :: "string \<Rightarrow> string \<Rightarrow> 'a LockedUtxo option \<Rightarrow> locker_error + 'a LockedUtxo option" where
  "release_entry reservationID u current =
     (case current of
        None \<Rightarrow> Inr None
      | Some c \<Rightarrow>
          if lu_ReservationID c \<noteq> reservationID then Inl (ErrUtxoReservationOwner u)
          else if lu_ReservationPreviousReason c = '''' then Inr None
          else Inr (Some (c\<lparr>lu_Reason := lu_ReservationPreviousReason c, lu_ReservationID := '''',
                            lu_ReservationPreviousReason := ''''\<rparr>)))"

text \<open>An error is one of an output, or the storage failed; the table changes only without an error.\<close>

definition all_or_nothing :: "(string \<Rightarrow> 'a LockedUtxo option \<Rightarrow> locker_error + 'a LockedUtxo option) \<Rightarrow> string list
    \<Rightarrow> locker_error option \<Rightarrow> (string \<rightharpoonup> 'a LockedUtxo) \<Rightarrow> (string \<rightharpoonup> 'a LockedUtxo) \<Rightarrow> bool" where
  "all_or_nothing entry us e T T' \<longleftrightarrow>
     (case e of
        None \<Rightarrow> (\<forall>u\<in>set us. is_ok (entry u (T u)))
          \<and> T' = (\<lambda>u. if u \<in> set us then (case entry u (T u) of Inl _ \<Rightarrow> None | Inr l \<Rightarrow> l) else T u)
      | Some er \<Rightarrow> T' = T \<and> (er = ErrLockEncode \<or> er = ErrLockStore \<or> (\<exists>u\<in>set us. entry u (T u) = Inl er)))"

text \<open>Plain locks: the free outputs among the first \<open>n\<close>.\<close>

definition locked_first :: "int \<Rightarrow> string \<Rightarrow> string list \<Rightarrow> nat \<Rightarrow> (string \<rightharpoonup> 'a LockedUtxo) \<Rightarrow> (string \<rightharpoonup> 'a LockedUtxo)" where
  "locked_first now reason us n T =
     (\<lambda>u. if T u = None \<and> u \<in> set (take n us) then Some (new_lock now reason) else T u)"

section \<open>The loops, output by output\<close>

abbreviation tagged :: "(string \<Rightarrow> locker_error + 'a LockedUtxo) \<Rightarrow> string list
    \<Rightarrow> locker_error + (string \<times> 'a LockedUtxo) list" where
  "tagged f \<equiv> rmap (\<lambda>u. rbind (f u) (\<lambda>l. Inr (u, l)))"

definition updates :: "(string \<Rightarrow> 'a LockedUtxo option \<Rightarrow> locker_error + 'a LockedUtxo option) \<Rightarrow> (string \<rightharpoonup> 'a LockedUtxo)
    \<Rightarrow> string \<Rightarrow> locker_error + 'a LockedUtxo" where
  "updates entry T u = rbind (entry u (T u)) (\<lambda>l. case l of None \<Rightarrow> Inl ErrIndexer | Some l \<Rightarrow> Inr l)"

lemma reserve_loop_eq:
  "reserve_loop now reason reservationID claimable locks us = tagged (updates (reserve_entry now reason reservationID claimable) locks) us"
  by (induction us) (auto simp: updates_def reserve_entry_def new_lock_def check_def split: option.splits)

lemma ensure_loop_eq:
  "reservationID \<noteq> [] \<Longrightarrow> ensure_loop now reason reservationID previous locks us = tagged (updates (ensure_entry now reason reservationID previous) locks) us"
  by (induction us) (auto simp: updates_def ensure_entry_def new_lock_def previous_reason_def Let_def check_def split: option.splits)

lemma finalize_loop_eq:
  "finalize_loop now reservationID reason locks us = tagged (updates (finalize_entry now reservationID reason) locks) us"
  by (induction us) (auto simp: updates_def finalize_entry_def new_lock_def check_def split: option.splits)

lemma tagged_Inr:
  assumes "tagged f us = Inr puts"
  shows "map fst puts = us" "\<forall>u\<in>set us. is_ok (f u)"
    "map_of puts u = (if u \<in> set us then (case f u of Inl _ \<Rightarrow> None | Inr l \<Rightarrow> Some l) else None)"
  using assms by (induction us arbitrary: puts) (auto simp: result_simps)

lemma rmap_Inl: "rmap f xs = Inl e \<Longrightarrow> \<exists>x\<in>set xs. f x = Inl e"
  by (induction xs) (auto simp: rbind_def split: sum.splits)

lemma release_loop_Inr:
  assumes "release_loop reservationID locks us = Inr (puts, deletes)" "distinct us"
  shows "\<forall>u\<in>set us. is_ok (release_entry reservationID u (locks u))"
    "set (map fst puts) \<subseteq> set us" "distinct (map fst puts)" "set deletes \<subseteq> set us"
    "changed puts deletes locks = (\<lambda>u. if u \<in> set us then (case release_entry reservationID u (locks u) of
        Inl _ \<Rightarrow> None | Inr l \<Rightarrow> l) else locks u)"
    "puts = [] \<Longrightarrow> deletes = [] \<Longrightarrow> changed puts deletes locks = locks"
proof -
  have "(\<forall>u\<in>set us. is_ok (release_entry reservationID u (locks u))) \<and> set (map fst puts) \<subseteq> set us \<and> distinct (map fst puts)
    \<and> set deletes \<subseteq> set us
    \<and> (\<forall>u. u \<in> set deletes \<longleftrightarrow> u \<in> set us \<and> locks u \<noteq> None \<and> release_entry reservationID u (locks u) = Inr None)
    \<and> (\<forall>u. map_of puts u = (if u \<in> set us then (case release_entry reservationID u (locks u) of
        Inl _ \<Rightarrow> None | Inr l \<Rightarrow> l) else None))"
    using assms
  proof (induction us arbitrary: puts deletes)
    case (Cons u us)
    show ?case
    proof (cases "locks u")
      case None
      then show ?thesis using Cons.IH [of puts deletes] Cons.prems by (auto simp: release_entry_def)
    next
      case (Some c)
      then obtain puts' deletes' where r: "release_loop reservationID locks us = Inr (puts', deletes')"
        "lu_ReservationID c = reservationID"
        and e: "(puts, deletes) = (if lu_ReservationPreviousReason c = '''' then (puts', u # deletes')
              else ((u, c\<lparr>lu_Reason := lu_ReservationPreviousReason c, lu_ReservationID := '''',
                          lu_ReservationPreviousReason := ''''\<rparr>) # puts', deletes'))"
        using Cons.prems by (auto simp: result_simps split: if_splits)
      then show ?thesis using Cons.IH [OF r(1)] Cons.prems(2) Some
        by (auto simp: release_entry_def split: if_splits)
    qed
  qed simp
  note R = this
  show "\<forall>u\<in>set us. is_ok (release_entry reservationID u (locks u))"
    "set (map fst puts) \<subseteq> set us" "distinct (map fst puts)" "set deletes \<subseteq> set us" using R by blast+
  show "changed puts deletes locks = (\<lambda>u. if u \<in> set us then (case release_entry reservationID u (locks u) of
        Inl _ \<Rightarrow> None | Inr l \<Rightarrow> l) else locks u)"
    unfolding changed_def fun_eq_iff
    using R by (auto simp: release_entry_def split: option.splits if_splits)
  show "puts = [] \<Longrightarrow> deletes = [] \<Longrightarrow> changed puts deletes locks = locks" by (simp add: changed_def)
qed

lemma release_loop_Inl:
  "release_loop reservationID locks us = Inl e \<Longrightarrow> \<exists>u\<in>set us. release_entry reservationID u (locks u) = Inl e"
  by (induction us) (auto simp: release_entry_def check_def rbind_def split: option.splits if_splits sum.splits)

section \<open>The operations implement the specification\<close>

lemma blank_Nil [simp]: "blank []"
  by (simp add: blank_def)

lemma trimLeft_set: "set (trimLeft s) \<subseteq> set s"
proof (induction s rule: trimLeft.induct)
  case (1 s)
  show ?case
    using 1 set_drop_subset [of "spaceLen s" s] by (subst trimLeft.simps) (auto simp del: set_drop_subset)
qed

lemma trimRight_set: "set (trimRight s) \<subseteq> set s"
proof (induction s rule: trimRight.induct)
  case (1 s)
  show ?case
    using 1 set_take_subset [of "length s - spaceLenEnd s" s] by (subst trimRight.simps) (auto simp del: set_take_subset)
qed

lemma normalized_utxos:
  "distinct (normalizedReservationUtxos us)" "sorted (normalizedReservationUtxos us)"
  "set (normalizedReservationUtxos us) = {u \<in> trimSpace ` set us. u \<noteq> ''''}"
  by (auto simp: normalizedReservationUtxos_def)

lemma normalized_plain: "\<forall>u\<in>set us. plain u \<Longrightarrow> \<forall>u\<in>set (normalizedReservationUtxos us). plain u"
  using trimLeft_set trimRight_set unfolding normalized_utxos(3) plain_def trimSpace_def by blast

lemma same_reason [simp]: "c\<lparr>lu_Reason := lu_Reason c\<rparr> = (c :: 'a LockedUtxo)"
  by (cases c) simp

text \<open>No deletion of the store fails.\<close>

definition deletes_succeed :: "'s kvdb \<Rightarrow> bool" where
  "deletes_succeed D \<longleftrightarrow> (\<forall>k s. fst (kvDelete D k s))"

context kvdb_store
begin

lemma put_all_refines:
  assumes "gob_laws G" "synced content good G P st" "distinct us" "\<forall>u\<in>set us. plain u"
    and "\<And>u c. entry u c \<noteq> Inr None"
    and "(case tagged (updates entry (table st)) us of Inl er \<Rightarrow> (Some er, st)
          | Inr puts \<Rightarrow> persistReservationChangesLocked D G P now puts [] st) = (e, st')"
  shows "synced content good G P st' \<and> ul_network (fst st') = ul_network (fst st) \<and> all_or_nothing entry us e (table st) (table st')"
proof (cases "tagged (updates entry (table st)) us")
  case (Inl er)
  obtain u where r: "u \<in> set us" "rbind (updates entry (table st) u) (\<lambda>l. Inr (u, l)) = Inl er"
    using rmap_Inl [OF Inl] by (rule bexE)
  from r(2) have u: "updates entry (table st) u = Inl er" by (cases "updates entry (table st) u") auto
  have "entry u (table st u) = Inl er"
  proof (cases "entry u (table st u)")
    case (Inr l)
    then show ?thesis using u assms(5) [of u "table st u"] by (cases l) (simp_all add: updates_def)
  qed (use u in \<open>simp add: updates_def\<close>)
  then show ?thesis using assms(2,6) Inl r(1) by (auto simp: all_or_nothing_def)
next
  case (Inr puts)
  note T = tagged_Inr [OF Inr]
  have "distinct (map fst puts)" "\<forall>u\<in>fst ` set puts. plain u" using T(1) assms(3,4) by (simp_all flip: set_map)
  note R = persist_synced [OF assms(1,2) this, of now "[]" e st']
  have r: "persistReservationChangesLocked D G P now puts [] st = (e, st')" using assms(6) Inr by simp
  have ok: "\<exists>l. entry u (table st u) = Inr (Some l)" if u: "u \<in> set us" for u
  proof (cases "entry u (table st u)")
    case (Inl er)
    then have "\<not> is_ok (updates entry (table st) u)" by (simp add: updates_def)
    then show ?thesis using T(2) u by blast
  next
    case (Inr l)
    then show ?thesis using assms(5) [of u "table st u"] by (cases l) simp_all
  qed
  have "changed puts [] (table st) = (\<lambda>u. if u \<in> set us then (case entry u (table st u) of Inl _ \<Rightarrow> None | Inr l \<Rightarrow> l) else table st u)"
  proof
    fix u
    show "changed puts [] (table st) u
        = (if u \<in> set us then (case entry u (table st u) of Inl _ \<Rightarrow> None | Inr l \<Rightarrow> l) else table st u)"
    proof (cases "u \<in> set us")
      case True
      then show ?thesis using ok [OF True] T(3) [of u] by (auto simp: changed_def updates_def)
    next
      case False
      then show ?thesis using T(3) [of u] by (simp add: changed_def)
    qed
  qed
  moreover have "\<forall>u\<in>set us. is_ok (entry u (table st u))" using ok by fastforce
  ultimately show ?thesis using R [OF r] by (cases e) (auto simp: all_or_nothing_def)
qed

lemma reserve_refines:
  assumes "gob_laws G" "synced content good G P st" "\<forall>u\<in>set us. plain u"
    and "\<not> blank reason" "\<not> blank reservationID" "normalizedReservationUtxos us \<noteq> []"
    and "TryReserve D G P now us reason reservationID claimable st = (e, st')"
  shows "synced content good G P st' \<and> ul_network (fst st') = ul_network (fst st)
    \<and> all_or_nothing (reserve_entry now reason reservationID claimable) (normalizedReservationUtxos us) e (table st) (table st')"
proof -
  note R = reload_synced [OF assms(2)]
  have "reserve_entry now reason reservationID claimable u c \<noteq> Inr None" for u c
    by (auto simp: reserve_entry_def split: option.splits)
  from put_all_refines [OF assms(1) R(1) normalized_utxos(1) normalized_plain [OF assms(3)] this, where now = now and e = e and st' = st']
  show ?thesis
    using assms(4-7) R(2,4) by (simp add: TryReserve_def reserve_loop_eq Let_def table_def [symmetric])
qed

lemma ensure_refines:
  assumes "gob_laws G" "synced content good G P st" "\<forall>u\<in>set us. plain u"
    and "\<not> blank reason" "\<not> blank reservationID"
    and "EnsureReservation D G P now us reason reservationID previous st = (e, st')"
  shows "synced content good G P st' \<and> ul_network (fst st') = ul_network (fst st)
    \<and> all_or_nothing (ensure_entry now reason reservationID previous) (normalizedReservationUtxos us) e (table st) (table st')"
proof (cases "normalizedReservationUtxos us = []")
  case True
  then show ?thesis using assms by (auto simp: EnsureReservation_def all_or_nothing_def Let_def)
next
  case False
  note R = reload_synced [OF assms(2)]
  have "ensure_entry now reason reservationID previous u c \<noteq> Inr None" for u c
    by (auto simp: ensure_entry_def Let_def split: option.splits)
  from put_all_refines [OF assms(1) R(1) normalized_utxos(1) normalized_plain [OF assms(3)] this, where now = now and e = e and st' = st']
  show ?thesis
    using assms(4-6) False R(2,4) blank_Nil
    by (cases "reservationID = []") (simp_all add: EnsureReservation_def ensure_loop_eq Let_def table_def [symmetric])
qed

lemma finalize_refines:
  assumes "gob_laws G" "synced content good G P st" "\<forall>u\<in>set us. plain u"
    and "\<not> blank reservationID" "\<not> blank reason"
    and "FinalizeReservation D G P now us reservationID reason st = (e, st')"
  shows "synced content good G P st' \<and> ul_network (fst st') = ul_network (fst st)
    \<and> all_or_nothing (finalize_entry now reservationID reason) (normalizedReservationUtxos us) e (table st) (table st')"
proof (cases "normalizedReservationUtxos us = []")
  case True
  then show ?thesis using assms by (auto simp: FinalizeReservation_def all_or_nothing_def Let_def)
next
  case False
  note R = reload_synced [OF assms(2)]
  have "finalize_entry now reservationID reason u c \<noteq> Inr None" for u c
    by (auto simp: finalize_entry_def split: option.splits)
  from put_all_refines [OF assms(1) R(1) normalized_utxos(1) normalized_plain [OF assms(3)] this, where now = now and e = e and st' = st']
  show ?thesis
    using assms(4-6) False R(2,4) by (simp add: FinalizeReservation_def finalize_loop_eq Let_def table_def [symmetric])
qed

lemma release_refines:
  assumes "gob_laws G" "synced content good G P st" "\<forall>u\<in>set us. plain u" "\<not> blank reservationID"
    and "ReleaseReservation D G P now us reservationID st = (e, st')"
  shows "synced content good G P st' \<and> ul_network (fst st') = ul_network (fst st)
    \<and> all_or_nothing (release_entry reservationID) (normalizedReservationUtxos us) e (table st) (table st')"
proof -
  note R = reload_synced [OF assms(2)]
  let ?us = "normalizedReservationUtxos us"
  have t: "map_of (ul_lockmap (fst (reload D G P st))) = table st" using R(2) by (simp add: table_def)
  show ?thesis
  proof (cases "release_loop reservationID (table st) ?us")
    case (Inl er)
    then show ?thesis using assms(4,5) R release_loop_Inl [OF Inl]
      by (auto simp: ReleaseReservation_def t Let_def all_or_nothing_def)
  next
    case (Inr r)
    obtain puts deletes where r: "r = (puts, deletes)" by (cases r)
    note L = release_loop_Inr [OF Inr [unfolded r] normalized_utxos(1)]
    show ?thesis
    proof (cases "puts = [] \<and> deletes = []")
      case True
      then show ?thesis using assms(4,5) R L Inr by (auto simp: ReleaseReservation_def t r Let_def all_or_nothing_def)
    next
      case False
      then have p: "persistReservationChangesLocked D G P now puts deletes (reload D G P st) = (e, st')"
        using assms(4,5) Inr by (auto simp: ReleaseReservation_def t r Let_def split: if_splits)
      have "\<forall>u\<in>fst ` set puts. plain u" using L(2) normalized_plain [OF assms(3)] by auto
      from persist_synced [OF assms(1) R(1) L(3) this p] R L show ?thesis
        by (cases e) (auto simp: all_or_nothing_def)
    qed
  qed
qed

lemma reason_refines:
  assumes "gob_laws G" "synced content good G P st" "plain u" "u \<noteq> ''''" "reason \<noteq> ''''"
    and "SetLockReason D G P now u reason st = (e, st')"
  shows "synced content good G P st' \<and> ul_network (fst st') = ul_network (fst st)
    \<and> all_or_nothing (\<lambda>u c. Inr (Some ((case c of None \<Rightarrow> new_lock now reason | Some c \<Rightarrow> c\<lparr>lu_Reason := reason\<rparr>)))) [u] e
        (table st) (table st')"
proof -
  note R = reload_synced [OF assms(2)]
  have t: "map_of (ul_lockmap (fst (reload D G P st))) = table st" using R(2) by (simp add: table_def)
  define new where "new = (case table st u of None \<Rightarrow> new_lock now reason | Some c \<Rightarrow> c\<lparr>lu_Reason := reason\<rparr>)"
  show ?thesis
  proof (cases "\<exists>c. table st u = Some c \<and> lu_Reason c = reason")
    case True
    then show ?thesis using assms(4-6) R by (auto simp: SetLockReason_def t Let_def all_or_nothing_def fun_eq_iff)
  next
    case False
    then have p: "persistReservationChangesLocked D G P now [(u, new)] [] (reload D G P st) = (e, st')"
      using assms(4-6) by (auto simp: SetLockReason_def t Let_def new_def new_lock_def split: option.splits)
    from persist_synced [OF assms(1) R(1) _ _ p] assms(3) R show ?thesis
      by (cases e) (auto simp: all_or_nothing_def changed_def fun_eq_iff new_def)
  qed
qed

end

end
