(* ===== verification/LockProperties.thy ===== *)
theory LockProperties
  imports LockSpec ShareProperties
begin

text \<open>
  The locker as a state machine: its operations as steps, what each may do to the table, and what
  holds along every sequence of them.
\<close>

section \<open>Steps\<close>

datatype lock_op =
    OpLockUtxos "string list" string
  | OpLockUtxo string string
  | OpLockTx "string list option"
  | OpUnlockUtxo string
  | OpUnlockTx "string list option"
  | OpTryReserve "string list" string string "string list"
  | OpEnsure "string list" string string "(string \<times> string) list"
  | OpFinalize "string list" string string
  | OpRelease "string list" string
  | OpSetReason string string
  | OpCheckBlock "string list list"
  | OpCheckExisting "string list \<Rightarrow> string list option"
  | OpReload

fun lock_step :: "'s kvdb \<Rightarrow> 'a gob \<Rightarrow> string \<Rightarrow> int \<Rightarrow> lock_op \<Rightarrow> ('a, 's) locker
    \<Rightarrow> locker_error option \<times> ('a, 's) locker" where
  "lock_step D G P now (OpLockUtxos utxos reason) st = LockUtxos D G P now utxos reason st"
| "lock_step D G P now (OpLockUtxo utxo reason) st = LockUtxo D G P now utxo reason st"
| "lock_step D G P now (OpLockTx tx) st = LockUtxosWithTx D G P now tx st"
| "lock_step D G P now (OpUnlockUtxo utxo) st = (None, UnlockUtxo D G P now utxo st)"
| "lock_step D G P now (OpUnlockTx tx) st = (None, UnlockUtxosWithTx D G P now tx st)"
| "lock_step D G P now (OpTryReserve utxos reason reservationID claimable) st =
     TryReserve D G P now utxos reason reservationID claimable st"
| "lock_step D G P now (OpEnsure utxos reason reservationID previous) st =
     EnsureReservation D G P now utxos reason reservationID previous st"
| "lock_step D G P now (OpFinalize utxos reservationID reason) st =
     FinalizeReservation D G P now utxos reservationID reason st"
| "lock_step D G P now (OpRelease utxos reservationID) st = ReleaseReservation D G P now utxos reservationID st"
| "lock_step D G P now (OpSetReason utxo reason) st = SetLockReason D G P now utxo reason st"
| "lock_step D G P now (OpCheckBlock transactions) st = (None, CheckBlock D G P now transactions st)"
| "lock_step D G P now (OpCheckExisting existing) st = (None, CheckExisting D G P now existing st)"
| "lock_step D G P now OpReload st = (None, reload D G P st)"

text \<open>The outputs named by an operation are \<open>txid:vout\<close> texts, without a hyphen.\<close>

fun plain_op :: "lock_op \<Rightarrow> bool" where
  "plain_op (OpLockUtxos us _) = (\<forall>u\<in>set us. plain u)"
| "plain_op (OpLockUtxo u _) = plain u"
| "plain_op (OpLockTx tx) = (\<forall>us. tx = Some us \<longrightarrow> (\<forall>u\<in>set us. plain u))"
| "plain_op (OpTryReserve us _ _ _) = (\<forall>u\<in>set us. plain u)"
| "plain_op (OpEnsure us _ _ _) = (\<forall>u\<in>set us. plain u)"
| "plain_op (OpFinalize us _ _) = (\<forall>u\<in>set us. plain u)"
| "plain_op (OpRelease us _) = (\<forall>u\<in>set us. plain u)"
| "plain_op (OpSetReason u _) = plain u"
| "plain_op _ = True"

definition without :: "string set \<Rightarrow> (string \<rightharpoonup> 'a) \<Rightarrow> (string \<rightharpoonup> 'a)" where
  "without us T = (\<lambda>u. if u \<in> us then None else T u)"

fun lock_spec :: "int \<Rightarrow> lock_op \<Rightarrow> locker_error option \<Rightarrow> (string \<rightharpoonup> 'a LockedUtxo) \<Rightarrow> (string \<rightharpoonup> 'a LockedUtxo) \<Rightarrow> bool" where
  "lock_spec now (OpLockUtxos us reason) e T T' =
     (\<exists>n. T' = locked_first now reason us n T \<and> (e = None \<longrightarrow> length us \<le> n))"
| "lock_spec now (OpLockUtxo u reason) e T T' = (T' = locked_first now reason [u] (if e = None then 1 else 0) T)"
| "lock_spec now (OpLockTx tx) e T T' =
     (\<exists>n. T' = locked_first now ''broadcasted'' (case tx of None \<Rightarrow> [] | Some us \<Rightarrow> us) n T
        \<and> (e = None \<longrightarrow> length (case tx of None \<Rightarrow> [] | Some us \<Rightarrow> us) \<le> n))"
| "lock_spec now (OpUnlockUtxo u) e T T' = (e = None \<and> T' = without {u} T)"
| "lock_spec now (OpUnlockTx tx) e T T' = (e = None \<and> T' = without (case tx of None \<Rightarrow> {} | Some us \<Rightarrow> set us) T)"
| "lock_spec now (OpTryReserve us reason reservationID claimable) e T T' =
     (if blank reason \<or> blank reservationID then e = Some ErrInvalidReservation \<and> T' = T
      else if normalizedReservationUtxos us = [] then e = Some ErrReservationEmpty \<and> T' = T
      else all_or_nothing (reserve_entry now reason reservationID claimable) (normalizedReservationUtxos us) e T T')"
| "lock_spec now (OpEnsure us reason reservationID previous) e T T' =
     (if blank reason \<or> blank reservationID then e = Some ErrInvalidReservation \<and> T' = T
      else all_or_nothing (ensure_entry now reason reservationID previous) (normalizedReservationUtxos us) e T T')"
| "lock_spec now (OpFinalize us reservationID reason) e T T' =
     (if blank reservationID \<or> blank reason then e = Some ErrInvalidReservation \<and> T' = T
      else all_or_nothing (finalize_entry now reservationID reason) (normalizedReservationUtxos us) e T T')"
| "lock_spec now (OpRelease us reservationID) e T T' =
     (if blank reservationID then e = Some ErrInvalidReservation \<and> T' = T
      else all_or_nothing (release_entry reservationID) (normalizedReservationUtxos us) e T T')"
| "lock_spec now (OpSetReason u reason) e T T' =
     (if u = '''' \<or> reason = '''' then e = None \<and> T' = T
      else all_or_nothing (\<lambda>u c. Inr (Some (case c of None \<Rightarrow> new_lock now reason | Some c \<Rightarrow> c\<lparr>lu_Reason := reason\<rparr>)))
        [u] e T T')"
| "lock_spec now (OpCheckBlock txs) e T T' = (e = None \<and> T' = without (set (concat txs)) T)"
| "lock_spec now (OpCheckExisting existing) e T T' =
     (e = None \<and> (\<exists>us. distinct us \<and> set us = dom T
        \<and> T' = (case existing us of
              None \<Rightarrow> T
            | Some found \<Rightarrow> if length found = length us then T else without (- set found) T)))"
| "lock_spec now OpReload e T T' = (e = None \<and> T' = T)"

section \<open>Every step keeps to the specification\<close>

lemma locked_first_step:
  "locked_first now reason us n (if T u = None then T(u \<mapsto> new_lock now reason) else T) = locked_first now reason (u # us) (Suc n) T"
  by (auto simp: locked_first_def fun_eq_iff)

lemma locked_first_one:
  "locked_first now reason [u] (Suc 0) T = (if T u = None then T(u \<mapsto> new_lock now reason) else T)"
  by (auto simp: locked_first_def fun_eq_iff)

lemma block_input_eq:
  "block_input D P u (b, st) = (if IsLocked u st then (True, unlockUtxo D P u st) else (b, st))"
  by (simp add: block_input_def)

lemma locked_first_0 [simp]: "locked_first now reason us 0 T = T" "locked_first now reason [] n T = T"
  by (simp_all add: locked_first_def)

context kvdb_store
begin

lemma lock_loop_refines:
  assumes "gob_laws G" "synced content good G P st" "\<forall>u\<in>set us. plain u"
    and "lock_loop D G P now reason us st = (e, st')"
  shows "synced content good G P st' \<and> (\<exists>n. table st' = locked_first now reason us n (table st) \<and> (e = None \<longrightarrow> length us \<le> n))"
  using assms(2-4)
proof (induction us arbitrary: st)
  case Nil
  then show ?case by (auto intro: exI [of _ 0])
next
  case (Cons u us)
  obtain e1 st1 where l: "lockUtxo D G P now u reason st = (e1, st1)" by (rule prod.exhaust)
  have "plain u" using Cons.prems(2) by simp
  note L = lock_synced [OF assms(1) Cons.prems(1) this l]
  show ?case
  proof (cases e1)
    case None
    then have "lock_loop D G P now reason us st1 = (e, st')" using Cons.prems(3) l by simp
    from Cons.IH [OF L(1) _ this] Cons.prems(2) obtain n where
      "synced content good G P st'" "table st' = locked_first now reason us n (table st1)" "e = None \<longrightarrow> length us \<le> n" by auto
    moreover have "table st1 = (if table st u = None then (table st)(u \<mapsto> new_lock now reason) else table st)"
      using L(3) None by simp
    ultimately show ?thesis using locked_first_step [of now reason us n "table st" u] by (intro conjI exI [of _ "Suc n"]) auto
  next
    case (Some er)
    then show ?thesis using Cons.prems(3) l L by (auto intro: exI [of _ 0])
  qed
qed

lemma unlock_fold:
  assumes "deletes_succeed D" "synced content good G P st"
  shows "synced content good G P (fold (unlockUtxo D P) us st) \<and> table (fold (unlockUtxo D P) us st) = without (set us) (table st)"
  using assms(2)
proof (induction us arbitrary: st)
  case (Cons u us)
  note U = unlock_synced [OF assms(1) [unfolded deletes_succeed_def] Cons.prems, of u]
  show ?case using Cons.IH [OF U(1)] U(2) by (auto simp: without_def fun_eq_iff)
qed (simp add: without_def)

lemma block_fold:
  assumes "deletes_succeed D" "synced content good G P st" "fold (block_input D P) us (b, st) = (b', st')"
  shows "synced content good G P st' \<and> table st' = without (set us) (table st)"
  using assms(2,3)
proof (induction us arbitrary: b st)
  case (Cons u us)
  note U = unlock_synced [OF assms(1) [unfolded deletes_succeed_def] Cons.prems(1), of u]
  show ?case
  proof (cases "IsLocked u st")
    case True
    then have "fold (block_input D P) us (True, unlockUtxo D P u st) = (b', st')" using Cons.prems(2) by (simp add: block_input_eq)
    from Cons.IH [OF U(1) this] U(2) show ?thesis by (auto simp: without_def fun_eq_iff)
  next
    case False
    then have "table st u = None" by (cases st) (simp add: IsLocked_def table_def)
    moreover have "fold (block_input D P) us (b, st) = (b', st')" using Cons.prems(2) False by (simp add: block_input_eq)
    ultimately show ?thesis using Cons.IH [OF Cons.prems(1)] by (fastforce simp: without_def fun_eq_iff)
  qed
qed (simp add: without_def)

lemma refresh_all:
  assumes "gob_laws G" "synced content good G P st \<and> Q (table st)"
  shows "synced content good G P (refresh D G P now st) \<and> Q (table (refresh D G P now st))"
  using refresh_synced [OF assms(1)] assms(2) by simp

lemma check_existing_refines:
  assumes "gob_laws G" "deletes_succeed D" "synced content good G P st"
  shows "synced content good G P (CheckExisting D G P now existing st)
    \<and> lock_spec now (OpCheckExisting existing) None (table st) (table (CheckExisting D G P now existing st))"
proof -
  let ?st = "reload D G P st"
  let ?us = "map fst (ul_lockmap (fst ?st))"
  note R = reload_synced [OF assms(3)]
  have us: "distinct ?us" "set ?us = dom (table st)"
    using R(1,2) by (auto simp: synced_def table_def dom_map_of_conv_image_fst [symmetric] split: prod.splits)
  have r: "synced content good G P (CheckExisting D G P now existing st)
    \<and> table (CheckExisting D G P now existing st) = (case existing ?us of None \<Rightarrow> table st
        | Some found \<Rightarrow> if length found = length ?us then table st else without (- set found) (table st))"
  proof (cases "existing ?us")
    case None
    then show ?thesis using R by (simp add: CheckExisting_def Let_def)
  next
    case (Some found)
    let ?gone = "filter (\<lambda>k. k \<notin> set found) ?us"
    have "without (set ?gone) (table st) = without (- set found) (table st)"
      using us(2) by (auto simp: without_def fun_eq_iff)
    then have "synced content good G P (fold (unlockUtxo D P) ?gone ?st)
        \<and> table (fold (unlockUtxo D P) ?gone ?st) = without (- set found) (table st)"
      using unlock_fold [OF assms(2) R(1), of ?gone] R(2) by simp
    from refresh_all [where Q = "\<lambda>T. T = without (- set found) (table st)", OF assms(1) this]
    show ?thesis using R Some unfolding CheckExisting_def Let_def by simp
  qed
  have "lock_spec now (OpCheckExisting existing) None (table st) (table (CheckExisting D G P now existing st))"
    unfolding lock_spec.simps by (intro conjI exI [of _ ?us]) (use us r in simp_all)
  then show ?thesis using r by blast
qed

lemma lock_all_refines:
  assumes "gob_laws G" "synced content good G P st" "\<forall>u\<in>set us. plain u"
    and "(case lock_loop D G P now reason us st of (Some e, st) \<Rightarrow> (Some e, st) | (None, st) \<Rightarrow> (None, refresh D G P now st))
      = (e, st')"
  shows "synced content good G P st' \<and> (\<exists>n. table st' = locked_first now reason us n (table st) \<and> (e = None \<longrightarrow> length us \<le> n))"
proof -
  obtain e1 st1 where l: "lock_loop D G P now reason us st = (e1, st1)" by (rule prod.exhaust)
  note L = lock_loop_refines [OF assms(1-3) l]
  show ?thesis
  proof (cases e1)
    case None
    then have "e = None" "st' = refresh D G P now st1" using assms(4) l by auto
    then show ?thesis using L None refresh_synced [OF assms(1), of P st1 now] by simp
  next
    case (Some er)
    then have "e = Some er" "st' = st1" using assms(4) l by auto
    then show ?thesis using L Some by simp
  qed
qed

lemma step_refines:
  assumes G: "gob_laws G" and D: "deletes_succeed D" and st: "synced content good G P st" and op: "plain_op op"
    and s: "lock_step D G P now op st = (e, st')"
  shows "synced content good G P st' \<and> lock_spec now op e (table st) (table st')"
proof (cases op)
  case (OpLockUtxos us reason)
  have "\<forall>u\<in>set us. plain u" using op OpLockUtxos by simp
  from lock_all_refines [OF G st this, of now reason e st'] show ?thesis
    using s by (simp add: OpLockUtxos LockUtxos_def)
next
  case (OpLockUtxo u reason)
  obtain e1 st1 where l: "lockUtxo D G P now u reason st = (e1, st1)" by (rule prod.exhaust)
  have "plain u" using op OpLockUtxo by simp
  note L = lock_synced [OF G st this l]
  show ?thesis
    using s l L refresh_synced [OF G L(1), of now]
    by (cases e1) (auto simp: OpLockUtxo LockUtxo_def locked_first_one)
next
  case (OpLockTx tx)
  show ?thesis
  proof (cases tx)
    case None
    then show ?thesis using s st by (auto simp: OpLockTx LockUtxosWithTx_def)
  next
    case (Some us)
    have "\<forall>u\<in>set us. plain u" using op OpLockTx Some by simp
    from lock_all_refines [OF G st this, of now "''broadcasted''" e st'] show ?thesis
      using s Some by (simp add: OpLockTx LockUtxosWithTx_def)
  qed
next
  case (OpUnlockUtxo u)
  note U = unlock_synced [OF D [unfolded deletes_succeed_def] st, of u]
  show ?thesis using s U refresh_synced [OF G U(1), of now]
    by (auto simp: OpUnlockUtxo UnlockUtxo_def without_def)
next
  case (OpUnlockTx tx)
  show ?thesis
  proof (cases tx)
    case None
    then show ?thesis using s st by (auto simp: OpUnlockTx UnlockUtxosWithTx_def without_def)
  next
    case (Some us)
    note U = unlock_fold [OF D st, of us]
    show ?thesis using s U Some refresh_synced [OF G conjunct1 [OF U], of now]
      by (auto simp: OpUnlockTx UnlockUtxosWithTx_def)
  qed
next
  case (OpTryReserve us reason reservationID claimable)
  then show ?thesis using s st op reserve_refines [OF G st, of us reason reservationID now claimable e st']
    by (auto simp: TryReserve_def Let_def)
next
  case (OpEnsure us reason reservationID previous)
  then show ?thesis using s st op ensure_refines [OF G st, of us reason reservationID now previous e st']
    by (auto simp: EnsureReservation_def Let_def)
next
  case (OpFinalize us reservationID reason)
  then show ?thesis using s st op finalize_refines [OF G st, of us reservationID reason now e st']
    by (auto simp: FinalizeReservation_def Let_def)
next
  case (OpRelease us reservationID)
  then show ?thesis using s st op release_refines [OF G st, of us reservationID now e st']
    by (auto simp: ReleaseReservation_def Let_def)
next
  case (OpSetReason u reason)
  then show ?thesis using s st op reason_refines [OF G st, of u reason now e st']
    by (cases "u = '''' \<or> reason = ''''") (auto simp: SetLockReason_def Let_def)
next
  case (OpCheckBlock txs)
  note R = reload_synced [OF st]
  obtain b st1 where f: "fold (block_input D P) (concat txs) (False, reload D G P st) = (b, st1)" by (rule prod.exhaust)
  note B = block_fold [OF D R(1) f]
  show ?thesis using s f B R(2) refresh_synced [OF G conjunct1 [OF B], of now]
    by (cases b) (auto simp: OpCheckBlock CheckBlock_def)
next
  case (OpCheckExisting existing)
  then show ?thesis using s check_existing_refines [OF G D st, of now existing] by auto
next
  case OpReload
  then show ?thesis using s reload_synced [OF st] by auto
qed

end

section \<open>Sequences of steps\<close>

text \<open>A trace records the time, the operation and its outcome.\<close>

inductive lock_trace :: "'s kvdb \<Rightarrow> 'a gob \<Rightarrow> string \<Rightarrow> (int \<times> lock_op \<times> locker_error option) list
    \<Rightarrow> ('a, 's) locker \<Rightarrow> ('a, 's) locker \<Rightarrow> bool" for D G P where
  trace_nil: "lock_trace D G P [] st st"
| trace_cons: "lock_step D G P now op st = (e, st1) \<Longrightarrow> lock_trace D G P ops st1 st2
    \<Longrightarrow> lock_trace D G P ((now, op, e) # ops) st st2"

inductive_simps lock_trace_simps: "lock_trace D G P [] st st'" "lock_trace D G P ((now, op, e) # ops) st st'"

context kvdb_store
begin

lemma trace_invariant:
  assumes G: "gob_laws G" "deletes_succeed D"
    and tr: "lock_trace D G P ops st st'"
    and p: "\<forall>(now, op, e)\<in>set ops. plain_op op"
    and Q: "\<And>now op e T T'. (now, op, e) \<in> set ops \<Longrightarrow> lock_spec now op e T T' \<Longrightarrow> Q T \<Longrightarrow> Q T'"
    and st: "synced content good G P st" "Q (table st)"
  shows "synced content good G P st' \<and> Q (table st')"
  using tr p Q st
proof induction
  case (trace_cons now op st e st1 ops st2)
  have "plain_op op" using trace_cons.prems(1) by auto
  then have "synced content good G P st1 \<and> lock_spec now op e (table st) (table st1)"
    by (rule step_refines [OF G trace_cons.prems(3) _ trace_cons.hyps(1)])
  then show ?case using trace_cons.IH trace_cons.prems by force
qed simp

end

text \<open>A lock that is not reserved remembers no earlier reason.\<close>

definition wf_lock :: "'a LockedUtxo \<Rightarrow> bool" where
  "wf_lock c \<longleftrightarrow> (lu_ReservationID c = '''' \<longrightarrow> lu_ReservationPreviousReason c = '''')"

definition wf_locks :: "(string \<rightharpoonup> 'a LockedUtxo) \<Rightarrow> bool" where
  "wf_locks T \<longleftrightarrow> (\<forall>u c. T u = Some c \<longrightarrow> wf_lock c)"

lemma all_or_nothing_preserves:
  assumes "all_or_nothing entry us e T T'" "\<forall>u c. T u = Some c \<longrightarrow> R c"
    and "\<And>u c l. entry u c = Inr (Some l) \<Longrightarrow> (\<And>c'. c = Some c' \<Longrightarrow> R c') \<Longrightarrow> R l"
  shows "\<forall>u c. T' u = Some c \<longrightarrow> R c"
proof (cases e)
  case None
  show ?thesis
  proof (intro allI impI)
    fix u c assume c: "T' u = Some c"
    show "R c"
    proof (cases "u \<in> set us")
      case True
      then have "is_ok (entry u (T u))" using assms(1) None by (simp add: all_or_nothing_def)
      then obtain l where l: "entry u (T u) = Inr l" by (cases "entry u (T u)") simp_all
      then have "l = Some c" using assms(1) None c True by (simp add: all_or_nothing_def)
      then show ?thesis using assms(3) [of u "T u" c] l assms(2) by blast
    next
      case False
      then show ?thesis using assms(1,2) None c by (simp add: all_or_nothing_def)
    qed
  qed
next
  case (Some er)
  then show ?thesis using assms(1,2) by (simp add: all_or_nothing_def)
qed

lemma wf_entries:
  assumes "\<And>c'. c = Some c' \<Longrightarrow> wf_lock c'"
  shows "reserve_entry now reason i claimable u c = Inr (Some l) \<Longrightarrow> i \<noteq> '''' \<Longrightarrow> wf_lock l"
    "ensure_entry now reason i previous u c = Inr (Some l) \<Longrightarrow> i \<noteq> '''' \<Longrightarrow> wf_lock l"
    "finalize_entry now i reason u c = Inr (Some l) \<Longrightarrow> wf_lock l"
    "release_entry i u c = Inr (Some l) \<Longrightarrow> wf_lock l"
  using assms by (cases c; auto simp: reserve_entry_def ensure_entry_def finalize_entry_def release_entry_def Let_def
      new_lock_def wf_lock_def split: if_splits)+

lemma wf_all_or_nothing:
  assumes "all_or_nothing entry us e T T'" "wf_locks T"
    and "\<And>u c l. entry u c = Inr (Some l) \<Longrightarrow> (\<And>c'. c = Some c' \<Longrightarrow> wf_lock c') \<Longrightarrow> wf_lock l"
  shows "wf_locks T'"
  using all_or_nothing_preserves [OF assms(1), of wf_lock] assms(2,3) unfolding wf_locks_def by blast

lemma spec_wf:
  assumes "lock_spec now op e T T'" "wf_locks T"
  shows "wf_locks T'"
proof (cases op)
  case (OpTryReserve us reason i claimable)
  show ?thesis
  proof (cases "blank reason \<or> blank i \<or> normalizedReservationUtxos us = []")
    case False
    then have "i \<noteq> ''''" "all_or_nothing (reserve_entry now reason i claimable) (normalizedReservationUtxos us) e T T'"
      using assms(1) OpTryReserve by auto
    then show ?thesis using wf_all_or_nothing [OF _ assms(2)] wf_entries(1) by blast
  qed (use assms OpTryReserve in \<open>auto split: if_splits\<close>)
next
  case (OpEnsure us reason i previous)
  show ?thesis
  proof (cases "blank reason \<or> blank i")
    case False
    then have "i \<noteq> ''''" "all_or_nothing (ensure_entry now reason i previous) (normalizedReservationUtxos us) e T T'"
      using assms(1) OpEnsure by auto
    then show ?thesis using wf_all_or_nothing [OF _ assms(2)] wf_entries(2) by blast
  qed (use assms OpEnsure in \<open>auto split: if_splits\<close>)
next
  case (OpFinalize us i reason)
  show ?thesis
  proof (cases "blank i \<or> blank reason")
    case False
    then have "all_or_nothing (finalize_entry now i reason) (normalizedReservationUtxos us) e T T'"
      using assms(1) OpFinalize by auto
    then show ?thesis using wf_all_or_nothing [OF _ assms(2)] wf_entries(3) by blast
  qed (use assms OpFinalize in \<open>auto split: if_splits\<close>)
next
  case (OpRelease us i)
  show ?thesis
  proof (cases "blank i")
    case False
    then have "all_or_nothing (release_entry i) (normalizedReservationUtxos us) e T T'"
      using assms(1) OpRelease by auto
    then show ?thesis using wf_all_or_nothing [OF _ assms(2)] wf_entries(4) by blast
  qed (use assms OpRelease in \<open>auto split: if_splits\<close>)
next
  case (OpSetReason u reason)
  let ?entry = "\<lambda>u c. Inr (Some (case c of None \<Rightarrow> new_lock now reason | Some c \<Rightarrow> c\<lparr>lu_Reason := reason\<rparr>))"
  show ?thesis
  proof (cases "u = '''' \<or> reason = ''''")
    case False
    then have "all_or_nothing ?entry [u] e T T'" using assms(1) OpSetReason by auto
    then show ?thesis
      by (rule wf_all_or_nothing [OF _ assms(2)]) (auto simp: wf_lock_def new_lock_def split: option.splits)
  qed (use assms OpSetReason in \<open>auto split: if_splits\<close>)
next
  case (OpCheckExisting existing)
  then show ?thesis using assms by (auto simp: wf_locks_def without_def split: if_splits option.splits)
qed (use assms in \<open>auto simp: wf_locks_def wf_lock_def without_def locked_first_def new_lock_def split: if_splits\<close>)

section \<open>Ownership\<close>

definition owned :: "string \<Rightarrow> string \<Rightarrow> (string \<rightharpoonup> 'a LockedUtxo) \<Rightarrow> bool" where
  "owned i u T \<longleftrightarrow> (\<exists>c. T u = Some c \<and> lu_ReservationID c = i)"

text \<open>The steps that may end the reservation \<open>i\<close> of the output \<open>u\<close>.\<close>

fun gives_up :: "string \<Rightarrow> string \<Rightarrow> lock_op \<Rightarrow> bool" where
  "gives_up i u (OpUnlockUtxo v) = (v = u)"
| "gives_up i u (OpUnlockTx tx) = (case tx of None \<Rightarrow> False | Some us \<Rightarrow> u \<in> set us)"
| "gives_up i u (OpFinalize us j _) = (j = i \<and> u \<in> set (normalizedReservationUtxos us))"
| "gives_up i u (OpRelease us j) = (j = i \<and> u \<in> set (normalizedReservationUtxos us))"
| "gives_up i u (OpCheckBlock txs) = (u \<in> set (concat txs))"
| "gives_up i u (OpCheckExisting _) = True"
| "gives_up i u _ = False"

lemma owned_all_or_nothing:
  assumes "T' = T \<or> all_or_nothing entry us e T T'" "owned i u T"
    and "\<And>c. u \<in> set us \<Longrightarrow> lu_ReservationID c = i \<Longrightarrow> is_ok (entry u (Some c)) \<Longrightarrow>
      \<exists>l. entry u (Some c) = Inr (Some l) \<and> lu_ReservationID l = i"
  shows "owned i u T'"
proof (cases "T' \<noteq> T \<and> e = None \<and> u \<in> set us")
  case True
  obtain c where c: "T u = Some c" "lu_ReservationID c = i" using assms(2) by (auto simp: owned_def)
  then have "is_ok (entry u (Some c))" using assms(1) True by (auto simp: all_or_nothing_def)
  then obtain l where "entry u (Some c) = Inr (Some l)" "lu_ReservationID l = i" using assms(3) True c(2) by blast
  then show ?thesis using assms(1) True c by (simp add: all_or_nothing_def owned_def)
next
  case False
  then show ?thesis using assms(1,2) by (cases e) (auto simp: all_or_nothing_def owned_def)
qed

lemma spec_owned:
  assumes "lock_spec now op e T T'" "i \<noteq> ''''" "owned i u T" "\<not> gives_up i u op"
  shows "owned i u T'"
proof (cases op)
  case (OpTryReserve us reason j claimable)
  have "T' = T \<or> all_or_nothing (reserve_entry now reason j claimable) (normalizedReservationUtxos us) e T T'"
    using assms(1) OpTryReserve by (auto split: if_splits)
  then show ?thesis
    by (rule owned_all_or_nothing [OF _ assms(3)]) (use assms(2,3) in \<open>auto simp: reserve_entry_def split: if_splits\<close>)
next
  case (OpEnsure us reason j previous)
  have "T' = T \<or> all_or_nothing (ensure_entry now reason j previous) (normalizedReservationUtxos us) e T T'"
    using assms(1) OpEnsure by (auto split: if_splits)
  then show ?thesis
    by (rule owned_all_or_nothing [OF _ assms(3)]) (use assms(2,3) in \<open>auto simp: ensure_entry_def Let_def split: if_splits\<close>)
next
  case (OpFinalize us j reason)
  have "T' = T \<or> all_or_nothing (finalize_entry now j reason) (normalizedReservationUtxos us) e T T'"
    using assms(1) OpFinalize by (auto split: if_splits)
  then show ?thesis
    by (rule owned_all_or_nothing [OF _ assms(3)]) (use assms(2-4) OpFinalize in \<open>auto simp: finalize_entry_def split: if_splits\<close>)
next
  case (OpRelease us j)
  have "T' = T \<or> all_or_nothing (release_entry j) (normalizedReservationUtxos us) e T T'"
    using assms(1) OpRelease by (auto split: if_splits)
  then show ?thesis
    by (rule owned_all_or_nothing [OF _ assms(3)]) (use assms(2-4) OpRelease in \<open>auto simp: release_entry_def split: if_splits\<close>)
next
  case (OpSetReason v reason)
  let ?entry = "\<lambda>u c. Inr (Some (case c of None \<Rightarrow> new_lock now reason | Some c \<Rightarrow> c\<lparr>lu_Reason := reason\<rparr>))"
  have "T' = T \<or> all_or_nothing ?entry [v] e T T'"
    using assms(1) OpSetReason by (auto split: if_splits)
  then show ?thesis
    by (rule owned_all_or_nothing [OF _ assms(3)]) (use assms(3) in \<open>auto\<close>)
qed (use assms in \<open>auto simp: owned_def without_def locked_first_def split: option.splits\<close>)

end
