(* ===== verification/LockGuarantees.thy ===== *)
theory LockGuarantees
  imports LockProperties "HOL-Library.Countable"
begin

text \<open>
  The guarantees of the locker, for every store that keeps the contract of \<open>KeyValue\<close>, and examples on
  the browser store.
\<close>

section \<open>Reserving and releasing\<close>

lemma reserve_then_release:
  assumes "all_or_nothing (reserve_entry now reason i claimable) us None T T1"
    and "all_or_nothing (release_entry i) us e T1 T2"
    and "wf_locks T" "'''' \<notin> set claimable" "i \<noteq> ''''" "\<forall>u\<in>set us. \<not> owned i u T"
  shows "e \<in> {None, Some ErrLockEncode, Some ErrLockStore}" "e = None \<Longrightarrow> T2 = T"
proof -
  have r: "release_entry i u (T1 u) = Inr (T u)" if u: "u \<in> set us" for u
  proof -
    have ok: "is_ok (reserve_entry now reason i claimable u (T u))"
      and T1: "T1 u = (case reserve_entry now reason i claimable u (T u) of Inl _ \<Rightarrow> None | Inr l \<Rightarrow> l)"
      using assms(1) u by (simp_all add: all_or_nothing_def)
    show ?thesis
    proof (cases "T u")
      case None
      then show ?thesis using T1 by (simp add: reserve_entry_def release_entry_def new_lock_def)
    next
      case (Some c)
      then have "lu_ReservationID c = ''''" "lu_Reason c \<in> set claimable" "lu_ReservationID c \<noteq> i"
        using ok assms(6) u by (auto simp: reserve_entry_def owned_def split: if_splits)
      moreover have "lu_ReservationPreviousReason c = ''''" "lu_Reason c \<noteq> ''''"
        using assms(3,4) Some calculation by (auto simp: wf_locks_def wf_lock_def)
      ultimately show ?thesis using T1 Some by (cases c) (simp add: reserve_entry_def release_entry_def)
    qed
  qed
  show "e \<in> {None, Some ErrLockEncode, Some ErrLockStore}"
    using assms(2) r by (cases e) (auto simp: all_or_nothing_def)
  assume "e = None"
  moreover have "T1 u = T u" if "u \<notin> set us" for u using assms(1) that by (simp add: all_or_nothing_def)
  ultimately show "T2 = T" using assms(2) r by (auto simp: all_or_nothing_def fun_eq_iff)
qed

section \<open>The network of a locker\<close>

abbreviation net :: "('a, 's) locker \<Rightarrow> string" where
  "net st \<equiv> ul_network (fst st)"

lemma net_reload [simp]: "net (reload D G P st) = net st"
  by (cases st) (simp add: reload_def Let_def)

lemma net_refresh [simp]: "net (refresh D G P now st) = net st"
  by (cases st) (simp add: refresh_def)

lemma net_unlock [simp]: "net (unlockUtxo D P u st) = net st"
  by (cases st) (simp add: unlockUtxo_def split: option.splits)

lemma net_unlocks [simp]: "net (fold (unlockUtxo D P) us st) = net st"
  by (induction us arbitrary: st) simp_all

lemma net_lock [simp]: "net (snd (lockUtxo D G P now u reason st)) = net st"
  by (cases st) (simp add: lockUtxo_def Let_def split: option.splits prod.splits)

lemma net_lock_loop [simp]: "net (snd (lock_loop D G P now reason us st)) = net st"
proof (induction us arbitrary: st)
  case (Cons u us)
  obtain e st1 where l: "lockUtxo D G P now u reason st = (e, st1)" by (rule prod.exhaust)
  then have "net st1 = net st" using net_lock [of D G P now u reason st] by simp
  then show ?case using Cons.IH [of st1] l by (simp split: option.splits)
qed simp

lemma net_persist [simp]: "net (snd (persistReservationChangesLocked D G P now puts deletes st)) = net st"
  by (cases st) (simp add: persistReservationChangesLocked_def split: option.splits prod.splits bool.splits)

lemma net_block [simp]: "net (snd (fold (block_input D P) us (b, st))) = net st"
  by (induction us arbitrary: b st) (simp_all add: block_input_eq)

lemma step_network: "net (snd (lock_step D G P now op st)) = net st"
proof (cases op)
  case (OpLockUtxos us reason)
  then show ?thesis using net_lock_loop [of D G P now reason us st]
    by (cases "lock_loop D G P now reason us st") (auto simp: LockUtxos_def split: option.split)
next
  case (OpLockUtxo u reason)
  then show ?thesis using net_lock [of D G P now u reason st]
    by (cases "lockUtxo D G P now u reason st") (auto simp: LockUtxo_def split: option.split)
next
  case (OpLockTx tx)
  show ?thesis
  proof (cases tx)
    case (Some us)
    then show ?thesis using net_lock_loop [of D G P now "''broadcasted''" us st] OpLockTx
      by (cases "lock_loop D G P now ''broadcasted'' us st") (auto simp: LockUtxosWithTx_def split: option.split)
  qed (simp add: OpLockTx LockUtxosWithTx_def)
next
  case (OpCheckBlock txs)
  then show ?thesis using net_block [of D P "concat txs" False "reload D G P st"]
    by (cases "fold (block_input D P) (concat txs) (False, reload D G P st)") (auto simp: CheckBlock_def split: bool.split)
qed (simp_all add: UnlockUtxo_def UnlockUtxosWithTx_def TryReserve_def EnsureReservation_def FinalizeReservation_def
    ReleaseReservation_def SetLockReason_def CheckExisting_def Let_def split: option.splits sum.splits)

lemma trace_network: "lock_trace D G P ops st st' \<Longrightarrow> net st' = net st"
proof (induction rule: lock_trace.induct)
  case (trace_cons now op st e st1 ops st2)
  then show ?case using step_network [of D G P now op st] by simp
qed simp

section \<open>A locker on a store\<close>

context kvdb_store
begin

lemma new_locker_synced:
  assumes "good s" "plain network" "db_ok content G P network s" "loadLastLockTime D G P network s \<noteq> Some 0"
  shows "synced content good G P (reload D G P (NewUtxoLocker network, s))"
    "table (reload D G P (NewUtxoLocker network, s)) = stored content G P network s"
    "snd (reload D G P (NewUtxoLocker network, s)) = s"
    "ul_network (fst (reload D G P (NewUtxoLocker network, s))) = network"
  using assms loaded [OF assms(1-3)] by (simp_all add: reload_def NewUtxoLocker_def synced_def table_def)

lemma synced_table: "synced content good G P st \<Longrightarrow> table st = stored content G P (ul_network (fst st)) (snd st)"
  by (auto simp: synced_def table_def split: prod.splits)

end

section \<open>The properties\<close>




text \<open>
  C31: Cancelling a reservation undoes it: if \<open>TryReserve\<close> succeeded on outputs the operation did not own,
  \<open>ReleaseReservation\<close> is not refused, and when the store takes it the table is again what it was
  before the reservation, with the earlier reasons of the claimed locks.
\<close>

theorem reserve_release_restores:
  assumes D: "kvdb_store D content good" "gob_laws G" and st: "synced content good G P st" "wf_locks (table st)"
    and us: "\<forall>u\<in>set us. plain u" "\<forall>u\<in>set (normalizedReservationUtxos us). \<not> owned i u (table st)"
    and c: "'''' \<notin> set claimable"
    and r: "TryReserve D G P now us reason i claimable st = (None, st1)" "ReleaseReservation D G P now' us i st1 = (e, st2)"
  shows "e \<in> {None, Some ErrLockEncode, Some ErrLockStore} \<and> (e = None \<longrightarrow> table st2 = table st)"
proof -
  have b: "\<not> blank reason" "\<not> blank i" "normalizedReservationUtxos us \<noteq> []"
    using r(1) by (auto simp: TryReserve_def Let_def split: if_splits)
  note R = kvdb_store.reserve_refines [OF D st(1) us(1) b r(1)]
  note S = kvdb_store.release_refines [OF D conjunct1 [OF R] us(1) b(2) r(2)]
  have "i \<noteq> ''''" using b(2) by auto
  note U = reserve_then_release [OF R [THEN conjunct2, THEN conjunct2] S [THEN conjunct2, THEN conjunct2] st(2) c this us(2)]
  show ?thesis using U by blast
qed

section \<open>Two lockers on one store\<close>

text \<open>The browser store takes every write, so only encoding can fail.\<close>

definition gob_total :: "'a gob \<Rightarrow> bool" where
  "gob_total G \<longleftrightarrow> (\<forall>l. gobLock G l \<noteq> None) \<and> (\<forall>t. gobTime G t \<noteq> None)"

lemma gob_totalE:
  assumes "gob_total G"
  obtains b tb where "gobLock G l = Some b" "gobTime G t = Some tb"
  using assms by (meson gob_total_def not_None_eq)

lemma js_deletes_succeed: "deletes_succeed jsDB"
  by (simp add: deletes_succeed_def jsDB_def js_Delete_def)

lemma put_ops_total: "gob_total G \<Longrightarrow> put_ops G P network puts \<noteq> None"
proof (induction puts)
  case (Cons put puts)
  obtain b where "gobLock G (snd put) = Some b" using Cons.prems by (rule gob_totalE)
  then show ?case using Cons by (cases put) simp
qed simp

lemma js_persist_total:
  assumes "gob_total G"
  shows "fst (persistReservationChangesLocked jsDB G P now puts deletes st) = None"
proof -
  obtain tb where "gobTime G now = Some tb" using assms by (rule gob_totalE)
  then show ?thesis using put_ops_total [OF assms, of P "net st" puts]
    by (cases st) (auto simp: persistReservationChangesLocked_def jsDB_def js_batch_write_def)
qed

text \<open>\<open>LockUtxo\<close> on the browser store.\<close>

lemma js_lock:
  assumes G: "gob_laws G" "gob_total G" and s: "js_good s" and v: "map_of (ul_lockmap p) v = None"
  obtains p' s' where "LockUtxo jsDB G P now v reason (p, s) = (None, (p', s'))" "js_good s'"
    "ul_lockmap p' = AList.update v (new_lock now reason) (ul_lockmap p)" "ul_network p' = ul_network p" "ul_refreshTime p' = now"
    "loadLastLockTime jsDB G P (ul_network p) s' = Some (ul_refreshTime p')"
    "stored js_content G P (ul_network p) s' = (stored js_content G P (ul_network p) s)(v \<mapsto> new_lock now reason)"
proof -
  let ?n = "ul_network p"
  obtain b tb where b: "gobLock G (new_lock now reason) = Some b" "gobTime G now = Some tb"
    using G(2) by (rule gob_totalE)
  define s1 where "s1 = snd (kvWrite jsDB (GetLockedUtxoKey P ?n v) b s)"
  define s2 where "s2 = snd (kvWrite jsDB (GeLastLockTimeKey P ?n) tb s1)"
  have w1: "kvWrite jsDB (GetLockedUtxoKey P ?n v) b s = (True, s1)" and w2: "kvWrite jsDB (GeLastLockTimeKey P ?n) tb s1 = (True, s2)"
    by (simp_all add: s1_def s2_def jsDB_def js_Write_def)
  have c1: "js_good s1" "js_content s1 = (js_content s)(GetLockedUtxoKey P ?n v \<mapsto> b)"
    using js.write_content [OF s w1] by simp_all
  have c2: "js_good s2" "js_content s2 = (js_content s1)(GeLastLockTimeKey P ?n \<mapsto> tb)"
    using js.write_content [OF c1(1) w2] by simp_all
  let ?p = "p\<lparr>ul_lockmap := AList.update v (new_lock now reason) (ul_lockmap p), ul_refreshTime := now\<rparr>"
  have "LockUtxo jsDB G P now v reason (p, s) = (None, (?p, s2))"
    using v b w1 w2 by (simp add: LockUtxo_def lockUtxo_def saveLockedUtxo_def refresh_def saveLastLockTime_def new_lock_def)
  moreover have "loadLastLockTime jsDB G P ?n s2 = Some now"
    using js.read_content [OF c2(1)] c2(2) G(1) b(2) by (simp add: loadLastLockTime_def gob_laws_def)
  moreover have "stored js_content G P ?n s2 = (stored js_content G P ?n s)(v \<mapsto> new_lock now reason)"
    using c1(2) c2(2) G(1) b(1) by (auto simp: stored_def gob_laws_def fun_eq_iff)
  ultimately show ?thesis using c2(1) by (intro that [of ?p s2]) simp_all
qed

lemma normalized_single: "trimSpace u = u \<Longrightarrow> u \<noteq> '''' \<Longrightarrow> normalizedReservationUtxos [u] = [u]"
  by (simp add: normalizedReservationUtxos_def)

text \<open>A reservation of an output that the cache does not know, by a locker that takes its cache for current.\<close>

lemma js_stale_reserve:
  assumes G: "gob_laws G" "gob_total G" and s: "js_good s" and u: "trimSpace u = u" "u \<noteq> ''''" "map_of (ul_lockmap p) u = None"
    and fresh: "loadLastLockTime jsDB G P (ul_network p) s = Some (ul_refreshTime p)"
    and b: "\<not> blank reason" "\<not> blank i"
  obtains p' s' where "TryReserve jsDB G P now [u] reason i claimable (p, s) = (None, (p', s'))"
    "stored js_content G P (ul_network p) s' u = Some ((new_lock now reason)\<lparr>lu_ReservationID := i\<rparr>)"
proof -
  let ?n = "ul_network p" and ?l = "(new_lock now reason)\<lparr>lu_ReservationID := i\<rparr>"
  obtain lb tb where e: "gobLock G ?l = Some lb" "gobTime G now = Some tb" using G(2) by (rule gob_totalE)
  have "fst (kvFlush jsDB [BPut (GetLockedUtxoKey P ?n u) lb, BPut (GeLastLockTimeKey P ?n) tb] s)"
    by (simp add: jsDB_def js_batch_write_def)
  then obtain s' where f: "kvFlush jsDB [BPut (GetLockedUtxoKey P ?n u) lb, BPut (GeLastLockTimeKey P ?n) tb] s = (True, s')"
    by (metis (full_types) fst_conv surj_pair)
  have "js_content s' = (js_content s)(GetLockedUtxoKey P ?n u \<mapsto> lb, GeLastLockTimeKey P ?n \<mapsto> tb)"
    using js.flush_content [OF s f] by simp
  then have "stored js_content G P ?n s' u = Some ?l" using G(1) e(1) by (simp add: stored_def gob_laws_def)
  moreover have "\<exists>p'. TryReserve jsDB G P now [u] reason i claimable (p, s) = (None, (p', s'))"
    using fresh u b e f
    by (simp add: TryReserve_def normalized_single Let_def reload_def persistReservationChangesLocked_def new_lock_def)
  ultimately show ?thesis using that by blast
qed

text \<open>
  C36: A reservation can be taken over by a locker with an old cache.  Two lockers share the browser
  store and start in agreement with it.  The second reserves an output; the first then places a
  plain lock on another output, which stamps the store with its own refresh time without loading
  what the second wrote; when the first now tries to reserve the same output for another operation, it
  succeeds, and the store names it as the owner.
\<close>

theorem stale_cache_takes_reservation:
  assumes G: "gob_laws G" "gob_total G"
    and A: "synced js_content js_good G P (pA, s)" and B: "synced js_content js_good G P (pB, s)"
    and n: "ul_network pA = network" "ul_network pB = network"
    and u: "plain u" "trimSpace u = u" "u \<noteq> ''''" "stored js_content G P network s u = None"
    and v: "v \<noteq> u" "stored js_content G P network s v = None"
    and args: "\<not> blank reasonA" "\<not> blank iA" "\<not> blank reasonB" "\<not> blank iB"
    and r: "TryReserve jsDB G P t1 [u] reasonB iB claimable (pB, s) = (None, (pB1, s1))"
  shows "\<exists>pA2 s2 pA3 s3. LockUtxo jsDB G P t2 v reason (pA, s1) = (None, (pA2, s2))
    \<and> TryReserve jsDB G P t3 [u] reasonA iA claimable (pA2, s2) = (None, (pA3, s3))
    \<and> owned iB u (stored js_content G P network s2) \<and> owned iA u (stored js_content G P network s3)"
proof -
  have b: "\<forall>w\<in>set [u]. plain w" "normalizedReservationUtxos [u] \<noteq> []" "normalizedReservationUtxos [u] = [u]"
    using u normalized_single [OF u(2,3)] by simp_all
  note R = kvdb_store.reserve_refines [OF js.kvdb_store_axioms G(1) B b(1) args(3,4) b(2) r]
  have tB: "table (pB, s) = stored js_content G P network s" using js.synced_table [OF B] n by simp
  have B1: "synced js_content js_good G P (pB1, s1)" using R by blast
  have "table (pB1, s1) = stored js_content G P network s1" using js.synced_table [OF B1] R n by simp
  then have own: "owned iB u (stored js_content G P network s1)"
    using R [THEN conjunct2, THEN conjunct2] u(4) tB
    by (simp add: all_or_nothing_def b(3) owned_def reserve_entry_def new_lock_def)
  have "map_of (ul_lockmap pA) = stored js_content G P network s" using A n by (simp add: synced_def)
  moreover have "js_good s1" using B1 by (simp add: synced_def)
  ultimately obtain pA2 s2 where L: "LockUtxo jsDB G P t2 v reason (pA, s1) = (None, (pA2, s2))" "js_good s2"
    "ul_lockmap pA2 = AList.update v (new_lock t2 reason) (ul_lockmap pA)" "ul_network pA2 = network"
    "loadLastLockTime jsDB G P network s2 = Some (ul_refreshTime pA2)"
    "stored js_content G P network s2 = (stored js_content G P network s1)(v \<mapsto> new_lock t2 reason)"
    using js_lock [OF G, of s1 pA v P t2 reason] v(2) n(1) by metis
  have "map_of (ul_lockmap pA2) u = None"
    using L(3) \<open>map_of (ul_lockmap pA) = _\<close> u(4) v(1) by (simp add: update_conv')
  then obtain pA3 s3 where T: "TryReserve jsDB G P t3 [u] reasonA iA claimable (pA2, s2) = (None, (pA3, s3))"
    "stored js_content G P network s3 u = Some ((new_lock t3 reasonA)\<lparr>lu_ReservationID := iA\<rparr>)"
    using js_stale_reserve [OF G L(2) u(2,3), of pA2 P reasonA iA t3 claimable] L(4,5) args(1,2) by metis
  have "owned iA u (stored js_content G P network s3)" using T(2) by (simp add: owned_def)
  moreover have "owned iB u (stored js_content G P network s2)" using own L(6) v(1) by (simp add: owned_def)
  ultimately show ?thesis using L(1) T(1) by blast
qed

end
