(* ===== verification/LockDemo.thy ===== *)
theory LockDemo
  imports LockGuarantees
begin

text \<open>The guarantees of the locker at work on the browser store.\<close>

section \<open>A gob\<close>

definition putZ :: "int \<Rightarrow> byte list" where
  "putZ i = putUnary (int_encode i)"

definition getZ :: "reader \<Rightarrow> unit + (int \<times> reader)" where
  "getZ r = rbind (unary r) (\<lambda>(n, r). Inr (int_decode n, r))"

interpretation demo_z: codec putZ getZ "\<lambda>i. True"
  by unfold_locales (simp add: putZ_def getZ_def demo_nat.dec_enc)

definition putLock :: "unit LockedUtxo \<Rightarrow> byte list" where
  "putLock l = putZ (lu_LockedTime l) @ putText (lu_Reason l) @ putText (lu_ReservationID l)
     @ putText (lu_ReservationPreviousReason l) @ putZ (lu_Value l) @ putUnary (length (lu_Assets l))"

definition getLock :: "reader \<Rightarrow> unit + (unit LockedUtxo \<times> reader)" where
  "getLock r = rbind (getZ r) (\<lambda>(t, r). rbind (getText r) (\<lambda>(a, r). rbind (getText r) (\<lambda>(b, r).
     rbind (getText r) (\<lambda>(c, r). rbind (getZ r) (\<lambda>(v, r). rbind (unary r) (\<lambda>(n, r).
       Inr (\<lparr>lu_LockedTime = t, lu_Reason = a, lu_ReservationID = b, lu_ReservationPreviousReason = c,
             lu_Value = v, lu_Assets = replicate n ()\<rparr>, r)))))))"

lemma unit_list: "replicate (length xs) () = xs"
  by (induction xs) auto

interpretation demo_lock: codec putLock getLock "\<lambda>l. True"
  by unfold_locales (simp add: putLock_def getLock_def demo_nat.dec_enc demo_text.dec_enc demo_z.dec_enc unit_list)

definition demo_gob :: "unit gob" where
  "demo_gob = \<lparr>gobLock = (\<lambda>l. Some (putLock l)), gobLockOf = whole getLock,
     gobTime = (\<lambda>t. Some (putZ t)), gobTimeOf = whole getZ\<rparr>"

lemma demo_gob_laws: "gob_laws demo_gob" "gob_total demo_gob"
  using demo_lock.dec_enc [of _ "[]"] demo_z.dec_enc [of _ "[]"]
  by (simp_all add: gob_laws_def gob_total_def demo_gob_def whole_def)

section \<open>An empty store\<close>

definition demo_locker :: "(unit, localStorage) locker" where
  "demo_locker = (NewUtxoLocker ''bitcoinnet'', [])"

lemma demo_empty:
  "js_good []" "plain ''bitcoinnet''" "db_ok js_content demo_gob '''' ''bitcoinnet'' []"
  "loadLastLockTime jsDB demo_gob '''' ''bitcoinnet'' [] = None" "stored js_content demo_gob '''' ''bitcoinnet'' [] = Map.empty"
  by (simp_all add: js_good_def plain_def db_ok_def loadLastLockTime_def jsDB_def js_Read_def stored_def js_content_def)

lemma demo_locker_synced: "synced js_content js_good demo_gob '''' demo_locker" "table demo_locker = Map.empty"
  using demo_empty by (simp_all add: synced_def demo_locker_def NewUtxoLocker_def table_def)

definition demo_utxos :: "string list" where
  "demo_utxos = [''aa:0'', ''bb:1'']"

lemma demo_utxos: "normalizedReservationUtxos demo_utxos = demo_utxos" "\<forall>u\<in>set demo_utxos. plain u"
  "\<not> blank ''pending''" "\<not> blank ''op-a''" "\<not> blank ''op-b''" "trimSpace ''aa:0'' = ''aa:0''" "plain ''aa:0''"
  by code_simp+

lemma demo_reload: "reload jsDB demo_gob '''' demo_locker = demo_locker"
  using demo_empty(4)
  by (simp add: reload_def demo_locker_def NewUtxoLocker_def loadAllLockedUtxoFromDB_def jsDB_def)

lemma demo_reserved:
  assumes "normalizedReservationUtxos us = us" "us \<noteq> []" "\<forall>u\<in>set us. plain u"
  obtains st where "TryReserve jsDB demo_gob '''' 5000 us ''pending'' ''op-a'' [] demo_locker = (None, st)"
    "synced js_content js_good demo_gob '''' st" "\<And>u. u \<in> set us \<Longrightarrow> owned ''op-a'' u (table st)"
proof -
  have l: "reserve_loop 5000 ''pending'' ''op-a'' [] Map.empty us
      = Inr (map (\<lambda>u. (u, (new_lock 5000 ''pending'')\<lparr>lu_ReservationID := ''op-a''\<rparr>)) us)"
    by (induction us) (simp_all add: new_lock_def)
  have "fst (TryReserve jsDB demo_gob '''' 5000 us ''pending'' ''op-a'' [] demo_locker) = None"
    using js_persist_total [OF demo_gob_laws(2)] demo_locker_synced(2) demo_utxos(3,4) assms(1,2)
    by (simp add: TryReserve_def demo_reload l table_def [symmetric] Let_def)
  then obtain st where t: "TryReserve jsDB demo_gob '''' 5000 us ''pending'' ''op-a'' [] demo_locker = (None, st)"
    by (metis prod.collapse)
  note R = js.reserve_refines [OF demo_gob_laws(1) demo_locker_synced(1) assms(3) demo_utxos(3,4) _ t, unfolded assms(1), OF assms(2)]
  show ?thesis
  proof (rule that [OF t])
    show "synced js_content js_good demo_gob '''' st" using R by blast
    show "owned ''op-a'' u (table st)" if "u \<in> set us" for u
      using R that demo_locker_synced(2) by (simp add: all_or_nothing_def owned_def reserve_entry_def new_lock_def)
  qed
qed

section \<open>Witnesses\<close>




lemma release_loop_error: "release_loop i locks us = Inl e \<Longrightarrow> \<exists>u. e = ErrUtxoReservationOwner u"
  by (induction us) (auto simp: check_def rbind_def split: option.splits if_splits sum.splits)

lemma js_release_stores:
  assumes "gob_total G" "\<not> blank i"
  shows "fst (ReleaseReservation jsDB G P now us i st) \<notin> {Some ErrLockEncode, Some ErrLockStore}"
proof (cases "release_loop i (map_of (ul_lockmap (fst (reload jsDB G P st)))) (normalizedReservationUtxos us)")
  case (Inl e)
  then show ?thesis using release_loop_error [OF Inl] assms(2) by (auto simp: ReleaseReservation_def Let_def)
next
  case (Inr r)
  then show ?thesis using js_persist_total [OF assms(1)] assms(2) by (cases r) (simp add: ReleaseReservation_def Let_def)
qed

theorem reserve_release_restores_witness:
  "\<exists>st1 st2. TryReserve jsDB demo_gob '''' 5000 demo_utxos ''pending'' ''op-a'' [] demo_locker = (None, st1)
    \<and> ReleaseReservation jsDB demo_gob '''' 6000 demo_utxos ''op-a'' st1 = (None, st2) \<and> table st2 = table demo_locker"
proof -
  have "demo_utxos \<noteq> []" by (simp add: demo_utxos_def)
  then obtain st1 where t: "TryReserve jsDB demo_gob '''' 5000 demo_utxos ''pending'' ''op-a'' [] demo_locker = (None, st1)"
    using demo_reserved [OF demo_utxos(1) _ demo_utxos(2)] by blast
  obtain e st2 where r: "ReleaseReservation jsDB demo_gob '''' 6000 demo_utxos ''op-a'' st1 = (e, st2)" by (rule prod.exhaust)
  have w: "wf_locks (table demo_locker)" "\<forall>u\<in>set (normalizedReservationUtxos demo_utxos). \<not> owned ''op-a'' u (table demo_locker)"
    by (simp_all add: demo_locker_synced(2) wf_locks_def owned_def)
  note R = reserve_release_restores [OF js.kvdb_store_axioms demo_gob_laws(1) demo_locker_synced(1) w(1) demo_utxos(2) w(2) _ t r]
  have "e = None" using R js_release_stores [OF demo_gob_laws(2) demo_utxos(4), of "''''" 6000 demo_utxos st1] r by simp
  then have "table st2 = table demo_locker" using R by simp
  then show ?thesis using t r \<open>e = None\<close> by blast
qed

theorem stale_cache_takes_reservation_witness:
  "\<exists>pB1 s1 pA2 s2 pA3 s3. TryReserve jsDB demo_gob '''' 5000 [''aa:0''] ''pending'' ''op-a'' [] demo_locker = (None, (pB1, s1))
    \<and> LockUtxo jsDB demo_gob '''' 6000 ''cc:2'' ''broadcasted'' (NewUtxoLocker ''bitcoinnet'', s1) = (None, (pA2, s2))
    \<and> TryReserve jsDB demo_gob '''' 7000 [''aa:0''] ''pending'' ''op-b'' [] (pA2, s2) = (None, (pA3, s3))
    \<and> owned ''op-a'' ''aa:0'' (stored js_content demo_gob '''' ''bitcoinnet'' s2)
    \<and> owned ''op-b'' ''aa:0'' (stored js_content demo_gob '''' ''bitcoinnet'' s3)"
proof -
  have "normalizedReservationUtxos [''aa:0''] = [''aa:0'']" by (rule normalized_single) (simp_all add: demo_utxos(6))
  then obtain pB1 s1 where t: "TryReserve jsDB demo_gob '''' 5000 [''aa:0''] ''pending'' ''op-a'' [] demo_locker = (None, (pB1, s1))"
    using demo_reserved [of "[''aa:0'']"] demo_utxos(7) by (metis empty_iff empty_set list.distinct(1) set_ConsD surj_pair)
  note S = demo_locker_synced(1) [unfolded demo_locker_def]
  have n: "ul_network (NewUtxoLocker ''bitcoinnet'') = ''bitcoinnet''" by (simp add: NewUtxoLocker_def)
  have "\<exists>pA2 s2 pA3 s3.
      LockUtxo jsDB demo_gob '''' 6000 ''cc:2'' ''broadcasted'' (NewUtxoLocker ''bitcoinnet'', s1) = (None, (pA2, s2))
      \<and> TryReserve jsDB demo_gob '''' 7000 [''aa:0''] ''pending'' ''op-b'' [] (pA2, s2) = (None, (pA3, s3))
      \<and> owned ''op-a'' ''aa:0'' (stored js_content demo_gob '''' ''bitcoinnet'' s2)
      \<and> owned ''op-b'' ''aa:0'' (stored js_content demo_gob '''' ''bitcoinnet'' s3)"
    by (rule stale_cache_takes_reservation [OF demo_gob_laws S S n n demo_utxos(7,6) _ _ _ _ demo_utxos(3,5,3,4) t [unfolded demo_locker_def]])
      (simp_all add: demo_empty(5))
  then show ?thesis using t by blast
qed

end
