(* ===== verification/MerkleRoot.thy ===== *)
theory MerkleRoot
  imports Questions "HOL-Library.Multiset"
begin

text \<open>
  \<open>sdk/wallet/merkle.go\<close> and \<open>channel_merkle.go\<close>: the rolling Merkle tree that commits a channel to its
  balances and to its fixed data.  Double SHA-256 (package \<open>chainhash\<close>) is the parameter \<open>dh\<close>.
\<close>

section \<open>The rolling store\<close>

type_synonym hash = "byte list"

text \<open>An index out of range, as in popping from no roots, is a panic of the code.\<close>

datatype merkle_error = ErrNoRoot

record rollingMerkleTreeStore =
  roots :: "hash list"
  numLeaves :: "64 word"

definition newRollingMerkleTreeStore :: "64 word \<Rightarrow> rollingMerkleTreeStore" where
  "newRollingMerkleTreeStore sz = \<lparr>roots = [], numLeaves = 0\<rparr>"

definition hashMerkleBranches :: "(byte list \<Rightarrow> hash) \<Rightarrow> hash \<Rightarrow> hash \<Rightarrow> hash" where
  "hashMerkleBranches dh left right = dh (left @ right)"

text \<open>
  The loop of \<open>add\<close>; the row \<open>h\<close> is a \<open>uint8\<close>.  A shift by 64 or more yields 0, so that the loop ends
  before \<open>h\<close> can wrap around.
\<close>

lemma unat_shift: "unat (drop_bit k n) = unat n div 2 ^ k" for n :: "64 word"
proof -
  have "take_bit 64 (unat n) = unat n" using unsigned_less [of n, where ?'a = nat] by (intro take_bit_nat_eq_self) simp
  then show ?thesis unfolding unsigned_drop_bit_eq by (simp add: drop_bit_eq_div [where ?'a = nat])
qed

lemma shift_bounded: "drop_bit k (n :: 64 word) \<noteq> 0 \<Longrightarrow> k < 64"
proof (rule ccontr)
  assume "drop_bit k n \<noteq> 0" "\<not> k < 64"
  then have "(2 :: nat) ^ 64 \<le> 2 ^ k" by (intro power_increasing) simp_all
  then have "unat n < 2 ^ k" using unsigned_less [of n, where ?'a = nat] by simp
  then have "unat (drop_bit k n) = 0" by (simp add: unat_shift)
  with \<open>drop_bit k n \<noteq> 0\<close> show False by (simp add: unsigned_eq_0_iff)
qed

function add_loop :: "(byte list \<Rightarrow> hash) \<Rightarrow> 64 word \<Rightarrow> 8 word \<Rightarrow> hash list \<Rightarrow> hash \<Rightarrow> merkle_error + (hash list \<times> hash)" where
  "add_loop dh n h rs newRoot =
     (if drop_bit (unat h) n AND 1 = 1
      then (if rs = [] then Inl ErrNoRoot
            else add_loop dh n (h + 1) (butlast rs) (hashMerkleBranches dh (last rs) newRoot))
      else Inr (rs, newRoot))"
  by pat_completeness auto
termination
proof (relation "measure (\<lambda>(dh, n, h, rs, newRoot). length rs)")
qed auto

declare add_loop.simps [simp del]

definition addLeaf :: "(byte list \<Rightarrow> hash) \<Rightarrow> hash \<Rightarrow> rollingMerkleTreeStore \<Rightarrow> merkle_error + rollingMerkleTreeStore" where
  "addLeaf dh add s =
     rbind (add_loop dh (numLeaves s) 0 (roots s) add) (\<lambda>(rs, newRoot).
       Inr \<lparr>roots = rs @ [newRoot], numLeaves = numLeaves s + 1\<rparr>)"

text \<open>
  The loops of \<open>calcRoot\<close> carry no bound of their own: \<open>None\<close> is a run that does not end.
\<close>

partial_function (option) shift_loop :: "64 word \<Rightarrow> 8 word \<Rightarrow> 64 word \<Rightarrow> 64 word option" where
  "shift_loop currentLeaves h n =
     (if drop_bit (unat h) currentLeaves AND 1 = 0 then shift_loop currentLeaves (h + 1) (drop_bit 1 n) else Some n)"

declare shift_loop.simps [code]

partial_function (option) calcRoot :: "(byte list \<Rightarrow> hash) \<Rightarrow> rollingMerkleTreeStore \<Rightarrow> (merkle_error + hash) option" where
  "calcRoot dh s =
     (if 1 < length (roots s)
      then Option.bind (shift_loop (numLeaves s) 0 (numLeaves s)) (\<lambda>n.
        case addLeaf dh (last (roots s)) (s\<lparr>numLeaves := n\<rparr>) of
          Inl e \<Rightarrow> Some (Inl e)
        | Inr s \<Rightarrow> calcRoot dh s)
      else Some (if roots s = [] then Inl ErrNoRoot else Inr (hd (roots s))))"

declare calcRoot.simps [code]

section \<open>The reference tree\<close>

text \<open>One row of a Merkle tree over the row below it: an odd row repeats its last node.\<close>

fun row_above :: "(byte list \<Rightarrow> hash) \<Rightarrow> hash list \<Rightarrow> hash list" where
  "row_above dh [] = []"
| "row_above dh [x] = [hashMerkleBranches dh x x]"
| "row_above dh (x # y # r) = hashMerkleBranches dh x y # row_above dh r"

lemma length_row_above [simp]: "length (row_above dh ls) = (length ls + 1) div 2"
  by (induction dh ls rule: row_above.induct) auto

function merkle_root :: "(byte list \<Rightarrow> hash) \<Rightarrow> hash list \<Rightarrow> hash" where
  "merkle_root dh ls = (if ls = [] then [] else if tl ls = [] then hd ls else merkle_root dh (row_above dh ls))"
  by pat_completeness auto
termination
proof (relation "measure (\<lambda>(dh, ls). length ls)")
  fix dh :: "byte list \<Rightarrow> hash" and ls :: "hash list"
  assume "ls \<noteq> []" "tl ls \<noteq> []"
  then show "((dh, row_above dh ls), (dh, ls)) \<in> measure (\<lambda>(dh, ls). length ls)"
    by (cases ls; cases "tl ls") simp_all
qed simp

declare merkle_root.simps [simp del]

section \<open>The store holds the roots of the full subtrees\<close>

text \<open>
  What the store holds after the leaves \<open>ls\<close>: for each one bit of their number the root of a full tree
  of that size, the largest first.
\<close>

function forest :: "(byte list \<Rightarrow> hash) \<Rightarrow> hash list \<Rightarrow> hash list" where
  "forest dh ls =
     (if ls = [] then []
      else if even (length ls) then forest dh (row_above dh ls)
      else forest dh (row_above dh (butlast ls)) @ [last ls])"
  by pat_completeness auto
termination
proof (relation "measure (\<lambda>(dh, ls). length ls)")
  fix dh :: "byte list \<Rightarrow> hash" and ls :: "hash list"
  assume "ls \<noteq> []"
  then have l: "0 < length ls" by simp
  show "((dh, row_above dh ls), (dh, ls)) \<in> measure (\<lambda>(dh, ls). length ls)" if "even (length ls)"
    using l that by (auto elim!: evenE)
  show "((dh, row_above dh (butlast ls)), (dh, ls)) \<in> measure (\<lambda>(dh, ls). length ls)"
    using l by simp
qed simp

declare forest.simps [simp del]

lemma forest_Nil [simp]: "forest dh [] = []"
  by (simp add: forest.simps)

lemma forest_even: "even (length ls) \<Longrightarrow> forest dh (row_above dh ls) = forest dh ls"
  by (cases "ls = []") (simp_all add: forest.simps [of dh ls])

lemma forest_odd: "odd (length ls) \<Longrightarrow> forest dh ls = forest dh (row_above dh (butlast ls)) @ [last ls]"
  by (cases "ls = []") (simp_all add: forest.simps [of dh ls])

lemma forest_nonempty: "ls \<noteq> [] \<Longrightarrow> forest dh ls \<noteq> []"
proof (induction dh ls rule: forest.induct)
  case (1 dh ls)
  show ?case
  proof (cases "even (length ls)")
    case True
    moreover have "row_above dh ls \<noteq> []" using 1(3) by (cases "(dh, ls)" rule: row_above.cases) auto
    ultimately show ?thesis using 1(1,3) forest_even [of ls dh] by simp
  qed (simp add: forest_odd)
qed

lemma row_above_append: "even (length xs) \<Longrightarrow> row_above dh (xs @ ys) = row_above dh xs @ row_above dh ys"
  by (induction dh xs rule: row_above.induct) auto

lemma row_above_odd:
  assumes "odd (length ls)"
  shows "row_above dh (ls @ [x]) = row_above dh (butlast ls) @ [hashMerkleBranches dh (last ls) x]"
    and "row_above dh ls = row_above dh (butlast ls) @ [hashMerkleBranches dh (last ls) (last ls)]"
proof -
  have "ls \<noteq> []" using assms by auto
  then have l: "ls = butlast ls @ [last ls]" by simp
  have e: "even (length (butlast ls))" using assms by simp
  show "row_above dh (ls @ [x]) = row_above dh (butlast ls) @ [hashMerkleBranches dh (last ls) x]"
    using row_above_append [OF e, of dh "[last ls, x]"] l by (metis append.assoc append_Cons append_Nil row_above.simps(1,3))
  show "row_above dh ls = row_above dh (butlast ls) @ [hashMerkleBranches dh (last ls) (last ls)]"
    using row_above_append [OF e, of dh "[last ls]"] l by (metis row_above.simps(2))
qed

text \<open>Adding a leaf is carrying in a binary counter.\<close>

lemma odd_shift: "drop_bit k n AND 1 = 1 \<longleftrightarrow> odd (unat (drop_bit k n))" for n :: "64 word"
proof -
  have "odd (unat (drop_bit k n)) \<longleftrightarrow> odd (drop_bit k n)"
    using bit_unsigned_iff [of "drop_bit k n" 0, where ?'a = nat] by (simp only: bit_0) simp
  then show ?thesis by (simp add: and_one_eq mod_2_eq_odd)
qed

lemma add_loop_forest:
  assumes "length ls = unat (drop_bit (unat h) n)" "unat h \<le> 64"
  obtains rs r where "add_loop dh n h (forest dh ls) x = Inr (rs, r)" "rs @ [r] = forest dh (ls @ [x])"
proof -
  have "\<exists>rs r. add_loop dh n h (forest dh ls) x = Inr (rs, r) \<and> rs @ [r] = forest dh (ls @ [x])"
    using assms
  proof (induction "length ls" arbitrary: ls h x rule: less_induct)
    case less
    show ?case
    proof (cases "odd (length ls)")
      case True
      let ?ls = "row_above dh (butlast ls)"
      have b: "drop_bit (unat h) n \<noteq> 0" using less(2) True by auto
      then have h: "unat (h + 1) = unat h + 1" using shift_bounded [OF b] by (simp add: unat_word_ariths)
      have l: "length ?ls = unat (drop_bit (unat (h + 1)) n)"
        using less(2) True unfolding h unat_shift by (simp add: div_mult2_eq [symmetric] mult.commute)
      have lt: "length ?ls < length ls" and le: "unat (h + 1) \<le> 64"
        using True shift_bounded [OF b] h by (auto elim!: oddE)
      obtain rs r where i: "add_loop dh n (h + 1) (forest dh ?ls) (hashMerkleBranches dh (last ls) x) = Inr (rs, r)"
        "rs @ [r] = forest dh (?ls @ [hashMerkleBranches dh (last ls) x])"
        using less(1) [OF lt l le] by blast
      have "forest dh (?ls @ [hashMerkleBranches dh (last ls) x]) = forest dh (ls @ [x])"
        using row_above_odd(1) [OF True] forest_even [of "ls @ [x]" dh] True by simp
      then show ?thesis
        using i True less(2) odd_shift [of "unat h" n] by (simp add: add_loop.simps [of dh n h] forest_odd)
    next
      case False
      then have "add_loop dh n h (forest dh ls) x = Inr (forest dh ls, x)"
        using less(2) odd_shift [of "unat h" n] by (simp add: add_loop.simps [of dh n h])
      moreover have "forest dh (ls @ [x]) = forest dh ls @ [x]" using False forest_odd [of "ls @ [x]" dh] forest_even [of ls dh] by simp
      ultimately show ?thesis by simp
    qed
  qed
  then show ?thesis using that by blast
qed

text \<open>The store of the leaves \<open>ls\<close>.\<close>

definition holds :: "(byte list \<Rightarrow> hash) \<Rightarrow> hash list \<Rightarrow> rollingMerkleTreeStore \<Rightarrow> bool" where
  "holds dh ls s \<longleftrightarrow> roots s = forest dh ls \<and> unat (numLeaves s) = length ls"

lemma holds_empty: "holds dh [] (newRollingMerkleTreeStore k)"
  by (simp add: holds_def newRollingMerkleTreeStore_def)

lemma addLeaf_holds:
  assumes "holds dh ls s" "length ls < 2 ^ 63"
  obtains s' where "addLeaf dh x s = Inr s'" "holds dh (ls @ [x]) s'"
proof -
  have "length ls = unat (drop_bit (unat (0 :: 8 word)) (numLeaves s))" using assms(1) by (simp add: holds_def)
  from add_loop_forest [OF this, of dh x] obtain rs r where
    "add_loop dh (numLeaves s) 0 (forest dh ls) x = Inr (rs, r)" "rs @ [r] = forest dh (ls @ [x])" by auto
  moreover have "unat (numLeaves s + 1) = length ls + 1"
    using assms by (simp add: holds_def unat_word_ariths)
  ultimately show ?thesis using assms(1) that by (simp add: addLeaf_def holds_def)
qed


section \<open>The root\<close>

lemma merkle_root_row: "2 \<le> length ls \<Longrightarrow> merkle_root dh (row_above dh ls) = merkle_root dh ls"
proof -
  assume "2 \<le> length ls"
  then have "ls \<noteq> []" "tl ls \<noteq> []" by (cases ls; cases "tl ls"; simp)+
  then show ?thesis by (simp add: merkle_root.simps [of dh ls])
qed

lemma merkle_root_repeat:
  assumes "odd (length ls)" "3 \<le> length ls"
  shows "merkle_root dh (ls @ [last ls]) = merkle_root dh ls"
  using assms merkle_root_row [of ls dh] merkle_root_row [of "ls @ [last ls]" dh] row_above_odd [OF assms(1), of dh] by simp

lemma forest_root:
  assumes "length (forest dh ls) = 1"
  shows "forest dh ls = [merkle_root dh ls]"
  using assms
proof (induction dh ls rule: forest.induct)
  case (1 dh ls)
  have ne: "ls \<noteq> []" using 1(3) by auto
  show ?case
  proof (cases "even (length ls)")
    case True
    then have "2 \<le> length ls" using ne by (cases ls; cases "tl ls") simp_all
    then show ?thesis using 1(1) [OF ne True] 1(3) forest_even [OF True, of dh] merkle_root_row by simp
  next
    case False
    then have "row_above dh (butlast ls) = []"
      using 1(3) forest_nonempty [of "row_above dh (butlast ls)" dh] by (auto simp: forest_odd)
    then have "butlast ls = []" by (cases "(dh, butlast ls)" rule: row_above.cases) auto
    then have "ls = [last ls]" using ne by (metis append_butlast_last_id append_Nil)
    then show ?thesis by (metis \<open>row_above dh (butlast ls) = []\<close> False append_Nil forest_Nil forest_odd list.sel(1,3) merkle_root.simps not_Cons_self2)
  qed
qed

lemma shift_to_odd:
  assumes "length ls = unat n" "n = drop_bit (unat h) c" "ls \<noteq> []"
  shows "\<exists>ls' n'. shift_loop c h n = Some n' \<and> odd (length ls') \<and> length ls' = unat n' \<and> forest dh ls' = forest dh ls
    \<and> merkle_root dh ls' = merkle_root dh ls \<and> (if odd (length ls) then ls' = ls else 2 * length ls' \<le> length ls)"
  using assms
proof (induction "length ls" arbitrary: ls h n rule: less_induct)
  case less
  have b: "drop_bit (unat h) c \<noteq> 0" using less(2-4) by auto
  have e: "drop_bit (unat h) c AND 1 = 0 \<longleftrightarrow> even (length ls)"
    using odd_shift [of "unat h" c] less(2,3) by (auto simp: and_one_eq mod_2_eq_odd)
  show ?case
  proof (cases "odd (length ls)")
    case True
    then show ?thesis using e less(2) by (simp add: shift_loop.simps)
  next
    case False
    let ?ls = "row_above dh ls"
    have h: "unat (h + 1) = unat h + 1" using shift_bounded [OF b] by (simp add: unat_word_ariths)
    have n: "drop_bit 1 n = drop_bit (unat (h + 1)) c" unfolding h less(3) by (simp add: add.commute)
    have l: "length ?ls = unat (drop_bit 1 n)" using less(2) False by (simp add: unat_shift)
    have two: "2 \<le> length ls" using less(4) False by (cases ls; cases "tl ls") simp_all
    have lt: "length ?ls < length ls" "?ls \<noteq> []" using two by (auto simp flip: length_greater_0_conv)
    obtain ls' n' where i: "shift_loop c (h + 1) (drop_bit 1 n) = Some n'" "odd (length ls')" "length ls' = unat n'"
      "forest dh ls' = forest dh ?ls" "merkle_root dh ls' = merkle_root dh ?ls"
      "if odd (length ?ls) then ls' = ?ls else 2 * length ls' \<le> length ?ls"
      using less(1) [OF lt(1) l n lt(2)] by blast
    have "2 * length ls' \<le> length ls" using i(6) False by (auto split: if_splits)
    then show ?thesis
      using i False e forest_even [of ls dh] merkle_root_row [OF two] by (intro exI [of _ ls'] exI [of _ n']) (simp add: shift_loop.simps)
  qed
qed

lemma calcRoot_holds:
  assumes "holds dh ls s" "ls \<noteq> []" "length ls \<le> 2 ^ 62"
  shows "calcRoot dh s = Some (Inr (merkle_root dh ls))"
  using assms
proof (induction "2 * length ls + (if odd (length ls) then 3 else 0)" arbitrary: ls s rule: less_induct)
  case less
  have r: "roots s = forest dh ls" "unat (numLeaves s) = length ls" using less(2) by (simp_all add: holds_def)
  show ?case
  proof (cases "1 < length (roots s)")
    case False
    moreover have "roots s \<noteq> []" using forest_nonempty [OF less(3)] r by simp
    ultimately have "length (forest dh ls) = 1" using r(1) by (simp add: not_less le_Suc_eq)
    then show ?thesis using forest_root [of dh ls] r by (simp add: calcRoot.simps)
  next
    case True
    obtain ls' n' where i: "shift_loop (numLeaves s) 0 (numLeaves s) = Some n'" "odd (length ls')" "length ls' = unat n'"
      "forest dh ls' = forest dh ls" "merkle_root dh ls' = merkle_root dh ls"
      "if odd (length ls) then ls' = ls else 2 * length ls' \<le> length ls"
      using shift_to_odd [of ls "numLeaves s" 0 "numLeaves s" dh] r(2) less(3) by auto
    have "length ls' \<noteq> 1"
    proof
      assume one: "length ls' = 1"
      then have "butlast ls' = []" by (cases ls') auto
      then have "length (forest dh ls') = 1" using forest_odd [OF i(2), of dh] by simp
      then show False using True r(1) i(4) by simp
    qed
    then have three: "3 \<le> length ls'" using i(2) by (auto elim!: oddE)
    have lt: "length ls' \<le> length ls" using i(6) by (auto split: if_splits)
    have s': "holds dh ls' (s\<lparr>numLeaves := n'\<rparr>)" using r(1) i(3,4) by (simp add: holds_def)
    obtain s1 where a: "addLeaf dh (last ls') (s\<lparr>numLeaves := n'\<rparr>) = Inr s1" "holds dh (ls' @ [last ls']) s1"
      using addLeaf_holds [OF s', of "last ls'"] lt less(4) by auto
    have last: "last (roots s) = last ls'" using r(1) i(4) forest_odd [OF i(2), of dh] by (metis last_snoc)
    have m: "2 * length (ls' @ [last ls']) + (if odd (length (ls' @ [last ls'])) then 3 else 0)
        < 2 * length ls + (if odd (length ls) then 3 else 0)"
      using i(2,6) three by (auto split: if_splits)
    have "length (ls' @ [last ls']) \<le> 2 ^ 62"
      using i(2,6) three less(4) by (cases "length ls = 2 ^ 62") (auto split: if_splits)
    then have "calcRoot dh s1 = Some (Inr (merkle_root dh (ls' @ [last ls'])))"
      using less(1) [OF m a(2)] by simp
    then show ?thesis
      using True i(1,5) a(1) last merkle_root_repeat [OF i(2) three, of dh] by (simp add: calcRoot.simps [of dh s])
  qed
qed


section \<open>The roots of a channel\<close>

text \<open>
  The fields of \<open>ChannelInDB\<close> that the roots read.  The names and amounts of assets (package
  \<open>indexer\<close>) and the public keys (package \<open>btcec\<close>) are of types of other packages: \<open>chanlib\<close> holds what
  the code calls on them.  The balances are the entries of the Go map in the order in which \<open>range\<close>
  happens to visit them.
\<close>

record ('n, 'd, 'k) chanlib =
  nameString :: "'n \<Rightarrow> string"
  decSign :: "'d \<Rightarrow> int"
  decString :: "'d \<Rightarrow> string"
  SerializeCompressed :: "'k \<Rightarrow> byte list"

record 'k ChannelConfigV2 =
  cfg_InitialBalance :: int
  cfg_WalletId :: "32 word"
  cfg_PaymentKey :: 'k
  cfg_RevocationBasePoint :: 'k

record ('n, 'd, 'k) ChannelInDB =
  ch_Version :: int
  ch_ChannelId :: string
  ch_Address :: string
  ch_ChannelType :: int
  ch_Contract :: "byte list"
  ch_RedeemScript :: "byte list"
  ch_IsInitiator :: bool
  ch_FundingTime :: int
  ch_Capacity :: int
  ch_CsvDelay :: "16 word"
  ch_LocalChanCfg :: "'k ChannelConfigV2"
  ch_RemoteChanCfg :: "'k ChannelConfigV2"
  ch_Memo :: string
  ch_CommitHeight :: int
  ch_LocalBalance :: "('n \<times> 'd) list"
  ch_RemoteBalance :: "('n \<times> 'd) list"
  ch_StaticMerkleRoot :: "byte list"

text \<open>\<open>%d\<close> of a signed integer.\<close>

definition formatInt :: "int \<Rightarrow> string" where
  "formatInt i = (if i < 0 then ''-'' @ decimal (nat (- i)) else decimal (nat i))"

definition calcHash :: "(byte list \<Rightarrow> hash) \<Rightarrow> string \<Rightarrow> hash" where
  "calcHash dh data = dh (bytes_of data)"

fun add_all :: "(byte list \<Rightarrow> hash) \<Rightarrow> hash list \<Rightarrow> rollingMerkleTreeStore \<Rightarrow> merkle_error + rollingMerkleTreeStore" where
  "add_all dh [] s = Inr s"
| "add_all dh (x # xs) s = rbind (addLeaf dh x s) (add_all dh xs)"

text \<open>The common end of the three computations: pad to an even number of leaves and take the root.\<close>

definition finish_root :: "(byte list \<Rightarrow> hash) \<Rightarrow> hash \<Rightarrow> rollingMerkleTreeStore \<Rightarrow> (merkle_error + hash) option" where
  "finish_root dh pad s =
     (if numLeaves s = 1 then Some (if roots s = [] then Inl ErrNoRoot else Inr (hd (roots s)))
      else orbind (Some (if numLeaves s mod 2 \<noteq> 0 then addLeaf dh pad s else Inr s)) (calcRoot dh))"

definition asset_leaf :: "(byte list \<Rightarrow> hash) \<Rightarrow> ('n, 'd, 'k) chanlib \<Rightarrow> 'n \<times> 'd \<Rightarrow> hash" where
  "asset_leaf dh L = (\<lambda>(name, amt). calcHash dh (nameString L name @ ''-'' @ decString L amt))"

definition channel_leaf :: "(byte list \<Rightarrow> hash) \<Rightarrow> ('n, 'd, 'k) ChannelInDB \<Rightarrow> hash" where
  "channel_leaf dh channel = calcHash dh (ch_ChannelId channel @ '' '' @ formatInt (ch_CommitHeight channel) @ '' ''
     @ formatInt (ch_Capacity channel) @ '' '' @ decimal (unat (ch_CsvDelay channel)))"

definition assetMerkleRoot :: "(byte list \<Rightarrow> hash) \<Rightarrow> ('n, 'd, 'k) chanlib \<Rightarrow> ('n, 'd, 'k) ChannelInDB \<Rightarrow> ('n \<times> 'd) list
    \<Rightarrow> rollingMerkleTreeStore \<Rightarrow> (merkle_error + hash) option" where
  "assetMerkleRoot dh L channel balance s =
     orbind (Some (addLeaf dh (channel_leaf dh channel) s)) (\<lambda>s.
       let sorted_balance = sort_key (\<lambda>(name, amt). nameString L name) balance
       in orbind (Some (add_all dh (map (asset_leaf dh L) (filter (\<lambda>(name, amt). decSign L amt \<noteq> 0) sorted_balance)) s))
           (finish_root dh (dh (ch_StaticMerkleRoot channel))))"

definition calcLocalAssetMerkleRoot :: "(byte list \<Rightarrow> hash) \<Rightarrow> ('n, 'd, 'k) chanlib \<Rightarrow> ('n, 'd, 'k) ChannelInDB
    \<Rightarrow> rollingMerkleTreeStore \<Rightarrow> (merkle_error + hash) option" where
  "calcLocalAssetMerkleRoot dh L channel = assetMerkleRoot dh L channel (ch_LocalBalance channel)"

definition calcRemoteAssetMerkleRoot :: "(byte list \<Rightarrow> hash) \<Rightarrow> ('n, 'd, 'k) chanlib \<Rightarrow> ('n, 'd, 'k) ChannelInDB
    \<Rightarrow> rollingMerkleTreeStore \<Rightarrow> (merkle_error + hash) option" where
  "calcRemoteAssetMerkleRoot dh L channel = assetMerkleRoot dh L channel (ch_RemoteBalance channel)"

definition config_leaf :: "(byte list \<Rightarrow> hash) \<Rightarrow> ('n, 'd, 'k) chanlib \<Rightarrow> 'k ChannelConfigV2 \<Rightarrow> hash" where
  "config_leaf dh L cfg = calcHash dh (formatInt (cfg_InitialBalance cfg) @ decimal (unat (cfg_WalletId cfg))
     @ hexEncode (SerializeCompressed L (cfg_PaymentKey cfg)) @ hexEncode (SerializeCompressed L (cfg_RevocationBasePoint cfg)))"

definition static_leaves :: "(byte list \<Rightarrow> hash) \<Rightarrow> ('n, 'd, 'k) chanlib \<Rightarrow> ('n, 'd, 'k) ChannelInDB \<Rightarrow> hash list" where
  "static_leaves dh L channel =
     (let (local, remote) = (if ch_IsInitiator channel then (ch_LocalChanCfg channel, ch_RemoteChanCfg channel)
            else (ch_RemoteChanCfg channel, ch_LocalChanCfg channel))
      in [calcHash dh (ch_ChannelId channel),
          calcHash dh (formatInt (ch_Version channel) @ '' '' @ formatInt (ch_ChannelType channel) @ '' ''
            @ formatInt (ch_FundingTime channel) @ '' '' @ decimal (unat (ch_CsvDelay channel))),
          calcHash dh (ch_Address channel), dh (ch_Contract channel), dh (ch_RedeemScript channel),
          config_leaf dh L local, config_leaf dh L remote])"

definition calcStaticMerkleRoot :: "(byte list \<Rightarrow> hash) \<Rightarrow> ('n, 'd, 'k) chanlib \<Rightarrow> ('n, 'd, 'k) ChannelInDB
    \<Rightarrow> rollingMerkleTreeStore \<Rightarrow> (merkle_error + hash) option" where
  "calcStaticMerkleRoot dh L channel s =
     orbind (Some (add_all dh (static_leaves dh L channel) s)) (finish_root dh (calcHash dh (ch_Memo channel)))"

definition CalcChannelLocalAssetsMerkleRoot :: "(byte list \<Rightarrow> hash) \<Rightarrow> ('n, 'd, 'k) chanlib \<Rightarrow> ('n, 'd, 'k) ChannelInDB
    \<Rightarrow> (merkle_error + hash) option" where
  "CalcChannelLocalAssetsMerkleRoot dh L channel =
     calcLocalAssetMerkleRoot dh L channel (newRollingMerkleTreeStore (of_nat (2 + 2 * length (ch_LocalBalance channel))))"

definition CalcChannelRemoteAssetsMerkleRoot :: "(byte list \<Rightarrow> hash) \<Rightarrow> ('n, 'd, 'k) chanlib \<Rightarrow> ('n, 'd, 'k) ChannelInDB
    \<Rightarrow> (merkle_error + hash) option" where
  "CalcChannelRemoteAssetsMerkleRoot dh L channel =
     calcRemoteAssetMerkleRoot dh L channel (newRollingMerkleTreeStore (of_nat (2 + 2 * length (ch_LocalBalance channel))))"

definition CalcChannelStaticMerkleRoot :: "(byte list \<Rightarrow> hash) \<Rightarrow> ('n, 'd, 'k) chanlib \<Rightarrow> ('n, 'd, 'k) ChannelInDB
    \<Rightarrow> (merkle_error + hash) option" where
  "CalcChannelStaticMerkleRoot dh L channel = calcStaticMerkleRoot dh L channel (newRollingMerkleTreeStore 10)"


section \<open>What the roots commit to\<close>

lemma add_all_holds:
  assumes "holds dh ls s" "length ls + length xs \<le> 2 ^ 62"
  shows "\<exists>s'. add_all dh xs s = Inr s' \<and> holds dh (ls @ xs) s'"
  using assms
proof (induction xs arbitrary: ls s)
  case (Cons x xs)
  obtain s1 where s1: "addLeaf dh x s = Inr s1" "holds dh (ls @ [x]) s1"
    using addLeaf_holds [OF Cons.prems(1)] Cons.prems(2) by auto
  then show ?case using Cons.IH [OF s1(2)] Cons.prems(2) by simp
qed simp

text \<open>The leaves that the padding leaves behind.\<close>

definition padded :: "hash \<Rightarrow> hash list \<Rightarrow> hash list" where
  "padded pad ls = (if length ls = 1 \<or> even (length ls) then ls else ls @ [pad])"

lemma finish_root_holds:
  assumes "holds dh ls s" "ls \<noteq> []" "length ls < 2 ^ 62"
  shows "finish_root dh pad s = Some (Inr (merkle_root dh (padded pad ls)))"
proof -
  have n: "unat (numLeaves s) = length ls" using assms(1) by (simp add: holds_def)
  have one: "numLeaves s = 1 \<longleftrightarrow> length ls = 1" unfolding n [symmetric] by (metis unsigned_1 unsigned_word_eqI)
  have m: "numLeaves s mod 2 \<noteq> 0 \<longleftrightarrow> odd (length ls)"
    using odd_shift [of 0 "numLeaves s"] n by (auto simp: and_one_eq mod_2_eq_odd)
  show ?thesis
  proof (cases "length ls = 1")
    case True
    then obtain x where "ls = [x]" by (auto simp: length_Suc_conv)
    then show ?thesis using assms(1) one True
      by (simp add: finish_root_def padded_def holds_def merkle_root.simps [of dh "[x]"] forest.simps [of dh "[x]"])
  next
    case False
    show ?thesis
    proof (cases "odd (length ls)")
      case True
      obtain s1 where "addLeaf dh pad s = Inr s1" "holds dh (ls @ [pad]) s1"
        using addLeaf_holds [OF assms(1)] assms(3) by auto
      then show ?thesis using True False one m calcRoot_holds [of dh "ls @ [pad]" s1] assms(3)
        by (simp add: finish_root_def padded_def orbind_def)
    next
      case even: False
      then show ?thesis using False one m calcRoot_holds [OF assms(1,2)] assms(3)
        by (simp add: finish_root_def padded_def orbind_def)
    qed
  qed
qed

definition asset_leaves :: "(byte list \<Rightarrow> hash) \<Rightarrow> ('n, 'd, 'k) chanlib \<Rightarrow> ('n, 'd, 'k) ChannelInDB \<Rightarrow> ('n \<times> 'd) list \<Rightarrow> hash list" where
  "asset_leaves dh L channel balance = padded (dh (ch_StaticMerkleRoot channel)) (channel_leaf dh channel
     # map (asset_leaf dh L) (sort_key (\<lambda>(name, amt). nameString L name) (filter (\<lambda>(name, amt). decSign L amt \<noteq> 0) balance)))"

lemma asset_root:
  assumes "length balance < 2 ^ 61"
  shows "assetMerkleRoot dh L channel balance (newRollingMerkleTreeStore k)
    = Some (Inr (merkle_root dh (asset_leaves dh L channel balance)))"
proof -
  let ?b = "sort_key (\<lambda>(name, amt). nameString L name) (filter (\<lambda>(name, amt). decSign L amt \<noteq> 0) balance)"
  have l: "length ?b < 2 ^ 61" using assms by (simp add: le_less_trans [OF length_filter_le])
  obtain s1 where s1: "addLeaf dh (channel_leaf dh channel) (newRollingMerkleTreeStore k) = Inr s1"
    "holds dh [channel_leaf dh channel] s1"
    using addLeaf_holds [OF holds_empty, of dh "channel_leaf dh channel" k] by auto
  obtain s2 where s2: "add_all dh (map (asset_leaf dh L) ?b) s1 = Inr s2"
    "holds dh ([channel_leaf dh channel] @ map (asset_leaf dh L) ?b) s2"
    using add_all_holds [OF s1(2), of "map (asset_leaf dh L) ?b"] l by auto
  have "finish_root dh (dh (ch_StaticMerkleRoot channel)) s2 = Some (Inr (merkle_root dh (asset_leaves dh L channel balance)))"
    unfolding asset_leaves_def using finish_root_holds [OF s2(2)] l by simp
  then show ?thesis using s1(1) s2(1) by (simp add: assetMerkleRoot_def orbind_def Let_def filter_sort)
qed

lemma asset_leaves_canonical:
  assumes "mset (filter (\<lambda>(name, amt). decSign L amt \<noteq> 0) b) = mset (filter (\<lambda>(name, amt). decSign L amt \<noteq> 0) b')"
    and "distinct (map (\<lambda>(name, amt). nameString L name) b)"
  shows "asset_leaves dh L channel b = asset_leaves dh L channel b'"
proof -
  have i: "inj_on (\<lambda>(name, amt). nameString L name) (set (filter (\<lambda>(name, amt). decSign L amt \<noteq> 0) b))"
    by (rule inj_on_subset [OF conjunct2 [OF assms(2) [unfolded distinct_map]] filter_is_subset])
  have "sort_key (\<lambda>(name, amt). nameString L name) (filter (\<lambda>(name, amt). decSign L amt \<noteq> 0) b)
      = sort_key (\<lambda>(name, amt). nameString L name) (filter (\<lambda>(name, amt). decSign L amt \<noteq> 0) b')"
    by (rule sort_key_inj_key_eq [OF _ i sorted_sort_key]) (simp only: mset_sort assms(1))
  then show ?thesis by (simp add: asset_leaves_def)
qed


section \<open>Binding\<close>

text \<open>What is hashed on the way from a row to the root.\<close>

fun row_inputs :: "hash list \<Rightarrow> byte list list" where
  "row_inputs [] = []"
| "row_inputs [x] = [x @ x]"
| "row_inputs (x # y # r) = (x @ y) # row_inputs r"

lemma row_above_inputs: "row_above dh ls = map dh (row_inputs ls)"
  by (induction ls rule: row_inputs.induct) (simp_all add: hashMerkleBranches_def)

function tree_inputs :: "(byte list \<Rightarrow> hash) \<Rightarrow> hash list \<Rightarrow> byte list list" where
  "tree_inputs dh ls = (if length ls < 2 then [] else row_inputs ls @ tree_inputs dh (row_above dh ls))"
  by pat_completeness auto
termination
  by (relation "measure (\<lambda>(dh, ls). length ls)") auto

declare tree_inputs.simps [simp del]

lemma row_inputs_inject:
  assumes "length xs = length ys" "\<forall>x\<in>set xs. length x = 32" "\<forall>y\<in>set ys. length y = 32" "row_inputs xs = row_inputs ys"
  shows "xs = ys"
  using assms
proof (induction xs arbitrary: ys rule: row_inputs.induct)
  case (2 x)
  then show ?case by (cases ys) auto
next
  case (3 x x' xs)
  then obtain y y' zs where ys: "ys = y # y' # zs" by (cases ys; cases "tl ys") auto
  then have "xs = zs" using 3 by simp
  moreover have "length x = length y" using 3(3,4) ys by simp
  ultimately show ?case using 3(5) ys by simp
qed simp

lemma merkle_collision:
  assumes "length ls = length ls'" "\<forall>x\<in>set ls. length x = 32" "\<forall>x\<in>set ls'. length x = 32" "\<And>b. length (dh b) = 32"
    and "merkle_root dh ls = merkle_root dh ls'" "ls \<noteq> ls'"
  shows "\<exists>x\<in>set (tree_inputs dh ls). \<exists>y\<in>set (tree_inputs dh ls'). x \<noteq> y \<and> dh x = dh y"
  using assms
proof (induction "length ls" arbitrary: ls ls' rule: less_induct)
  case less
  show ?case
  proof (cases "length ls < 2")
    case True
    then have "ls = ls'"
    proof (cases ls)
      case (Cons x xs)
      then obtain y where "ls = [x]" "ls' = [y]" using True less(2) by (cases ls') auto
      then show ?thesis using less(6) by (simp add: merkle_root.simps [of dh "[_]"])
    qed (use less(2) in simp)
    then show ?thesis using less(7) by simp
  next
    case False
    then have two: "2 \<le> length ls" "2 \<le> length ls'" using less(2) by simp_all
    have t: "set (tree_inputs dh ls) = set (row_inputs ls) \<union> set (tree_inputs dh (row_above dh ls))"
      "set (tree_inputs dh ls') = set (row_inputs ls') \<union> set (tree_inputs dh (row_above dh ls'))"
      using two by (simp_all add: tree_inputs.simps [of dh ls] tree_inputs.simps [of dh ls'])
    show ?thesis
    proof (cases "row_above dh ls = row_above dh ls'")
      case True
      then have m: "map dh (row_inputs ls) = map dh (row_inputs ls')" by (simp add: row_above_inputs)
      have "row_inputs ls \<noteq> row_inputs ls'" using row_inputs_inject [OF less(2-4)] less(7) by blast
      moreover have l: "length (row_inputs ls) = length (row_inputs ls')" using m by (metis length_map)
      ultimately obtain i where i: "i < length (row_inputs ls)" "row_inputs ls ! i \<noteq> row_inputs ls' ! i"
        by (auto simp: list_eq_iff_nth_eq)
      then have "dh (row_inputs ls ! i) = dh (row_inputs ls' ! i)" using m l by (metis nth_map)
      moreover have "row_inputs ls ! i \<in> set (tree_inputs dh ls)" "row_inputs ls' ! i \<in> set (tree_inputs dh ls')"
        using i(1) l by (simp_all add: t)
      ultimately show ?thesis using i(2) by blast
    next
      case False
      have "length (row_above dh ls) < length ls" using two by simp
      moreover have "\<forall>x\<in>set (row_above dh ls). length x = 32" "\<forall>x\<in>set (row_above dh ls'). length x = 32"
        using less(5) by (auto simp: row_above_inputs)
      moreover have "merkle_root dh (row_above dh ls) = merkle_root dh (row_above dh ls')"
        using less(6) merkle_root_row two by simp
      ultimately have "\<exists>x\<in>set (tree_inputs dh (row_above dh ls)). \<exists>y\<in>set (tree_inputs dh (row_above dh ls')). x \<noteq> y \<and> dh x = dh y"
        using less(1) [of "row_above dh ls" "row_above dh ls'"] less(2,5) False by simp
      then show ?thesis unfolding t by blast
    qed
  qed
qed

section \<open>The properties\<close>

lemma rolling_root:
  assumes "ls \<noteq> []" "length ls \<le> 2 ^ 62"
  shows "\<exists>s. add_all dh ls (newRollingMerkleTreeStore k) = Inr s \<and> calcRoot dh s = Some (Inr (merkle_root dh ls))"
  using add_all_holds [OF holds_empty, of "ls" dh k] calcRoot_holds [OF _ assms] assms(2) by auto

text \<open>
  C19: The rolling store computes the Merkle root: after adding any leaves, one or more and up to \<open>2^62\<close>,
  \<open>calcRoot\<close> ends, panics nowhere and returns the root of the tree built row by row, in which an
  odd row repeats its last node.
\<close>

theorem rolling_merkle_root:
  assumes "ls \<noteq> []" "length ls \<le> 2 ^ 62"
  shows "\<exists>s. add_all dh ls (newRollingMerkleTreeStore k) = Inr s \<and> calcRoot dh s = Some (Inr (merkle_root dh ls))"
  by (rule rolling_root [OF assms])

text \<open>
  The root of a channel's balances depends on the balances only: it is the Merkle root of the
  channel's own leaf and one leaf for each asset with an amount, in the order of their names, whatever
  order the map is visited in and whatever assets are kept with the amount zero; so both sides of a
  channel compute the same root.
\<close>

theorem channel_asset_root:
  assumes "length (ch_LocalBalance channel) < 2 ^ 61" "length balance < 2 ^ 61"
    and "distinct (map (\<lambda>(name, amt). nameString L name) (ch_LocalBalance channel))"
    and "mset (filter (\<lambda>(name, amt). decSign L amt \<noteq> 0) (ch_LocalBalance channel))
      = mset (filter (\<lambda>(name, amt). decSign L amt \<noteq> 0) balance)"
  shows "CalcChannelLocalAssetsMerkleRoot dh L channel
      = Some (Inr (merkle_root dh (asset_leaves dh L channel (ch_LocalBalance channel))))
    \<and> CalcChannelLocalAssetsMerkleRoot dh L (channel\<lparr>ch_LocalBalance := balance\<rparr>) = CalcChannelLocalAssetsMerkleRoot dh L channel
    \<and> CalcChannelRemoteAssetsMerkleRoot dh L (channel\<lparr>ch_RemoteBalance := balance\<rparr>) = CalcChannelLocalAssetsMerkleRoot dh L channel"
proof -
  have r: "asset_leaves dh L (channel\<lparr>ch_LocalBalance := balance\<rparr>) balance = asset_leaves dh L channel balance"
    "asset_leaves dh L (channel\<lparr>ch_RemoteBalance := balance\<rparr>) balance = asset_leaves dh L channel balance"
    by (simp_all add: asset_leaves_def channel_leaf_def)
  show ?thesis
    using asset_leaves_canonical [OF assms(4,3), of dh channel]
    by (simp add: asset_root [OF assms(1)] asset_root [OF assms(2)] CalcChannelLocalAssetsMerkleRoot_def CalcChannelRemoteAssetsMerkleRoot_def calcLocalAssetMerkleRoot_def
        calcRemoteAssetMerkleRoot_def r)
qed

text \<open>
  C38: A root binds its leaves: when the store computes the same root from two different lists of the
  same number of 32-byte leaves, two different inputs hashed on the way to the two roots have the same
  hash.
\<close>

theorem merkle_root_binding:
  assumes "length ls = length ls'" "\<forall>x\<in>set ls. length x = 32" "\<forall>x\<in>set ls'. length x = 32" "\<forall>b. length (dh b) = 32"
    and "length ls \<le> 2 ^ 62" "add_all dh ls (newRollingMerkleTreeStore k) = Inr s"
    and "add_all dh ls' (newRollingMerkleTreeStore k') = Inr s'" "calcRoot dh s = calcRoot dh s'" "ls \<noteq> ls'"
  shows "\<exists>x\<in>set (tree_inputs dh ls). \<exists>y\<in>set (tree_inputs dh ls'). x \<noteq> y \<and> dh x = dh y"
proof -
  have "ls \<noteq> []" "ls' \<noteq> []" using assms(1,9) by auto
  then have "merkle_root dh ls = merkle_root dh ls'"
    using rolling_root [of ls dh k] rolling_root [of ls' dh k'] assms(1,5-8) by auto
  then show ?thesis using merkle_collision [OF assms(1-3) _ _ assms(9)] assms(4) by blast
qed

section \<open>The guarantees at work\<close>

theorem rolling_merkle_root_witness:
  "\<exists>s. add_all (\<lambda>b. 0 # b) [[1], [2], [3]] (newRollingMerkleTreeStore 3) = Inr s
    \<and> calcRoot (\<lambda>b. 0 # b) s = Some (Inr [0, 0, 1, 2, 0, 3, 3])"
proof -
  have "merkle_root (\<lambda>b. 0 # b) [[1], [2], [3]] = [0, 0, 1, 2, 0, 3, 3]"
    by (simp add: merkle_root.simps hashMerkleBranches_def)
  then show ?thesis using rolling_merkle_root [of "[[1], [2], [3]]" "\<lambda>b. 0 # b" 3] by simp
qed

definition demo_chanlib :: "(string, int, byte list) chanlib" where
  "demo_chanlib = \<lparr>nameString = id, decSign = sgn, decString = formatInt, SerializeCompressed = id\<rparr>"

definition demo_channel :: "(string, int, byte list) ChannelInDB" where
  "demo_channel =
     (let cfg = \<lparr>cfg_InitialBalance = 0, cfg_WalletId = 0, cfg_PaymentKey = [2], cfg_RevocationBasePoint = [3]\<rparr>
      in \<lparr>ch_Version = 1, ch_ChannelId = ''c'', ch_Address = ''a'', ch_ChannelType = 0, ch_Contract = [], ch_RedeemScript = [],
          ch_IsInitiator = True, ch_FundingTime = 0, ch_Capacity = 1000, ch_CsvDelay = 144, ch_LocalChanCfg = cfg,
          ch_RemoteChanCfg = cfg, ch_Memo = ''m'', ch_CommitHeight = 0, ch_LocalBalance = [(''b'', 5), (''a'', 7), (''c'', 0)],
          ch_RemoteBalance = [], ch_StaticMerkleRoot = [9]\<rparr>)"

theorem channel_asset_root_witness:
  "CalcChannelLocalAssetsMerkleRoot (\<lambda>b. 0 # b) demo_chanlib (demo_channel\<lparr>ch_LocalBalance := [(''a'', 7), (''b'', 5)]\<rparr>)
    = CalcChannelLocalAssetsMerkleRoot (\<lambda>b. 0 # b) demo_chanlib demo_channel"
proof -
  have "distinct (map (\<lambda>(name, amt). nameString demo_chanlib name) (ch_LocalBalance demo_channel))"
    "mset (filter (\<lambda>(name, amt). decSign demo_chanlib amt \<noteq> 0) (ch_LocalBalance demo_channel))
      = mset (filter (\<lambda>(name, amt). decSign demo_chanlib amt \<noteq> 0) [(''a'', 7), (''b'', 5)])"
    by (simp_all add: demo_chanlib_def demo_channel_def Let_def)
  moreover have "length (ch_LocalBalance demo_channel) < 2 ^ 61" by (simp add: demo_channel_def Let_def)
  ultimately show ?thesis
    using channel_asset_root [of demo_channel "[(''a'', 7), (''b'', 5)]" demo_chanlib "\<lambda>b. 0 # b"] by simp
qed

theorem merkle_root_binding_witness:
  "\<exists>x\<in>set (tree_inputs (\<lambda>b. replicate 32 0) [replicate 32 1, replicate 32 2]).
     \<exists>y\<in>set (tree_inputs (\<lambda>b. replicate 32 0) [replicate 32 3, replicate 32 2]). x \<noteq> y"
proof -
  let ?dh = "\<lambda>b :: byte list. replicate 32 (0 :: byte)" let ?a = "[replicate 32 1, replicate 32 2]" let ?b = "[replicate 32 3, replicate 32 2]"
  have m: "merkle_root ?dh ?a = merkle_root ?dh ?b"
    by (simp add: merkle_root.simps hashMerkleBranches_def del: replicate.simps)
  obtain s s' where "add_all ?dh ?a (newRollingMerkleTreeStore 2) = Inr s" "add_all ?dh ?b (newRollingMerkleTreeStore 2) = Inr s'"
      "calcRoot ?dh s = calcRoot ?dh s'"
    using rolling_root [of ?a ?dh 2] rolling_root [of ?b ?dh 2] m by auto
  then show ?thesis
    using merkle_root_binding [of ?a ?b ?dh 2 s 2 s'] by (simp add: replicate_eq_replicate del: replicate.simps)
qed


text \<open>
  The text of a configuration has no separator between the balance and the wallet id, so that two
  different configurations share a leaf.
\<close>

lemma config_leaf_ambiguous:
  "config_leaf dh L (cfg\<lparr>cfg_InitialBalance := 1, cfg_WalletId := 23\<rparr>) = config_leaf dh L (cfg\<lparr>cfg_InitialBalance := 12, cfg_WalletId := 3\<rparr>)"
proof -
  have "formatInt 1 @ decimal (unat (23 :: 32 word)) = formatInt 12 @ decimal (unat (3 :: 32 word))" by code_simp
  then show ?thesis by (simp add: config_leaf_def append_assoc [symmetric] del: append_assoc)
qed

end
