(* ===== verification/ManagedDataSync.thy ===== *)
theory ManagedDataSync
  imports ManagedData
begin

text \<open>
  \<open>sdk/wallet/account_managed_data.go\<close>: the modules of the wallet that contribute recovery data, the
  export of their data to a bundle and its import, and the three-way merge of bundles that two
  devices changed.
\<close>

section \<open>Scopes and catalogs\<close>

definition AccountManagedDataGlobalScope :: string where
  "AccountManagedDataGlobalScope = ''global''"

record AccountManagedDataScope =
  sc_WalletID :: int
  sc_WalletFingerprint :: string
  sc_AccountIndex :: "32 word"
  sc_Network :: string

definition scopeID :: "AccountManagedDataScope \<Rightarrow> string" where
  "scopeID s = toLower (trimSpace (sc_Network s)) @ ''/'' @ toLower (trimSpace (sc_WalletFingerprint s)) @ ''/''
     @ decimal (unat (sc_AccountIndex s))"

record AccountManagedDataCatalog =
  cat_AccountID :: string
  cat_Network :: string
  cat_Scopes :: "AccountManagedDataScope list"

record AccountManagedDataPayload =
  pl_Scope :: string
  pl_Payload :: "byte list"

definition accountManagedScopeSet :: "AccountManagedDataCatalog \<Rightarrow> string set" where
  "accountManagedScopeSet catalog = set (AccountManagedDataGlobalScope # map scopeID (cat_Scopes catalog))"

definition accountManagedDataCatalogFromState :: "string \<Rightarrow> string \<Rightarrow> ManagedState \<Rightarrow> AccountManagedDataCatalog" where
  "accountManagedDataCatalogFromState accountID network state =
     \<lparr>cat_AccountID = accountID, cat_Network = network, cat_Scopes = sort_key scopeID
        (concat (map (\<lambda>wallet. if mw_Deleted wallet then []
           else map (\<lambda>index. \<lparr>sc_WalletID = 0, sc_WalletFingerprint = mw_Fingerprint wallet,
                  sc_AccountIndex = of_nat index, sc_Network = network\<rparr>) [0..<unat (mw_AccountCount wallet)])
         (ms_Wallets state)))\<rparr>"

section \<open>Providers\<close>

text \<open>
  A provider is an interface over the state \<open>'s\<close> of the modules; its errors are of its own type \<open>'e\<close>.
  Import may change the state even when it fails.
\<close>

record ('s, 'e) AccountManagedDataProvider =
  providerID :: string
  Export :: "'s \<Rightarrow> AccountManagedDataCatalog \<Rightarrow> 'e + AccountManagedDataPayload list"
  Validate :: "'s \<Rightarrow> AccountManagedDataCatalog \<Rightarrow> AccountManagedDataPayload list \<Rightarrow> 'e + unit"
  Import :: "AccountManagedDataCatalog \<Rightarrow> AccountManagedDataPayload list \<Rightarrow> 's \<Rightarrow> 'e option \<times> 's"

datatype 'e managed_error =
    ErrProviderRequired
  | ErrInvalidProvider string
  | ErrProviderRegistered string
  | ErrExport string 'e
  | ErrValidateExport string 'e
  | ErrInvalidScope string string
  | ErrDuplicateScope string string
  | ErrBundle account_error
  | ErrUnknownScope string
  | ErrProviderUnavailable
  | ErrValidateImport string 'e
  | ErrImport string 'e

datatype merge_error =
    ErrRevisionRequired
  | ErrWriteConflict
  | ErrMergedBundle account_error

definition providerChar :: "char \<Rightarrow> bool" where
  "providerChar c = (let n = of_char c :: nat in 97 \<le> n \<and> n \<le> 122 \<or> 48 \<le> n \<and> n \<le> 57 \<or> c \<in> {CHR ''-'', CHR ''_'', CHR ''.''})"

definition validAccountManagedProviderID :: "string \<Rightarrow> bool" where
  "validAccountManagedProviderID value =
     (let value = trimSpace value in value \<noteq> '''' \<and> length value \<le> 128 \<and> list_all providerChar value)"

text \<open>The map of the registered providers by id, and its values in the order of their ids.\<close>

type_synonym ('s, 'e) providers = "(string \<times> ('s, 'e) AccountManagedDataProvider) list"

definition RegisterAccountManagedDataProvider :: "('s, 'e) AccountManagedDataProvider option \<Rightarrow> ('s, 'e) providers
    \<Rightarrow> 'e managed_error + ('s, 'e) providers" where
  "RegisterAccountManagedDataProvider provider providers =
     (case provider of
        None \<Rightarrow> Inl ErrProviderRequired
      | Some provider \<Rightarrow>
          let pid = trimSpace (providerID provider)
          in check (\<not> validAccountManagedProviderID pid) (ErrInvalidProvider pid)
              (check (map_of providers pid \<noteq> None) (ErrProviderRegistered pid) (Inr ((pid, provider) # providers))))"

definition accountManagedDataProviders :: "('s, 'e) providers \<Rightarrow> ('s, 'e) AccountManagedDataProvider list" where
  "accountManagedDataProviders providers = map snd (sort_key fst providers)"

section \<open>Export\<close>

definition accountManagedDataContentHash :: "crypto \<Rightarrow> ManagedDataItem list \<Rightarrow> account_error + string" where
  "accountManagedDataContentHash C items =
     rbind (EncodeManagedDataBundle \<lparr>mb_Version = 1, mb_Revision = 1, mb_Items = items\<rparr>) (\<lambda>encoded.
       Inr (hexEncode (sha256 C encoded)))"

text \<open>The inner loop over the payloads of one provider, with the map \<open>seen\<close> of scopes as a list.\<close>

fun export_payloads :: "string set \<Rightarrow> string \<Rightarrow> string list \<Rightarrow> AccountManagedDataPayload list
    \<Rightarrow> 'e managed_error + ManagedDataItem list" where
  "export_payloads allowed pid seen [] = Inr []"
| "export_payloads allowed pid seen (payload # payloads) =
     (let scope = trimSpace (pl_Scope payload)
      in check (scope \<notin> allowed \<or> length (pl_Payload payload) = 0) (ErrInvalidScope pid scope)
          (check (scope \<in> set seen) (ErrDuplicateScope pid scope)
            (rbind (export_payloads allowed pid (scope # seen) payloads) (\<lambda>items.
              Inr (\<lparr>mi_Provider = pid, mi_Scope = scope, mi_Payload = pl_Payload payload\<rparr> # items)))))"

fun export_providers :: "AccountManagedDataCatalog \<Rightarrow> 's \<Rightarrow> ('s, 'e) AccountManagedDataProvider list
    \<Rightarrow> 'e managed_error + ManagedDataItem list" where
  "export_providers catalog st [] = Inr []"
| "export_providers catalog st (provider # providers) =
     (let pid = trimSpace (providerID provider)
      in case Export provider st catalog of
           Inl e \<Rightarrow> Inl (ErrExport pid e)
         | Inr payloads \<Rightarrow>
             (case Validate provider st catalog payloads of
                Inl e \<Rightarrow> Inl (ErrValidateExport pid e)
              | Inr _ \<Rightarrow>
                  rbind (export_payloads (accountManagedScopeSet catalog) pid [] payloads) (\<lambda>items.
                  rbind (export_providers catalog st providers) (\<lambda>rest. Inr (items @ rest)))))"

definition wrapBundle :: "account_error + 'a \<Rightarrow> 'e managed_error + 'a" where
  "wrapBundle m = (case m of Inl e \<Rightarrow> Inl (ErrBundle e) | Inr a \<Rightarrow> Inr a)"

definition exportAccountManagedData :: "crypto \<Rightarrow> ('s, 'e) providers \<Rightarrow> 's \<Rightarrow> AccountManagedDataCatalog \<Rightarrow> 64 word
    \<Rightarrow> 'e managed_error + (ManagedDataBundle \<times> string)" where
  "exportAccountManagedData C providers st catalog revision =
     (let revision = (if revision = 0 then 1 else revision)
      in rbind (export_providers catalog st (accountManagedDataProviders providers)) (\<lambda>items.
         rbind (wrapBundle (NormalizeManagedDataBundle \<lparr>mb_Version = 1, mb_Revision = revision, mb_Items = items\<rparr>)) (\<lambda>bundle.
         rbind (wrapBundle (accountManagedDataContentHash C (mb_Items bundle))) (\<lambda>hash.
           Inr (bundle, hash)))))"

section \<open>Import\<close>

definition payloads_of :: "ManagedDataItem list \<Rightarrow> string \<Rightarrow> AccountManagedDataPayload list" where
  "payloads_of items pid = map (\<lambda>item. \<lparr>pl_Scope = mi_Scope item, pl_Payload = mi_Payload item\<rparr>)
     (filter (\<lambda>item. mi_Provider item = pid) items)"

fun validate_all :: "AccountManagedDataCatalog \<Rightarrow> ManagedDataItem list \<Rightarrow> 's \<Rightarrow> ('s, 'e) AccountManagedDataProvider list
    \<Rightarrow> 'e managed_error option" where
  "validate_all catalog items st [] = None"
| "validate_all catalog items st (provider # providers) =
     (let pid = trimSpace (providerID provider)
      in case Validate provider st catalog (payloads_of items pid) of
           Inl e \<Rightarrow> Some (ErrValidateImport pid e)
         | Inr _ \<Rightarrow> validate_all catalog items st providers)"

fun import_all :: "AccountManagedDataCatalog \<Rightarrow> ManagedDataItem list \<Rightarrow> ('s, 'e) AccountManagedDataProvider list \<Rightarrow> 's
    \<Rightarrow> 'e managed_error option \<times> 's" where
  "import_all catalog items [] st = (None, st)"
| "import_all catalog items (provider # providers) st =
     (let pid = trimSpace (providerID provider)
      in case Import provider catalog (payloads_of items pid) st of
           (Some e, st) \<Rightarrow> (Some (ErrImport pid e), st)
         | (None, st) \<Rightarrow> import_all catalog items providers st)"

definition importAccountManagedData :: "('s, 'e) providers \<Rightarrow> AccountManagedDataCatalog \<Rightarrow> ManagedDataBundle \<Rightarrow> 's
    \<Rightarrow> 'e managed_error option \<times> 's" where
  "importAccountManagedData providers catalog bundle st =
     (case NormalizeManagedDataBundle bundle of
        Inl e \<Rightarrow> (Some (ErrBundle e), st)
      | Inr bundle \<Rightarrow>
          let items = mb_Items bundle; list = accountManagedDataProviders providers
          in case find (\<lambda>item. mi_Scope item \<notin> accountManagedScopeSet catalog) items of
               Some item \<Rightarrow> (Some (ErrUnknownScope (mi_Scope item)), st)
             | None \<Rightarrow>
                 if \<exists>item\<in>set items. mi_Provider item \<notin> (\<lambda>provider. trimSpace (providerID provider)) ` set list
                 then (Some ErrProviderUnavailable, st)
                 else (case validate_all catalog items st list of
                         Some e \<Rightarrow> (Some e, st)
                       | None \<Rightarrow> import_all catalog items list st))"

section \<open>Merge\<close>

definition accountManagedDataItemMap :: "ManagedDataBundle \<Rightarrow> string \<Rightarrow> ManagedDataItem option" where
  "accountManagedDataItemMap bundle =
     map_of (rev (map (\<lambda>item. (keyText item, item)) (mb_Items bundle)))"

definition managedDataItemEqual :: "ManagedDataItem option \<Rightarrow> ManagedDataItem option \<Rightarrow> bool" where
  "managedDataItemEqual left right =
     (case (left, right) of
        (None, None) \<Rightarrow> True
      | (Some l, Some r) \<Rightarrow> mi_Provider l = mi_Provider r \<and> mi_Scope l = mi_Scope r \<and> mi_Payload l = mi_Payload r
      | _ \<Rightarrow> False)"

definition merge_candidate :: "ManagedDataItem option \<Rightarrow> ManagedDataItem option \<Rightarrow> ManagedDataItem option
    \<Rightarrow> merge_error + ManagedDataItem option" where
  "merge_candidate baseItem remoteItem localItem =
     (if managedDataItemEqual localItem baseItem then Inr remoteItem
      else if managedDataItemEqual remoteItem baseItem then Inr localItem
      else if managedDataItemEqual localItem remoteItem then Inr localItem
      else Inl ErrWriteConflict)"

definition wrapMerged :: "account_error + 'a \<Rightarrow> merge_error + 'a" where
  "wrapMerged m = (case m of Inl e \<Rightarrow> Inl (ErrMergedBundle e) | Inr a \<Rightarrow> Inr a)"

text \<open>
  \<open>visit\<close> is the order in which \<open>range\<close> visits the keys of the three maps; the specification below does
  not depend on it.
\<close>

definition mergeAccountManagedDataBundles :: "(string list \<Rightarrow> string list) \<Rightarrow> ManagedDataBundle \<Rightarrow> ManagedDataBundle
    \<Rightarrow> ManagedDataBundle \<Rightarrow> AccountManagedDataCatalog \<Rightarrow> 64 word \<Rightarrow> merge_error + ManagedDataBundle" where
  "mergeAccountManagedDataBundles visit base remote local catalog revision =
     check (revision = 0) ErrRevisionRequired
      (let allowed = accountManagedScopeSet catalog; baseMap = accountManagedDataItemMap base;
           remoteMap = accountManagedDataItemMap remote; localMap = accountManagedDataItemMap local;
           keys = visit (remdups (map keyText
             (mb_Items base @ mb_Items remote @ mb_Items local)))
       in rbind (rmap (\<lambda>key. merge_candidate (baseMap key) (remoteMap key) (localMap key)) keys) (\<lambda>candidates.
          let items = filter (\<lambda>item. mi_Scope item \<in> allowed) (List.map_filter id candidates)
          in wrapMerged (NormalizeManagedDataBundle \<lparr>mb_Version = 1, mb_Revision = revision, mb_Items = items\<rparr>)))"

definition emptyAccountManagedDataBundle :: "64 word \<Rightarrow> ManagedDataBundle" where
  "emptyAccountManagedDataBundle revision = \<lparr>mb_Version = 1, mb_Revision = (if revision = 0 then 1 else revision), mb_Items = []\<rparr>"


section \<open>Normal bundles as maps\<close>

lemma trimItem_normal: "normal_item it \<Longrightarrow> trimItem it = it"
  by (cases it) (simp add: normal_item_def trimItem_def)

lemma normal_bundle_distinct:
  assumes "normal_bundle b"
  shows "distinct (map itemKey (mb_Items b))" "distinct (map keyText (mb_Items b))"
proof -
  show d: "distinct (map itemKey (mb_Items b))" using assms by (simp add: normal_bundle_def strict_sorted_iff)
  have "distinct (map keyText (mb_Items b)) = distinct (map itemKey (mb_Items b))"
    using assms keyText_inject by (intro distinct_map_inj_cong) (auto simp: normal_bundle_def)
  then show "distinct (map keyText (mb_Items b))" using d by simp
qed

lemma itemMap_iff:
  assumes "normal_bundle b"
  shows "accountManagedDataItemMap b k = Some it \<longleftrightarrow> it \<in> set (mb_Items b) \<and> keyText it = k"
proof -
  have "distinct (map fst (rev (map (\<lambda>item. (keyText item, item)) (mb_Items b))))"
    using normal_bundle_distinct(2) [OF assms] by (simp add: rev_map [symmetric] comp_def)
  then show ?thesis unfolding accountManagedDataItemMap_def by (subst map_of_eq_Some_iff) auto
qed

lemma normal_bundle_unique:
  assumes "normal_bundle b" "normal_bundle c" "mb_Revision b = mb_Revision c"
    and "accountManagedDataItemMap b = accountManagedDataItemMap c"
  shows "b = c"
proof -
  have "set (mb_Items b) = set (mb_Items c)" using itemMap_iff [OF assms(1)] itemMap_iff [OF assms(2)] assms(4) by auto
  moreover have d: "distinct (mb_Items b)" "distinct (mb_Items c)"
    using normal_bundle_distinct(1) assms(1,2) by (simp_all add: distinct_map)
  ultimately have m: "mset (mb_Items b) = mset (mb_Items c)" by (simp add: set_eq_iff_mset_eq_distinct)
  have "sort_key itemKey (mb_Items b) = mb_Items c"
    using m normal_bundle_distinct(1) [OF assms(1)] assms(2)
    by (intro sort_key_inj_key_eq) (simp_all add: distinct_map normal_bundle_def strict_sorted_iff)
  moreover have "sort_key itemKey (mb_Items b) = mb_Items b"
    using assms(1) by (intro sort_key_id_if_sorted) (simp add: normal_bundle_def strict_sorted_iff)
  ultimately show ?thesis using assms(1-3) by (simp add: normal_bundle_def)
qed

lemma Normalize_items:
  assumes "\<forall>it\<in>set items. normal_item it" "distinct (map keyText items)" "revision \<noteq> 0"
  shows "if length items \<le> managedDataMaxItems
    then \<exists>m. NormalizeManagedDataBundle \<lparr>mb_Version = 1, mb_Revision = revision, mb_Items = items\<rparr> = Inr m \<and> normal_bundle m
      \<and> mb_Revision m = revision \<and> (\<forall>k it. accountManagedDataItemMap m k = Some it \<longleftrightarrow> it \<in> set items \<and> keyText it = k)
    else NormalizeManagedDataBundle \<lparr>mb_Version = 1, mb_Revision = revision, mb_Items = items\<rparr> = Inl ErrInvalidBackup"
proof (cases "length items \<le> managedDataMaxItems")
  case True
  let ?m = "\<lparr>mb_Version = 1, mb_Revision = revision, mb_Items = sort_key itemKey items\<rparr>"
  have t: "map trimItem items = items" using assms(1) trimItem_normal by (intro map_idI) blast
  have "distinct (map keyText items) = distinct (map itemKey items)"
    using assms(1) keyText_inject by (intro distinct_map_inj_cong) blast
  then have n: "NormalizeManagedDataBundle \<lparr>mb_Version = 1, mb_Revision = revision, mb_Items = items\<rparr> = Inr ?m"
    using True assms t trimItem_normal unfolding NormalizeBundle_iff by simp
  then have "normal_bundle ?m" by (rule Normalize_normal)
  then show ?thesis using n True itemMap_iff [OF \<open>normal_bundle ?m\<close>] by simp
next
  case False
  then show ?thesis by (simp add: NormalizeManagedDataBundle_def)
qed

section \<open>What a merge is\<close>

definition merge_conflict :: "ManagedDataBundle \<Rightarrow> ManagedDataBundle \<Rightarrow> ManagedDataBundle \<Rightarrow> string \<Rightarrow> bool" where
  "merge_conflict base remote local k \<longleftrightarrow>
     accountManagedDataItemMap local k \<noteq> accountManagedDataItemMap base k
   \<and> accountManagedDataItemMap remote k \<noteq> accountManagedDataItemMap base k
   \<and> accountManagedDataItemMap local k \<noteq> accountManagedDataItemMap remote k"

definition merged_map :: "AccountManagedDataCatalog \<Rightarrow> ManagedDataBundle \<Rightarrow> ManagedDataBundle \<Rightarrow> ManagedDataBundle
    \<Rightarrow> string \<Rightarrow> ManagedDataItem option" where
  "merged_map catalog base remote local k =
     (let candidate = (if accountManagedDataItemMap local k = accountManagedDataItemMap base k
            then accountManagedDataItemMap remote k else accountManagedDataItemMap local k)
      in case candidate of
           None \<Rightarrow> None
         | Some it \<Rightarrow> if mi_Scope it \<in> accountManagedScopeSet catalog then Some it else None)"

lemma managedDataItemEqual_eq: "managedDataItemEqual a b \<longleftrightarrow> a = b"
  by (auto simp: managedDataItemEqual_def split: option.splits)

lemma merge_candidate_eq:
  "merge_candidate (accountManagedDataItemMap base k) (accountManagedDataItemMap remote k) (accountManagedDataItemMap local k)
    = (if merge_conflict base remote local k then Inl ErrWriteConflict
       else Inr (if accountManagedDataItemMap local k = accountManagedDataItemMap base k
         then accountManagedDataItemMap remote k else accountManagedDataItemMap local k))"
  by (auto simp: merge_candidate_def managedDataItemEqual_eq merge_conflict_def)

lemma rmap_error: "(\<exists>x\<in>set xs. f x = Inl e) \<Longrightarrow> (\<And>x d. x \<in> set xs \<Longrightarrow> f x = Inl d \<Longrightarrow> d = e) \<Longrightarrow> rmap f xs = Inl e"
proof (induction xs)
  case (Cons x xs)
  then show ?case
  proof (cases "f x")
    case (Inr y)
    then have "rmap f xs = Inl e" using Cons by auto
    then show ?thesis using Inr by simp
  qed auto
qed simp

lemma filter_map_filter:
  "filter P (List.map_filter id (map f ks))
   = List.map_filter (\<lambda>k. case f k of None \<Rightarrow> None | Some it \<Rightarrow> if P it then Some it else None) ks"
  by (induction ks) (auto simp: List.map_filter_simps split: option.splits)

lemma set_map_filter: "set (List.map_filter f xs) = {y. \<exists>x\<in>set xs. f x = Some y}"
  by (induction xs) (auto simp: List.map_filter_simps split: option.splits)

lemma map_filter_keys:
  assumes "\<And>k it. f k = Some it \<Longrightarrow> g it = k"
  shows "map g (List.map_filter f ks) = filter (\<lambda>k. k \<in> dom f) ks"
  using assms by (induction ks) (auto simp: List.map_filter_simps split: option.splits)

lemma merged_Some:
  assumes "normal_bundle remote" "normal_bundle local" "merged_map catalog base remote local k = Some it"
  shows "keyText it = k" "it \<in> set (mb_Items remote) \<union> set (mb_Items local)"
proof -
  have "accountManagedDataItemMap remote k = Some it \<or> accountManagedDataItemMap local k = Some it"
    using assms(3) by (auto simp: merged_map_def Let_def split: option.splits if_splits)
  then show "keyText it = k" "it \<in> set (mb_Items remote) \<union> set (mb_Items local)"
    using itemMap_iff [OF assms(1)] itemMap_iff [OF assms(2)] by auto
qed

lemma merge_spec:
  assumes n: "normal_bundle base" "normal_bundle remote" "normal_bundle local"
    and v: "\<And>ks. mset (visit ks) = mset ks" and r: "revision \<noteq> 0"
  shows "if \<exists>k. merge_conflict base remote local k
      then mergeAccountManagedDataBundles visit base remote local catalog revision = Inl ErrWriteConflict
    else if card (dom (merged_map catalog base remote local)) \<le> managedDataMaxItems
      then \<exists>m. mergeAccountManagedDataBundles visit base remote local catalog revision = Inr m \<and> normal_bundle m
        \<and> mb_Revision m = revision \<and> accountManagedDataItemMap m = merged_map catalog base remote local
    else mergeAccountManagedDataBundles visit base remote local catalog revision = Inl (ErrMergedBundle ErrInvalidBackup)"
proof -
  let ?M = "merged_map catalog base remote local" and ?all = "mb_Items base @ mb_Items remote @ mb_Items local"
  let ?c = "\<lambda>k. if accountManagedDataItemMap local k = accountManagedDataItemMap base k
         then accountManagedDataItemMap remote k else accountManagedDataItemMap local k"
  define ks where "ks = visit (remdups (map keyText ?all))"
  have ks: "distinct ks" "set ks = keyText ` set ?all"
    using mset_eq_imp_distinct_iff [OF v [of "remdups (map keyText ?all)"]] mset_eq_setD [OF v [of "remdups (map keyText ?all)"]]
    by (simp_all add: ks_def image_Un)
  have m: "mergeAccountManagedDataBundles visit base remote local catalog revision
      = rbind (rmap (\<lambda>k. if merge_conflict base remote local k then Inl ErrWriteConflict else Inr (?c k)) ks) (\<lambda>candidates.
          wrapMerged (NormalizeManagedDataBundle \<lparr>mb_Version = 1, mb_Revision = revision, mb_Items =
            filter (\<lambda>item. mi_Scope item \<in> accountManagedScopeSet catalog) (List.map_filter id candidates)\<rparr>))"
    using r unfolding mergeAccountManagedDataBundles_def ks_def Let_def by (simp add: merge_candidate_eq)
  have in_ks: "k \<in> set ks" if "accountManagedDataItemMap base k \<noteq> None \<or> accountManagedDataItemMap remote k \<noteq> None
      \<or> accountManagedDataItemMap local k \<noteq> None" for k
    using that itemMap_iff [OF n(1)] itemMap_iff [OF n(2)] itemMap_iff [OF n(3)] unfolding ks(2) by force
  show ?thesis
  proof (cases "\<exists>k. merge_conflict base remote local k")
    case True
    then obtain k where "merge_conflict base remote local k" ..
    moreover from this have "k \<in> set ks" by (intro in_ks) (auto simp: merge_conflict_def)
    ultimately have "rmap (\<lambda>k. if merge_conflict base remote local k then Inl ErrWriteConflict else Inr (?c k)) ks = Inl ErrWriteConflict"
      by (intro rmap_error) (auto split: if_splits)
    then show ?thesis using True unfolding m by simp
  next
    case False
    then have "rmap (\<lambda>k. if merge_conflict base remote local k then Inl ErrWriteConflict else Inr (?c k)) ks = Inr (map ?c ks)"
      by (simp add: rmap_Inr)
    moreover have M: "?M = (\<lambda>k. case ?c k of None \<Rightarrow> None
        | Some it \<Rightarrow> if mi_Scope it \<in> accountManagedScopeSet catalog then Some it else None)"
      by (simp only: fun_eq_iff merged_map_def Let_def simp_thms)
    ultimately have m': "mergeAccountManagedDataBundles visit base remote local catalog revision
      = wrapMerged (NormalizeManagedDataBundle \<lparr>mb_Version = 1, mb_Revision = revision, mb_Items = List.map_filter ?M ks\<rparr>)"
      unfolding m filter_map_filter [symmetric] by (simp only: rbind_Inr filter_map_filter M)
    have k: "map keyText (List.map_filter ?M ks) = filter (\<lambda>k. k \<in> dom ?M) ks"
      by (rule map_filter_keys) (rule merged_Some(1) [OF n(2,3)])
    have d: "dom ?M \<subseteq> set ks"
      using in_ks by (auto simp: merged_map_def Let_def split: option.splits if_splits)
    have "length (List.map_filter ?M ks) = length (filter (\<lambda>k. k \<in> dom ?M) ks)" unfolding k [symmetric] by simp
    also have "\<dots> = card (dom ?M)" using ks(1) d distinct_card [of "filter (\<lambda>k. k \<in> dom ?M) ks"] by (simp add: Int_absorb1 Int_def [symmetric] inf.absorb2 Collect_conj_eq)
    finally have l: "length (List.map_filter ?M ks) = card (dom ?M)" .
    have "\<forall>it\<in>set (List.map_filter ?M ks). normal_item it"
    proof
      fix it assume "it \<in> set (List.map_filter ?M ks)"
      then obtain k where "?M k = Some it" by (auto simp: set_map_filter)
      then show "normal_item it" using merged_Some(2) [OF n(2,3)] n(2,3) unfolding normal_bundle_def by blast
    qed
    moreover have "distinct (map keyText (List.map_filter ?M ks))" unfolding k using ks(1) by simp
    ultimately have N: "if length (List.map_filter ?M ks) \<le> managedDataMaxItems
      then \<exists>m. NormalizeManagedDataBundle \<lparr>mb_Version = 1, mb_Revision = revision, mb_Items = List.map_filter ?M ks\<rparr> = Inr m
        \<and> normal_bundle m \<and> mb_Revision m = revision
        \<and> (\<forall>k it. accountManagedDataItemMap m k = Some it \<longleftrightarrow> it \<in> set (List.map_filter ?M ks) \<and> keyText it = k)
      else NormalizeManagedDataBundle \<lparr>mb_Version = 1, mb_Revision = revision, mb_Items = List.map_filter ?M ks\<rparr> = Inl ErrInvalidBackup"
      by (intro Normalize_items r)
    have e: "accountManagedDataItemMap m = ?M"
      if "\<forall>k it. accountManagedDataItemMap m k = Some it \<longleftrightarrow> it \<in> set (List.map_filter ?M ks) \<and> keyText it = k" for m
    proof
      fix k
      have "accountManagedDataItemMap m k = Some it \<longleftrightarrow> ?M k = Some it" for it
        using that merged_Some(1) [OF n(2,3)] d by (auto simp: set_map_filter)
      then show "accountManagedDataItemMap m k = ?M k" by (metis not_None_eq)
    qed
    show ?thesis
    proof (cases "card (dom ?M) \<le> managedDataMaxItems")
      case True
      then obtain m where "NormalizeManagedDataBundle \<lparr>mb_Version = 1, mb_Revision = revision, mb_Items = List.map_filter ?M ks\<rparr> = Inr m"
        "normal_bundle m" "mb_Revision m = revision" "accountManagedDataItemMap m = ?M"
        using N e unfolding l by auto
      then show ?thesis using False True unfolding m' by (simp add: wrapMerged_def)
    next
      case big: False
      then show ?thesis using N False unfolding m' l by (simp add: wrapMerged_def)
    qed
  qed
qed


lemma conflict_commute: "merge_conflict base remote local k = merge_conflict base local remote k"
  by (auto simp: merge_conflict_def)

lemma merged_commute:
  assumes "\<forall>k. \<not> merge_conflict base remote local k"
  shows "merged_map catalog base remote local = merged_map catalog base local remote"
  using assms unfolding merge_conflict_def by (auto simp: merged_map_def fun_eq_iff)

lemma merge_commute:
  assumes n: "normal_bundle base" "normal_bundle remote" "normal_bundle local"
    and v: "\<And>ks. mset (visit ks) = mset ks" "\<And>ks. mset (visit' ks) = mset ks"
  shows "mergeAccountManagedDataBundles visit base remote local catalog revision
    = mergeAccountManagedDataBundles visit' base local remote catalog revision"
proof (cases "revision = 0 \<or> (\<exists>k. merge_conflict base remote local k)")
  case True
  then show ?thesis
    using merge_spec [OF n v(1), of revision catalog] merge_spec [OF n(1,3,2) v(2), of revision catalog]
      conflict_commute [of base remote local]
    by (cases "revision = 0") (simp_all add: mergeAccountManagedDataBundles_def)
next
  case False
  then have c: "merged_map catalog base local remote = merged_map catalog base remote local"
    using merged_commute [of base remote local catalog] by simp
  show ?thesis
  proof (cases "card (dom (merged_map catalog base remote local)) \<le> managedDataMaxItems")
    case True
    have nc: "\<not> (\<exists>k. merge_conflict base remote local k)" "\<not> (\<exists>k. merge_conflict base local remote k)" and r: "revision \<noteq> 0"
      using False conflict_commute [of base remote local] by auto
    obtain m where m: "mergeAccountManagedDataBundles visit base remote local catalog revision = Inr m" "normal_bundle m"
      "mb_Revision m = revision" "accountManagedDataItemMap m = merged_map catalog base remote local"
      using merge_spec [OF n v(1) r, of catalog, unfolded if_not_P [OF nc(1)] if_P [OF True]] by blast
    obtain m' where m': "mergeAccountManagedDataBundles visit' base local remote catalog revision = Inr m'" "normal_bundle m'"
      "mb_Revision m' = revision" "accountManagedDataItemMap m' = merged_map catalog base remote local"
      using merge_spec [OF n(1,3,2) v(2) r, of catalog, unfolded c if_not_P [OF nc(2)] if_P [OF True]] by blast
    show ?thesis using normal_bundle_unique [OF m(2) m'(2)] m m' by simp
  next
    case big: False
    then show ?thesis
      using merge_spec [OF n v(1), of revision catalog] merge_spec [OF n(1,3,2) v(2), of revision catalog]
        conflict_commute [of base remote local] False unfolding c by simp
  qed
qed

section \<open>Importing\<close>

lemma validate_all_None:
  "validate_all catalog items st providers = None \<longleftrightarrow>
     (\<forall>p\<in>set providers. is_ok (Validate p st catalog (payloads_of items (trimSpace (providerID p)))))"
  by (induction providers) (auto simp: Let_def is_ok_def split: sum.splits)

lemma import_gate:
  assumes "importAccountManagedData providers catalog bundle st = (e, st')" "st' \<noteq> st \<or> e = None"
  shows "\<exists>b. NormalizeManagedDataBundle bundle = Inr b
    \<and> (\<forall>item\<in>set (mb_Items b). mi_Scope item \<in> accountManagedScopeSet catalog
        \<and> (\<exists>p\<in>set (accountManagedDataProviders providers). trimSpace (providerID p) = mi_Provider item))
    \<and> (\<forall>p\<in>set (accountManagedDataProviders providers).
        is_ok (Validate p st catalog (payloads_of (mb_Items b) (trimSpace (providerID p)))))
    \<and> import_all catalog (mb_Items b) (accountManagedDataProviders providers) st = (e, st')"
proof -
  let ?ps = "accountManagedDataProviders providers"
  obtain b where b: "NormalizeManagedDataBundle bundle = Inr b"
    using assms by (cases "NormalizeManagedDataBundle bundle") (auto simp: importAccountManagedData_def)
  have s: "find (\<lambda>item. mi_Scope item \<notin> accountManagedScopeSet catalog) (mb_Items b) = None"
    using assms b by (cases "find (\<lambda>item. mi_Scope item \<notin> accountManagedScopeSet catalog) (mb_Items b)")
      (auto simp: importAccountManagedData_def)
  have p: "\<not> (\<exists>item\<in>set (mb_Items b). mi_Provider item \<notin> (\<lambda>provider. trimSpace (providerID provider)) ` set ?ps)"
  proof
    assume "\<exists>item\<in>set (mb_Items b). mi_Provider item \<notin> (\<lambda>provider. trimSpace (providerID provider)) ` set ?ps"
    then show False using assms b s by (auto simp: importAccountManagedData_def)
  qed
  have v: "validate_all catalog (mb_Items b) st ?ps = None"
    using assms b s p by (cases "validate_all catalog (mb_Items b) st ?ps") (auto simp: importAccountManagedData_def)
  have "import_all catalog (mb_Items b) ?ps st = (e, st')"
    using assms(1) b s p v by (simp add: importAccountManagedData_def)
  then show ?thesis using b s p v unfolding validate_all_None find_None_iff by fastforce
qed


section \<open>The properties\<close>

text \<open>
  C13: The merge is the three-way merge per provider and scope: it fails with the write conflict exactly
  when both devices changed an item differently; otherwise the result holds, for every key whose
  scope the catalog allows, the item of the device that changed it and the common item where none
  did, in normal form and with the new revision; it fails for size only above 4096 items.  It does
  not depend on the order in which the maps are visited, nor on which device is called remote.
\<close>

theorem merge_three_way:
  assumes "normal_bundle base" "normal_bundle remote" "normal_bundle local"
    and "\<forall>ks. mset (visit ks) = mset ks" "\<forall>ks. mset (visit' ks) = mset ks" "revision \<noteq> 0"
  shows "(if \<exists>k. merge_conflict base remote local k
      then mergeAccountManagedDataBundles visit base remote local catalog revision = Inl ErrWriteConflict
    else if card (dom (merged_map catalog base remote local)) \<le> managedDataMaxItems
      then \<exists>m. mergeAccountManagedDataBundles visit base remote local catalog revision = Inr m \<and> normal_bundle m
        \<and> mb_Revision m = revision \<and> accountManagedDataItemMap m = merged_map catalog base remote local
    else mergeAccountManagedDataBundles visit base remote local catalog revision = Inl (ErrMergedBundle ErrInvalidBackup))
    \<and> mergeAccountManagedDataBundles visit' base local remote catalog revision
      = mergeAccountManagedDataBundles visit base remote local catalog revision"
proof -
  have v: "mset (visit ks) = mset ks" "mset (visit' ks) = mset ks" for ks using assms(4,5) by blast+
  show ?thesis
    using merge_spec [OF assms(1-3) v(1) assms(6), of catalog] merge_commute [OF assms(1-3) v, of catalog revision] by simp
qed

text \<open>
  C37: An import changes nothing before everything is checked: if it succeeds, or leaves the state of
  the modules changed, then the bundle is well formed, every item has a scope of the catalog and
  a registered provider, every provider accepted its items, and the providers were then run in
  turn, each on exactly its own items.
\<close>

theorem import_checks_first:
  assumes "importAccountManagedData providers catalog bundle st = (e, st')" "st' \<noteq> st \<or> e = None"
  shows "\<exists>b. NormalizeManagedDataBundle bundle = Inr b
    \<and> (\<forall>item\<in>set (mb_Items b). mi_Scope item \<in> accountManagedScopeSet catalog
        \<and> (\<exists>p\<in>set (accountManagedDataProviders providers). trimSpace (providerID p) = mi_Provider item))
    \<and> (\<forall>p\<in>set (accountManagedDataProviders providers).
        is_ok (Validate p st catalog (payloads_of (mb_Items b) (trimSpace (providerID p)))))
    \<and> import_all catalog (mb_Items b) (accountManagedDataProviders providers) st = (e, st')"
  by (rule import_gate [OF assms])

section \<open>The guarantees at work\<close>

definition demo_item :: "string \<Rightarrow> ManagedDataItem" where
  "demo_item p = \<lparr>mi_Provider = p, mi_Scope = ''global'', mi_Payload = [1]\<rparr>"

definition demo_side :: "string \<Rightarrow> ManagedDataBundle" where
  "demo_side p = \<lparr>mb_Version = 1, mb_Revision = 2, mb_Items = [demo_item p]\<rparr>"

definition demo_catalog :: AccountManagedDataCatalog where
  "demo_catalog = \<lparr>cat_AccountID = ''a'', cat_Network = ''n'', cat_Scopes = []\<rparr>"

lemma demo_side_normal: "normal_bundle (demo_side ''rgb'')" "normal_bundle (demo_side ''runes'')" "normal_bundle (emptyAccountManagedDataBundle 1)"
proof -
  have "validManagedDataName ''rgb'' managedDataMaxProvider" "validManagedDataName ''runes'' managedDataMaxProvider"
    "validManagedDataName ''global'' managedDataMaxScope" "trimSpace ''rgb'' = ''rgb''" "trimSpace ''runes'' = ''runes''"
    "trimSpace ''global'' = ''global''"
    by code_simp+
  then show "normal_bundle (demo_side ''rgb'')" "normal_bundle (demo_side ''runes'')" "normal_bundle (emptyAccountManagedDataBundle 1)"
    by (simp_all add: normal_bundle_def demo_side_def demo_item_def normal_item_def managedDataMaxItems_def
        ManagedDataMaxPayload_def emptyAccountManagedDataBundle_def)
qed

theorem merge_three_way_witness:
  "\<exists>m. mergeAccountManagedDataBundles rev (emptyAccountManagedDataBundle 1) (demo_side ''rgb'') (demo_side ''runes'') demo_catalog 3 = Inr m
    \<and> accountManagedDataItemMap m (keyText (demo_item ''rgb'')) = Some (demo_item ''rgb'')
    \<and> accountManagedDataItemMap m (keyText (demo_item ''runes'')) = Some (demo_item ''runes'')"
proof -
  let ?b = "emptyAccountManagedDataBundle 1" and ?r = "demo_side ''rgb''" and ?l = "demo_side ''runes''"
  have maps: "accountManagedDataItemMap ?b = Map.empty" "accountManagedDataItemMap ?r = [keyText (demo_item ''rgb'') \<mapsto> demo_item ''rgb'']"
    "accountManagedDataItemMap ?l = [keyText (demo_item ''runes'') \<mapsto> demo_item ''runes'']"
    by (simp_all add: accountManagedDataItemMap_def emptyAccountManagedDataBundle_def demo_side_def)
  have ne: "keyText (demo_item ''rgb'') \<noteq> keyText (demo_item ''runes'')" by (simp add: keyText_def demo_item_def)
  have nc: "\<not> (\<exists>k. merge_conflict ?b ?r ?l k)" using ne by (auto simp: merge_conflict_def maps)
  have g: "mi_Scope (demo_item p) \<in> accountManagedScopeSet demo_catalog" for p
    by (simp add: demo_item_def accountManagedScopeSet_def AccountManagedDataGlobalScope_def)
  have m: "merged_map demo_catalog ?b ?r ?l = [keyText (demo_item ''rgb'') \<mapsto> demo_item ''rgb'', keyText (demo_item ''runes'') \<mapsto> demo_item ''runes'']"
    using ne by (auto simp: merged_map_def maps g fun_eq_iff)
  have "card (dom (merged_map demo_catalog ?b ?r ?l)) \<le> managedDataMaxItems"
    using ne by (simp add: m managedDataMaxItems_def)
  then show ?thesis
    using merge_three_way [OF demo_side_normal(3,1,2), of rev rev 3 demo_catalog] ne
    unfolding if_not_P [OF nc] by (auto simp: m)
qed

definition demo_provider :: "(nat, unit) AccountManagedDataProvider" where
  "demo_provider = \<lparr>providerID = ''rgb'', Export = (\<lambda>st catalog. Inr []), Validate = (\<lambda>st catalog payloads. Inr ()),
     Import = (\<lambda>catalog payloads st. (None, st + length payloads))\<rparr>"

theorem import_checks_first_witness:
  "importAccountManagedData [(''rgb'', demo_provider)] demo_catalog (demo_side ''rgb'') 0 = (None, 1)
    \<and> import_all demo_catalog [demo_item ''rgb''] [demo_provider] 0 = (None, 1)"
proof -
  have t: "trimSpace ''rgb'' = ''rgb''" by code_simp
  have n: "NormalizeManagedDataBundle (demo_side ''rgb'') = Inr (demo_side ''rgb'')"
    by (rule normal_bundle_fixed [OF demo_side_normal(1)])
  have i: "importAccountManagedData [(''rgb'', demo_provider)] demo_catalog (demo_side ''rgb'') 0 = (None, 1)"
    unfolding importAccountManagedData_def n
    by (simp add: demo_side_def demo_item_def demo_provider_def accountManagedDataProviders_def t
        accountManagedScopeSet_def AccountManagedDataGlobalScope_def payloads_of_def)
  have s: "mb_Items (demo_side ''rgb'') = [demo_item ''rgb'']"
    "accountManagedDataProviders [(''rgb'', demo_provider)] = [demo_provider]"
    by (simp_all add: demo_side_def accountManagedDataProviders_def)
  show ?thesis using import_checks_first [OF i disjI2 [OF refl], unfolded n s] i s(1) by (metis sum.inject(2))
qed

end
