(* ===== verification/AccountSync.thy ===== *)
theory AccountSync
  imports ManagedDataSync
begin

text \<open>
  \<open>sdk/wallet/account_management_state.go\<close>, \<open>account_management_profile.go\<close> and \<open>wallet_catalog.go\<close>: the
  inventory of wallets that several devices share.  This theory holds the queue of local changes and
  the pure function that builds the next shared state from the remote one and a snapshot of the
  device.
\<close>

section \<open>Mutations and profiles\<close>

definition accountMutationAddWallet :: string where "accountMutationAddWallet = ''add-wallet''"
definition accountMutationDeleteWallet :: string where "accountMutationDeleteWallet = ''delete-wallet''"
definition accountMutationEnsureAccount :: string where "accountMutationEnsureAccount = ''ensure-account''"
definition accountMutationWalletName :: string where "accountMutationWalletName = ''wallet-name''"
definition accountMutationMetadata :: string where "accountMutationMetadata = ''metadata''"

lemmas mutation_types = accountMutationAddWallet_def accountMutationDeleteWallet_def accountMutationEnsureAccount_def
  accountMutationWalletName_def accountMutationMetadata_def

record accountManagementMutation =
  mu_ID :: string
  mu_Type :: string
  mu_Fingerprint :: string
  mu_WalletID :: int
  mu_Account :: "32 word"
  mu_Name :: string
  mu_DID :: string

text \<open>The profile, but for the location of the indexer, which nothing here reads.\<close>

record accountManagementProfile =
  pf_Version :: "32 word"
  pf_RootFingerprint :: string
  pf_AccountID :: string
  pf_PackageID :: string
  pf_RecoveryMode :: RecoveryMode
  pf_StorageMode :: string
  pf_RecordTTL :: "64 word"
  pf_AutopayContract :: string
  pf_PublicLocator :: string
  pf_LastRehearsalAt :: int
  pf_SecretCipher :: "byte list"
  pf_SecretSalt :: "byte list"
  pf_DeviceID :: "byte list"
  pf_StateSeq :: "64 word"
  pf_StateHash :: string
  pf_StateEnvelope :: "byte list"
  pf_ManagedDataRevision :: "64 word"
  pf_ManagedDataHash :: string
  pf_ManagedDataEnvelope :: "byte list"
  pf_ManagedDataDirty :: bool
  pf_ManagedDataGeneration :: "64 word"
  pf_RecoveryConfigured :: bool
  pf_Pending :: "accountManagementMutation list"

record accountManagementSyncSnapshot =
  sn_Profile :: accountManagementProfile
  sn_Password :: string
  sn_Wallets :: "(string \<times> ManagedWallet) list"
  sn_Pending :: "accountManagementMutation list"

datatype sync_error =
    ErrWalletUnavailable string
  | ErrAccountUnavailable "32 word"
  | ErrUnsupportedMutation string
  | ErrRootDeleted
  | ErrProfileUnavailable
  | ErrProfileStore
  | ErrOnlyMnemonic
  | ErrWalletSecret
  | ErrWalletNotFound int
  | ErrNameRequired
  | ErrAccountDisabled "32 word"
  | ErrWalletStore
  | ErrLastWallet
  | ErrInvalidManagedWallet string
  | ErrWalletCollision
  | ErrRootUnavailable
  | ErrBatch

section \<open>The queue of local changes\<close>

text \<open>
  The scan runs from the newest entry to the oldest: \<open>coalesce\<close> works on the reversed queue.  It
  returns the queue with the entry replaced; \<open>None\<close> stands for the early return behind an entry that
  adds the wallet, and \<open>Some None\<close> for a scan without a match.
\<close>

definition same_metadata :: "accountManagementMutation \<Rightarrow> accountManagementMutation \<Rightarrow> bool" where
  "same_metadata mutation current \<longleftrightarrow>
     (mu_Type mutation = accountMutationWalletName \<and> mu_Type current = accountMutationWalletName)
   \<or> (mu_Account mutation = mu_Account current
       \<and> (mu_Type mutation = accountMutationEnsureAccount \<or> mu_Type mutation = accountMutationMetadata)
       \<and> (mu_Type current = accountMutationEnsureAccount \<or> mu_Type current = accountMutationMetadata))"

fun coalesce :: "accountManagementMutation \<Rightarrow> accountManagementMutation list \<Rightarrow> accountManagementMutation list option option" where
  "coalesce mutation [] = Some None"
| "coalesce mutation (current # older) =
     (if mu_Fingerprint current \<noteq> mu_Fingerprint mutation
      then map_option (map_option ((#) current)) (coalesce mutation older)
      else if mu_Type current = accountMutationAddWallet \<and> mu_Type mutation \<noteq> accountMutationDeleteWallet then None
      else if \<not> same_metadata mutation current then map_option (map_option ((#) current)) (coalesce mutation older)
      else Some (Some (mutation\<lparr>mu_ID := mu_ID current,
             mu_Type := if mu_Type current = accountMutationEnsureAccount then accountMutationEnsureAccount
                        else mu_Type mutation\<rparr> # older)))"

definition bumpGeneration :: "accountManagementProfile \<Rightarrow> accountManagementProfile" where
  "bumpGeneration profile =
     (let g = pf_ManagedDataGeneration profile + 1
      in profile\<lparr>pf_ManagedDataDirty := True, pf_ManagedDataGeneration := if g = 0 then 1 else g\<rparr>)"

text \<open>
  \<open>queueAccountMutationLocked\<close> returns the profile to keep in memory and an error; \<open>save\<close> is the write
  of the profile to the database, \<open>fresh\<close> the random id of a new entry.
\<close>

definition queueAccountMutationLocked :: "(accountManagementProfile \<Rightarrow> bool) \<Rightarrow> string \<Rightarrow> accountManagementMutation
    \<Rightarrow> accountManagementProfile option \<Rightarrow> sync_error option \<times> accountManagementProfile option" where
  "queueAccountMutationLocked save fresh mutation prof =
     (case prof of
        None \<Rightarrow> (None, None)
      | Some profile \<Rightarrow>
          let mutation = (if mu_ID mutation = '''' then mutation\<lparr>mu_ID := fresh\<rparr> else mutation)
          in case coalesce mutation (rev (pf_Pending profile)) of
               None \<Rightarrow> (None, Some profile)
             | Some found \<Rightarrow>
                 let pending = (case found of None \<Rightarrow> pf_Pending profile @ [mutation] | Some queue \<Rightarrow> rev queue);
                     profile = bumpGeneration (profile\<lparr>pf_Pending := pending\<rparr>)
                 in (if save profile then None else Some ErrProfileStore, Some profile))"

definition accountPendingFingerprints :: "accountManagementMutation list \<Rightarrow> string set" where
  "accountPendingFingerprints values = {fp \<in> mu_Fingerprint ` set values. fp \<noteq> ''''}"

definition accountPendingInventoryFingerprints :: "accountManagementMutation list \<Rightarrow> string set" where
  "accountPendingInventoryFingerprints values = mu_Fingerprint ` {m \<in> set values. mu_Fingerprint m \<noteq> ''''
     \<and> (mu_Type m = accountMutationAddWallet \<or> mu_Type m = accountMutationDeleteWallet)}"

definition pendingAfterCommittedSnapshot :: "accountManagementMutation list \<Rightarrow> accountManagementMutation list
    \<Rightarrow> accountManagementMutation list" where
  "pendingAfterCommittedSnapshot current committed =
     (let byID = map_of (rev (map (\<lambda>m. (mu_ID m, m)) committed))
      in filter (\<lambda>m. byID (mu_ID m) \<noteq> Some m) current)"

section \<open>Building the next shared state\<close>

definition findManagedWallet :: "ManagedWallet list \<Rightarrow> string \<Rightarrow> ManagedWallet option" where
  "findManagedWallet wallets fingerprint = find (\<lambda>w. mw_Fingerprint w = fingerprint) wallets"

definition managedWalletContentMatches :: "ManagedWallet \<Rightarrow> ManagedWallet option \<Rightarrow> bool" where
  "managedWalletContentMatches left right =
     (case right of
        None \<Rightarrow> False
      | Some right \<Rightarrow>
          mw_Deleted left = mw_Deleted right \<and> mw_Fingerprint left = mw_Fingerprint right
        \<and> (mw_Deleted left
           \<or> trimSpace (mw_Name left) = trimSpace (mw_Name right) \<and> mw_Mnemonic left = mw_Mnemonic right
             \<and> mw_AccountCount left = mw_AccountCount right
             \<and> list_all2 (\<lambda>l r. sa_Index l = sa_Index r \<and> trimSpace (sa_Name l) = trimSpace (sa_Name r)
                   \<and> trimSpace (sa_DID l) = trimSpace (sa_DID r)) (mw_SubAccounts left) (mw_SubAccounts right)))"

text \<open>The wallets as the remote state leaves them on the device.\<close>

fun apply_remote :: "string \<Rightarrow> string set \<Rightarrow> ManagedWallet list \<Rightarrow> (string \<rightharpoonup> ManagedWallet) \<Rightarrow> (string \<rightharpoonup> ManagedWallet)" where
  "apply_remote root inventory [] effective = effective"
| "apply_remote root inventory (w # ws) effective =
     apply_remote root inventory ws
       (if mw_Fingerprint w \<in> inventory then effective
        else if mw_Deleted w
        then (if mw_Fingerprint w \<noteq> root then effective(mw_Fingerprint w := None) else effective)
        else effective(mw_Fingerprint w \<mapsto> w))"

definition merge_subaccounts :: "32 word \<Rightarrow> ManagedWallet \<Rightarrow> ManagedWallet \<Rightarrow> ManagedWallet" where
  "merge_subaccounts account local merged =
     (let count = (if mw_AccountCount merged \<le> account then account + 1 else mw_AccountCount merged);
          byIndex = map_of (rev (map (\<lambda>s. (sa_Index s, s)) (mw_SubAccounts merged)));
          byIndex = (case find (\<lambda>s. sa_Index s = account) (mw_SubAccounts local) of
                       None \<Rightarrow> byIndex | Some s \<Rightarrow> byIndex(account \<mapsto> s))
      in merged\<lparr>mw_AccountCount := count, mw_SubAccounts := map (\<lambda>i. case byIndex (of_nat i) of
             None \<Rightarrow> \<lparr>sa_Index = of_nat i, sa_Name = defaultAccountName (of_nat i), sa_DID = ''''\<rparr> | Some s \<Rightarrow> s)
           [0..<unat count]\<rparr>)"

definition replay :: "(string \<rightharpoonup> ManagedWallet) \<Rightarrow> string set \<Rightarrow> accountManagementMutation \<Rightarrow> (string \<rightharpoonup> ManagedWallet)
    \<Rightarrow> sync_error + (string \<rightharpoonup> ManagedWallet)" where
  "replay wallets deleteRequested m effective =
     (let fp = mu_Fingerprint m
      in if fp = '''' \<or> mu_Type m = accountMutationDeleteWallet \<or> fp \<in> deleteRequested then Inr effective
         else case wallets fp of
           None \<Rightarrow> Inl (ErrWalletUnavailable fp)
         | Some local \<Rightarrow>
             if mu_Type m = accountMutationAddWallet then Inr (effective(fp \<mapsto> local))
             else if mu_Type m = accountMutationWalletName
             then (case effective fp of
                     None \<Rightarrow> Inl (ErrWalletUnavailable fp)
                   | Some merged \<Rightarrow> Inr (effective(fp \<mapsto> merged\<lparr>mw_Name := mw_Name local\<rparr>)))
             else if mu_Type m = accountMutationEnsureAccount \<or> mu_Type m = accountMutationMetadata
             then (case effective fp of
                     None \<Rightarrow> Inl (ErrWalletUnavailable fp)
                   | Some merged \<Rightarrow>
                       check (mu_Account m \<ge> mw_AccountCount local) (ErrAccountUnavailable (mu_Account m))
                        (Inr (effective(fp \<mapsto> merge_subaccounts (mu_Account m) local merged))))
             else Inl (ErrUnsupportedMutation (mu_Type m)))"

text \<open>\<open>*item = wallet\<close> where \<open>item\<close> is the first entry with the fingerprint, or an append.\<close>

fun put_wallet :: "string \<Rightarrow> ManagedWallet \<Rightarrow> ManagedWallet list \<Rightarrow> ManagedWallet list" where
  "put_wallet fp w [] = [w]"
| "put_wallet fp w (x # xs) = (if mw_Fingerprint x = fp then w # xs else x # put_wallet fp w xs)"

definition tombstone :: "string \<Rightarrow> 64 word \<Rightarrow> ManagedWallet" where
  "tombstone fp revision = \<lparr>mw_Fingerprint = fp, mw_Revision = revision, mw_Deleted = True, mw_Name = '''',
     mw_Mnemonic = '''', mw_AccountCount = 0, mw_SubAccounts = []\<rparr>"

definition update_target :: "string \<Rightarrow> string set \<Rightarrow> (string \<rightharpoonup> ManagedWallet) \<Rightarrow> 64 word \<Rightarrow> string \<Rightarrow> ManagedWallet list
    \<Rightarrow> sync_error + ManagedWallet list" where
  "update_target root deleteRequested effective revision fp wallets =
     (if fp \<in> deleteRequested
      then check (fp = root) ErrRootDeleted (Inr (put_wallet fp (tombstone fp revision) wallets))
      else case effective fp of
        None \<Rightarrow> Inl (ErrWalletUnavailable fp)
      | Some w \<Rightarrow> Inr (put_wallet fp (w\<lparr>mw_Revision := revision, mw_Deleted := False\<rparr>) wallets))"

text \<open>\<open>visit\<close> is the order in which \<open>range\<close> visits the set of changed fingerprints.\<close>

definition buildAccountManagedStateTarget :: "(string list \<Rightarrow> string list) \<Rightarrow> ManagedState \<Rightarrow> accountManagementSyncSnapshot
    \<Rightarrow> sync_error + (ManagedState \<times> bool)" where
  "buildAccountManagedStateTarget visit remote snapshot =
     (let pending = sn_Pending snapshot; root = pf_RootFingerprint (sn_Profile snapshot);
          wallets = map_of (sn_Wallets snapshot); keys = remdups (map fst (sn_Wallets snapshot)
            @ map mw_Fingerprint (ms_Wallets remote) @ map mu_Fingerprint pending);
          effective = apply_remote root (accountPendingInventoryFingerprints pending) (ms_Wallets remote) wallets;
          deleteRequested = mu_Fingerprint ` {m \<in> set pending. mu_Fingerprint m \<noteq> '''' \<and> mu_Type m = accountMutationDeleteWallet}
      in rbind (rfold (replay wallets deleteRequested) pending effective) (\<lambda>effective.
         let changed = filter (\<lambda>fp. fp \<in> accountPendingFingerprints pending
               \<or> (case effective fp of None \<Rightarrow> False
                   | Some w \<Rightarrow> \<not> managedWalletContentMatches w (findManagedWallet (ms_Wallets remote) fp))) keys
         in if changed = [] then Inr (remote, False)
            else let revision = ms_Revision remote + 1
                 in rbind (rfold (update_target root deleteRequested effective revision) (visit changed) (ms_Wallets remote))
                     (\<lambda>wallets. Inr (remote\<lparr>ms_Revision := revision, ms_Wallets := wallets\<rparr>, True))))"

end
