(* ===== verification/WalletCatalog.thy ===== *)
theory WalletCatalog
  imports AccountSync "HOL-Library.AList"
begin

text \<open>
  \<open>sdk/wallet/wallet_catalog.go\<close>: the wallets of one device, their names and sub-accounts, and the
  operations by which the user changes them.  Every change is saved and then queued for the other
  devices (\<open>queueAccountMutationLocked\<close>).  A wallet object (\<open>common.Wallet\<close>) is of the type \<open>'w\<close>.
\<close>

section \<open>Wallets of a device\<close>

text \<open>
  What the code uses of a wallet object and of the package \<open>snacl\<close>: the compressed node key, the id,
  the object for a mnemonic, and opening and sealing a secret under a password (the first argument of
  \<open>sealSecret\<close> is its random salt).
\<close>

record 'w walletlib =
  GetNodePubKey :: "'w \<Rightarrow> byte list option"
  GetId :: "'w \<Rightarrow> int"
  fromMnemonic :: "string \<Rightarrow> 'w option"
  openSecret :: "byte list \<Rightarrow> string \<Rightarrow> byte list \<Rightarrow> string option"
  sealSecret :: "byte list \<Rightarrow> string \<Rightarrow> string \<Rightarrow> (byte list \<times> byte list) option"

text \<open>The two maps are nil (\<open>None\<close>) or hold an entry for the accounts that have one.\<close>

record 'w WalletInfo =
  wi_Id :: int
  wi_Mnemonic :: "byte list"
  wi_Salt :: "byte list"
  wi_Accounts :: int
  wi_Type :: int
  wi_Name :: string
  wi_AccountNames :: "(32 word \<rightharpoonup> string) option"
  wi_AccountDIDs :: "(32 word \<rightharpoonup> string) option"
  wi_Wallet :: "'w option"

definition WALLET_TYPE_MNEMONIC :: int where "WALLET_TYPE_MNEMONIC = 0"

text \<open>The part of the manager that these operations use; \<open>dv_infos\<close> is \<open>walletInfoMap\<close>.\<close>

record 'w Device =
  dv_infos :: "(int \<times> 'w WalletInfo) list"
  dv_TotalWallet :: int
  dv_CurrentWallet :: int
  dv_CurrentAccount :: "32 word"
  dv_profile :: "accountManagementProfile option"
  dv_secret :: "byte list"
  dv_password :: string
  dv_wallet :: "'w option"
  dv_sub :: "32 word"

text \<open>Reading a missing key of a map of strings, or a nil map, yields the empty string.\<close>

definition goGet :: "('k \<rightharpoonup> string) option \<Rightarrow> 'k \<Rightarrow> string" where
  "goGet m k = (case m of None \<Rightarrow> '''' | Some m \<Rightarrow> (case m k of None \<Rightarrow> '''' | Some v \<Rightarrow> v))"

definition defaultWalletName :: "nat \<Rightarrow> string" where
  "defaultWalletName position = ''Wallet '' @ decimal (position + 1)"

definition accounts32 :: "'w WalletInfo \<Rightarrow> nat" where
  "accounts32 info = unat (of_int (wi_Accounts info) :: 32 word)"

fun name_loop :: "32 word list \<Rightarrow> (32 word \<rightharpoonup> string) \<Rightarrow> bool \<times> (32 word \<rightharpoonup> string)" where
  "name_loop [] names = (False, names)"
| "name_loop (i # is) names =
     (if trimSpace (goGet (Some names) i) = ''''
      then (True, snd (name_loop is (names(i \<mapsto> defaultAccountName i))))
      else name_loop is names)"

definition normalizeWalletInfoMetadata :: "nat \<Rightarrow> 'w WalletInfo \<Rightarrow> bool \<times> 'w WalletInfo" where
  "normalizeWalletInfoMetadata position info =
     (let c1 = wi_Accounts info < 1; info = (if c1 then info\<lparr>wi_Accounts := 1\<rparr> else info);
          c2 = trimSpace (wi_Name info) = ''''; info = (if c2 then info\<lparr>wi_Name := defaultWalletName position\<rparr> else info);
          c3 = wi_AccountNames info = None; names = (case wi_AccountNames info of None \<Rightarrow> Map.empty | Some m \<Rightarrow> m);
          c4 = wi_AccountDIDs info = None; dids = (case wi_AccountDIDs info of None \<Rightarrow> Map.empty | Some m \<Rightarrow> m);
          (c5, names) = name_loop (map of_nat [0..<accounts32 info]) names
      in (c1 \<or> c2 \<or> c3 \<or> c4 \<or> c5, info\<lparr>wi_AccountNames := Some names, wi_AccountDIDs := Some dids\<rparr>))"

definition walletFingerprint :: "crypto \<Rightarrow> 'w walletlib \<Rightarrow> 'w option \<Rightarrow> string" where
  "walletFingerprint C L w =
     (case w of None \<Rightarrow> ''''
      | Some w \<Rightarrow> (case GetNodePubKey L w of None \<Rightarrow> '''' | Some key \<Rightarrow> hexEncode (sha256 C key)))"

definition infoFingerprint :: "crypto \<Rightarrow> 'w walletlib \<Rightarrow> 'w WalletInfo \<Rightarrow> string" where
  "infoFingerprint C L info = walletFingerprint C L (wi_Wallet info)"

text \<open>The wallets by id, later ones with a fingerprint that was already there left out.\<close>

fun skip_seen :: "crypto \<Rightarrow> 'w walletlib \<Rightarrow> string list \<Rightarrow> 'w WalletInfo list \<Rightarrow> 'w WalletInfo list" where
  "skip_seen C L seen [] = []"
| "skip_seen C L seen (info # infos) =
     (let fp = infoFingerprint C L info
      in if fp \<noteq> '''' then (if fp \<in> set seen then skip_seen C L seen infos else info # skip_seen C L (fp # seen) infos)
         else info # skip_seen C L seen infos)"

definition canonicalWalletInfosLocked :: "crypto \<Rightarrow> 'w walletlib \<Rightarrow> 'w Device \<Rightarrow> 'w WalletInfo list" where
  "canonicalWalletInfosLocked C L dev = skip_seen C L [] (map snd (sort_key fst (dv_infos dev)))"

definition firstWalletLocked :: "'w Device \<Rightarrow> 'w WalletInfo option" where
  "firstWalletLocked dev = (case sort_key fst (dv_infos dev) of [] \<Rightarrow> None | (i, info) # _ \<Rightarrow> Some info)"

definition isAccountManagementRootLocked :: "crypto \<Rightarrow> 'w walletlib \<Rightarrow> 'w Device \<Rightarrow> 'w WalletInfo \<Rightarrow> bool" where
  "isAccountManagementRootLocked C L dev info \<longleftrightarrow>
     (case dv_profile dev of None \<Rightarrow> False
      | Some profile \<Rightarrow> wi_Wallet info \<noteq> None \<and> infoFingerprint C L info = pf_RootFingerprint profile)"

section \<open>The operations\<close>

text \<open>
  \<open>wsave\<close>, \<open>psave\<close>, \<open>wdelete\<close> and \<open>ssave\<close> tell which writes of a wallet, the profile, a deletion and the
  status succeed.
\<close>

definition enqueue :: "(accountManagementProfile \<Rightarrow> bool) \<Rightarrow> string \<Rightarrow> accountManagementMutation \<Rightarrow> 'w Device
    \<Rightarrow> sync_error option \<times> 'w Device" where
  "enqueue psave fresh mutation dev =
     (case queueAccountMutationLocked psave fresh mutation (dv_profile dev) of (e, profile) \<Rightarrow> (e, dev\<lparr>dv_profile := profile\<rparr>))"

definition put_info :: "int \<Rightarrow> 'w WalletInfo \<Rightarrow> 'w Device \<Rightarrow> 'w Device" where
  "put_info i info dev = dev\<lparr>dv_infos := AList.update i info (dv_infos dev)\<rparr>"

definition UpdateWalletName :: "crypto \<Rightarrow> 'w walletlib \<Rightarrow> ('w WalletInfo \<Rightarrow> bool) \<Rightarrow> (accountManagementProfile \<Rightarrow> bool) \<Rightarrow> string
    \<Rightarrow> int \<Rightarrow> string \<Rightarrow> 'w Device \<Rightarrow> sync_error option \<times> 'w Device" where
  "UpdateWalletName C L wsave psave fresh i name dev =
     (let name = trimSpace name
      in if name = '''' then (Some ErrNameRequired, dev)
         else case map_of (dv_infos dev) i of
           None \<Rightarrow> (Some (ErrWalletNotFound i), dev)
         | Some info \<Rightarrow>
             if trimSpace (wi_Name info) = name then (None, dev)
             else let info = info\<lparr>wi_Name := name\<rparr>; dev = put_info i info dev
                  in if \<not> wsave info then (Some ErrWalletStore, dev)
                     else enqueue psave fresh \<lparr>mu_ID = '''', mu_Type = accountMutationWalletName,
                            mu_Fingerprint = infoFingerprint C L info, mu_WalletID = i, mu_Account = 0, mu_Name = name, mu_DID = ''''\<rparr> dev)"

text \<open>The common part of \<open>EnsureAccount\<close> and \<open>UpdateAccountMetadata\<close>, from the trimmed name on.\<close>

definition set_account :: "crypto \<Rightarrow> 'w walletlib \<Rightarrow> ('w WalletInfo \<Rightarrow> bool) \<Rightarrow> (accountManagementProfile \<Rightarrow> bool) \<Rightarrow> string
    \<Rightarrow> string \<Rightarrow> bool \<Rightarrow> int \<Rightarrow> 'w WalletInfo \<Rightarrow> 32 word \<Rightarrow> string \<Rightarrow> string \<Rightarrow> 'w Device \<Rightarrow> sync_error option \<times> 'w Device" where
  "set_account C L wsave psave fresh kind changed i info index name did dev =
     (let name = trimSpace name; name = (if name = '''' then defaultAccountName index else name); did = trimSpace did;
          differs = goGet (wi_AccountNames info) index \<noteq> name \<or> goGet (wi_AccountDIDs info) index \<noteq> did;
          info = (if differs then info\<lparr>wi_AccountNames := map_option (\<lambda>m. m(index \<mapsto> name)) (wi_AccountNames info),
                    wi_AccountDIDs := map_option (\<lambda>m. m(index \<mapsto> did)) (wi_AccountDIDs info)\<rparr> else info);
          dev = put_info i info dev
      in if \<not> (changed \<or> differs) then (None, dev)
         else if \<not> wsave info then (Some ErrWalletStore, dev)
         else enqueue psave fresh \<lparr>mu_ID = '''', mu_Type = kind, mu_Fingerprint = infoFingerprint C L info,
                mu_WalletID = i, mu_Account = index, mu_Name = name, mu_DID = did\<rparr> dev)"

definition EnsureAccount :: "crypto \<Rightarrow> 'w walletlib \<Rightarrow> ('w WalletInfo \<Rightarrow> bool) \<Rightarrow> (accountManagementProfile \<Rightarrow> bool) \<Rightarrow> string
    \<Rightarrow> int \<Rightarrow> 32 word \<Rightarrow> string \<Rightarrow> string \<Rightarrow> 'w Device \<Rightarrow> sync_error option \<times> 'w Device" where
  "EnsureAccount C L wsave psave fresh i index name did dev =
     (case map_of (dv_infos dev) i of
        None \<Rightarrow> (Some (ErrWalletNotFound i), dev)
      | Some info \<Rightarrow>
          let (c1, info) = normalizeWalletInfoMetadata 0 info; c2 = wi_Accounts info \<le> uint index;
              info = (if c2 then info\<lparr>wi_Accounts := uint index + 1\<rparr> else info)
          in set_account C L wsave psave fresh accountMutationEnsureAccount (c1 \<or> c2) i info index name did dev)"

definition UpdateAccountMetadata :: "crypto \<Rightarrow> 'w walletlib \<Rightarrow> ('w WalletInfo \<Rightarrow> bool) \<Rightarrow> (accountManagementProfile \<Rightarrow> bool) \<Rightarrow> string
    \<Rightarrow> int \<Rightarrow> 32 word \<Rightarrow> string \<Rightarrow> string \<Rightarrow> 'w Device \<Rightarrow> sync_error option \<times> 'w Device" where
  "UpdateAccountMetadata C L wsave psave fresh i index name did dev =
     (case map_of (dv_infos dev) i of
        None \<Rightarrow> (Some (ErrWalletNotFound i), dev)
      | Some info \<Rightarrow>
          if uint index \<ge> wi_Accounts info then (Some (ErrAccountDisabled index), dev)
          else let (c1, info) = normalizeWalletInfoMetadata 0 info
               in set_account C L wsave psave fresh accountMutationMetadata c1 i info index name did dev)"

definition DeleteWallet :: "crypto \<Rightarrow> 'w walletlib \<Rightarrow> (int \<Rightarrow> bool) \<Rightarrow> (accountManagementProfile \<Rightarrow> bool) \<Rightarrow> ('w Device \<Rightarrow> bool) \<Rightarrow> string
    \<Rightarrow> int \<Rightarrow> 'w Device \<Rightarrow> sync_error option \<times> 'w Device" where
  "DeleteWallet C L wdelete psave ssave fresh i dev =
     (if length (dv_infos dev) \<le> 1 then (Some ErrLastWallet, dev)
      else case map_of (dv_infos dev) i of
        None \<Rightarrow> (Some (ErrWalletNotFound i), dev)
      | Some info \<Rightarrow>
          if isAccountManagementRootLocked C L dev info then (Some ErrRootDeleted, dev)
          else let pendingBefore = (case dv_profile dev of None \<Rightarrow> 0 | Some profile \<Rightarrow> length (pf_Pending profile))
               in case enqueue psave fresh \<lparr>mu_ID = '''', mu_Type = accountMutationDeleteWallet,
                         mu_Fingerprint = infoFingerprint C L info, mu_WalletID = i, mu_Account = 0, mu_Name = '''', mu_DID = ''''\<rparr> dev of
                    (Some e, dev) \<Rightarrow> (Some e, dev)
                  | (None, dev) \<Rightarrow>
                      if \<not> wdelete i
                      then (Some ErrWalletStore, dev\<lparr>dv_profile := map_option (\<lambda>p. if length (pf_Pending p) > pendingBefore
                              then p\<lparr>pf_Pending := take pendingBefore (pf_Pending p)\<rparr> else p) (dv_profile dev)\<rparr>)
                      else let dev = dev\<lparr>dv_infos := AList.delete i (dv_infos dev)\<rparr>
                           in if dv_CurrentWallet dev \<noteq> i then (None, dev)
                              else case firstWalletLocked dev of
                                None \<Rightarrow> (Some ErrRootUnavailable, dev)
                              | Some next_info \<Rightarrow>
                                  if wi_Wallet next_info = None then (Some ErrRootUnavailable, dev)
                                  else let dev = dev\<lparr>dv_wallet := wi_Wallet next_info, dv_sub := 0,
                                             dv_CurrentWallet := wi_Id next_info, dv_CurrentAccount := 0\<rparr>
                                       in (if ssave dev then None else Some ErrWalletStore, dev))"

section \<open>A snapshot for the synchronisation\<close>

definition managedWalletFromInfoLocked :: "crypto \<Rightarrow> 'w walletlib \<Rightarrow> 'w WalletInfo \<Rightarrow> string \<Rightarrow> 64 word \<Rightarrow> sync_error + ManagedWallet" where
  "managedWalletFromInfoLocked C L info password revision =
     check (wi_Wallet info = None \<or> wi_Type info \<noteq> WALLET_TYPE_MNEMONIC) ErrOnlyMnemonic
      (case openSecret L (wi_Salt info) password (wi_Mnemonic info) of
         None \<Rightarrow> Inl ErrWalletSecret
       | Some mnemonic \<Rightarrow>
           Inr \<lparr>mw_Fingerprint = infoFingerprint C L info, mw_Revision = revision, mw_Deleted = False, mw_Name = wi_Name info,
                mw_Mnemonic = mnemonic, mw_AccountCount = of_int (wi_Accounts info),
                mw_SubAccounts = map (\<lambda>i. \<lparr>sa_Index = of_nat i, sa_Name = goGet (wi_AccountNames info) (of_nat i),
                    sa_DID = goGet (wi_AccountDIDs info) (of_nat i)\<rparr>) [0..<accounts32 info]\<rparr>)"

text \<open>The list of wallets is reversed: a later entry of the map replaces an earlier one.\<close>

definition captureAccountManagementSyncSnapshotLocked :: "crypto \<Rightarrow> 'w walletlib \<Rightarrow> 'w Device
    \<Rightarrow> sync_error + accountManagementSyncSnapshot option" where
  "captureAccountManagementSyncSnapshotLocked C L dev =
     (case dv_profile dev of
        None \<Rightarrow> Inr None
      | Some profile \<Rightarrow>
          if length (dv_secret dev) \<noteq> 32 \<or> dv_password dev = '''' then Inr None
          else rbind (rmap (\<lambda>info. managedWalletFromInfoLocked C L info (dv_password dev) 1) (canonicalWalletInfosLocked C L dev)) (\<lambda>wallets.
             Inr (Some \<lparr>sn_Profile = profile, sn_Password = dv_password dev,
                        sn_Wallets = rev (map (\<lambda>w. (mw_Fingerprint w, w)) wallets), sn_Pending = pf_Pending profile\<rparr>)))"

end
