(* ===== verification/AccountSyncTarget.thy ===== *)
theory AccountSyncTarget
  imports AccountSync
begin

text \<open>
  What the next shared state is, wallet by wallet: the facts about
  \<open>buildAccountManagedStateTarget\<close> on which the properties rest.
\<close>

section \<open>Lists of wallets\<close>

lemma find_put:
  "mw_Fingerprint w = fp \<Longrightarrow> findManagedWallet (put_wallet fp w ws) f = (if f = fp then Some w else findManagedWallet ws f)"
  by (induction ws) (auto simp: findManagedWallet_def)

lemma put_fingerprints:
  assumes "mw_Fingerprint w = fp" "distinct (map mw_Fingerprint ws)"
  shows "set (map mw_Fingerprint (put_wallet fp w ws)) = insert fp (set (map mw_Fingerprint ws))"
    and "distinct (map mw_Fingerprint (put_wallet fp w ws))"
proof -
  have *: "set (map mw_Fingerprint (put_wallet fp w ws)) = insert fp (set (map mw_Fingerprint ws))
      \<and> distinct (map mw_Fingerprint (put_wallet fp w ws))"
    using assms(2)
  proof (induction ws)
    case (Cons x xs)
    then show ?case using assms(1) by (cases "mw_Fingerprint x = fp") auto
  qed (simp add: assms(1))
  then show "set (map mw_Fingerprint (put_wallet fp w ws)) = insert fp (set (map mw_Fingerprint ws))"
    "distinct (map mw_Fingerprint (put_wallet fp w ws))" by blast+
qed

lemma find_None: "findManagedWallet ws f = None \<longleftrightarrow> f \<notin> set (map mw_Fingerprint ws)"
  by (auto simp: findManagedWallet_def find_None_iff)

lemma find_Some: "findManagedWallet ws f = Some w \<Longrightarrow> w \<in> set ws \<and> mw_Fingerprint w = f"
  by (auto simp: findManagedWallet_def find_Some_iff)

text \<open>A map of wallets in which every wallet stands under its own fingerprint.\<close>

definition keyed :: "(string \<rightharpoonup> ManagedWallet) \<Rightarrow> bool" where
  "keyed m \<longleftrightarrow> (\<forall>f w. m f = Some w \<longrightarrow> mw_Fingerprint w = f)"

lemma keyed_upd: "keyed m \<Longrightarrow> mw_Fingerprint w = f \<Longrightarrow> keyed (m(f \<mapsto> w))"
  by (simp add: keyed_def)

section \<open>The remote state on the device\<close>

lemma apply_remote_other: "f \<notin> set (map mw_Fingerprint ws) \<Longrightarrow> apply_remote root inventory ws m f = m f"
  by (induction ws arbitrary: m) auto

lemma apply_remote_eq:
  assumes "distinct (map mw_Fingerprint ws)"
  shows "apply_remote root inventory ws m f =
    (case findManagedWallet ws f of
       None \<Rightarrow> m f
     | Some w \<Rightarrow> if f \<in> inventory then m f
         else if mw_Deleted w then (if f \<noteq> root then None else m f) else Some w)"
  using assms
proof (induction ws arbitrary: m)
  case (Cons w ws)
  show ?case
  proof (cases "mw_Fingerprint w = f")
    case True
    then have "f \<notin> set (map mw_Fingerprint ws)" using Cons.prems by auto
    then show ?thesis using True by (simp add: apply_remote_other findManagedWallet_def)
  next
    case False
    define m' where "m' = (if mw_Fingerprint w \<in> inventory then m
        else if mw_Deleted w then (if mw_Fingerprint w \<noteq> root then m(mw_Fingerprint w := None) else m)
        else m(mw_Fingerprint w \<mapsto> w))"
    have "m' f = m f" using False by (simp add: m'_def)
    moreover have "apply_remote root inventory (w # ws) m = apply_remote root inventory ws m'" by (simp add: m'_def)
    moreover have "findManagedWallet (w # ws) f = findManagedWallet ws f" using False by (simp add: findManagedWallet_def)
    moreover have "apply_remote root inventory ws m' f = (case findManagedWallet ws f of None \<Rightarrow> m' f
        | Some w \<Rightarrow> if f \<in> inventory then m' f else if mw_Deleted w then (if f \<noteq> root then None else m' f) else Some w)"
      using Cons by simp
    ultimately show ?thesis by (cases "findManagedWallet ws f") auto
  qed
qed (simp add: findManagedWallet_def)

lemma apply_remote_keyed: "keyed m \<Longrightarrow> keyed (apply_remote root inventory ws m)"
proof (induction ws arbitrary: m)
  case (Cons w ws)
  have "keyed (if mw_Fingerprint w \<in> inventory then m
      else if mw_Deleted w then (if mw_Fingerprint w \<noteq> root then m(mw_Fingerprint w := None) else m)
      else m(mw_Fingerprint w \<mapsto> w))"
    using Cons.prems by (auto simp: keyed_def)
  then show ?case by (simp only: apply_remote.simps) (rule Cons.IH)
qed simp

section \<open>Updating the target\<close>

definition next_wallet :: "string set \<Rightarrow> (string \<rightharpoonup> ManagedWallet) \<Rightarrow> 64 word \<Rightarrow> string \<Rightarrow> ManagedWallet option" where
  "next_wallet deleteRequested effective revision f =
     (if f \<in> deleteRequested then Some (tombstone f revision)
      else map_option (\<lambda>w. w\<lparr>mw_Revision := revision, mw_Deleted := False\<rparr>) (effective f))"

lemma update_target_step:
  assumes "keyed effective" "update_target root deleteRequested effective revision fp ws = Inr ws'"
  obtains w where "mw_Fingerprint w = fp" "next_wallet deleteRequested effective revision fp = Some w"
    "ws' = put_wallet fp w ws" "if fp \<in> deleteRequested then fp \<noteq> root else effective fp \<noteq> None"
proof (cases "fp \<in> deleteRequested")
  case True
  then have "ws' = put_wallet fp (tombstone fp revision) ws" "fp \<noteq> root"
    using assms(2) by (simp_all add: update_target_def result_simps)
  then show thesis using True by (auto intro!: that [of "tombstone fp revision"] simp: next_wallet_def tombstone_def)
next
  case False
  then obtain w where w: "effective fp = Some w"
    using assms(2) by (cases "effective fp") (simp_all add: update_target_def)
  then have "mw_Fingerprint w = fp" using assms(1) by (simp add: keyed_def)
  moreover have "ws' = put_wallet fp (w\<lparr>mw_Revision := revision, mw_Deleted := False\<rparr>) ws"
    using assms(2) w False by (simp add: update_target_def)
  ultimately show thesis using w False
    by (auto intro!: that [of "w\<lparr>mw_Revision := revision, mw_Deleted := False\<rparr>"] simp: next_wallet_def)
qed

lemma update_targets:
  assumes "keyed effective" "rfold (update_target root deleteRequested effective revision) fps ws = Inr ws'"
    and "distinct (map mw_Fingerprint ws)"
  shows "findManagedWallet ws' f = (if f \<in> set fps then next_wallet deleteRequested effective revision f else findManagedWallet ws f)
    \<and> distinct (map mw_Fingerprint ws')
    \<and> (f \<in> set fps \<longrightarrow> (if f \<in> deleteRequested then f \<noteq> root else effective f \<noteq> None))"
  using assms(2,3)
proof (induction fps arbitrary: ws)
  case (Cons fp fps)
  obtain ws1 where u: "update_target root deleteRequested effective revision fp ws = Inr ws1"
    and r1: "rfold (update_target root deleteRequested effective revision) fps ws1 = Inr ws'"
    using Cons.prems(1) by (auto simp: result_simps)
  obtain w where w: "mw_Fingerprint w = fp" "next_wallet deleteRequested effective revision fp = Some w"
    and ws1: "ws1 = put_wallet fp w ws" and n: "if fp \<in> deleteRequested then fp \<noteq> root else effective fp \<noteq> None"
    by (rule update_target_step [OF assms(1) u]) blast
  have r: "rfold (update_target root deleteRequested effective revision) fps (put_wallet fp w ws) = Inr ws'"
    using r1 ws1 by simp
  show ?case
    using Cons.IH [OF r put_fingerprints(2) [OF w(1) Cons.prems(2)]] find_put [OF w(1), of ws f] w(2) n by auto
qed simp

section \<open>Replaying local changes\<close>

lemma replay_other: "replay wallets del m e = Inr e' \<Longrightarrow> mu_Fingerprint m \<noteq> f \<Longrightarrow> e' f = e f"
  by (auto simp: replay_def Let_def result_simps split: if_splits option.splits)

lemma replay_skip: "replay wallets del m e = Inr e' \<Longrightarrow> f \<in> del \<or> f = '''' \<Longrightarrow> e' f = e f"
proof -
  assume r: "replay wallets del m e = Inr e'" and f: "f \<in> del \<or> f = ''''"
  show "e' f = e f"
  proof (cases "mu_Fingerprint m = f")
    case True
    then have "mu_Fingerprint m = '''' \<or> mu_Type m = accountMutationDeleteWallet \<or> mu_Fingerprint m \<in> del" using f by blast
    then show ?thesis using r unfolding replay_def Let_def by (simp only: if_True sum.inject)
  qed (rule replay_other [OF r])
qed

lemma replay_keyed: "replay wallets del m e = Inr e' \<Longrightarrow> keyed wallets \<Longrightarrow> keyed e \<Longrightarrow> keyed e'"
  by (auto simp: replay_def Let_def result_simps keyed_def merge_subaccounts_def split: if_splits option.splits)

lemma replays_other:
  assumes "rfold (replay wallets del) ms e = Inr e'" "\<And>m. m \<in> set ms \<Longrightarrow> mu_Fingerprint m \<noteq> f"
  shows "e' f = e f"
proof (rule rfold_invariant [OF assms(1), of "\<lambda>x. x f = e f"])
  fix m s s'
  assume "m \<in> set ms" "s f = e f" "replay wallets del m s = Inr s'"
  then show "s' f = e f" using replay_other [of wallets del m s s' f] assms(2) [of m] by simp
qed simp

lemma replays_keyed:
  "rfold (replay wallets del) ms e = Inr e' \<Longrightarrow> keyed wallets \<Longrightarrow> keyed e \<Longrightarrow> keyed e'"
  by (erule rfold_invariant) (auto dest: replay_keyed)


section \<open>Sub-accounts\<close>

text \<open>A wallet as the inventory stores it: sub-account \<open>i\<close> stands at position \<open>i\<close>.\<close>

definition canonical_subs :: "ManagedWallet \<Rightarrow> bool" where
  "canonical_subs w \<longleftrightarrow> length (mw_SubAccounts w) = unat (mw_AccountCount w)
     \<and> (\<forall>i < unat (mw_AccountCount w). sa_Index (mw_SubAccounts w ! i) = of_nat i)"

definition default_sub :: "nat \<Rightarrow> SubAccount" where
  "default_sub i = \<lparr>sa_Index = of_nat i, sa_Name = defaultAccountName (of_nat i), sa_DID = ''''\<rparr>"

definition sub_at :: "ManagedWallet \<Rightarrow> nat \<Rightarrow> SubAccount" where
  "sub_at w i = (if i < unat (mw_AccountCount w) then mw_SubAccounts w ! i else default_sub i)"

definition with_subs :: "ManagedWallet \<Rightarrow> nat \<Rightarrow> (nat \<Rightarrow> SubAccount) \<Rightarrow> ManagedWallet" where
  "with_subs w n f = w\<lparr>mw_AccountCount := of_nat n, mw_SubAccounts := map f [0..<n]\<rparr>"

lemma of_nat_small: "i < unat (c :: 32 word) \<Longrightarrow> unat (of_nat i :: 32 word) = i"
  using unsigned_less [of c, where ?'a = nat] by (simp add: unsigned_of_nat take_bit_nat_eq_self)

lemma of_nat_inj_small:
  "i < unat (c :: 32 word) \<Longrightarrow> j < unat (d :: 32 word) \<Longrightarrow> (of_nat i :: 32 word) = of_nat j \<longleftrightarrow> i = j"
  using of_nat_small by metis

lemma canonical_find:
  assumes "canonical_subs w" "a < mw_AccountCount w"
  shows "find (\<lambda>s. sa_Index s = a) (mw_SubAccounts w) = Some (mw_SubAccounts w ! unat a)"
proof -
  have a: "unat a < unat (mw_AccountCount w)" using assms(2) by (simp add: word_less_nat_alt)
  have "(of_nat j :: 32 word) \<noteq> a" if "j < unat a" for j
    using of_nat_small [of j a] that by auto
  then show ?thesis using assms(1) a unfolding canonical_subs_def find_Some_iff
    by (intro exI [of _ "unat a"]) auto
qed

lemma canonical_map:
  assumes "canonical_subs w" "i < unat (c :: 32 word)"
  shows "map_of (rev (map (\<lambda>s. (sa_Index s, s)) (mw_SubAccounts w))) (of_nat i)
    = (if i < unat (mw_AccountCount w) then Some (mw_SubAccounts w ! i) else None)"
proof -
  let ?xs = "mw_SubAccounts w" let ?n = "unat (mw_AccountCount w)"
  have n: "length ?xs = ?n" and ix: "\<And>j. j < ?n \<Longrightarrow> sa_Index (?xs ! j) = of_nat j"
    using assms(1) by (simp_all add: canonical_subs_def)
  have "distinct (map sa_Index ?xs)"
    using n ix of_nat_inj_small [of _ "mw_AccountCount w" _ "mw_AccountCount w"] by (simp add: distinct_conv_nth)
  then have d: "distinct (map fst (rev (map (\<lambda>s. (sa_Index s, s)) ?xs)))" by (simp add: rev_map [symmetric] comp_def)
  show ?thesis
  proof (cases "i < ?n")
    case True
    then have "(of_nat i, ?xs ! i) \<in> set (rev (map (\<lambda>s. (sa_Index s, s)) ?xs))" using n ix [OF True] by (auto simp: image_iff)
    with d True show ?thesis by simp
  next
    case False
    have "of_nat i \<notin> sa_Index ` set ?xs"
    proof
      assume "of_nat i \<in> sa_Index ` set ?xs"
      then obtain j where "j < ?n" "of_nat i = sa_Index (?xs ! j)" using n by (auto simp: in_set_conv_nth)
      then have "i = j" using ix of_nat_inj_small [OF assms(2) \<open>j < ?n\<close>] by simp
      with False \<open>j < ?n\<close> show False by simp
    qed
    then have "map_of (rev (map (\<lambda>s. (sa_Index s, s)) ?xs)) (of_nat i) = None" by (force simp: map_of_eq_None_iff image_iff)
    then show ?thesis using False by simp
  qed
qed


text \<open>
  The field-wise merge: the local name if it was edited, the local sub-account where it was edited,
  every other field from the merged wallet; as many sub-accounts as either side needs.
\<close>

definition merged_count :: "32 word set \<Rightarrow> ManagedWallet \<Rightarrow> nat" where
  "merged_count accounts w = Max (insert (unat (mw_AccountCount w)) ((\<lambda>a. unat a + 1) ` accounts))"

definition field_merge :: "bool \<Rightarrow> 32 word set \<Rightarrow> ManagedWallet \<Rightarrow> ManagedWallet \<Rightarrow> ManagedWallet" where
  "field_merge renamed accounts local w =
     (with_subs w (merged_count accounts w) (\<lambda>i. if of_nat i \<in> accounts then sub_at local i else sub_at w i))
       \<lparr>mw_Name := if renamed then mw_Name local else mw_Name w\<rparr>"

lemma merged_count_bound:
  assumes "finite accounts" "\<And>a. a \<in> accounts \<Longrightarrow> a < mw_AccountCount local"
  shows "merged_count accounts w \<le> max (unat (mw_AccountCount w)) (unat (mw_AccountCount local))"
  unfolding merged_count_def using assms by (auto simp: word_less_nat_alt intro!: le_SucI Suc_leI max.coboundedI2)

lemma unat_merged_count:
  assumes "finite accounts" "\<And>a. a \<in> accounts \<Longrightarrow> a < mw_AccountCount local"
  shows "unat (of_nat (merged_count accounts w) :: 32 word) = merged_count accounts w"
proof -
  have "merged_count accounts w < 2 ^ 32"
    using merged_count_bound [OF assms, of w] unsigned_less [of "mw_AccountCount w", where ?'a = nat]
      unsigned_less [of "mw_AccountCount local", where ?'a = nat]
    by (intro le_less_trans [OF merged_count_bound [OF assms, of w]]) simp_all
  then show ?thesis by (simp add: unsigned_of_nat take_bit_nat_eq_self)
qed

lemma merged_count_insert:
  "finite accounts \<Longrightarrow> merged_count (insert a accounts) w = max (merged_count accounts w) (unat a + 1)"
  unfolding merged_count_def by (simp add: insert_commute max.commute)

lemma with_subs_self: "canonical_subs w \<Longrightarrow> with_subs w (unat (mw_AccountCount w)) (sub_at w) = w"
  unfolding with_subs_def canonical_subs_def
  by (cases w) (auto simp: sub_at_def intro: nth_equalityI)

lemma field_merge_none: "canonical_subs w \<Longrightarrow> field_merge False {} local w = w"
  by (simp add: field_merge_def merged_count_def with_subs_self)

lemma field_merge_name: "(field_merge renamed accounts local w)\<lparr>mw_Name := mw_Name local\<rparr> = field_merge True accounts local w"
  by (simp add: field_merge_def with_subs_def)

lemma sub_at_index: "canonical_subs w \<Longrightarrow> sa_Index (sub_at w i) = of_nat i"
  by (simp add: sub_at_def default_sub_def canonical_subs_def)

lemma field_merge_canonical:
  assumes "finite accounts" "\<And>a. a \<in> accounts \<Longrightarrow> a < mw_AccountCount local" "canonical_subs local" "canonical_subs w"
  shows "canonical_subs (field_merge renamed accounts local w)"
  unfolding canonical_subs_def field_merge_def with_subs_def
  using unat_merged_count [OF assms(1,2)] by (simp add: sub_at_index [OF assms(3)] sub_at_index [OF assms(4)])

lemma merge_subaccounts_step:
  assumes "finite accounts" "\<And>a. a \<in> accounts \<Longrightarrow> a < mw_AccountCount local" "canonical_subs local" "canonical_subs w"
    and a: "a < mw_AccountCount local"
  shows "merge_subaccounts a local (field_merge renamed accounts local w) = field_merge renamed (insert a accounts) local w"
proof -
  define w1 where "w1 = field_merge renamed accounts local w"
  define n1 where "n1 = merged_count accounts w"
  define n2 where "n2 = merged_count (insert a accounts) w"
  have c1: "canonical_subs w1" unfolding w1_def by (rule field_merge_canonical [OF assms(1-4)])
  have n1: "unat (mw_AccountCount w1) = n1" "mw_AccountCount w1 = of_nat n1"
    using unat_merged_count [OF assms(1,2)] by (simp_all add: w1_def field_merge_def with_subs_def n1_def)
  have n2: "n2 = max n1 (unat a + 1)" using merged_count_insert [OF assms(1)] by (simp add: n1_def n2_def)
  have n2u: "unat (of_nat n2 :: 32 word) = n2"
    unfolding n2_def using assms(1,2) a by (intro unat_merged_count) auto
  define count where "count = (if mw_AccountCount w1 \<le> a then a + 1 else mw_AccountCount w1)"
  have count: "count = of_nat n2"
  proof (cases "n1 \<le> unat a")
    case True
    then have "n2 = unat a + 1" using n2 by simp
    then have "of_nat n2 = a + 1" by simp
    then show ?thesis using True n1(1) by (simp add: count_def word_le_nat_alt)
  next
    case False
    then have "n2 = n1" using n2 by simp
    then show ?thesis using False n1 by (simp add: count_def word_le_nat_alt)
  qed
  have sub: "(case ((map_of (rev (map (\<lambda>s. (sa_Index s, s)) (mw_SubAccounts w1)))) (a \<mapsto> mw_SubAccounts local ! unat a)) (of_nat i) of
       None \<Rightarrow> default_sub i | Some s \<Rightarrow> s) = (if of_nat i \<in> insert a accounts then sub_at local i else sub_at w i)"
    if i: "i < n2" for i
  proof -
    have iu: "unat (of_nat i :: 32 word) = i" using of_nat_small [of i "of_nat n2 :: 32 word"] i n2u by simp
    show ?thesis
    proof (cases "of_nat i = a")
      case True
      then have "i = unat a" using iu by simp
      then show ?thesis using a True by (simp add: sub_at_def word_less_nat_alt)
    next
      case False
      have m: "map_of (rev (map (\<lambda>s. (sa_Index s, s)) (mw_SubAccounts w1))) (of_nat i)
          = (if i < n1 then Some (mw_SubAccounts w1 ! i) else None)"
        using canonical_map [OF c1, of i "of_nat n2"] i n2u n1(1) by simp
      show ?thesis
      proof (cases "i < n1")
        case True
        then show ?thesis using m False by (simp add: w1_def field_merge_def with_subs_def n1_def)
      next
        case out: False
        have "unat (mw_AccountCount w) \<le> n1"
          unfolding n1_def merged_count_def using assms(1) by (intro Max_ge) auto
        then have "\<not> i < unat (mw_AccountCount w)" using out by simp
        moreover have "of_nat i \<notin> accounts"
        proof
          assume "of_nat i \<in> accounts"
          then have "unat (of_nat i :: 32 word) + 1 \<le> n1"
            unfolding n1_def merged_count_def using assms(1) by (intro Max_ge) auto
          then show False using iu out by simp
        qed
        ultimately show ?thesis using m False out by (simp add: sub_at_def)
      qed
    qed
  qed
  have "merge_subaccounts a local w1 = w1\<lparr>mw_AccountCount := count, mw_SubAccounts := map (\<lambda>i.
      case ((map_of (rev (map (\<lambda>s. (sa_Index s, s)) (mw_SubAccounts w1)))) (a \<mapsto> mw_SubAccounts local ! unat a)) (of_nat i) of
       None \<Rightarrow> default_sub i | Some s \<Rightarrow> s) [0..<n2]\<rparr>"
    using canonical_find [OF assms(3) a] n2u unfolding merge_subaccounts_def Let_def count_def [symmetric] count default_sub_def
    by simp
  also have "\<dots> = w1\<lparr>mw_AccountCount := of_nat n2,
      mw_SubAccounts := map (\<lambda>i. if of_nat i \<in> insert a accounts then sub_at local i else sub_at w i) [0..<n2]\<rparr>"
    using sub by (simp add: count del: insert_iff)
  also have "\<dots> = field_merge renamed (insert a accounts) local w"
    by (simp add: w1_def field_merge_def with_subs_def n2_def)
  finally show ?thesis by (simp add: w1_def)
qed


lemma merged_count_self:
  assumes "finite accounts" "\<And>a. a \<in> accounts \<Longrightarrow> a < mw_AccountCount w"
  shows "merged_count accounts w = unat (mw_AccountCount w)"
  unfolding merged_count_def using assms by (intro Max_eqI) (auto simp: word_less_nat_alt Suc_le_eq)

lemma field_merge_self:
  assumes "finite accounts" "\<And>a. a \<in> accounts \<Longrightarrow> a < mw_AccountCount w" "canonical_subs w"
  shows "field_merge renamed accounts w w = w"
  using with_subs_self [OF assms(3)] by (simp add: field_merge_def merged_count_self [OF assms(1,2)])

section \<open>What the pending entries ask of one wallet\<close>

definition asked :: "string \<Rightarrow> accountManagementMutation list \<Rightarrow> string \<Rightarrow> bool" where
  "asked kind pending f \<longleftrightarrow> f \<noteq> '''' \<and> (\<exists>m \<in> set pending. mu_Fingerprint m = f \<and> mu_Type m = kind)"

definition edited :: "accountManagementMutation list \<Rightarrow> string \<Rightarrow> 32 word set" where
  "edited pending f = mu_Account ` {m \<in> set pending. mu_Fingerprint m = f
     \<and> (mu_Type m = accountMutationEnsureAccount \<or> mu_Type m = accountMutationMetadata)}"

lemma finite_edited [simp]: "finite (edited pending f)"
  by (simp add: edited_def)

lemma asked_append: "asked kind (ms @ [m]) f \<longleftrightarrow> asked kind ms f \<or> (f \<noteq> '''' \<and> mu_Fingerprint m = f \<and> mu_Type m = kind)"
  by (auto simp: asked_def)

lemma edited_append:
  "edited (ms @ [m]) f = (if mu_Fingerprint m = f
       \<and> (mu_Type m = accountMutationEnsureAccount \<or> mu_Type m = accountMutationMetadata)
     then insert (mu_Account m) (edited ms f) else edited ms f)"
  by (auto simp: edited_def)

lemma asked_other: "mu_Fingerprint m \<noteq> f \<Longrightarrow> asked kind (ms @ [m]) f = asked kind ms f"
  by (simp add: asked_append)

lemma rfold_append: "rfold f (xs @ ys) s = rbind (rfold f xs s) (rfold f ys)"
proof (induction xs arbitrary: s)
  case (Cons x xs)
  show ?case by (cases "f x s") (simp_all add: Cons.IH)
qed simp

lemma types_distinct:
  "accountMutationAddWallet \<noteq> accountMutationDeleteWallet" "accountMutationAddWallet \<noteq> accountMutationWalletName"
  "accountMutationAddWallet \<noteq> accountMutationEnsureAccount" "accountMutationAddWallet \<noteq> accountMutationMetadata"
  "accountMutationDeleteWallet \<noteq> accountMutationWalletName" "accountMutationDeleteWallet \<noteq> accountMutationEnsureAccount"
  "accountMutationDeleteWallet \<noteq> accountMutationMetadata" "accountMutationWalletName \<noteq> accountMutationEnsureAccount"
  "accountMutationWalletName \<noteq> accountMutationMetadata" "accountMutationEnsureAccount \<noteq> accountMutationMetadata"
  by (simp_all add: mutation_types)

definition replayed :: "accountManagementMutation list \<Rightarrow> ManagedWallet \<Rightarrow> string \<Rightarrow> ManagedWallet option \<Rightarrow> ManagedWallet option" where
  "replayed ms local f w =
     (if asked accountMutationAddWallet ms f then Some local
      else map_option (field_merge (asked accountMutationWalletName ms f) (edited ms f) local) w)"

lemma replays_on:
  assumes "rfold (replay wallets del) ms e = Inr e'" "f \<notin> del" "f \<noteq> ''''" "wallets f = Some local"
    and "canonical_subs local" "\<And>w. e f = Some w \<Longrightarrow> canonical_subs w"
  shows "e' f = replayed ms local f (e f) \<and> (\<forall>a \<in> edited ms f. a < mw_AccountCount local)"
  using assms(1)
proof (induction ms arbitrary: e' rule: rev_induct)
  case Nil
  then show ?case using assms(6) by (cases "e f") (auto simp: replayed_def asked_def edited_def field_merge_none)
next
  case (snoc m ms)
  then obtain e1 where r: "rfold (replay wallets del) ms e = Inr e1" and m: "replay wallets del m e1 = Inr e'"
    by (auto simp: rfold_append result_simps)
  have IH: "e1 f = replayed ms local f (e f)" and ed: "\<And>a. a \<in> edited ms f \<Longrightarrow> a < mw_AccountCount local"
    using snoc.IH [OF r] by blast+
  show ?case
  proof (cases "mu_Fingerprint m = f")
    case False
    then show ?thesis using replay_other [OF m False] IH ed
      by (simp add: replayed_def asked_other edited_append)
  next
    case fp: True
    consider (del) "mu_Type m = accountMutationDeleteWallet" | (add) "mu_Type m = accountMutationAddWallet"
      | (name) "mu_Type m = accountMutationWalletName"
      | (sub) "mu_Type m = accountMutationEnsureAccount \<or> mu_Type m = accountMutationMetadata"
      using m fp assms(2-4) by (auto simp: replay_def Let_def split: if_splits)
    then show ?thesis
    proof cases
      case del
      then have "e' = e1" using m fp by (simp add: replay_def Let_def)
      then show ?thesis using IH ed del types_distinct by (simp add: replayed_def asked_append edited_append)
    next
      case add
      then have "e' = e1(f \<mapsto> local)" using m fp assms(2-4) types_distinct by (simp add: replay_def Let_def)
      then show ?thesis using ed add fp assms(3) types_distinct by (simp add: replayed_def asked_append edited_append)
    next
      case name
      then obtain w where w: "e1 f = Some w" "e' = e1(f \<mapsto> w\<lparr>mw_Name := mw_Name local\<rparr>)"
        using m fp assms(2-4) types_distinct by (cases "e1 f") (simp_all add: replay_def Let_def)
      have "asked accountMutationWalletName (ms @ [m]) f" using name fp assms(3) by (simp add: asked_append)
      moreover have "asked accountMutationAddWallet (ms @ [m]) f = asked accountMutationAddWallet ms f" "edited (ms @ [m]) f = edited ms f"
        using name types_distinct by (auto simp: asked_append edited_append)
      ultimately show ?thesis using w IH ed
        by (auto simp: replayed_def field_merge_name split: if_splits)
    next
      case sub
      then obtain w where w: "e1 f = Some w" "e' = e1(f \<mapsto> merge_subaccounts (mu_Account m) local w)"
          and a: "mu_Account m < mw_AccountCount local"
        using m fp assms(2-4) types_distinct by (cases "e1 f") (auto simp: replay_def Let_def result_simps not_le)
      have same: "asked kind (ms @ [m]) f = asked kind ms f" if "kind = accountMutationAddWallet \<or> kind = accountMutationWalletName" for kind
        using that sub types_distinct by (auto simp: asked_append)
      have eds: "edited (ms @ [m]) f = insert (mu_Account m) (edited ms f)" using sub fp by (simp add: edited_append)
      show ?thesis
      proof (cases "asked accountMutationAddWallet ms f")
        case True
        then have "w = local" using w IH by (simp add: replayed_def)
        moreover have "merge_subaccounts (mu_Account m) local local = local"
          using merge_subaccounts_step [of "{}" local local "mu_Account m" False] a assms(5)
            field_merge_none [OF assms(5)] field_merge_self [of "{mu_Account m}" local False] by simp
        ultimately show ?thesis using w True same ed a eds by (auto simp: replayed_def)
      next
        case False
        then obtain v where v: "e f = Some v" "w = field_merge (asked accountMutationWalletName ms f) (edited ms f) local v"
          using w IH by (auto simp: replayed_def)
        then have "e' f = Some (field_merge (asked accountMutationWalletName ms f) (edited (ms @ [m]) f) local v)"
          using w(2) eds merge_subaccounts_step [OF finite_edited ed assms(5) assms(6) [OF v(1)] a] by simp
        then show ?thesis using False v same ed a eds by (auto simp: replayed_def)
      qed
    qed
  qed
qed


section \<open>When the entries can be replayed\<close>

definition can_replay :: "(string \<rightharpoonup> ManagedWallet) \<Rightarrow> string set \<Rightarrow> (string \<rightharpoonup> ManagedWallet) \<Rightarrow> accountManagementMutation \<Rightarrow> bool" where
  "can_replay wallets del e m \<longleftrightarrow>
     (let f = mu_Fingerprint m
      in f = '''' \<or> mu_Type m = accountMutationDeleteWallet \<or> f \<in> del
       \<or> (\<exists>local. wallets f = Some local
            \<and> (mu_Type m = accountMutationAddWallet
               \<or> e f \<noteq> None \<and> (mu_Type m = accountMutationWalletName
                    \<or> (mu_Type m = accountMutationEnsureAccount \<or> mu_Type m = accountMutationMetadata)
                       \<and> mu_Account m < mw_AccountCount local))))"

lemma replay_ok: "(\<exists>e'. replay wallets del m e = Inr e') \<longleftrightarrow> can_replay wallets del e m"
  using types_distinct
  by (auto simp: replay_def can_replay_def Let_def check_def not_le split: option.splits)

lemma replay_dom:
  assumes "replay wallets del m e = Inr e'"
    and "mu_Type m = accountMutationAddWallet \<Longrightarrow> mu_Fingerprint m \<in> dom wallets \<Longrightarrow> mu_Fingerprint m \<in> dom e"
  shows "e' f = None \<longleftrightarrow> e f = None"
  using assms by (auto simp: replay_def Let_def result_simps dom_def split: if_splits option.splits)

lemma replays_ok:
  assumes "\<And>m. m \<in> set ms \<Longrightarrow> mu_Type m = accountMutationAddWallet \<Longrightarrow> mu_Fingerprint m \<noteq> '''' \<Longrightarrow> mu_Fingerprint m \<in> dom wallets \<Longrightarrow>
      mu_Fingerprint m \<in> dom e"
  shows "(\<exists>e'. rfold (replay wallets del) ms e = Inr e') \<longleftrightarrow> (\<forall>m \<in> set ms. can_replay wallets del e m)"
  using assms
proof (induction ms arbitrary: e)
  case (Cons m ms)
  show ?case
  proof (cases "can_replay wallets del e m")
    case False
    then have "replay wallets del m e \<noteq> Inr e'" for e' using replay_ok by blast
    then show ?thesis using False by (auto simp: result_simps)
  next
    case True
    then obtain e1 where e1: "replay wallets del m e = Inr e1" using replay_ok by blast
    have dom: "e1 f = None \<longleftrightarrow> e f = None" for f
    proof (cases "mu_Fingerprint m = ''''")
      case True
      then show ?thesis using e1 by (simp add: replay_def)
    next
      case False
      then show ?thesis using replay_dom [OF e1] Cons.prems [of m] by simp
    qed
    have same: "can_replay wallets del e1 x = can_replay wallets del e x" for x
      unfolding can_replay_def Let_def dom ..
    have "(\<exists>e'. rfold (replay wallets del) ms e1 = Inr e') \<longleftrightarrow> (\<forall>x \<in> set ms. can_replay wallets del e1 x)"
    proof (rule Cons.IH)
      fix x assume "x \<in> set ms" "mu_Type x = accountMutationAddWallet" "mu_Fingerprint x \<noteq> ''''" "mu_Fingerprint x \<in> dom wallets"
      then show "mu_Fingerprint x \<in> dom e1" using Cons.prems [of x] dom [of "mu_Fingerprint x"] by (auto simp: domIff)
    qed
    then show ?thesis using e1 True by (simp add: same)
  qed
qed simp

section \<open>The parts of the computation\<close>

definition device_wallet :: "string \<Rightarrow> accountManagementMutation list \<Rightarrow> (string \<rightharpoonup> ManagedWallet) \<Rightarrow> ManagedWallet list \<Rightarrow>
    string \<Rightarrow> ManagedWallet option" where
  "device_wallet root pending locals remote f =
     (if asked accountMutationAddWallet pending f \<or> asked accountMutationDeleteWallet pending f then locals f
      else case findManagedWallet remote f of
        None \<Rightarrow> locals f
      | Some w \<Rightarrow> if \<not> mw_Deleted w then Some w else if f = root then locals f else None)"

lemma device_wallet_eq:
  assumes "distinct (map mw_Fingerprint remote)"
  shows "apply_remote root (accountPendingInventoryFingerprints pending) remote locals f = device_wallet root pending locals remote f"
proof -
  have "f \<in> accountPendingInventoryFingerprints pending
      \<longleftrightarrow> asked accountMutationAddWallet pending f \<or> asked accountMutationDeleteWallet pending f"
    by (auto simp: accountPendingInventoryFingerprints_def asked_def)
  then show ?thesis unfolding apply_remote_eq [OF assms] device_wallet_def by (auto split: option.splits)
qed

lemma deletes_eq:
  "mu_Fingerprint ` {m \<in> set pending. mu_Fingerprint m \<noteq> '''' \<and> mu_Type m = accountMutationDeleteWallet}
    = {f. asked accountMutationDeleteWallet pending f}"
  by (auto simp: asked_def)

definition stamp :: "64 word \<Rightarrow> ManagedWallet \<Rightarrow> ManagedWallet" where
  "stamp revision w = w\<lparr>mw_Revision := revision, mw_Deleted := False\<rparr>"

definition sync_changed :: "ManagedState \<Rightarrow> accountManagementSyncSnapshot \<Rightarrow> (string \<rightharpoonup> ManagedWallet) \<Rightarrow> string list" where
  "sync_changed remote snapshot effective =
     filter (\<lambda>fp. fp \<in> accountPendingFingerprints (sn_Pending snapshot)
               \<or> (case effective fp of None \<Rightarrow> False
                   | Some w \<Rightarrow> \<not> managedWalletContentMatches w (findManagedWallet (ms_Wallets remote) fp)))
       (remdups (map fst (sn_Wallets snapshot) @ map mw_Fingerprint (ms_Wallets remote) @ map mu_Fingerprint (sn_Pending snapshot)))"

lemma build_eq:
  "buildAccountManagedStateTarget visit remote snapshot =
     (let pending = sn_Pending snapshot; root = pf_RootFingerprint (sn_Profile snapshot); locals = map_of (sn_Wallets snapshot);
          del = {f. asked accountMutationDeleteWallet pending f}
      in rbind (rfold (replay locals del) pending
                 (apply_remote root (accountPendingInventoryFingerprints pending) (ms_Wallets remote) locals)) (\<lambda>effective.
           if sync_changed remote snapshot effective = [] then Inr (remote, False)
           else rbind (rfold (update_target root del effective (ms_Revision remote + 1)) (visit (sync_changed remote snapshot effective))
                 (ms_Wallets remote))
             (\<lambda>wallets. Inr (remote\<lparr>ms_Revision := ms_Revision remote + 1, ms_Wallets := wallets\<rparr>, True))))"
  unfolding buildAccountManagedStateTarget_def Let_def deletes_eq sync_changed_def ..


section \<open>The next shared state\<close>

text \<open>
  What the code keeps of the two inventories: the wallets of a device stand under their fingerprint
  and are live, the shared state holds every fingerprint once.
\<close>

definition local_inventory :: "(string \<rightharpoonup> ManagedWallet) \<Rightarrow> bool" where
  "local_inventory locals \<longleftrightarrow>
     (\<forall>f w. locals f = Some w \<longrightarrow> mw_Fingerprint w = f \<and> \<not> mw_Deleted w \<and> canonical_subs w)"

definition shared_inventory :: "ManagedWallet list \<Rightarrow> bool" where
  "shared_inventory ws \<longleftrightarrow> distinct (map mw_Fingerprint ws) \<and> (\<forall>w \<in> set ws. \<not> mw_Deleted w \<longrightarrow> canonical_subs w)"

definition sync_possible :: "ManagedWallet list \<Rightarrow> accountManagementSyncSnapshot \<Rightarrow> bool" where
  "sync_possible remote snapshot \<longleftrightarrow>
     (let pending = sn_Pending snapshot; root = pf_RootFingerprint (sn_Profile snapshot); locals = map_of (sn_Wallets snapshot)
      in \<not> asked accountMutationDeleteWallet pending root
         \<and> (\<forall>m \<in> set pending. can_replay locals {f. asked accountMutationDeleteWallet pending f}
               (device_wallet root pending locals remote) m))"

definition synced_wallet :: "ManagedState \<Rightarrow> accountManagementSyncSnapshot \<Rightarrow> string \<Rightarrow> ManagedWallet option" where
  "synced_wallet remote snapshot f =
     (let pending = sn_Pending snapshot; root = pf_RootFingerprint (sn_Profile snapshot); locals = map_of (sn_Wallets snapshot);
          revision = ms_Revision remote + 1; shared = findManagedWallet (ms_Wallets remote) f
      in if asked accountMutationDeleteWallet pending f then Some (tombstone f revision)
         else if f \<in> accountPendingFingerprints pending
         then (case locals f of None \<Rightarrow> None
               | Some local \<Rightarrow> map_option (stamp revision)
                   (replayed pending local f (device_wallet root pending locals (ms_Wallets remote) f)))
         else case shared of
           None \<Rightarrow> map_option (stamp revision) (locals f)
         | Some w \<Rightarrow> if mw_Deleted w \<and> f = root then (case locals f of None \<Rightarrow> Some w | Some l \<Rightarrow> Some (stamp revision l))
                     else Some w)"

lemma pending_fingerprints: "f \<in> accountPendingFingerprints pending \<longleftrightarrow> f \<noteq> '''' \<and> (\<exists>m \<in> set pending. mu_Fingerprint m = f)"
  by (auto simp: accountPendingFingerprints_def)

lemma content_matches_self: "managedWalletContentMatches w (Some w)"
  by (simp add: managedWalletContentMatches_def list_all2_refl)

lemma device_wallet_keyed:
  "local_inventory locals \<Longrightarrow> device_wallet root pending locals remote f = Some w \<Longrightarrow> mw_Fingerprint w = f \<and> \<not> mw_Deleted w"
  by (auto simp: device_wallet_def local_inventory_def dest: find_Some split: if_splits option.splits)

lemma device_wallet_canonical:
  "local_inventory locals \<Longrightarrow> shared_inventory remote \<Longrightarrow> device_wallet root pending locals remote f = Some w \<Longrightarrow> canonical_subs w"
  by (auto simp: device_wallet_def local_inventory_def shared_inventory_def dest!: find_Some split: if_splits option.splits)

lemma sync_changed_set:
  assumes keys: "\<And>f w. effective f = Some w \<Longrightarrow> f \<in> fst ` set (sn_Wallets snapshot) \<or> f \<in> mw_Fingerprint ` set (ms_Wallets remote)
     \<or> f \<in> accountPendingFingerprints (sn_Pending snapshot)"
  shows "f \<in> set (sync_changed remote snapshot effective) \<longleftrightarrow> f \<in> accountPendingFingerprints (sn_Pending snapshot)
     \<or> (\<exists>w. effective f = Some w \<and> \<not> managedWalletContentMatches w (findManagedWallet (ms_Wallets remote) f))"
  using keys [of f] by (cases "effective f") (auto simp: sync_changed_def accountPendingFingerprints_def)

lemma replays_not_pending:
  assumes "rfold (replay locals del) pending e = Inr e'" "f \<notin> accountPendingFingerprints pending"
  shows "e' f = e f"
proof (cases "f = ''''")
  case True
  show ?thesis
  proof (rule rfold_invariant [OF assms(1), of "\<lambda>x. x f = e f"])
    fix m s s'
    assume "s f = e f" "replay locals del m s = Inr s'"
    then show "s' f = e f" using replay_skip [of locals del m s s' f] True by simp
  qed simp
next
  case False
  then show ?thesis using assms by (intro replays_other [OF assms(1)]) (auto simp: accountPendingFingerprints_def)
qed


lemma effective_after:
  assumes "local_inventory (map_of (sn_Wallets snapshot))" "shared_inventory (ms_Wallets remote)"
    and r: "rfold (replay (map_of (sn_Wallets snapshot)) {f. asked accountMutationDeleteWallet (sn_Pending snapshot) f}) (sn_Pending snapshot)
        (apply_remote root (accountPendingInventoryFingerprints (sn_Pending snapshot)) (ms_Wallets remote)
           (map_of (sn_Wallets snapshot))) = Inr effective"
  shows "effective f =
     (if f \<in> accountPendingFingerprints (sn_Pending snapshot) \<and> \<not> asked accountMutationDeleteWallet (sn_Pending snapshot) f
      then (case map_of (sn_Wallets snapshot) f of None \<Rightarrow> None
            | Some local \<Rightarrow> replayed (sn_Pending snapshot) local f
                (device_wallet root (sn_Pending snapshot) (map_of (sn_Wallets snapshot)) (ms_Wallets remote) f))
      else device_wallet root (sn_Pending snapshot) (map_of (sn_Wallets snapshot)) (ms_Wallets remote) f)"
    and "f \<in> accountPendingFingerprints (sn_Pending snapshot) \<Longrightarrow> \<not> asked accountMutationDeleteWallet (sn_Pending snapshot) f \<Longrightarrow>
      effective f \<noteq> None"
    and "keyed effective"
proof -
  define pending where "pending = sn_Pending snapshot"
  define locals where "locals = map_of (sn_Wallets snapshot)"
  define del where "del = {f. asked accountMutationDeleteWallet pending f}"
  define dev where "dev = apply_remote root (accountPendingInventoryFingerprints pending) (ms_Wallets remote) locals"
  have d: "dev = device_wallet root pending locals (ms_Wallets remote)"
    unfolding dev_def using assms(2) by (intro ext device_wallet_eq) (simp add: shared_inventory_def)
  have r: "rfold (replay locals del) pending dev = Inr effective"
    using r by (simp add: pending_def locals_def del_def dev_def)
  have inv: "local_inventory locals" using assms(1) by (simp add: locals_def)
  show "keyed effective"
    using inv device_wallet_keyed [OF inv] by (intro replays_keyed [OF r]) (auto simp: keyed_def local_inventory_def d)
  have "\<exists>local. locals f = Some local \<and> effective f = replayed pending local f (dev f) \<and> effective f \<noteq> None"
    if p: "f \<in> accountPendingFingerprints pending" "\<not> asked accountMutationDeleteWallet pending f"
  proof -
    obtain m where m: "m \<in> set pending" "mu_Fingerprint m = f" "f \<noteq> ''''"
      using p(1) by (auto simp: accountPendingFingerprints_def)
    have "\<forall>m \<in> set pending. can_replay locals del dev m"
    proof (subst replays_ok [symmetric])
      fix x assume "x \<in> set pending" "mu_Type x = accountMutationAddWallet" "mu_Fingerprint x \<noteq> ''''" "mu_Fingerprint x \<in> dom locals"
      then show "mu_Fingerprint x \<in> dom dev" by (auto simp: d device_wallet_def asked_def)
    qed (use r in blast)
    then have c: "can_replay locals del dev m" using m(1) by blast
    have nd: "mu_Type m \<noteq> accountMutationDeleteWallet" using m p(2) by (auto simp: asked_def)
    then obtain local where l: "locals f = Some local" using c m p(2) by (auto simp: can_replay_def Let_def del_def)
    have e: "effective f = replayed pending local f (dev f)"
      using replays_on [OF r _ m(3) l] p(2) inv l device_wallet_canonical [OF inv assms(2)]
      by (auto simp: del_def d local_inventory_def)
    have "effective f \<noteq> None"
      using e c m nd p(2) by (auto simp: can_replay_def Let_def del_def replayed_def asked_def)
    with l e show ?thesis by blast
  qed
  moreover have "effective f = dev f" if "\<not> (f \<in> accountPendingFingerprints pending \<and> \<not> asked accountMutationDeleteWallet pending f)"
  proof (cases "f \<in> accountPendingFingerprints pending")
    case True
    then have "f \<in> del" using that by (simp add: del_def)
    show ?thesis
    proof (rule rfold_invariant [OF r, of "\<lambda>x. x f = dev f"])
      fix m s s'
      assume "s f = dev f" "replay locals del m s = Inr s'"
      then show "s' f = dev f" using replay_skip [of locals del m s s' f] \<open>f \<in> del\<close> by simp
    qed simp
  qed (rule replays_not_pending [OF r])
  ultimately show "effective f =
     (if f \<in> accountPendingFingerprints (sn_Pending snapshot) \<and> \<not> asked accountMutationDeleteWallet (sn_Pending snapshot) f
      then (case map_of (sn_Wallets snapshot) f of None \<Rightarrow> None
            | Some local \<Rightarrow> replayed (sn_Pending snapshot) local f
                (device_wallet root (sn_Pending snapshot) (map_of (sn_Wallets snapshot)) (ms_Wallets remote) f))
      else device_wallet root (sn_Pending snapshot) (map_of (sn_Wallets snapshot)) (ms_Wallets remote) f)"
    "f \<in> accountPendingFingerprints (sn_Pending snapshot) \<Longrightarrow> \<not> asked accountMutationDeleteWallet (sn_Pending snapshot) f \<Longrightarrow>
      effective f \<noteq> None"
    unfolding pending_def locals_def d by auto
qed


lemma next_wallet_unfold:
  "next_wallet del effective revision f = (if f \<in> del then Some (tombstone f revision) else map_option (stamp revision) (effective f))"
  unfolding next_wallet_def stamp_def [abs_def] ..

lemma shared_inventoryI:
  assumes "distinct (map mw_Fingerprint ws)"
    and "\<And>f w. findManagedWallet ws f = Some w \<Longrightarrow> \<not> mw_Deleted w \<Longrightarrow> canonical_subs w"
  shows "shared_inventory ws"
  unfolding shared_inventory_def
proof (intro conjI ballI impI)
  fix w assume w: "w \<in> set ws" "\<not> mw_Deleted w"
  have "findManagedWallet ws (mw_Fingerprint w) \<noteq> None" using w(1) by (simp add: find_None)
  then obtain v where v: "findManagedWallet ws (mw_Fingerprint w) = Some v" by blast
  then have "v \<in> set ws" "mw_Fingerprint v = mw_Fingerprint w" by (auto dest: find_Some)
  then have "v = w" using assms(1) w(1) by (auto simp: distinct_map inj_on_def)
  with v assms(2) w(2) show "canonical_subs w" by blast
qed (rule assms(1))

lemma stamp_canonical [simp]: "canonical_subs (stamp revision w) = canonical_subs w"
  by (simp add: canonical_subs_def stamp_def)

lemma build_result:
  assumes "local_inventory (map_of (sn_Wallets snapshot))" "shared_inventory (ms_Wallets remote)"
    and v: "\<And>ks. set (visit ks) = set ks"
    and b: "buildAccountManagedStateTarget visit remote snapshot = Inr (t, ch)"
  shows "findManagedWallet (ms_Wallets t) f = synced_wallet remote snapshot f"
    and "distinct (map mw_Fingerprint (ms_Wallets t))"
    and "t = remote\<lparr>ms_Revision := if ch then ms_Revision remote + 1 else ms_Revision remote, ms_Wallets := ms_Wallets t\<rparr>"
    and "\<not> ch \<Longrightarrow> t = remote" and "\<not> asked accountMutationDeleteWallet (sn_Pending snapshot) (pf_RootFingerprint (sn_Profile snapshot))"
proof -
  define pending where "pending = sn_Pending snapshot"
  define root where "root = pf_RootFingerprint (sn_Profile snapshot)"
  define locals where "locals = map_of (sn_Wallets snapshot)"
  define del where "del = {f. asked accountMutationDeleteWallet pending f}"
  obtain effective where r: "rfold (replay locals del) pending
      (apply_remote root (accountPendingInventoryFingerprints pending) (ms_Wallets remote) locals) = Inr effective"
    and rest: "(if sync_changed remote snapshot effective = [] then Inr (remote, False)
           else rbind (rfold (update_target root del effective (ms_Revision remote + 1)) (visit (sync_changed remote snapshot effective))
                 (ms_Wallets remote))
             (\<lambda>wallets. Inr (remote\<lparr>ms_Revision := ms_Revision remote + 1, ms_Wallets := wallets\<rparr>, True))) = Inr (t, ch)"
    using b unfolding build_eq Let_def pending_def root_def locals_def del_def rbind_eq_Inr by blast
  note eff = effective_after [OF assms(1,2) r [unfolded pending_def locals_def del_def],
    folded pending_def locals_def]
  have inv: "local_inventory locals" "shared_inventory (ms_Wallets remote)" using assms(1,2) by (simp_all add: locals_def)
  have keys: "effective f = Some w \<Longrightarrow> f \<in> fst ` set (sn_Wallets snapshot) \<or> f \<in> mw_Fingerprint ` set (ms_Wallets remote)
     \<or> f \<in> accountPendingFingerprints (sn_Pending snapshot)" for f w
  proof (rule ccontr)
    assume e: "effective f = Some w" and no: "\<not> (f \<in> fst ` set (sn_Wallets snapshot) \<or> f \<in> mw_Fingerprint ` set (ms_Wallets remote)
     \<or> f \<in> accountPendingFingerprints (sn_Pending snapshot))"
    have "locals f = None" using no by (auto simp: locals_def map_of_eq_None_iff)
    moreover have "findManagedWallet (ms_Wallets remote) f = None" using no by (simp add: find_None)
    ultimately have "device_wallet root pending locals (ms_Wallets remote) f = None" by (simp add: device_wallet_def)
    then show False using e eff(1) [of f] no by (simp add: pending_def)
  qed
  have changed: "f \<in> set (sync_changed remote snapshot effective) \<longleftrightarrow> f \<in> accountPendingFingerprints pending
     \<or> (\<exists>w. effective f = Some w \<and> \<not> managedWalletContentMatches w (findManagedWallet (ms_Wallets remote) f))" for f
    unfolding pending_def using keys by (rule sync_changed_set)
  have res: "findManagedWallet (ms_Wallets t) f = (if f \<in> set (sync_changed remote snapshot effective)
      then next_wallet del effective (ms_Revision remote + 1) f else findManagedWallet (ms_Wallets remote) f)
    \<and> distinct (map mw_Fingerprint (ms_Wallets t)) \<and> (f \<in> set (sync_changed remote snapshot effective) \<longrightarrow> f \<in> del \<longrightarrow> f \<noteq> root)" for f
  proof (cases "sync_changed remote snapshot effective = []")
    case True
    then show ?thesis using rest inv(2) by (auto simp: shared_inventory_def)
  next
    case False
    then obtain wallets where w: "rfold (update_target root del effective (ms_Revision remote + 1))
        (visit (sync_changed remote snapshot effective)) (ms_Wallets remote) = Inr wallets" "ms_Wallets t = wallets"
      using rest by (auto simp: result_simps)
    show ?thesis using update_targets [OF eff(3) w(1), of f] inv(2) w(2) v by (simp add: shared_inventory_def)
  qed
  have asked: "asked kind pending f \<Longrightarrow> f \<in> accountPendingFingerprints pending" for kind f
    by (auto simp: asked_def accountPendingFingerprints_def)
  have root: "root \<notin> del"
    using res [of root] changed [of root] asked [of _ root] by (auto simp: del_def)
  show "distinct (map mw_Fingerprint (ms_Wallets t))" using res by blast
  show "findManagedWallet (ms_Wallets t) f = synced_wallet remote snapshot f"
  proof (cases "f \<in> accountPendingFingerprints pending")
    case True
    then have "findManagedWallet (ms_Wallets t) f = next_wallet del effective (ms_Revision remote + 1) f" using res changed by simp
    then show ?thesis using True eff(1) [of f]
      by (auto simp: next_wallet_unfold synced_wallet_def Let_def del_def pending_def locals_def root_def split: option.splits)
  next
    case False
    then have na: "\<not> asked kind pending f" for kind using asked by blast
    have e: "effective f = device_wallet root pending locals (ms_Wallets remote) f" using False eff(1) [of f] by simp
    have n: "next_wallet del effective (ms_Revision remote + 1) f = map_option (stamp (ms_Revision remote + 1)) (effective f)"
      using na by (simp add: next_wallet_unfold del_def)
    have s: "synced_wallet remote snapshot f = (case findManagedWallet (ms_Wallets remote) f of
           None \<Rightarrow> map_option (stamp (ms_Revision remote + 1)) (locals f)
         | Some w \<Rightarrow> if mw_Deleted w \<and> f = root then (case locals f of None \<Rightarrow> Some w | Some l \<Rightarrow> Some (stamp (ms_Revision remote + 1) l))
                     else Some w)"
      using na False unfolding synced_wallet_def Let_def pending_def [symmetric] locals_def [symmetric] root_def [symmetric] by simp
    show ?thesis
    proof (cases "findManagedWallet (ms_Wallets remote) f")
      case None
      then show ?thesis using res [of f] changed [of f] False n s e na
        by (cases "locals f") (simp_all add: device_wallet_def managedWalletContentMatches_def)
    next
      case (Some w)
      show ?thesis
      proof (cases "mw_Deleted w")
        case True
        then show ?thesis using res [of f] changed [of f] False n s e na Some inv(1)
          by (cases "locals f") (auto simp: device_wallet_def managedWalletContentMatches_def local_inventory_def)
      next
        case live: False
        then have "effective f = Some w" using e na Some by (simp add: device_wallet_def)
        then show ?thesis using res [of f] changed [of f] False s Some live by (simp add: content_matches_self)
      qed
    qed
  qed
  show "t = remote\<lparr>ms_Revision := if ch then ms_Revision remote + 1 else ms_Revision remote, ms_Wallets := ms_Wallets t\<rparr>"
    using rest by (auto simp: result_simps split: if_splits)
  show "\<not> ch \<Longrightarrow> t = remote" using rest by (auto simp: result_simps split: if_splits)
  show "\<not> asked accountMutationDeleteWallet (sn_Pending snapshot) (pf_RootFingerprint (sn_Profile snapshot))"
    using root by (simp add: del_def pending_def root_def)
qed


lemma update_targets_ok:
  assumes "\<And>fp. fp \<in> set fps \<Longrightarrow> if fp \<in> del then fp \<noteq> root else effective fp \<noteq> None"
  shows "\<exists>ws'. rfold (update_target root del effective revision) fps ws = Inr ws'"
  using assms
proof (induction fps arbitrary: ws)
  case (Cons fp fps)
  have "\<exists>ws1. update_target root del effective revision fp ws = Inr ws1"
    using Cons.prems [of fp] by (auto simp: update_target_def split: if_splits)
  then show ?case using Cons by (auto simp: result_simps)
qed simp

lemma build_possible:
  assumes "local_inventory (map_of (sn_Wallets snapshot))" "shared_inventory (ms_Wallets remote)"
    and v: "\<And>ks. set (visit ks) = set ks"
  shows "(\<exists>r. buildAccountManagedStateTarget visit remote snapshot = Inr r) \<longleftrightarrow> sync_possible (ms_Wallets remote) snapshot"
proof -
  define pending where "pending = sn_Pending snapshot"
  define root where "root = pf_RootFingerprint (sn_Profile snapshot)"
  define locals where "locals = map_of (sn_Wallets snapshot)"
  define del where "del = {f. asked accountMutationDeleteWallet pending f}"
  define dev where "dev = apply_remote root (accountPendingInventoryFingerprints pending) (ms_Wallets remote) locals"
  have d: "dev = device_wallet root pending locals (ms_Wallets remote)"
    unfolding dev_def using assms(2) by (intro ext device_wallet_eq) (simp add: shared_inventory_def)
  have replay: "(\<exists>e'. rfold (replay locals del) pending dev = Inr e') \<longleftrightarrow> (\<forall>m \<in> set pending. can_replay locals del dev m)"
  proof (rule replays_ok)
    fix x assume "x \<in> set pending" "mu_Type x = accountMutationAddWallet" "mu_Fingerprint x \<noteq> ''''" "mu_Fingerprint x \<in> dom locals"
    then show "mu_Fingerprint x \<in> dom dev" by (auto simp: d device_wallet_def asked_def)
  qed
  have possible: "sync_possible (ms_Wallets remote) snapshot \<longleftrightarrow> root \<notin> del \<and> (\<forall>m \<in> set pending. can_replay locals del dev m)"
    by (simp add: sync_possible_def Let_def pending_def locals_def root_def del_def d)
  have b: "buildAccountManagedStateTarget visit remote snapshot = rbind (rfold (replay locals del) pending dev) (\<lambda>effective.
           if sync_changed remote snapshot effective = [] then Inr (remote, False)
           else rbind (rfold (update_target root del effective (ms_Revision remote + 1)) (visit (sync_changed remote snapshot effective))
                 (ms_Wallets remote))
             (\<lambda>wallets. Inr (remote\<lparr>ms_Revision := ms_Revision remote + 1, ms_Wallets := wallets\<rparr>, True)))"
    unfolding build_eq Let_def pending_def root_def locals_def del_def dev_def ..
  show ?thesis
  proof
    assume "\<exists>r. buildAccountManagedStateTarget visit remote snapshot = Inr r"
    then obtain t ch where r: "buildAccountManagedStateTarget visit remote snapshot = Inr (t, ch)" by auto
    have "root \<notin> del" using build_result(5) [OF assms(1,2) v r] by (simp add: root_def del_def pending_def)
    moreover have "\<exists>e'. rfold (replay locals del) pending dev = Inr e'" using r unfolding b rbind_eq_Inr by blast
    ultimately show "sync_possible (ms_Wallets remote) snapshot" using replay possible by blast
  next
    assume "sync_possible (ms_Wallets remote) snapshot"
    then have root: "root \<notin> del" and "\<exists>e'. rfold (replay locals del) pending dev = Inr e'" using replay possible by blast+
    then obtain effective where e: "rfold (replay locals del) pending dev = Inr effective" by blast
    have "\<exists>ws. rfold (update_target root del effective (ms_Revision remote + 1)) (visit (sync_changed remote snapshot effective))
                 (ms_Wallets remote) = Inr ws"
    proof (rule update_targets_ok)
      fix f assume "f \<in> set (visit (sync_changed remote snapshot effective))"
      then have "f \<in> accountPendingFingerprints pending \<or> effective f \<noteq> None"
        using v by (auto simp: sync_changed_def pending_def split: option.splits)
      then show "if f \<in> del then f \<noteq> root else effective f \<noteq> None"
        using root effective_after(2) [OF assms(1,2) e [unfolded pending_def locals_def del_def dev_def], of f]
        by (auto simp: del_def pending_def)
    qed
    then obtain ws where "rfold (update_target root del effective (ms_Revision remote + 1)) (visit (sync_changed remote snapshot effective))
                 (ms_Wallets remote) = Inr ws" by blast
    then show "\<exists>r. buildAccountManagedStateTarget visit remote snapshot = Inr r"
      by (cases "sync_changed remote snapshot effective = []") (auto simp: b e)
  qed
qed

lemma synced_canonical:
  assumes "local_inventory (map_of (sn_Wallets snapshot))" "shared_inventory (ms_Wallets remote)"
    and p: "sync_possible (ms_Wallets remote) snapshot" and s: "synced_wallet remote snapshot f = Some w" and "\<not> mw_Deleted w"
  shows "canonical_subs w"
proof -
  define pending where "pending = sn_Pending snapshot"
  define root where "root = pf_RootFingerprint (sn_Profile snapshot)"
  define locals where "locals = map_of (sn_Wallets snapshot)"
  have inv: "local_inventory locals" using assms(1) by (simp add: locals_def)
  consider (tomb) r where "w = tombstone f r"
    | (queued) local v r where "\<not> asked accountMutationDeleteWallet pending f" "locals f = Some local" "f \<noteq> ''''"
        "replayed pending local f (device_wallet root pending locals (ms_Wallets remote) f) = Some v" "w = stamp r v"
    | (new) l r where "locals f = Some l" "w = stamp r l" | (shared) "findManagedWallet (ms_Wallets remote) f = Some w"
    using s unfolding synced_wallet_def Let_def pending_def root_def locals_def pending_fingerprints
    by (fastforce split: if_splits option.splits)
  then show ?thesis
  proof cases
    case tomb
    then show ?thesis using assms(5) by (simp add: tombstone_def)
  next
    case queued
    have ed: "a < mw_AccountCount local" if a: "a \<in> edited pending f" for a
    proof -
      obtain m where m: "m \<in> set pending" "mu_Fingerprint m = f" "a = mu_Account m"
          "mu_Type m = accountMutationEnsureAccount \<or> mu_Type m = accountMutationMetadata"
        using a unfolding edited_def by blast
      then have "can_replay locals {f. asked accountMutationDeleteWallet pending f} (device_wallet root pending locals (ms_Wallets remote)) m"
        using p by (simp add: sync_possible_def Let_def pending_def root_def locals_def)
      then show ?thesis using m queued(1-3) types_distinct by (auto simp: can_replay_def)
    qed
    have l: "canonical_subs local" using inv queued(2) by (simp add: local_inventory_def)
    have "canonical_subs v"
    proof (cases "asked accountMutationAddWallet pending f")
      case True
      then show ?thesis using queued(4) l by (simp add: replayed_def)
    next
      case False
      then obtain u where u: "device_wallet root pending locals (ms_Wallets remote) f = Some u"
          "v = field_merge (asked accountMutationWalletName pending f) (edited pending f) local u"
        using queued(4) by (auto simp: replayed_def)
      show ?thesis unfolding u(2)
        by (rule field_merge_canonical [OF finite_edited ed l device_wallet_canonical [OF inv assms(2) u(1)]])
    qed
    then show ?thesis using queued(5) by simp
  next
    case new
    then show ?thesis using inv by (simp add: local_inventory_def)
  next
    case shared
    then show ?thesis using assms(2,5) by (auto simp: shared_inventory_def dest: find_Some)
  qed
qed


section \<open>Properties\<close>

text \<open>C6: Building the next shared state merges a device's queue into the remote state wallet by
  wallet.  A wallet with a queued deletion becomes a tombstone; a wallet added here is the local one;
  of a wallet with queued edits exactly the edited fields are local (its name, the sub-accounts that
  were touched) and all others remote, with as many sub-accounts as either side needs; any other
  wallet of the remote state stays as it is, and wallets only this device has are added.  The
  result holds every fingerprint once and lists the sub-accounts of every live wallet in order, the
  revision goes up by one exactly when there is something to write, and the root wallet is never
  asked to be deleted.\<close>

theorem sync_target:
  assumes "local_inventory (map_of (sn_Wallets snapshot))" "shared_inventory (ms_Wallets remote)"
    and "\<forall>ks. mset (visit ks) = mset ks"
    and "buildAccountManagedStateTarget visit remote snapshot = Inr (t, ch)"
  shows "(\<forall>f. findManagedWallet (ms_Wallets t) f = synced_wallet remote snapshot f)
    \<and> shared_inventory (ms_Wallets t)
    \<and> ms_Revision t = (if ch then ms_Revision remote + 1 else ms_Revision remote)
    \<and> (\<not> ch \<longrightarrow> t = remote)
    \<and> \<not> asked accountMutationDeleteWallet (sn_Pending snapshot) (pf_RootFingerprint (sn_Profile snapshot))"
proof -
  have v: "set (visit ks) = set ks" for ks using assms(3) by (metis set_mset_mset)
  note r = build_result [OF assms(1,2) v assms(4)]
  have "sync_possible (ms_Wallets remote) snapshot" using build_possible [OF assms(1,2) v] assms(4) by blast
  then have "shared_inventory (ms_Wallets t)"
    using r(1,2) synced_canonical [OF assms(1,2)] by (intro shared_inventoryI) auto
  moreover have "ms_Revision t = (if ch then ms_Revision remote + 1 else ms_Revision remote)"
    by (subst r(3)) simp
  ultimately show ?thesis using r(1,4,5) by blast
qed

text \<open>C16: When the next shared state can be built.  It is exactly when the root is not asked to be
  deleted and every queued edit is of a wallet the device still holds, that the remote state has not
  deleted, and of an account the wallet has; in every other case the call fails.\<close>

theorem sync_fails_only:
  assumes "local_inventory (map_of (sn_Wallets snapshot))" "shared_inventory (ms_Wallets remote)"
    and "\<forall>ks. mset (visit ks) = mset ks"
  shows "(\<exists>r. buildAccountManagedStateTarget visit remote snapshot = Inr r) \<longleftrightarrow> sync_possible (ms_Wallets remote) snapshot"
  using assms(3) by (intro build_possible [OF assms(1,2)]) (metis set_mset_mset)

text \<open>An edited wallet that another device deletes blocks the synchronisation.\<close>

lemma deleted_wallet_blocks:
  assumes "local_inventory (map_of (sn_Wallets snapshot))" "shared_inventory (ms_Wallets remote)"
    and v: "\<And>ks. set (visit ks) = set ks"
    and m: "m \<in> set (sn_Pending snapshot)" "mu_Type m = accountMutationWalletName" "mu_Fingerprint m = f" "f \<noteq> ''''"
      "f \<noteq> pf_RootFingerprint (sn_Profile snapshot)"
    and "\<not> asked accountMutationAddWallet (sn_Pending snapshot) f" "\<not> asked accountMutationDeleteWallet (sn_Pending snapshot) f"
    and "findManagedWallet (ms_Wallets remote) f = Some w" "mw_Deleted w"
  shows "\<exists>e. buildAccountManagedStateTarget visit remote snapshot = Inl e"
proof -
  have "\<not> sync_possible (ms_Wallets remote) snapshot"
    using assms(4-) types_distinct by (auto simp: sync_possible_def Let_def can_replay_def device_wallet_def intro!: bexI [of _ m])
  then show ?thesis
    using build_possible [OF assms(1,2) v] by (cases "buildAccountManagedStateTarget visit remote snapshot") blast+
qed

lemma sync_quiet:
  assumes "local_inventory (map_of (sn_Wallets snapshot))" "shared_inventory (ms_Wallets remote)"
    and "\<forall>ks. mset (visit ks) = mset ks"
    and "sn_Pending snapshot = []" "\<forall>f \<in> fst ` set (sn_Wallets snapshot). findManagedWallet (ms_Wallets remote) f \<noteq> None"
    and "\<forall>w \<in> set (ms_Wallets remote). mw_Fingerprint w = pf_RootFingerprint (sn_Profile snapshot) \<longrightarrow> \<not> mw_Deleted w"
  shows "buildAccountManagedStateTarget visit remote snapshot = Inr (remote, False)"
proof -
  let ?root = "pf_RootFingerprint (sn_Profile snapshot)" let ?locals = "map_of (sn_Wallets snapshot)"
  define dev where "dev = apply_remote ?root (accountPendingInventoryFingerprints []) (ms_Wallets remote) ?locals"
  have d: "dev = device_wallet ?root [] ?locals (ms_Wallets remote)"
    unfolding dev_def using assms(2) by (intro ext device_wallet_eq) (simp add: shared_inventory_def)
  have "managedWalletContentMatches w (findManagedWallet (ms_Wallets remote) f)" if w: "dev f = Some w" for f w
  proof (cases "findManagedWallet (ms_Wallets remote) f")
    case None
    then have "f \<notin> fst ` set (sn_Wallets snapshot)" using assms(5) by blast
    then have "?locals f = None" by (simp add: map_of_eq_None_iff)
    then show ?thesis using w None by (simp add: d device_wallet_def asked_def)
  next
    case (Some v)
    then have "v \<in> set (ms_Wallets remote)" "mw_Fingerprint v = f" by (auto dest: find_Some)
    then have "mw_Deleted v \<Longrightarrow> f \<noteq> ?root" using assms(6) by blast
    then show ?thesis using w Some
      by (auto simp: d device_wallet_def asked_def content_matches_self split: if_splits)
  qed
  then have "sync_changed remote snapshot dev = []"
    by (auto simp: sync_changed_def assms(4) accountPendingFingerprints_def filter_empty_conv split: option.splits)
  then show ?thesis unfolding build_eq Let_def assms(4) by (simp add: dev_def)
qed

text \<open>A device with an empty queue, whose wallets are all in the shared state and which still has
  its root there, writes nothing: synchronising again after a commit leaves the shared state as it
  is, whatever the order of the maps.\<close>

theorem sync_quiescent:
  assumes "local_inventory (map_of (sn_Wallets snapshot))" "shared_inventory (ms_Wallets remote)"
    and "\<forall>ks. mset (visit ks) = mset ks"
    and "sn_Pending snapshot = []" "\<forall>f \<in> fst ` set (sn_Wallets snapshot). findManagedWallet (ms_Wallets remote) f \<noteq> None"
    and "\<forall>w \<in> set (ms_Wallets remote). mw_Fingerprint w = pf_RootFingerprint (sn_Profile snapshot) \<longrightarrow> \<not> mw_Deleted w"
  shows "buildAccountManagedStateTarget visit remote snapshot = Inr (remote, False)"
  by (rule sync_quiet [OF assms])

section \<open>A concrete synchronisation\<close>

text \<open>
  Two devices share the wallets \<open>r\<close> (the root), \<open>c\<close> and \<open>d\<close>.  The other device renamed sub-account 0
  of \<open>c\<close> and added a third one; this device renamed \<open>c\<close>, edited its sub-account 1, deleted \<open>d\<close> and
  added \<open>n\<close>.
\<close>

definition demo_wallet :: "string \<Rightarrow> string \<Rightarrow> string list \<Rightarrow> ManagedWallet" where
  "demo_wallet fp name subs = \<lparr>mw_Fingerprint = fp, mw_Revision = 1, mw_Deleted = False, mw_Name = name, mw_Mnemonic = fp,
     mw_AccountCount = of_nat (length subs),
     mw_SubAccounts = map (\<lambda>i. \<lparr>sa_Index = of_nat i, sa_Name = subs ! i, sa_DID = ''''\<rparr>) [0..<length subs]\<rparr>"

definition demo_remote :: ManagedState where
  "demo_remote = \<lparr>ms_Version = 2, ms_RootFingerprint = ''r'', ms_Revision = 4, ms_DataRevision = 0, ms_DataHash = '''',
     ms_Wallets = [demo_wallet ''r'' ''Main'' [''A''], demo_wallet ''c'' ''Cold'' [''X'', ''B'', ''C''],
                   demo_wallet ''d'' ''Old'' [''A'']]\<rparr>"

definition demo_profile :: "accountManagementMutation list \<Rightarrow> accountManagementProfile" where
  "demo_profile pending = \<lparr>pf_Version = 1, pf_RootFingerprint = ''r'', pf_AccountID = ''a'', pf_PackageID = '''',
     pf_RecoveryMode = '''', pf_StorageMode = ''temporary'', pf_RecordTTL = 0, pf_AutopayContract = '''',
     pf_PublicLocator = '''', pf_LastRehearsalAt = 0, pf_SecretCipher = [], pf_SecretSalt = [], pf_DeviceID = [],
     pf_StateSeq = 4, pf_StateHash = '''', pf_StateEnvelope = [], pf_ManagedDataRevision = 0, pf_ManagedDataHash = '''',
     pf_ManagedDataEnvelope = [], pf_ManagedDataDirty = True, pf_ManagedDataGeneration = 1, pf_RecoveryConfigured = False,
     pf_Pending = pending\<rparr>"

definition demo_mutation :: "string \<Rightarrow> string \<Rightarrow> string \<Rightarrow> 32 word \<Rightarrow> accountManagementMutation" where
  "demo_mutation ident kind fp account =
     \<lparr>mu_ID = ident, mu_Type = kind, mu_Fingerprint = fp, mu_WalletID = 0, mu_Account = account, mu_Name = '''', mu_DID = ''''\<rparr>"

definition demo_pending :: "accountManagementMutation list" where
  "demo_pending = [demo_mutation ''1'' accountMutationWalletName ''c'' 0, demo_mutation ''2'' accountMutationMetadata ''c'' 1,
     demo_mutation ''3'' accountMutationDeleteWallet ''d'' 0, demo_mutation ''4'' accountMutationAddWallet ''n'' 0]"

definition demo_snapshot :: accountManagementSyncSnapshot where
  "demo_snapshot = \<lparr>sn_Profile = demo_profile demo_pending, sn_Password = ''p'',
     sn_Wallets = [(''r'', demo_wallet ''r'' ''Main'' [''A'']), (''c'', demo_wallet ''c'' ''Ice'' [''A'', ''Y'']),
                   (''n'', demo_wallet ''n'' ''New'' [''A''])],
     sn_Pending = demo_pending\<rparr>"

lemmas demo_defs = demo_remote_def demo_profile_def demo_snapshot_def demo_pending_def demo_mutation_def demo_wallet_def mutation_types

lemma demo_canonical: "length subs < 2 ^ 32 \<Longrightarrow> canonical_subs (demo_wallet fp name subs)"
  by (simp add: canonical_subs_def demo_wallet_def unsigned_of_nat take_bit_nat_eq_self)

lemma demo_local: "local_inventory (map_of (sn_Wallets demo_snapshot))"
  by (auto simp: local_inventory_def demo_snapshot_def demo_canonical split: if_splits) (simp_all add: demo_wallet_def)

lemma demo_shared: "shared_inventory (ms_Wallets demo_remote)"
  by (simp add: shared_inventory_def demo_remote_def demo_canonical) (simp add: demo_wallet_def)

definition demo_target :: ManagedState where
  "demo_target = demo_remote\<lparr>ms_Revision := 5, ms_Wallets := [demo_wallet ''r'' ''Main'' [''A''],
     (demo_wallet ''c'' ''Ice'' [''X'', ''Y'', ''C''])\<lparr>mw_Revision := 5\<rparr>, tombstone ''d'' 5,
     (demo_wallet ''n'' ''New'' [''A''])\<lparr>mw_Revision := 5\<rparr>]\<rparr>"

lemma demo_build: "buildAccountManagedStateTarget (\<lambda>ks. ks) demo_remote demo_snapshot = Inr (demo_target, True)"
  by code_simp

lemma sync_target_witness:
  "findManagedWallet (ms_Wallets demo_target) ''c'' = synced_wallet demo_remote demo_snapshot ''c''
   \<and> ms_Revision demo_target = 5"
  using sync_target [OF demo_local demo_shared _ demo_build] by (simp add: demo_remote_def)

lemma sync_fails_only_witness: "sync_possible (ms_Wallets demo_remote) demo_snapshot"
  using sync_fails_only [OF demo_local demo_shared, of "\<lambda>ks. ks"] demo_build by auto

lemma sync_quiescent_witness:
  "buildAccountManagedStateTarget rev demo_remote (demo_snapshot\<lparr>sn_Pending := [], sn_Wallets := take 2 (sn_Wallets demo_snapshot)\<rparr>)
    = Inr (demo_remote, False)"
proof (rule sync_quiescent)
  show "local_inventory (map_of (sn_Wallets (demo_snapshot\<lparr>sn_Pending := [], sn_Wallets := take 2 (sn_Wallets demo_snapshot)\<rparr>)))"
    by (auto simp: local_inventory_def demo_snapshot_def demo_canonical split: if_splits) (simp_all add: demo_wallet_def)
qed (rule demo_shared, simp_all add: demo_snapshot_def demo_remote_def findManagedWallet_def demo_wallet_def demo_profile_def)

end
