(* ===== verification/AccountCommit.thy ===== *)
theory AccountCommit
  imports WalletCatalog AccountSyncTarget
begin

text \<open>
  The commit of a shared state on a device (\<open>commitAccountManagedStateLocked\<close>), and the whole round of
  capturing, building and committing.
\<close>

section \<open>The commit\<close>

record managed_snapshot =
  md_Revision :: "64 word"
  md_Hash :: string
  md_Envelope :: "byte list"

text \<open>\<open>visit\<close> is the order in which \<open>range\<close> visits the map of wallets.\<close>

definition walletInfoByFingerprintInMap :: "crypto \<Rightarrow> 'w walletlib \<Rightarrow> ((int \<times> 'w WalletInfo) list \<Rightarrow> (int \<times> 'w WalletInfo) list)
    \<Rightarrow> (int \<times> 'w WalletInfo) list \<Rightarrow> string \<Rightarrow> (int \<times> 'w WalletInfo) option" where
  "walletInfoByFingerprintInMap C L visit wallets fp =
     find (\<lambda>(i, info). wi_Wallet info \<noteq> None \<and> infoFingerprint C L info = fp) (visit wallets)"

text \<open>\<open>info.AccountNames[sub.Index] = sub.Name\<close> over the sub-accounts.\<close>

definition sub_map :: "(SubAccount \<Rightarrow> string) \<Rightarrow> SubAccount list \<Rightarrow> (32 word \<rightharpoonup> string) option" where
  "sub_map field subs = Some (map_of (rev (map (\<lambda>s. (sa_Index s, field s)) subs)))"

definition newWalletInfoFromManagedWalletLocked :: "crypto \<Rightarrow> 'w walletlib \<Rightarrow> byte list \<Rightarrow> ManagedWallet \<Rightarrow> string
    \<Rightarrow> sync_error + 'w WalletInfo" where
  "newWalletInfoFromManagedWalletLocked C L salt remote password =
     (case fromMnemonic L (mw_Mnemonic remote) of
        None \<Rightarrow> Inl (ErrInvalidManagedWallet (mw_Fingerprint remote))
      | Some w \<Rightarrow>
          check (walletFingerprint C L (Some w) \<noteq> mw_Fingerprint remote) (ErrInvalidManagedWallet (mw_Fingerprint remote))
           (case sealSecret L salt password (mw_Mnemonic remote) of
              None \<Rightarrow> Inl ErrWalletSecret
            | Some (cipher, salt) \<Rightarrow>
                Inr \<lparr>wi_Id = GetId L w, wi_Mnemonic = cipher, wi_Salt = salt, wi_Accounts = uint (mw_AccountCount remote),
                     wi_Type = WALLET_TYPE_MNEMONIC, wi_Name = mw_Name remote,
                     wi_AccountNames = sub_map sa_Name (mw_SubAccounts remote),
                     wi_AccountDIDs = sub_map sa_DID (mw_SubAccounts remote), wi_Wallet = Some w\<rparr>))"

definition fill_info :: "ManagedWallet \<Rightarrow> 'w WalletInfo \<Rightarrow> 'w WalletInfo" where
  "fill_info remote info = info\<lparr>wi_Name := mw_Name remote, wi_Accounts := uint (mw_AccountCount remote),
     wi_AccountNames := sub_map sa_Name (mw_SubAccounts remote), wi_AccountDIDs := sub_map sa_DID (mw_SubAccounts remote)\<rparr>"

text \<open>The state of the loop: the cloned wallets, the wallets to write and the ids to delete.\<close>

record 'w commit_loop =
  cl_wallets :: "(int \<times> 'w WalletInfo) list"
  cl_puts :: "(int \<times> 'w WalletInfo) list"
  cl_deletes :: "int list"

definition commit_wallet :: "crypto \<Rightarrow> 'w walletlib \<Rightarrow> ((int \<times> 'w WalletInfo) list \<Rightarrow> (int \<times> 'w WalletInfo) list) \<Rightarrow> byte list
    \<Rightarrow> string \<Rightarrow> string \<Rightarrow> string set \<Rightarrow> ManagedWallet \<Rightarrow> 'w commit_loop \<Rightarrow> sync_error + 'w commit_loop" where
  "commit_wallet C L visit salt root password protected remote st =
     (let fp = mw_Fingerprint remote; local = walletInfoByFingerprintInMap C L visit (cl_wallets st) fp
      in if fp \<in> protected then Inr st
         else if mw_Deleted remote
         then (case local of
                 None \<Rightarrow> Inr st
               | Some (i, info) \<Rightarrow>
                   if fp = root then Inr st
                   else Inr (st\<lparr>cl_wallets := AList.delete (wi_Id info) (cl_wallets st),
                                cl_deletes := List.insert (wi_Id info) (cl_deletes st)\<rparr>))
         else rbind (case local of
                 Some (i, info) \<Rightarrow> Inr (i, info)
               | None \<Rightarrow>
                   rbind (newWalletInfoFromManagedWalletLocked C L salt remote password) (\<lambda>info.
                     check (case map_of (cl_wallets st) (wi_Id info) of None \<Rightarrow> False
                            | Some collision \<Rightarrow> infoFingerprint C L collision \<noteq> fp) ErrWalletCollision
                      (Inr (wi_Id info, info))))
              (\<lambda>(i, info). let info = fill_info remote info
                 in Inr (st\<lparr>cl_wallets := AList.update i info (cl_wallets st), cl_puts := AList.update (wi_Id info) info (cl_puts st)\<rparr>)))"

text \<open>The write batch: deletions, wallets, the status and the profile.\<close>

record 'w commit_batch =
  cb_deletes :: "int list"
  cb_puts :: "(int \<times> 'w WalletInfo) list"
  cb_TotalWallet :: int
  cb_CurrentWallet :: int
  cb_CurrentAccount :: "32 word"
  cb_profile :: accountManagementProfile

definition current_wallet :: "crypto \<Rightarrow> 'w walletlib \<Rightarrow> ((int \<times> 'w WalletInfo) list \<Rightarrow> (int \<times> 'w WalletInfo) list) \<Rightarrow> string
    \<Rightarrow> (int \<times> 'w WalletInfo) list \<Rightarrow> 'w Device \<Rightarrow> sync_error + (int \<times> 32 word \<times> 'w WalletInfo)" where
  "current_wallet C L visit root wallets dev =
     (case map_of wallets (dv_CurrentWallet dev) of
        Some current \<Rightarrow>
          Inr (dv_CurrentWallet dev, if dv_CurrentAccount dev \<ge> of_int (wi_Accounts current) then 0 else dv_CurrentAccount dev, current)
      | None \<Rightarrow>
          (case walletInfoByFingerprintInMap C L visit wallets root of
             None \<Rightarrow> Inl ErrRootUnavailable
           | Some (i, current) \<Rightarrow> Inr (wi_Id current, 0, current)))"

definition committed_profile :: "crypto \<Rightarrow> ManagedState \<Rightarrow> accountManagementSyncSnapshot \<Rightarrow> byte list \<Rightarrow> managed_snapshot option
    \<Rightarrow> accountManagementProfile \<Rightarrow> accountManagementProfile" where
  "committed_profile C state snapshot envelope managedData profile =
     (let remaining = pendingAfterCommittedSnapshot (pf_Pending profile) (sn_Pending snapshot);
          same = pf_ManagedDataGeneration profile = pf_ManagedDataGeneration (sn_Profile snapshot);
          profile = profile\<lparr>pf_RecordTTL := pf_RecordTTL (sn_Profile snapshot), pf_Pending := remaining,
            pf_StateSeq := ms_Revision state, pf_StateHash := hexEncode (sha256 C envelope), pf_StateEnvelope := envelope\<rparr>;
          profile = (case managedData of None \<Rightarrow> profile
            | Some m \<Rightarrow> profile\<lparr>pf_ManagedDataRevision := md_Revision m, pf_ManagedDataHash := md_Hash m,
                pf_ManagedDataEnvelope := md_Envelope m\<rparr>)
      in profile\<lparr>pf_ManagedDataDirty := (remaining \<noteq> [] \<or> \<not> same)\<rparr>)"

text \<open>The result tells whether entries remain in the queue and whether the managed data is unchanged since the snapshot.\<close>

definition commitAccountManagedStateLocked :: "crypto \<Rightarrow> 'w walletlib \<Rightarrow> ((int \<times> 'w WalletInfo) list \<Rightarrow> (int \<times> 'w WalletInfo) list)
    \<Rightarrow> byte list \<Rightarrow> ('w commit_batch \<Rightarrow> bool) \<Rightarrow> ManagedState \<Rightarrow> accountManagementSyncSnapshot \<Rightarrow> byte list
    \<Rightarrow> managed_snapshot option \<Rightarrow> 'w Device \<Rightarrow> (sync_error + (bool \<times> bool)) \<times> 'w Device" where
  "commitAccountManagedStateLocked C L visit salt flush state snapshot envelope managedData dev =
     (case dv_profile dev of
        None \<Rightarrow> (Inr (False, False), dev)
      | Some profile \<Rightarrow>
          if pf_AccountID profile \<noteq> pf_AccountID (sn_Profile snapshot) then (Inr (False, False), dev)
          else let remaining = pendingAfterCommittedSnapshot (pf_Pending profile) (sn_Pending snapshot);
                   protected = accountPendingFingerprints remaining; root = pf_RootFingerprint (sn_Profile snapshot)
          in case rbind (rfold (commit_wallet C L visit salt root (sn_Password snapshot) protected) (ms_Wallets state)
                       \<lparr>cl_wallets = dv_infos dev, cl_puts = [], cl_deletes = []\<rparr>) (\<lambda>st.
                     rbind (current_wallet C L visit root (cl_wallets st) dev) (\<lambda>(cw, ca, current).
                     let profile = committed_profile C state snapshot envelope managedData profile;
                         batch = \<lparr>cb_deletes = cl_deletes st, cb_puts = cl_puts st, cb_TotalWallet = int (length (cl_wallets st)),
                           cb_CurrentWallet = cw, cb_CurrentAccount = ca, cb_profile = profile\<rparr>
                     in check (\<not> flush batch) ErrBatch
                         (Inr (dev\<lparr>dv_infos := cl_wallets st, dv_TotalWallet := int (length (cl_wallets st)),
                            dv_CurrentWallet := cw, dv_CurrentAccount := ca, dv_profile := Some profile,
                            dv_wallet := wi_Wallet current, dv_sub := ca\<rparr>)))) of
               Inl e \<Rightarrow> (Inl e, dev)
             | Inr dev' \<Rightarrow> (Inr (remaining \<noteq> [],
                 pf_ManagedDataGeneration profile = pf_ManagedDataGeneration (sn_Profile snapshot)), dev'))"


section \<open>Inventories of wallets\<close>

definition inventory_ok :: "crypto \<Rightarrow> 'w walletlib \<Rightarrow> (int \<times> 'w WalletInfo) list \<Rightarrow> bool" where
  "inventory_ok C L ws \<longleftrightarrow> distinct (map fst ws)
     \<and> (\<forall>(i, info) \<in> set ws. wi_Id info = i \<and> wi_Wallet info \<noteq> None)
     \<and> (\<forall>(i, a) \<in> set ws. \<forall>(j, b) \<in> set ws. infoFingerprint C L a = infoFingerprint C L b \<longrightarrow> i = j)"

definition wallet_at :: "crypto \<Rightarrow> 'w walletlib \<Rightarrow> (int \<times> 'w WalletInfo) list \<Rightarrow> string \<Rightarrow> 'w WalletInfo option" where
  "wallet_at C L ws f = map_option snd (find (\<lambda>(i, info). infoFingerprint C L info = f) ws)"

lemma inventory_map_of:
  "inventory_ok C L ws \<longleftrightarrow> distinct (map fst ws)
     \<and> (\<forall>i info. map_of ws i = Some info \<longrightarrow> wi_Id info = i \<and> wi_Wallet info \<noteq> None)
     \<and> (\<forall>i j a b. map_of ws i = Some a \<longrightarrow> map_of ws j = Some b \<longrightarrow> infoFingerprint C L a = infoFingerprint C L b \<longrightarrow> i = j)"
proof (cases "distinct (map fst ws)")
  case True
  then have s: "set ws = {(i, a). map_of ws i = Some a}" by (auto simp: map_of_eq_Some_iff)
  show ?thesis unfolding inventory_ok_def s by auto
qed (simp add: inventory_ok_def)

lemma find_SomeD: "find P xs = Some x \<Longrightarrow> x \<in> set xs \<and> P x"
  by (auto simp: find_Some_iff)

lemma wallet_at_iff:
  assumes "inventory_ok C L ws"
  shows "wallet_at C L ws f = Some info \<longleftrightarrow> map_of ws (wi_Id info) = Some info \<and> infoFingerprint C L info = f"
proof
  assume "wallet_at C L ws f = Some info"
  then obtain i where i: "(i, info) \<in> set ws" "infoFingerprint C L info = f"
    by (auto simp: wallet_at_def dest: find_SomeD)
  then have "wi_Id info = i" using assms by (auto simp: inventory_ok_def)
  with i assms show "map_of ws (wi_Id info) = Some info \<and> infoFingerprint C L info = f"
    by (simp add: inventory_ok_def map_of_eq_Some_iff)
next
  assume r: "map_of ws (wi_Id info) = Some info \<and> infoFingerprint C L info = f"
  then have m: "(wi_Id info, info) \<in> set ws" by (auto dest: map_of_SomeD)
  then obtain p where p: "find (\<lambda>(i, info). infoFingerprint C L info = f) ws = Some p"
    using r by (cases "find (\<lambda>(i, info). infoFingerprint C L info = f) ws") (auto simp: find_None_iff)
  obtain j b where pj: "p = (j, b)" by (cases p)
  with find_SomeD [OF p] have b: "(j, b) \<in> set ws" "infoFingerprint C L b = f" by simp_all
  have "\<forall>(i, a) \<in> set ws. \<forall>(j, b) \<in> set ws. infoFingerprint C L a = infoFingerprint C L b \<longrightarrow> i = j"
    using assms by (simp add: inventory_ok_def)
  then have "wi_Id info = j" using b m r by blast
  then have "map_of ws j = Some b" "map_of ws j = Some info" using b(1) r assms by (simp_all add: inventory_ok_def)
  then have "snd p = info" by (simp add: pj)
  then show "wallet_at C L ws f = Some info" using p by (simp add: wallet_at_def)
qed

lemma wallet_at_None:
  assumes "inventory_ok C L ws"
  shows "wallet_at C L ws f = None \<longleftrightarrow> (\<forall>i info. map_of ws i = Some info \<longrightarrow> infoFingerprint C L info \<noteq> f)"
proof -
  have d: "distinct (map fst ws)" using assms by (simp add: inventory_ok_def)
  show ?thesis using d by (auto simp: wallet_at_def find_None_iff map_of_eq_Some_iff)
qed

lemma lookup_fingerprint:
  assumes ok: "inventory_ok C L ws" and v: "set (visit ws) = set ws"
  shows "walletInfoByFingerprintInMap C L visit ws f = map_option (\<lambda>info. (wi_Id info, info)) (wallet_at C L ws f)"
proof (cases "walletInfoByFingerprintInMap C L visit ws f")
  case None
  moreover have "wi_Wallet info \<noteq> None" if "(i, info) \<in> set ws" for i info
    using ok that by (auto simp: inventory_ok_def)
  ultimately have "\<forall>(i, info) \<in> set ws. infoFingerprint C L info \<noteq> f"
    using v by (fastforce simp: walletInfoByFingerprintInMap_def find_None_iff)
  then have "wallet_at C L ws f = None" by (auto simp: wallet_at_def find_None_iff)
  with None show ?thesis by simp
next
  case (Some p)
  then have p: "p \<in> set ws" "infoFingerprint C L (snd p) = f"
    using v by (auto simp: walletInfoByFingerprintInMap_def dest: find_SomeD)
  then have "wi_Id (snd p) = fst p" "map_of ws (fst p) = Some (snd p)"
    using ok by (auto simp: inventory_ok_def)
  then have "wallet_at C L ws f = Some (snd p)" using p wallet_at_iff [OF ok] by simp
  with Some \<open>wi_Id (snd p) = fst p\<close> show ?thesis by simp
qed

lemma fill_fingerprint [simp]: "infoFingerprint C L (fill_info remote info) = infoFingerprint C L info"
  "wi_Id (fill_info remote info) = wi_Id info" "wi_Wallet (fill_info remote info) = wi_Wallet info"
  by (simp_all add: fill_info_def infoFingerprint_def)


lemma inventory_unique:
  "inventory_ok C L ws \<Longrightarrow> map_of ws i = Some a \<Longrightarrow> map_of ws j = Some b \<Longrightarrow> infoFingerprint C L a = infoFingerprint C L b \<Longrightarrow> i = j"
  by (simp add: inventory_map_of)

lemma inventory_at: "inventory_ok C L ws \<Longrightarrow> map_of ws i = Some a \<Longrightarrow> wi_Id a = i \<and> wi_Wallet a \<noteq> None"
  by (simp add: inventory_map_of)

lemma wallet_at_eqI:
  assumes "inventory_ok C L ws" "inventory_ok C L ws'"
    and "\<And>i a. infoFingerprint C L a = f \<Longrightarrow> map_of ws i = Some a \<longleftrightarrow> map_of ws' i = Some a"
  shows "wallet_at C L ws f = wallet_at C L ws' f"
proof -
  have "wallet_at C L ws f = Some a \<longleftrightarrow> wallet_at C L ws' f = Some a" for a
    unfolding wallet_at_iff [OF assms(1)] wallet_at_iff [OF assms(2)] using assms(3) [of a "wi_Id a"] by blast
  then show ?thesis by (metis option.exhaust)
qed

lemma inventory_update:
  assumes ok: "inventory_ok C L ws" and info: "wi_Wallet info \<noteq> None"
    and here: "\<And>b. map_of ws (wi_Id info) = Some b \<Longrightarrow> infoFingerprint C L b = infoFingerprint C L info"
    and else: "wallet_at C L ws (infoFingerprint C L info) = None \<or> map_of ws (wi_Id info) \<noteq> None"
  shows "inventory_ok C L (AList.update (wi_Id info) info ws)"
    and "wallet_at C L (AList.update (wi_Id info) info ws) g = (if g = infoFingerprint C L info then Some info else wallet_at C L ws g)"
proof -
  let ?i = "wi_Id info" let ?ws = "AList.update ?i info ws"
  have m: "map_of ?ws = (map_of ws)(?i \<mapsto> info)" by (rule update_conv')
  have other: "j = ?i" if j: "map_of ws j = Some b" "infoFingerprint C L b = infoFingerprint C L info" for j b
  proof (cases "map_of ws ?i")
    case None
    then have "wallet_at C L ws (infoFingerprint C L info) = None" using else by simp
    then show ?thesis using j wallet_at_None [OF ok] by blast
  next
    case (Some c)
    then show ?thesis using inventory_unique [OF ok j(1) Some] here j(2) by simp
  qed
  have d: "distinct (map fst ?ws)" using ok by (simp add: inventory_ok_def distinct_update)
  show ok': "inventory_ok C L ?ws"
    unfolding inventory_map_of m
  proof (intro conjI allI impI d)
    fix i a assume a: "((map_of ws)(?i \<mapsto> info)) i = Some a"
    have "wi_Id a = i \<and> wi_Wallet a \<noteq> None"
    proof (cases "i = ?i")
      case False
      then show ?thesis using inventory_at [OF ok, of i a] a by simp
    qed (use a info in simp)
    then show "wi_Id a = i" "wi_Wallet a \<noteq> None" by blast+
  next
    fix i j a b
    assume a: "((map_of ws)(?i \<mapsto> info)) i = Some a" and b: "((map_of ws)(?i \<mapsto> info)) j = Some b"
      and e: "infoFingerprint C L a = infoFingerprint C L b"
    show "i = j"
    proof (cases "i = ?i")
      case True
      then show ?thesis using a b e other [of j b] by (cases "j = ?i") simp_all
    next
      case False
      then show ?thesis using a b e other [of i a] inventory_unique [OF ok, of i a j b] by (cases "j = ?i") simp_all
    qed
  qed
  show "wallet_at C L ?ws g = (if g = infoFingerprint C L info then Some info else wallet_at C L ws g)"
  proof (cases "g = infoFingerprint C L info")
    case True
    then have "wallet_at C L ?ws g = Some info" unfolding wallet_at_iff [OF ok'] m by simp
    then show ?thesis using True by simp
  next
    case False
    have "wallet_at C L ?ws g = wallet_at C L ws g"
    proof (rule wallet_at_eqI [OF ok' ok])
      fix i a assume g: "infoFingerprint C L a = g"
      show "map_of ?ws i = Some a \<longleftrightarrow> map_of ws i = Some a"
        using False g here [of a] by (cases "i = ?i") (auto simp: m)
    qed
    then show ?thesis using False by simp
  qed
qed

lemma inventory_delete:
  assumes ok: "inventory_ok C L ws" and info: "wallet_at C L ws f = Some info"
  shows "inventory_ok C L (AList.delete (wi_Id info) ws)"
    and "wallet_at C L (AList.delete (wi_Id info) ws) g = (if g = f then None else wallet_at C L ws g)"
proof -
  let ?ws = "AList.delete (wi_Id info) ws"
  have m: "map_of ?ws = (map_of ws)(wi_Id info := None)" by (rule delete_conv')
  have at: "map_of ws (wi_Id info) = Some info" "infoFingerprint C L info = f" using info by (simp_all add: wallet_at_iff [OF ok])
  have d: "distinct (map fst ?ws)" using ok by (simp add: inventory_ok_def distinct_delete)
  show ok': "inventory_ok C L ?ws"
    using d ok unfolding inventory_map_of m by (simp add: fun_upd_def)
  show "wallet_at C L ?ws g = (if g = f then None else wallet_at C L ws g)"
  proof (cases "g = f")
    case True
    have "wallet_at C L ?ws f = None"
      unfolding wallet_at_None [OF ok'] m
    proof (intro allI impI)
      fix i a assume a: "((map_of ws)(wi_Id info := None)) i = Some a"
      then have "i \<noteq> wi_Id info" "map_of ws i = Some a" by (auto split: if_splits)
      then show "infoFingerprint C L a \<noteq> f" using inventory_unique [OF ok _ at(1), of i a] at(2) by auto
    qed
    then show ?thesis using True by simp
  next
    case False
    have "wallet_at C L ?ws g = wallet_at C L ws g"
    proof (rule wallet_at_eqI [OF ok' ok])
      fix i a assume g: "infoFingerprint C L a = g"
      show "map_of ?ws i = Some a \<longleftrightarrow> map_of ws i = Some a"
        using False g at by (cases "i = wi_Id info") (auto simp: m)
    qed
    then show ?thesis using False by simp
  qed
qed


section \<open>One step of the commit\<close>

text \<open>The wallet an item of the shared state leaves at its fingerprint.\<close>

definition item_applied :: "crypto \<Rightarrow> 'w walletlib \<Rightarrow> byte list \<Rightarrow> string \<Rightarrow> string \<Rightarrow> ManagedWallet
    \<Rightarrow> 'w WalletInfo option \<Rightarrow> 'w WalletInfo option \<Rightarrow> bool" where
  "item_applied C L salt root password remote before after \<longleftrightarrow>
     (if mw_Deleted remote then after = (if mw_Fingerprint remote = root then before else None)
      else case before of
        Some info \<Rightarrow> after = Some (fill_info remote info)
      | None \<Rightarrow> (\<exists>info. newWalletInfoFromManagedWalletLocked C L salt remote password = Inr info
            \<and> after = Some (fill_info remote info)))"

definition batch_applied :: "'w commit_loop \<Rightarrow> (int \<rightharpoonup> 'w WalletInfo) \<Rightarrow> (int \<rightharpoonup> 'w WalletInfo)" where
  "batch_applied st m = (\<lambda>i. case map_of (cl_puts st) i of Some x \<Rightarrow> Some x
     | None \<Rightarrow> if i \<in> set (cl_deletes st) then None else m i)"

lemma new_info:
  "newWalletInfoFromManagedWalletLocked C L salt remote password = Inr info \<Longrightarrow>
     infoFingerprint C L info = mw_Fingerprint remote \<and> wi_Wallet info \<noteq> None"
  by (auto simp: newWalletInfoFromManagedWalletLocked_def infoFingerprint_def result_simps split: option.splits)

text \<open>The three outcomes of a step.\<close>

lemma commit_wallet_cases:
  assumes step: "commit_wallet C L visit salt root password protected remote st = Inr st'"
    and ok: "inventory_ok C L (cl_wallets st)" and v: "\<And>ws. set (visit ws) = set ws"
  obtains (same) "st' = st" "mw_Fingerprint remote \<in> protected \<or> mw_Deleted remote
      \<and> (wallet_at C L (cl_wallets st) (mw_Fingerprint remote) = None \<or> mw_Fingerprint remote = root)"
    | (deleted) info where "mw_Fingerprint remote \<notin> protected" "mw_Deleted remote" "mw_Fingerprint remote \<noteq> root"
      "wallet_at C L (cl_wallets st) (mw_Fingerprint remote) = Some info"
      "st' = st\<lparr>cl_wallets := AList.delete (wi_Id info) (cl_wallets st), cl_deletes := List.insert (wi_Id info) (cl_deletes st)\<rparr>"
    | (written) info where "mw_Fingerprint remote \<notin> protected" "\<not> mw_Deleted remote" "infoFingerprint C L info = mw_Fingerprint remote"
      "item_applied C L salt root password remote (wallet_at C L (cl_wallets st) (mw_Fingerprint remote)) (Some (fill_info remote info))"
      "wi_Wallet info \<noteq> None"
      "\<And>b. map_of (cl_wallets st) (wi_Id info) = Some b \<Longrightarrow> infoFingerprint C L b = infoFingerprint C L info"
      "wallet_at C L (cl_wallets st) (infoFingerprint C L info) = None \<or> map_of (cl_wallets st) (wi_Id info) \<noteq> None"
      "st' = st\<lparr>cl_wallets := AList.update (wi_Id info) (fill_info remote info) (cl_wallets st),
        cl_puts := AList.update (wi_Id info) (fill_info remote info) (cl_puts st)\<rparr>"
proof -
  let ?fp = "mw_Fingerprint remote" let ?at = "wallet_at C L (cl_wallets st) ?fp"
  have look: "walletInfoByFingerprintInMap C L visit (cl_wallets st) ?fp = map_option (\<lambda>info. (wi_Id info, info)) ?at"
    by (rule lookup_fingerprint [OF ok]) (rule v)
  show thesis
  proof (cases "?fp \<in> protected")
    case True
    then have "st' = st" using step by (simp add: commit_wallet_def Let_def)
    then show thesis using True by (intro same) simp_all
  next
    case free: False
    show thesis
    proof (cases "mw_Deleted remote")
      case del: True
      show thesis
      proof (cases "?at = None \<or> ?fp = root")
        case True
        then have "st' = st" using step free del by (auto simp: commit_wallet_def Let_def look split: option.splits)
        then show thesis using True del by (intro same) auto
      next
        case False
        then obtain info where i: "?at = Some info" by auto
        have "st' = st\<lparr>cl_wallets := AList.delete (wi_Id info) (cl_wallets st), cl_deletes := List.insert (wi_Id info) (cl_deletes st)\<rparr>"
          using step free del False i by (simp add: commit_wallet_def Let_def look)
        then show thesis using free del False i by (intro deleted [of info]) simp_all
      qed
    next
      case live: False
      show thesis
      proof (cases ?at)
        case (Some info)
        have at: "map_of (cl_wallets st) (wi_Id info) = Some info" "infoFingerprint C L info = ?fp"
          using Some by (simp_all add: wallet_at_iff [OF ok])
        have "st' = st\<lparr>cl_wallets := AList.update (wi_Id info) (fill_info remote info) (cl_wallets st),
            cl_puts := AList.update (wi_Id info) (fill_info remote info) (cl_puts st)\<rparr>"
          using step free live Some by (simp add: commit_wallet_def Let_def look)
        then show thesis using free live at Some inventory_at [OF ok at(1)]
          by (intro written [of info]) (simp_all add: item_applied_def)
      next
        case None
        then obtain info where n: "newWalletInfoFromManagedWalletLocked C L salt remote password = Inr info"
          and c: "\<not> (case map_of (cl_wallets st) (wi_Id info) of None \<Rightarrow> False | Some collision \<Rightarrow> infoFingerprint C L collision \<noteq> ?fp)"
          and s: "st' = st\<lparr>cl_wallets := AList.update (wi_Id info) (fill_info remote info) (cl_wallets st),
            cl_puts := AList.update (wi_Id info) (fill_info remote info) (cl_puts st)\<rparr>"
          using step free live by (auto simp: commit_wallet_def Let_def look result_simps)
        show thesis
          using free live new_info [OF n] c None n s by (intro written [of info]) (auto simp: item_applied_def)
      qed
    qed
  qed
qed


lemma commit_wallet_step:
  assumes step: "commit_wallet C L visit salt root password protected remote st = Inr st'"
    and ok: "inventory_ok C L (cl_wallets st)" and v: "\<And>ws. set (visit ws) = set ws"
  shows "inventory_ok C L (cl_wallets st')"
    and "g \<noteq> mw_Fingerprint remote \<or> g \<in> protected \<Longrightarrow> wallet_at C L (cl_wallets st') g = wallet_at C L (cl_wallets st) g"
    and "mw_Fingerprint remote \<notin> protected \<Longrightarrow> item_applied C L salt root password remote
        (wallet_at C L (cl_wallets st) (mw_Fingerprint remote)) (wallet_at C L (cl_wallets st') (mw_Fingerprint remote))"
proof -
  note cases = commit_wallet_cases [OF step ok v]
  let ?fp = "mw_Fingerprint remote"
  have all: "inventory_ok C L (cl_wallets st')
    \<and> (\<forall>g. g \<noteq> ?fp \<or> g \<in> protected \<longrightarrow> wallet_at C L (cl_wallets st') g = wallet_at C L (cl_wallets st) g)
    \<and> (?fp \<notin> protected \<longrightarrow> item_applied C L salt root password remote (wallet_at C L (cl_wallets st) ?fp) (wallet_at C L (cl_wallets st') ?fp))"
  proof (rule cases)
    assume "st' = st" "?fp \<in> protected \<or> mw_Deleted remote \<and> (wallet_at C L (cl_wallets st) ?fp = None \<or> ?fp = root)"
    then show ?thesis using ok by (auto simp: item_applied_def)
  next
    fix info
    assume a: "?fp \<notin> protected" "mw_Deleted remote" "?fp \<noteq> root" "wallet_at C L (cl_wallets st) ?fp = Some info"
      "st' = st\<lparr>cl_wallets := AList.delete (wi_Id info) (cl_wallets st), cl_deletes := List.insert (wi_Id info) (cl_deletes st)\<rparr>"
    show ?thesis using a inventory_delete [OF ok a(4)] by (auto simp: item_applied_def)
  next
    fix info
    assume a: "?fp \<notin> protected" "\<not> mw_Deleted remote" "infoFingerprint C L info = ?fp"
      and app: "item_applied C L salt root password remote (wallet_at C L (cl_wallets st) ?fp) (Some (fill_info remote info))"
      and u: "wi_Wallet info \<noteq> None" "\<And>b. map_of (cl_wallets st) (wi_Id info) = Some b \<Longrightarrow> infoFingerprint C L b = infoFingerprint C L info"
      "wallet_at C L (cl_wallets st) (infoFingerprint C L info) = None \<or> map_of (cl_wallets st) (wi_Id info) \<noteq> None"
      and st': "st' = st\<lparr>cl_wallets := AList.update (wi_Id info) (fill_info remote info) (cl_wallets st),
        cl_puts := AList.update (wi_Id info) (fill_info remote info) (cl_puts st)\<rparr>"
    have i: "inventory_ok C L (cl_wallets st')"
      "wallet_at C L (cl_wallets st') g = (if g = ?fp then Some (fill_info remote info) else wallet_at C L (cl_wallets st) g)" for g
      using inventory_update [OF ok, of "fill_info remote info"] u a(3) by (simp_all add: st')
    then show ?thesis using a app by auto
  qed
  show "inventory_ok C L (cl_wallets st')" using all by blast
  show "g \<noteq> ?fp \<or> g \<in> protected \<Longrightarrow> wallet_at C L (cl_wallets st') g = wallet_at C L (cl_wallets st) g" using all by blast
  show "?fp \<notin> protected \<Longrightarrow> item_applied C L salt root password remote
        (wallet_at C L (cl_wallets st) ?fp) (wallet_at C L (cl_wallets st') ?fp)" using all by blast
qed

text \<open>The loop changes the wallets as its deletions and writes, applied to the stored wallets, do.\<close>

definition batch_agrees :: "crypto \<Rightarrow> 'w walletlib \<Rightarrow> (int \<rightharpoonup> 'w WalletInfo) \<Rightarrow> string set \<Rightarrow> 'w commit_loop \<Rightarrow> bool" where
  "batch_agrees C L m seen st \<longleftrightarrow> map_of (cl_wallets st) = batch_applied st m
     \<and> (\<forall>i x. map_of (cl_puts st) i = Some x \<longrightarrow> infoFingerprint C L x \<in> seen)"

lemma commit_wallet_batch:
  assumes step: "commit_wallet C L visit salt root password protected remote st = Inr st'"
    and ok: "inventory_ok C L (cl_wallets st)" and v: "\<And>ws. set (visit ws) = set ws"
    and ag: "batch_agrees C L m seen st" and new: "mw_Fingerprint remote \<notin> seen"
  shows "batch_agrees C L m (insert (mw_Fingerprint remote) seen) st'"
proof (rule commit_wallet_cases [OF step ok v])
  assume "st' = st"
  then show ?thesis using ag by (auto simp: batch_agrees_def)
next
  fix info
  assume at: "wallet_at C L (cl_wallets st) (mw_Fingerprint remote) = Some info"
    and st': "st' = st\<lparr>cl_wallets := AList.delete (wi_Id info) (cl_wallets st), cl_deletes := List.insert (wi_Id info) (cl_deletes st)\<rparr>"
  let ?i = "wi_Id info"
  have i: "map_of (cl_wallets st) ?i = Some info" "infoFingerprint C L info = mw_Fingerprint remote"
    using at by (simp_all add: wallet_at_iff [OF ok])
  have p: "map_of (cl_puts st) ?i = None"
  proof (cases "map_of (cl_puts st) ?i")
    case (Some x)
    then have "map_of (cl_wallets st) ?i = Some x" "infoFingerprint C L x \<in> seen" using ag by (auto simp: batch_agrees_def batch_applied_def)
    then show ?thesis using i new by simp
  qed
  have "map_of (cl_wallets st') = (map_of (cl_wallets st))(?i := None)" by (simp add: st' delete_conv')
  also have "\<dots> = batch_applied st' m"
    using ag p by (auto simp: batch_agrees_def batch_applied_def st' fun_eq_iff split: option.splits)
  finally show ?thesis using ag by (auto simp: batch_agrees_def st')
next
  fix info
  assume fp: "infoFingerprint C L info = mw_Fingerprint remote"
    and st': "st' = st\<lparr>cl_wallets := AList.update (wi_Id info) (fill_info remote info) (cl_wallets st),
        cl_puts := AList.update (wi_Id info) (fill_info remote info) (cl_puts st)\<rparr>"
  have "map_of (cl_wallets st') = batch_applied st' m"
    using ag by (auto simp: batch_agrees_def batch_applied_def st' fun_eq_iff update_conv')
  moreover have "infoFingerprint C L x \<in> insert (mw_Fingerprint remote) seen" if "map_of (cl_puts st') i = Some x" for i x
    using that ag fp by (auto simp: batch_agrees_def st' update_conv' split: if_splits)
  ultimately show ?thesis by (simp add: batch_agrees_def)
qed

section \<open>The loop of the commit\<close>

lemma commit_loop:
  assumes "rfold (commit_wallet C L visit salt root password protected) remotes st = Inr st'"
    and "inventory_ok C L (cl_wallets st)" and v: "\<And>ws. set (visit ws) = set ws"
    and "batch_agrees C L m seen st" "distinct (map mw_Fingerprint remotes)" "seen \<inter> mw_Fingerprint ` set remotes = {}"
  shows "inventory_ok C L (cl_wallets st') \<and> map_of (cl_wallets st') = batch_applied st' m
    \<and> (case findManagedWallet remotes f of
         None \<Rightarrow> wallet_at C L (cl_wallets st') f = wallet_at C L (cl_wallets st) f
       | Some remote \<Rightarrow> if f \<in> protected then wallet_at C L (cl_wallets st') f = wallet_at C L (cl_wallets st) f
           else item_applied C L salt root password remote (wallet_at C L (cl_wallets st) f) (wallet_at C L (cl_wallets st') f))"
  using assms(1,2,4-)
proof (induction remotes arbitrary: st seen)
  case Nil
  then show ?case by (simp add: findManagedWallet_def batch_agrees_def)
next
  case (Cons remote remotes)
  let ?fp = "mw_Fingerprint remote"
  obtain s1 where step: "commit_wallet C L visit salt root password protected remote st = Inr s1"
    and rest: "rfold (commit_wallet C L visit salt root password protected) remotes s1 = Inr st'"
    using Cons.prems(1) by (auto simp: result_simps)
  note s = commit_wallet_step [OF step Cons.prems(2) v]
  have b: "batch_agrees C L m (insert ?fp seen) s1"
    using Cons.prems by (intro commit_wallet_batch [OF step Cons.prems(2) v Cons.prems(3)]) auto
  note IH = Cons.IH [OF rest s(1) b]
  have IH: "inventory_ok C L (cl_wallets st') \<and> map_of (cl_wallets st') = batch_applied st' m
    \<and> (case findManagedWallet remotes f of
         None \<Rightarrow> wallet_at C L (cl_wallets st') f = wallet_at C L (cl_wallets s1) f
       | Some remote \<Rightarrow> if f \<in> protected then wallet_at C L (cl_wallets st') f = wallet_at C L (cl_wallets s1) f
           else item_applied C L salt root password remote (wallet_at C L (cl_wallets s1) f) (wallet_at C L (cl_wallets st') f))"
    using Cons.prems(4,5) by (intro IH) auto
  show ?case
  proof (cases "?fp = f")
    case True
    then have "findManagedWallet remotes f = None" using Cons.prems(4) by (simp add: find_None)
    moreover have "findManagedWallet (remote # remotes) f = Some remote" using True by (simp add: findManagedWallet_def)
    ultimately show ?thesis using IH s(2) [of f] s(3) True by auto
  next
    case False
    then have "findManagedWallet (remote # remotes) f = findManagedWallet remotes f" by (simp add: findManagedWallet_def)
    moreover have "wallet_at C L (cl_wallets s1) f = wallet_at C L (cl_wallets st) f" using False by (intro s(2)) simp
    ultimately show ?thesis using IH by (cases "findManagedWallet remotes f") (auto split: if_splits)
  qed
qed


section \<open>What a commit does\<close>

definition write_batch :: "'w commit_batch \<Rightarrow> (int \<rightharpoonup> 'w WalletInfo) \<Rightarrow> (int \<rightharpoonup> 'w WalletInfo)" where
  "write_batch b m = (\<lambda>i. case map_of (cb_puts b) i of Some x \<Rightarrow> Some x | None \<Rightarrow> if i \<in> set (cb_deletes b) then None else m i)"

lemma commit_result:
  fixes dev dev' :: "'w Device"
  assumes p: "dv_profile dev = Some profile" "pf_AccountID profile = pf_AccountID (sn_Profile snapshot)"
    and ok: "inventory_ok C L (dv_infos dev)" and d: "distinct (map mw_Fingerprint (ms_Wallets state))"
    and v: "\<And>ws. set (visit ws) = set ws"
    and c: "commitAccountManagedStateLocked C L visit salt flush state snapshot envelope managedData dev = (Inr (left, same), dev')"
  defines "remaining \<equiv> pendingAfterCommittedSnapshot (pf_Pending profile) (sn_Pending snapshot)"
  shows "inventory_ok C L (dv_infos dev')"
    and "case findManagedWallet (ms_Wallets state) f of
        None \<Rightarrow> wallet_at C L (dv_infos dev') f = wallet_at C L (dv_infos dev) f
      | Some remote \<Rightarrow> if f \<in> accountPendingFingerprints remaining then wallet_at C L (dv_infos dev') f = wallet_at C L (dv_infos dev) f
          else item_applied C L salt (pf_RootFingerprint (sn_Profile snapshot)) (sn_Password snapshot) remote
            (wallet_at C L (dv_infos dev) f) (wallet_at C L (dv_infos dev') f)"
    and "dv_profile dev' = Some (committed_profile C state snapshot envelope managedData profile)"
    and "left \<longleftrightarrow> remaining \<noteq> []"
    and "\<exists>b. flush b \<and> write_batch b (map_of (dv_infos dev)) = map_of (dv_infos dev')
      \<and> Some (cb_profile b) = dv_profile dev' \<and> cb_TotalWallet b = dv_TotalWallet dev'
      \<and> cb_CurrentWallet b = dv_CurrentWallet dev' \<and> cb_CurrentAccount b = dv_CurrentAccount dev'"
    and "dv_secret dev' = dv_secret dev" "dv_password dev' = dv_password dev"
proof -
  let ?root = "pf_RootFingerprint (sn_Profile snapshot)"
  let ?st = "\<lparr>cl_wallets = dv_infos dev, cl_puts = [], cl_deletes = []\<rparr>"
  let ?profile = "committed_profile C state snapshot envelope managedData profile"
  obtain st cw ca and current :: "'w WalletInfo" where
    loop: "rfold (commit_wallet C L visit salt ?root (sn_Password snapshot) (accountPendingFingerprints remaining)) (ms_Wallets state) ?st = Inr st"
    and flush: "flush \<lparr>cb_deletes = cl_deletes st, cb_puts = cl_puts st, cb_TotalWallet = int (length (cl_wallets st)),
                           cb_CurrentWallet = cw, cb_CurrentAccount = ca, cb_profile = ?profile\<rparr>"
    and dev': "dev' = dev\<lparr>dv_infos := cl_wallets st, dv_TotalWallet := int (length (cl_wallets st)),
                            dv_CurrentWallet := cw, dv_CurrentAccount := ca, dv_profile := Some ?profile,
                            dv_wallet := wi_Wallet current, dv_sub := ca\<rparr>"
    and l: "left \<longleftrightarrow> remaining \<noteq> []"
  proof -
    have run: "rbind (rfold (commit_wallet C L visit salt ?root (sn_Password snapshot) (accountPendingFingerprints remaining)) (ms_Wallets state) ?st)
        (\<lambda>st. rbind (current_wallet C L visit ?root (cl_wallets st) dev) (\<lambda>(cw, ca, current).
           check (\<not> flush \<lparr>cb_deletes = cl_deletes st, cb_puts = cl_puts st, cb_TotalWallet = int (length (cl_wallets st)),
                           cb_CurrentWallet = cw, cb_CurrentAccount = ca, cb_profile = ?profile\<rparr>) ErrBatch
             (Inr (dev\<lparr>dv_infos := cl_wallets st, dv_TotalWallet := int (length (cl_wallets st)),
                            dv_CurrentWallet := cw, dv_CurrentAccount := ca, dv_profile := Some ?profile,
                            dv_wallet := wi_Wallet current, dv_sub := ca\<rparr>)))) = Inr dev'"
      and l: "left \<longleftrightarrow> remaining \<noteq> []"
      using c p unfolding commitAccountManagedStateLocked_def Let_def remaining_def by (auto split: sum.splits)
    obtain st where st: "rfold (commit_wallet C L visit salt ?root (sn_Password snapshot) (accountPendingFingerprints remaining)) (ms_Wallets state) ?st = Inr st"
      and run: "rbind (current_wallet C L visit ?root (cl_wallets st) dev) (\<lambda>(cw, ca, current).
           check (\<not> flush \<lparr>cb_deletes = cl_deletes st, cb_puts = cl_puts st, cb_TotalWallet = int (length (cl_wallets st)),
                           cb_CurrentWallet = cw, cb_CurrentAccount = ca, cb_profile = ?profile\<rparr>) ErrBatch
             (Inr (dev\<lparr>dv_infos := cl_wallets st, dv_TotalWallet := int (length (cl_wallets st)),
                            dv_CurrentWallet := cw, dv_CurrentAccount := ca, dv_profile := Some ?profile,
                            dv_wallet := wi_Wallet current, dv_sub := ca\<rparr>))) = Inr dev'"
      using run unfolding rbind_eq_Inr by blast
    obtain cw ca current where "current_wallet C L visit ?root (cl_wallets st) dev = Inr (cw, ca, current)"
      using run unfolding rbind_eq_Inr by (metis prod.collapse)
    with st l run show thesis by (intro that [of st cw ca current]) (simp_all add: result_simps)
  qed
  have b: "batch_agrees C L (map_of (dv_infos dev)) {} ?st" by (simp add: batch_agrees_def batch_applied_def)
  have r: "inventory_ok C L (cl_wallets st) \<and> map_of (cl_wallets st) = batch_applied st (map_of (dv_infos dev))
    \<and> (case findManagedWallet (ms_Wallets state) f of
         None \<Rightarrow> wallet_at C L (cl_wallets st) f = wallet_at C L (dv_infos dev) f
       | Some remote \<Rightarrow> if f \<in> accountPendingFingerprints remaining then wallet_at C L (cl_wallets st) f = wallet_at C L (dv_infos dev) f
           else item_applied C L salt ?root (sn_Password snapshot) remote (wallet_at C L (dv_infos dev) f) (wallet_at C L (cl_wallets st) f))" for f
    using commit_loop [OF loop _ v b d, unfolded commit_loop.select_convs, OF ok] by simp
  have di: "dv_infos dev' = cl_wallets st" by (simp add: dev')
  show "inventory_ok C L (dv_infos dev')" using r by (simp add: dev')
  show "case findManagedWallet (ms_Wallets state) f of
        None \<Rightarrow> wallet_at C L (dv_infos dev') f = wallet_at C L (dv_infos dev) f
      | Some remote \<Rightarrow> if f \<in> accountPendingFingerprints remaining then wallet_at C L (dv_infos dev') f = wallet_at C L (dv_infos dev) f
          else item_applied C L salt ?root (sn_Password snapshot) remote
            (wallet_at C L (dv_infos dev) f) (wallet_at C L (dv_infos dev') f)"
    using r [of f] unfolding di by blast
  show "dv_profile dev' = Some ?profile" "left \<longleftrightarrow> remaining \<noteq> []" "dv_secret dev' = dv_secret dev" "dv_password dev' = dv_password dev"
    using l by (simp_all add: dev')
  show "\<exists>b. flush b \<and> write_batch b (map_of (dv_infos dev)) = map_of (dv_infos dev')
      \<and> Some (cb_profile b) = dv_profile dev' \<and> cb_TotalWallet b = dv_TotalWallet dev'
      \<and> cb_CurrentWallet b = dv_CurrentWallet dev' \<and> cb_CurrentAccount b = dv_CurrentAccount dev'"
    using r [of f]
    by (intro exI [of _ "\<lparr>cb_deletes = cl_deletes st, cb_puts = cl_puts st, cb_TotalWallet = int (length (cl_wallets st)),
          cb_CurrentWallet = cw, cb_CurrentAccount = ca, cb_profile = ?profile\<rparr>"] conjI flush)
      (simp_all add: dev' write_batch_def batch_applied_def fun_eq_iff split: option.split)
qed

lemma commit_failure:
  "commitAccountManagedStateLocked C L visit salt flush state snapshot envelope managedData dev = (Inl e, dev') \<Longrightarrow> dev' = dev"
  by (auto simp: commitAccountManagedStateLocked_def Let_def split: option.splits if_splits sum.splits)

text \<open>
  C9: A commit applies the shared state where this device has nothing left to say, and nowhere else.  A
  wallet with a queued change that the committed snapshot did not hold, or that was changed since,
  stays exactly as it is, and so does a wallet the shared state does not mention; a live item brings
  name, accounts and sub-accounts of its wallet, creating the wallet if need be; a tombstone removes
  the wallet unless it is the root.  The batch written at once takes the stored wallets to the
  new ones, with the same profile and status, and a commit that fails changes nothing.
\<close>

theorem commit_applies:
  assumes "dv_profile dev = Some profile" "pf_AccountID profile = pf_AccountID (sn_Profile snapshot)"
    and "inventory_ok C L (dv_infos dev)" "distinct (map mw_Fingerprint (ms_Wallets state))"
    and "\<forall>ws. mset (visit ws) = mset ws"
    and "commitAccountManagedStateLocked C L visit salt flush state snapshot envelope managedData dev = (r, dev')"
  shows "(case r of Inl e \<Rightarrow> dev' = dev
    | Inr (left, same) \<Rightarrow>
        let remaining = pendingAfterCommittedSnapshot (pf_Pending profile) (sn_Pending snapshot)
        in inventory_ok C L (dv_infos dev')
         \<and> (\<forall>f. case findManagedWallet (ms_Wallets state) f of
              None \<Rightarrow> wallet_at C L (dv_infos dev') f = wallet_at C L (dv_infos dev) f
            | Some remote \<Rightarrow> if f \<in> accountPendingFingerprints remaining
                then wallet_at C L (dv_infos dev') f = wallet_at C L (dv_infos dev) f
                else item_applied C L salt (pf_RootFingerprint (sn_Profile snapshot)) (sn_Password snapshot) remote
                  (wallet_at C L (dv_infos dev) f) (wallet_at C L (dv_infos dev') f))
         \<and> map_option pf_Pending (dv_profile dev') = Some remaining \<and> (left \<longleftrightarrow> remaining \<noteq> [])
         \<and> (\<exists>b. flush b \<and> write_batch b (map_of (dv_infos dev)) = map_of (dv_infos dev')
              \<and> Some (cb_profile b) = dv_profile dev' \<and> cb_TotalWallet b = dv_TotalWallet dev'
              \<and> cb_CurrentWallet b = dv_CurrentWallet dev' \<and> cb_CurrentAccount b = dv_CurrentAccount dev'))"
proof (cases r)
  case (Inl e)
  then show ?thesis using commit_failure assms(6) by auto
next
  case (Inr ls)
  obtain left same where ls: "ls = (left, same)" by (cases ls)
  have v: "set (visit ws) = set ws" for ws using assms(5) by (metis set_mset_mset)
  have c: "commitAccountManagedStateLocked C L visit salt flush state snapshot envelope managedData dev = (Inr (left, same), dev')"
    using assms(6) Inr ls by simp
  note res = commit_result [OF assms(1-4) v c]
  have "map_option pf_Pending (dv_profile dev') = Some (pendingAfterCommittedSnapshot (pf_Pending profile) (sn_Pending snapshot))"
    unfolding res(3) by (simp add: committed_profile_def Let_def split: option.splits)
  then show ?thesis using res(1,2,4,5) unfolding Inr ls Let_def by simp
qed

end
