(* ===== verification/AccountStorage.thy ===== *)
theory AccountStorage
  imports AccountCommit ManagedDataSync
begin

text \<open>
  \<open>sdk/wallet/account_managed_data_sync.go\<close> and its neighbours: how the account state and the data of the
  modules are held in the records of the distributed store (DKVS), how they are read and checked against
  each other, and how the store is updated (\<open>dkvs_manager.go\<close>, \<open>dkvs/blob.go\<close>, \<open>dkvs/policy.go\<close>).
\<close>

section \<open>The store\<close>

datatype dkvs_error =
    DkvsRecordNotFound
  | DkvsWriteConflict
  | DkvsStaleGeneration
  | DkvsPathDiverged
  | DkvsInvalidSequence
  | DkvsInvalidRecord
  | DkvsRecordTooLarge
  | DkvsInvalidSignature
  | DkvsFreeLocalDisabled
  | DkvsPathNotSynced
  | DkvsUnregisteredKey string
  | DkvsInvalidState
  | DkvsStorageMode string
  | DkvsOther string

record dkvsValue =
  dk_Value :: "byte list"
  dk_TTL :: "64 word"
  dk_Hash :: string
  dk_FeeProof :: "byte list"

text \<open>\<open>mt_Autopay\<close> is the pool contract of the \<open>Autopay\<close> options, the only field that depends on the profile.\<close>

record dkvsValueMutation =
  mt_Key :: string
  mt_Value :: "byte list"
  mt_TTL :: "64 word"
  mt_FreeLocal :: bool
  mt_Autopay :: "string option"

text \<open>
  What the code uses of the packages \<open>dkvsindexer\<close> and \<open>swire\<close> and of a wallet object: keys, the mode and the
  pool contract of a fee proof, the largest value; and the key and the copies of the object.
\<close>

record 'w dkvslib =
  Clone :: "'w \<Rightarrow> 'w option"
  SetSubAccount :: "32 word \<Rightarrow> 'w \<Rightarrow> 'w"
  GetPubKey :: "'w \<Rightarrow> byte list option"
  PersonalKey :: "byte list \<Rightarrow> string \<Rightarrow> dkvs_error + string"
  CanonicalAccountID :: "byte list \<Rightarrow> dkvs_error + string"
  BlobKey :: "string \<Rightarrow> string \<Rightarrow> dkvs_error + string"
  ParseFeeProof :: "byte list \<Rightarrow> (nat \<times> string) option"
  FeeModeFreeLocal :: nat
  FeeModeAutopay :: nat
  MaxDKVSBlobValueSize :: nat

text \<open>
  The replica of the store on this device and the node behind it, of the type \<open>'r\<close>: \<open>confirmedRecord\<close>
  reads the replica, \<open>WaitReady\<close> and \<open>Refresh\<close> bring it up to date, \<open>verifyRecord\<close> checks the signature and
  the expiry of a record, and \<open>commitValues\<close> signs the new values and sends them to the node, each with the
  record it replaces as its precondition.
\<close>

record 'r dkvsReplica =
  storeError :: "'r \<Rightarrow> dkvs_error option"
  GetConfig :: "'r \<Rightarrow> dkvs_error + (bool \<times> 64 word)"
  Refresh :: "string list \<Rightarrow> 'r \<Rightarrow> dkvs_error option \<times> 'r"
  WaitReady :: "string list \<Rightarrow> 'r \<Rightarrow> dkvs_error option \<times> 'r"
  confirmedRecord :: "'r \<Rightarrow> string \<Rightarrow> dkvs_error + dkvsValue option"
  verifyRecord :: "'r \<Rightarrow> string \<Rightarrow> dkvsValue \<Rightarrow> dkvs_error option"
  commitValues :: "(dkvsValueMutation \<times> dkvsValue option) list \<Rightarrow> 'r \<Rightarrow> dkvs_error option \<times> 'r"
  rememberPaths :: "string list \<Rightarrow> 'r \<Rightarrow> 'r"

definition GetVerified :: "'r dkvsReplica \<Rightarrow> string \<Rightarrow> 'r \<Rightarrow> (dkvs_error + dkvsValue) \<times> 'r" where
  "GetVerified S key r =
     (case WaitReady S [key] r of
        (Some e, r) \<Rightarrow> (Inl e, r)
      | (None, r) \<Rightarrow>
          (rbind (confirmedRecord S r key) (\<lambda>record.
             case record of
               None \<Rightarrow> Inl DkvsRecordNotFound
             | Some value \<Rightarrow> (case verifyRecord S r key value of Some e \<Rightarrow> Inl e | None \<Rightarrow> Inr value)), r))"

text \<open>
  A read-modify-write: the builder sees the confirmed records of the keys.  The values it returns
  otherwise are not used by the callers here.
\<close>

definition updateValues :: "'r dkvsReplica \<Rightarrow> string list
    \<Rightarrow> ((string \<Rightarrow> dkvsValue option) \<Rightarrow> dkvs_error + dkvsValueMutation list) \<Rightarrow> 'r \<Rightarrow> dkvs_error option \<times> 'r" where
  "updateValues S keys builder r =
     (case WaitReady S keys r of
        (Some e, r) \<Rightarrow> (Some e, r)
      | (None, r) \<Rightarrow>
          (case rmap (confirmedRecord S r) keys of
             Inl e \<Rightarrow> (Some e, r)
           | Inr records \<Rightarrow>
               let current = (\<lambda>key. case map_of (zip keys records) key of None \<Rightarrow> None | Some value \<Rightarrow> value)
               in case builder current of
                    Inl e \<Rightarrow> (Some e, r)
                  | Inr values \<Rightarrow>
                      if values = [] then (None, r)
                      else (case find (\<lambda>value. mt_Key value \<notin> set keys) values of
                              Some value \<Rightarrow> (Some (DkvsUnregisteredKey (mt_Key value)), r)
                            | None \<Rightarrow> commitValues S (map (\<lambda>value. (value, current (mt_Key value))) values) r)))"

section \<open>Values of blobs\<close>

definition blobEnvelopeMagic :: "byte list" where "blobEnvelopeMagic = bytes_of ''DKB1''"

definition EncodeBlobValue :: "'w dkvslib \<Rightarrow> byte list \<Rightarrow> byte list \<Rightarrow> dkvs_error + byte list" where
  "EncodeBlobValue D data metadata =
     check (data = []) DkvsInvalidRecord
      (if metadata = [] then check (length data > MaxDKVSBlobValueSize D) DkvsRecordTooLarge (Inr data)
       else check (length metadata > 2 ^ 32 - 1) DkvsRecordTooLarge
        (let value = blobEnvelopeMagic @ rev (putUint32LE (of_nat (length metadata))) @ metadata @ data
         in check (length value > MaxDKVSBlobValueSize D) DkvsRecordTooLarge (Inr value)))"

definition DecodeBlobValue :: "byte list \<Rightarrow> dkvs_error + (byte list \<times> byte list)" where
  "DecodeBlobValue value =
     check (value = []) DkvsInvalidRecord
      (if length value < 8 \<or> take 4 value \<noteq> blobEnvelopeMagic then Inr (value, [])
       else let metadataSize = unat (uint32LE (rev (take 4 (drop 4 value))))
            in check (metadataSize = 0 \<or> metadataSize > length value - 8) DkvsInvalidRecord
                (check (drop (8 + metadataSize) value = []) DkvsInvalidRecord
                  (Inr (drop (8 + metadataSize) value, take metadataSize (drop 8 value)))))"

section \<open>Records and the storage policy of an account\<close>

definition AccountStorageTemporary :: string where "AccountStorageTemporary = ''temporary''"
definition AccountStoragePaid :: string where "AccountStoragePaid = ''paid''"

definition ApplyFreeLocalRetention :: "bool \<times> 64 word \<Rightarrow> dkvs_error + 64 word" where
  "ApplyFreeLocalRetention policy =
     (let (enabled, maxTTL) = policy
      in check (\<not> enabled) DkvsFreeLocalDisabled (check (maxTTL = 0) DkvsInvalidRecord (Inr maxTTL)))"

definition configureAccountTemporaryRetention :: "'r dkvsReplica \<Rightarrow> 'r \<Rightarrow> accountManagementProfile
    \<Rightarrow> dkvs_error + accountManagementProfile" where
  "configureAccountTemporaryRetention S r profile =
     (if pf_StorageMode profile \<noteq> AccountStorageTemporary then Inr profile
      else rbind (GetConfig S r) (\<lambda>policy. rbind (ApplyFreeLocalRetention policy) (\<lambda>ttl.
             Inr (profile\<lparr>pf_RecordTTL := ttl\<rparr>))))"

text \<open>\<open>strings.EqualFold\<close> on addresses, which are ASCII.\<close>

definition equalFold :: "string \<Rightarrow> string \<Rightarrow> bool" where
  "equalFold a b \<longleftrightarrow> toLower a = toLower b"

definition accountRecordMatchesStorage :: "'w dkvslib \<Rightarrow> dkvsValue option \<Rightarrow> accountManagementProfile \<Rightarrow> bool" where
  "accountRecordMatchesStorage D value profile =
     (case value of
        None \<Rightarrow> False
      | Some value \<Rightarrow>
          (case ParseFeeProof D (dk_FeeProof value) of
             None \<Rightarrow> False
           | Some (mode, poolContract) \<Rightarrow>
               if pf_StorageMode profile = AccountStorageTemporary
               then mode = FeeModeFreeLocal D \<and> dk_TTL value = pf_RecordTTL profile \<and> pf_RecordTTL profile \<noteq> 0
               else if pf_StorageMode profile = AccountStoragePaid
               then mode = FeeModeAutopay D \<and> dk_TTL value = 0
                 \<and> equalFold (trimSpace poolContract) (trimSpace (pf_AutopayContract profile))
               else False))"

definition accountStateMutation :: "accountManagementProfile \<Rightarrow> string \<Rightarrow> byte list \<Rightarrow> dkvs_error + dkvsValueMutation" where
  "accountStateMutation profile key value =
     check (key = '''' \<or> value = []) DkvsInvalidState
      (let mutation = \<lparr>mt_Key = key, mt_Value = value, mt_TTL = pf_RecordTTL profile, mt_FreeLocal = False, mt_Autopay = None\<rparr>
       in if pf_StorageMode profile = AccountStorageTemporary
          then check (pf_RecordTTL profile = 0) DkvsInvalidRecord (Inr (mutation\<lparr>mt_FreeLocal := True\<rparr>))
          else if pf_StorageMode profile = AccountStoragePaid
          then Inr (mutation\<lparr>mt_Autopay := Some (pf_AutopayContract profile)\<rparr>)
          else Inl (DkvsStorageMode (pf_StorageMode profile)))"

definition accountManagedDataMutation :: "'w dkvslib \<Rightarrow> accountManagementProfile \<Rightarrow> string \<Rightarrow> byte list
    \<Rightarrow> dkvs_error + dkvsValueMutation" where
  "accountManagedDataMutation D profile key envelope =
     rbind (EncodeBlobValue D envelope []) (\<lambda>value. accountStateMutation profile key value)"

definition accountManagementMutations :: "'w dkvslib \<Rightarrow> accountManagementProfile \<Rightarrow> string \<Rightarrow> byte list \<Rightarrow> string \<Rightarrow> byte list
    \<Rightarrow> bool \<Rightarrow> dkvs_error + dkvsValueMutation list" where
  "accountManagementMutations D profile stateKey stateEnvelope dataKey dataEnvelope writeData =
     rbind (accountStateMutation profile stateKey stateEnvelope) (\<lambda>stateMutation.
       if writeData
       then rbind (accountManagedDataMutation D profile dataKey dataEnvelope) (\<lambda>dataMutation. Inr [stateMutation, dataMutation])
       else Inr [stateMutation])"

section \<open>The data of the modules against the account state\<close>

datatype 'e round_error =
    RoundSync sync_error
  | RoundStore dkvs_error
  | RoundAccount account_error
  | RoundManaged "'e managed_error"
  | RoundMerge merge_error
  | ErrAccountWalletUnavailable
  | ErrStateUnavailable
  | ErrBlobUnavailable
  | ErrReferenceInconsistent
  | ErrReferenceMismatch
  | ErrLocalEnvelopeUnavailable
  | ErrLocalReferenceInconsistent
  | ErrDataRevisionOverflow
  | ErrStateRevisionOverflow
  | ErrStorageReadback
  | ErrBlobReadback

definition liftErr :: "('d \<Rightarrow> 'e) \<Rightarrow> 'd + 'a \<Rightarrow> 'e + 'a" where
  "liftErr f m = (case m of Inl e \<Rightarrow> Inl (f e) | Inr a \<Rightarrow> Inr a)"

lemma liftErr_Inl [simp]: "liftErr f (Inl e) = Inl (f e)"
  by (simp add: liftErr_def)

lemma liftErr_Inr [simp]: "liftErr f (Inr a) = Inr a"
  by (simp add: liftErr_def)

lemma liftErr_eq_Inr [result_simps]: "liftErr f m = Inr a \<longleftrightarrow> m = Inr a"
  by (cases m) (simp_all add: liftErr_def)

text \<open>The catalog of a snapshot is left out: it is replaced before its only use.\<close>

record accountManagedDataSnapshot =
  as_Bundle :: ManagedDataBundle
  as_Hash :: string
  as_Envelope :: "byte list"
  as_Compressed :: bool

definition shouldReuseRemoteManagedDataEnvelope :: "ManagedState \<Rightarrow> string \<Rightarrow> accountManagedDataSnapshot option \<Rightarrow> bool \<Rightarrow> bool" where
  "shouldReuseRemoteManagedDataEnvelope remoteState mergedHash remote compressionBeneficial \<longleftrightarrow>
     (case remote of
        None \<Rightarrow> False
      | Some remote \<Rightarrow> ms_DataRevision remoteState \<noteq> 0 \<and> ms_DataHash remoteState = mergedHash
          \<and> length (as_Envelope remote) \<noteq> 0 \<and> \<not> (compressionBeneficial \<and> \<not> as_Compressed remote))"

definition verifyAccountManagedDataReference :: "ManagedState \<Rightarrow> ManagedDataBundle \<Rightarrow> string \<Rightarrow> 'e round_error + unit" where
  "verifyAccountManagedDataReference state bundle expectedHash =
     (if ms_DataRevision state = 0
      then check (ms_DataHash state \<noteq> '''' \<or> mb_Items bundle \<noteq> []) ErrReferenceInconsistent (Inr ())
      else check (mb_Revision bundle \<noteq> ms_DataRevision state \<or> expectedHash = '''' \<or> ms_DataHash state \<noteq> expectedHash)
             ErrReferenceMismatch (Inr ()))"

definition openAccountManagedDataValue :: "crypto \<Rightarrow> byte list \<Rightarrow> string \<Rightarrow> dkvsValue option \<Rightarrow> ManagedState
    \<Rightarrow> 'e round_error + accountManagedDataSnapshot" where
  "openAccountManagedDataValue C secret accountID value state =
     (if ms_DataRevision state = 0
      then Inr \<lparr>as_Bundle = \<lparr>mb_Version = 1, mb_Revision = 1, mb_Items = []\<rparr>, as_Hash = '''', as_Envelope = [], as_Compressed = False\<rparr>
      else (case value of
              None \<Rightarrow> Inl ErrBlobUnavailable
            | Some value \<Rightarrow>
                rbind (liftErr RoundStore (DecodeBlobValue (dk_Value value))) (\<lambda>(data, _).
                rbind (liftErr RoundAccount (OpenManagedDataBundleWithInfo C secret accountID data)) (\<lambda>(bundle, compressed).
                rbind (liftErr RoundAccount (accountManagedDataContentHash C (mb_Items bundle))) (\<lambda>hash.
                rbind (verifyAccountManagedDataReference state bundle hash) (\<lambda>_.
                  Inr \<lparr>as_Bundle = bundle, as_Hash = hash, as_Envelope = data, as_Compressed = compressed\<rparr>))))))"

definition openProfileManagedDataBundle :: "crypto \<Rightarrow> accountManagementProfile \<Rightarrow> byte list
    \<Rightarrow> 'e round_error + ManagedDataBundle" where
  "openProfileManagedDataBundle C profile secret =
     (if pf_ManagedDataRevision profile = 0 then Inr (emptyAccountManagedDataBundle 1)
      else check (length (pf_ManagedDataEnvelope profile) = 0) ErrLocalEnvelopeUnavailable
       (rbind (liftErr RoundAccount (OpenManagedDataBundle C secret (pf_AccountID profile) (pf_ManagedDataEnvelope profile))) (\<lambda>bundle.
          case accountManagedDataContentHash C (mb_Items bundle) of
            Inl _ \<Rightarrow> Inl ErrLocalReferenceInconsistent
          | Inr hash \<Rightarrow>
              check (mb_Revision bundle \<noteq> pf_ManagedDataRevision profile \<or> hash \<noteq> pf_ManagedDataHash profile)
                ErrLocalReferenceInconsistent (Inr bundle))))"

end
