(* ===== verification/AccountRounds.thy ===== *)
theory AccountRounds
  imports AccountCommit
begin

text \<open>
  Whole rounds of the synchronisation: a device takes a snapshot, builds the next shared state from it
  and the remote one, and commits that state while the user may have changed the device in between.
\<close>

section \<open>The snapshot\<close>

lemma skip_seen_all:
  "distinct (map (infoFingerprint C L) infos) \<Longrightarrow> set (map (infoFingerprint C L) infos) \<inter> set seen = {} \<Longrightarrow>
     skip_seen C L seen infos = infos"
  by (induction infos arbitrary: seen) (auto simp: Let_def)

lemma inventory_fingerprints:
  assumes "inventory_ok C L ws"
  shows "distinct (map (infoFingerprint C L) (map snd (sort_key fst ws)))"
proof -
  have "distinct (map fst (sort_key fst ws))" using assms by (simp add: inventory_ok_def distinct_map)
  moreover have "(i, a) = (j, b)" if "(i, a) \<in> set ws" "(j, b) \<in> set ws" "infoFingerprint C L a = infoFingerprint C L b" for i j a b
  proof -
    have d: "distinct (map fst ws)" using assms by (simp add: inventory_ok_def)
    have m: "map_of ws i = Some a" "map_of ws j = Some b" using d that(1,2) by simp_all
    then have "i = j" using inventory_unique [OF assms] that(3) by blast
    then show ?thesis using m by simp
  qed
  then have "inj_on (\<lambda>p. infoFingerprint C L (snd p)) (set ws)" by (intro inj_onI) (metis prod.collapse)
  moreover have "distinct ws" using assms by (simp add: inventory_ok_def distinct_map)
  ultimately show ?thesis by (simp add: distinct_map comp_def inj_on_def)
qed

lemma captured:
  assumes c: "captureAccountManagementSyncSnapshotLocked C L dev = Inr (Some snapshot)"
    and ok: "inventory_ok C L (dv_infos dev)"
  shows "dv_profile dev = Some (sn_Profile snapshot)" "sn_Pending snapshot = pf_Pending (sn_Profile snapshot)"
    and "sn_Password snapshot = dv_password dev"
    and "map_of (sn_Wallets snapshot) f = Some w \<longleftrightarrow>
      (\<exists>info. wallet_at C L (dv_infos dev) f = Some info \<and> managedWalletFromInfoLocked C L info (dv_password dev) 1 = Inr w)"
    and "map_of (sn_Wallets snapshot) f = None \<longleftrightarrow> wallet_at C L (dv_infos dev) f = None"
proof -
  let ?infos = "map snd (sort_key fst (dv_infos dev))"
  let ?conv = "\<lambda>info. managedWalletFromInfoLocked C L info (dv_password dev) 1"
  obtain profile ws where p: "dv_profile dev = Some profile"
    and ws: "rmap ?conv (canonicalWalletInfosLocked C L dev) = Inr ws"
    and s: "snapshot = \<lparr>sn_Profile = profile, sn_Password = dv_password dev,
                        sn_Wallets = rev (map (\<lambda>w. (mw_Fingerprint w, w)) ws), sn_Pending = pf_Pending profile\<rparr>"
    using c by (auto simp: captureAccountManagementSyncSnapshotLocked_def result_simps split: option.splits if_splits)
  show "dv_profile dev = Some (sn_Profile snapshot)" "sn_Pending snapshot = pf_Pending (sn_Profile snapshot)"
    "sn_Password snapshot = dv_password dev" using p by (simp_all add: s)
  have infos: "canonicalWalletInfosLocked C L dev = ?infos"
    unfolding canonicalWalletInfosLocked_def by (rule skip_seen_all [OF inventory_fingerprints [OF ok]]) simp
  have len: "length ws = length ?infos" and nth: "\<And>k. k < length ?infos \<Longrightarrow> ?conv (?infos ! k) = Inr (ws ! k)"
    using rmap_length [OF ws] rmap_nth [OF ws] by (simp_all add: infos)
  have fp: "mw_Fingerprint w = infoFingerprint C L info" if "?conv info = Inr w" for info w
    using that by (auto simp: managedWalletFromInfoLocked_def result_simps split: option.splits)
  have "map mw_Fingerprint ws = map (infoFingerprint C L) ?infos"
    using len fp [OF nth] by (intro nth_equalityI) simp_all
  then have d: "distinct (map fst (sn_Wallets snapshot))"
    using inventory_fingerprints [OF ok] by (simp add: s rev_map [symmetric] comp_def)
  have in_ws: "w \<in> set ws \<longleftrightarrow> (\<exists>info \<in> set ?infos. ?conv info = Inr w)" for w
  proof
    assume "w \<in> set ws"
    then obtain k where "k < length ws" "w = ws ! k" by (auto simp: in_set_conv_nth)
    then have "?infos ! k \<in> set ?infos" "?conv (?infos ! k) = Inr w" using nth [of k] len nth_mem [of k ?infos] by metis+
    then show "\<exists>info \<in> set ?infos. ?conv info = Inr w" by blast
  next
    assume "\<exists>info \<in> set ?infos. ?conv info = Inr w"
    then obtain info where i: "info \<in> set ?infos" "?conv info = Inr w" by blast
    then obtain k where k: "k < length ?infos" "?infos ! k = info" by (metis in_set_conv_nth)
    then have "Inr w = (Inr (ws ! k) :: sync_error + ManagedWallet)" using nth [OF k(1)] i(2) by (simp only:)
    then show "w \<in> set ws" using k(1) len by simp
  qed
  have in_infos: "info \<in> set ?infos \<longleftrightarrow> map_of (dv_infos dev) (wi_Id info) = Some info" for info
    using ok by (force simp: inventory_ok_def)
  have at: "wallet_at C L (dv_infos dev) f = Some info \<longleftrightarrow> info \<in> set ?infos \<and> infoFingerprint C L info = f" for info f
    unfolding wallet_at_iff [OF ok] in_infos ..
  show some: "map_of (sn_Wallets snapshot) f = Some w \<longleftrightarrow>
      (\<exists>info. wallet_at C L (dv_infos dev) f = Some info \<and> ?conv info = Inr w)" for f w
  proof -
    have "(f, w) \<in> set (sn_Wallets snapshot) \<longleftrightarrow> w \<in> set ws \<and> mw_Fingerprint w = f" by (auto simp: s)
    then have mem: "(f, w) \<in> set (sn_Wallets snapshot)
        \<longleftrightarrow> (\<exists>info \<in> set ?infos. ?conv info = Inr w) \<and> mw_Fingerprint w = f" unfolding in_ws .
    show ?thesis unfolding map_of_eq_Some_iff [OF d] at mem
    proof
      assume "(\<exists>info \<in> set ?infos. ?conv info = Inr w) \<and> mw_Fingerprint w = f"
      then obtain info where i: "info \<in> set ?infos" "?conv info = Inr w" "mw_Fingerprint w = f" by blast
      then have "infoFingerprint C L info = f" using fp [OF i(2)] by (simp only:)
      with i show "\<exists>info. (info \<in> set ?infos \<and> infoFingerprint C L info = f) \<and> ?conv info = Inr w" by blast
    next
      assume "\<exists>info. (info \<in> set ?infos \<and> infoFingerprint C L info = f) \<and> ?conv info = Inr w"
      then obtain info where i: "info \<in> set ?infos" "infoFingerprint C L info = f" "?conv info = Inr w" by blast
      then have "mw_Fingerprint w = f" using fp [OF i(3)] by (simp only:)
      with i show "(\<exists>info \<in> set ?infos. ?conv info = Inr w) \<and> mw_Fingerprint w = f" by blast
    qed
  qed
  have "\<exists>w. ?conv info = Inr w" if i: "info \<in> set ?infos" for info
  proof -
    obtain k where k: "k < length ?infos" "?infos ! k = info" using i by (metis in_set_conv_nth)
    show ?thesis using nth [OF k(1)] unfolding k(2) by blast
  qed
  then have tot: "wallet_at C L (dv_infos dev) f = Some info \<Longrightarrow> \<exists>w. ?conv info = Inr w" for info f
    unfolding at by blast
  show "map_of (sn_Wallets snapshot) f = None \<longleftrightarrow> wallet_at C L (dv_infos dev) f = None"
  proof (cases "wallet_at C L (dv_infos dev) f")
    case None
    then show ?thesis using some [of f] by (cases "map_of (sn_Wallets snapshot) f") auto
  next
    case (Some info)
    then obtain w where "?conv info = Inr w" using tot by blast
    then have "map_of (sn_Wallets snapshot) f = Some w" unfolding some using Some by blast
    then show ?thesis using Some by simp
  qed
qed

lemma captured_local:
  assumes "captureAccountManagementSyncSnapshotLocked C L dev = Inr (Some snapshot)" "inventory_ok C L (dv_infos dev)"
  shows "local_inventory (map_of (sn_Wallets snapshot))"
  unfolding local_inventory_def
proof (intro allI impI)
  fix f w assume "map_of (sn_Wallets snapshot) f = Some w"
  then obtain info where i: "wallet_at C L (dv_infos dev) f = Some info"
      "managedWalletFromInfoLocked C L info (dv_password dev) 1 = Inr w"
    unfolding captured(4) [OF assms] by blast
  then have "infoFingerprint C L info = f" by (simp add: wallet_at_iff [OF assms(2)])
  then show "mw_Fingerprint w = f \<and> \<not> mw_Deleted w \<and> canonical_subs w"
    using i(2) by (auto simp: managedWalletFromInfoLocked_def result_simps canonical_subs_def accounts32_def split: option.splits)
qed

lemma captured_name:
  "managedWalletFromInfoLocked C L info password revision = Inr w \<Longrightarrow> mw_Name w = wi_Name info"
  by (auto simp: managedWalletFromInfoLocked_def result_simps split: option.splits)

lemma committed_all:
  assumes "distinct (map mu_ID pending)"
  shows "pendingAfterCommittedSnapshot pending pending = []"
proof -
  have "map_of (rev (map (\<lambda>m. (mu_ID m, m)) pending)) (mu_ID m) = Some m" if "m \<in> set pending" for m
  proof (rule map_of_is_SomeI)
    show "distinct (map fst (rev (map (\<lambda>m. (mu_ID m, m)) pending)))" using assms by (simp add: rev_map [symmetric] comp_def)
  qed (use that in simp)
  then show ?thesis by (auto simp: pendingAfterCommittedSnapshot_def Let_def filter_empty_conv)
qed


section \<open>A round without interference\<close>

lemma synced_keeps_locals:
  assumes "map_of (sn_Wallets snapshot) f \<noteq> None" "sync_possible (ms_Wallets remote) snapshot"
    and "local_inventory (map_of (sn_Wallets snapshot))"
  shows "synced_wallet remote snapshot f \<noteq> None"
proof -
  obtain l where l: "map_of (sn_Wallets snapshot) f = Some l" using assms(1) by blast
  let ?pending = "sn_Pending snapshot" let ?root = "pf_RootFingerprint (sn_Profile snapshot)"
  consider "asked accountMutationDeleteWallet ?pending f" | "f \<notin> accountPendingFingerprints ?pending"
    | m where "\<not> asked accountMutationDeleteWallet ?pending f" "m \<in> set ?pending" "mu_Fingerprint m = f" "f \<noteq> ''''"
    using pending_fingerprints by blast
  then show ?thesis
  proof cases
    case 3
    then have "can_replay (map_of (sn_Wallets snapshot)) {f. asked accountMutationDeleteWallet ?pending f}
        (device_wallet ?root ?pending (map_of (sn_Wallets snapshot)) (ms_Wallets remote)) m"
      using assms(2) by (simp add: sync_possible_def Let_def)
    moreover have "mu_Type m \<noteq> accountMutationDeleteWallet" using 3 by (auto simp: asked_def)
    ultimately have "asked accountMutationAddWallet ?pending f
        \<or> device_wallet ?root ?pending (map_of (sn_Wallets snapshot)) (ms_Wallets remote) f \<noteq> None"
      using 3 unfolding can_replay_def Let_def asked_def by blast
    then have "replayed ?pending l f (device_wallet ?root ?pending (map_of (sn_Wallets snapshot)) (ms_Wallets remote) f) \<noteq> None"
      by (auto simp: replayed_def)
    moreover have "f \<in> accountPendingFingerprints ?pending" using 3 pending_fingerprints by blast
    ultimately show ?thesis using 3(1) l by (simp add: synced_wallet_def Let_def)
  qed (use l in \<open>auto simp: synced_wallet_def Let_def asked_def pending_fingerprints split: option.splits\<close>)
qed

lemma synced_root_live:
  assumes "map_of (sn_Wallets snapshot) f \<noteq> None" "f = pf_RootFingerprint (sn_Profile snapshot)"
    and "\<not> asked accountMutationDeleteWallet (sn_Pending snapshot) f" "synced_wallet remote snapshot f = Some w"
  shows "\<not> mw_Deleted w"
  using assms by (auto simp: synced_wallet_def Let_def stamp_def split: if_splits option.splits)

lemma converges:
  fixes dev dev' :: "'w Device"
  assumes ok: "inventory_ok C L (dv_infos dev)" and sh: "shared_inventory (ms_Wallets remote)"
    and v: "\<And>ks. set (visit ks) = set ks" "\<And>ws. set (visits ws) = set ws"
    and cap: "captureAccountManagementSyncSnapshotLocked C L dev = Inr (Some snapshot)"
    and ids: "distinct (map mu_ID (sn_Pending snapshot))"
    and root: "wallet_at C L (dv_infos dev) (pf_RootFingerprint (sn_Profile snapshot)) \<noteq> None"
    and build: "buildAccountManagedStateTarget visit remote snapshot = Inr (t, ch)" and state: "ms_Wallets state = ms_Wallets t"
    and commit: "commitAccountManagedStateLocked C L visits salt flush state snapshot envelope managedData dev = (Inr (left, same), dev')"
    and cap': "captureAccountManagementSyncSnapshotLocked C L dev' = Inr (Some snapshot')"
  shows "wallet_at C L (dv_infos dev') f \<noteq> None \<longleftrightarrow> (\<exists>w. findManagedWallet (ms_Wallets state) f = Some w \<and> \<not> mw_Deleted w)"
    and "sn_Pending snapshot' = []" "\<not> left"
    and "(\<And>ks. mset (visit' ks) = mset ks) \<Longrightarrow> buildAccountManagedStateTarget visit' state snapshot' = Inr (state, False)"
proof -
  let ?root = "pf_RootFingerprint (sn_Profile snapshot)"
  note cp = captured [OF cap ok]
  have inv: "local_inventory (map_of (sn_Wallets snapshot))" by (rule captured_local [OF cap ok])
  note b = build_result [OF inv sh v(1) build]
  have possible: "sync_possible (ms_Wallets remote) snapshot" using build_possible [OF inv sh v(1)] build by blast
  have none: "pendingAfterCommittedSnapshot (pf_Pending (sn_Profile snapshot)) (sn_Pending snapshot) = []"
    unfolding cp(2) [symmetric] by (rule committed_all [OF ids])
  have d: "distinct (map mw_Fingerprint (ms_Wallets state))" using b(2) state by simp
  note r = commit_result [OF cp(1) refl ok d v(2) commit, unfolded none]
  have t: "shared_inventory (ms_Wallets state)"
    using b(1,2) synced_canonical [OF inv sh possible] state by (intro shared_inventoryI) auto
  have applied: "case findManagedWallet (ms_Wallets state) g of
        None \<Rightarrow> wallet_at C L (dv_infos dev') g = wallet_at C L (dv_infos dev) g
      | Some item \<Rightarrow> item_applied C L salt ?root (sn_Password snapshot) item (wallet_at C L (dv_infos dev) g) (wallet_at C L (dv_infos dev') g)" for g
  proof -
    have e: "accountPendingFingerprints [] = {}" by (simp add: accountPendingFingerprints_def)
    show ?thesis using r(2) [of g] unfolding e empty_iff if_False .
  qed
  have rootlive: "\<not> mw_Deleted w" if "findManagedWallet (ms_Wallets state) ?root = Some w" for w
    using that b(1) [of ?root] b(5) state cp(5) [of ?root] root by (intro synced_root_live) simp_all
  show live: "wallet_at C L (dv_infos dev') g \<noteq> None \<longleftrightarrow> (\<exists>w. findManagedWallet (ms_Wallets state) g = Some w \<and> \<not> mw_Deleted w)" for g
  proof (cases "findManagedWallet (ms_Wallets state) g")
    case None
    then have "synced_wallet remote snapshot g = None" using b(1) state by simp
    then have "wallet_at C L (dv_infos dev) g = None" using synced_keeps_locals [OF _ possible inv, of g] cp(5) [of g] by blast
    then show ?thesis using applied [of g] None by simp
  next
    case (Some w)
    then have "mw_Fingerprint w = g" by (simp add: find_Some)
    have a: "item_applied C L salt ?root (sn_Password snapshot) w (wallet_at C L (dv_infos dev) g) (wallet_at C L (dv_infos dev') g)"
      using applied [of g] unfolding Some option.case .
    show ?thesis
    proof (cases "mw_Deleted w")
      case True
      then have "g \<noteq> ?root" using rootlive [of w] Some by auto
      then have "wallet_at C L (dv_infos dev') g = None"
        using a True \<open>mw_Fingerprint w = g\<close> by (simp add: item_applied_def)
      then show ?thesis using Some True by simp
    next
      case False
      then have "wallet_at C L (dv_infos dev') g \<noteq> None"
        using a by (cases "wallet_at C L (dv_infos dev) g") (auto simp: item_applied_def)
      then show ?thesis using Some False by simp
    qed
  qed
  have p: "dv_profile dev' = Some (committed_profile C state snapshot envelope managedData (sn_Profile snapshot))" by (rule r(3))
  note cp' = captured [OF cap' r(1)]
  have prof: "sn_Profile snapshot' = committed_profile C state snapshot envelope managedData (sn_Profile snapshot)" using cp'(1) p by simp
  show pend: "sn_Pending snapshot' = []"
    unfolding cp'(2) prof by (simp add: committed_profile_def Let_def none split: option.splits)
  show "\<not> left" using r(4) by simp
  have root': "pf_RootFingerprint (sn_Profile snapshot') = ?root"
    unfolding prof by (simp add: committed_profile_def Let_def split: option.splits)
  show "buildAccountManagedStateTarget visit' state snapshot' = Inr (state, False)" if "\<And>ks. mset (visit' ks) = mset ks"
  proof (rule sync_quiet [OF captured_local [OF cap' r(1)] t])
    show "\<forall>f \<in> fst ` set (sn_Wallets snapshot'). findManagedWallet (ms_Wallets state) f \<noteq> None"
    proof
      fix f assume "f \<in> fst ` set (sn_Wallets snapshot')"
      then have "map_of (sn_Wallets snapshot') f \<noteq> None" by (simp add: map_of_eq_None_iff)
      then show "findManagedWallet (ms_Wallets state) f \<noteq> None" using cp'(5) [of f] live [of f] by auto
    qed
    show "\<forall>w \<in> set (ms_Wallets state). mw_Fingerprint w = pf_RootFingerprint (sn_Profile snapshot') \<longrightarrow> \<not> mw_Deleted w"
    proof (intro ballI impI)
      fix w assume w: "w \<in> set (ms_Wallets state)" "mw_Fingerprint w = pf_RootFingerprint (sn_Profile snapshot')"
      obtain u where u: "findManagedWallet (ms_Wallets state) (mw_Fingerprint w) = Some u"
        using w(1) find_None [of "ms_Wallets state" "mw_Fingerprint w"] by auto
      then have "u = w" using find_Some [OF u] w(1) d by (auto simp: distinct_map inj_on_def)
      then show "\<not> mw_Deleted w" using rootlive u w(2) root' by simp
    qed
  qed (use that pend in auto)
qed


section \<open>A change during a round\<close>

text \<open>
  A rename of a wallet that was just added is not queued: the entry that adds the wallet is meant to
  carry the latest name.  But the snapshot of a round under way holds the old one.
\<close>

lemma rename_not_queued:
  assumes i: "map_of (dv_infos dev) i = Some info" and p: "dv_profile dev = Some profile"
    and pending: "pf_Pending profile = ms @ [a]" "mu_Type a = accountMutationAddWallet" "mu_Fingerprint a = infoFingerprint C L info"
    and name: "trimSpace name \<noteq> ''''" "trimSpace (wi_Name info) \<noteq> trimSpace name" and save: "wsave (info\<lparr>wi_Name := trimSpace name\<rparr>)"
  shows "UpdateWalletName C L wsave psave fresh i name dev = (None, put_info i (info\<lparr>wi_Name := trimSpace name\<rparr>) dev)"
proof -
  have f: "infoFingerprint C L (info\<lparr>wi_Name := n\<rparr>) = infoFingerprint C L info" for n by (simp add: infoFingerprint_def)
  show ?thesis
    using assms types_distinct
    by (simp add: UpdateWalletName_def Let_def f enqueue_def queueAccountMutationLocked_def put_info_def)
qed

lemma rename_inventory:
  assumes ok: "inventory_ok C L (dv_infos dev)" and i: "map_of (dv_infos dev) i = Some info"
  shows "inventory_ok C L (dv_infos (put_info i (info\<lparr>wi_Name := n\<rparr>) dev))"
    and "wallet_at C L (dv_infos (put_info i (info\<lparr>wi_Name := n\<rparr>) dev)) (infoFingerprint C L info) = Some (info\<lparr>wi_Name := n\<rparr>)"
proof -
  have f: "infoFingerprint C L (info\<lparr>wi_Name := n\<rparr>) = infoFingerprint C L info" by (simp add: infoFingerprint_def)
  have w: "wi_Id info = i" "wi_Wallet info \<noteq> None" using inventory_at [OF ok i] by simp_all
  note u = inventory_update [OF ok, of "info\<lparr>wi_Name := n\<rparr>"]
  show "inventory_ok C L (dv_infos (put_info i (info\<lparr>wi_Name := n\<rparr>) dev))"
    using u(1) w i f by (simp add: put_info_def)
  show "wallet_at C L (dv_infos (put_info i (info\<lparr>wi_Name := n\<rparr>) dev)) (infoFingerprint C L info) = Some (info\<lparr>wi_Name := n\<rparr>)"
    using u(2) [of "infoFingerprint C L info"] w i f by (simp add: put_info_def)
qed

section \<open>Properties\<close>

text \<open>
  C4: A round without interference makes the device and the shared state agree.  When a device takes a
  snapshot, builds the next shared state from it and commits it, the device holds exactly the live
  wallets of the shared state, its queue is empty, and the next round has nothing to write, in
  whatever order maps are visited.
\<close>

theorem sync_converges:
  assumes "inventory_ok C L (dv_infos dev)" "shared_inventory (ms_Wallets remote)"
    and "\<forall>ks. mset (visit ks) = mset ks" "\<forall>ws. mset (visits ws) = mset ws" "\<forall>ks. mset (visit' ks) = mset ks"
    and "captureAccountManagementSyncSnapshotLocked C L dev = Inr (Some snapshot)" "distinct (map mu_ID (sn_Pending snapshot))"
    and "wallet_at C L (dv_infos dev) (pf_RootFingerprint (sn_Profile snapshot)) \<noteq> None"
    and "buildAccountManagedStateTarget visit remote snapshot = Inr (t, ch)" "ms_Wallets state = ms_Wallets t"
    and "commitAccountManagedStateLocked C L visits salt flush state snapshot envelope managedData dev = (Inr (left, same), dev')"
    and "captureAccountManagementSyncSnapshotLocked C L dev' = Inr (Some snapshot')"
  shows "(\<forall>f. wallet_at C L (dv_infos dev') f \<noteq> None \<longleftrightarrow> (\<exists>w. findManagedWallet (ms_Wallets state) f = Some w \<and> \<not> mw_Deleted w))
    \<and> sn_Pending snapshot' = [] \<and> \<not> left
    \<and> buildAccountManagedStateTarget visit' state snapshot' = Inr (state, False)"
proof -
  have v: "set (visit ks) = set ks" "set (visits ws) = set ws" for ks ws using assms(3,4) by (metis set_mset_mset)+
  show ?thesis
    using converges [OF assms(1,2) v assms(6-12)] assms(5) by blast
qed

text \<open>
  C20: A rename can be lost.  When the user renames a wallet whose addition is the newest entry of the queue
  while a round is under way, the rename is saved and reported as done; the commit of that round then
  gives the wallet its old name back and leaves the queue empty.
\<close>

theorem rename_lost:
  fixes dev dev2 :: "'w Device"
  assumes "inventory_ok C L (dv_infos dev)" "shared_inventory (ms_Wallets remote)"
    and "\<forall>ks. mset (visit ks) = mset ks" "\<forall>ws. mset (visits ws) = mset ws"
    and "captureAccountManagementSyncSnapshotLocked C L dev = Inr (Some snapshot)" "distinct (map mu_ID (sn_Pending snapshot))"
    and "buildAccountManagedStateTarget visit remote snapshot = Inr (t, ch)" "ms_Wallets state = ms_Wallets t"
    and "map_of (dv_infos dev) i = Some info" "infoFingerprint C L info \<noteq> ''''"
    and "sn_Pending snapshot = ms @ [a]" "mu_Type a = accountMutationAddWallet" "mu_Fingerprint a = infoFingerprint C L info"
    and "\<not> asked accountMutationDeleteWallet (sn_Pending snapshot) (infoFingerprint C L info)"
    and "trimSpace name \<noteq> ''''" "trimSpace (wi_Name info) \<noteq> trimSpace name" "\<forall>info. wsave info"
    and "UpdateWalletName C L wsave psave fresh i name dev = (e, dev1)"
    and "commitAccountManagedStateLocked C L visits salt flush state snapshot envelope managedData dev1 = (Inr (left, same), dev2)"
  shows "e = None \<and> map_option wi_Name (wallet_at C L (dv_infos dev1) (infoFingerprint C L info)) = Some (trimSpace name)
    \<and> map_option wi_Name (wallet_at C L (dv_infos dev2) (infoFingerprint C L info)) = Some (wi_Name info)
    \<and> map_option pf_Pending (dv_profile dev2) = Some []"
proof -
  let ?f = "infoFingerprint C L info" let ?profile = "sn_Profile snapshot"
  have v: "set (visit ks) = set ks" "set (visits ws) = set ws" for ks ws using assms(3,4) by (metis set_mset_mset)+
  note cp = captured [OF assms(5,1)]
  have inv: "local_inventory (map_of (sn_Wallets snapshot))" by (rule captured_local [OF assms(5,1)])
  note b = build_result [OF inv assms(2) v(1) assms(7)]
  have pend: "pf_Pending ?profile = ms @ [a]" using assms(11) cp(2) by simp
  have u: "e = None" "dev1 = put_info i (info\<lparr>wi_Name := trimSpace name\<rparr>) dev"
    using rename_not_queued [OF assms(9) cp(1) pend assms(12,13,15,16), of wsave psave fresh] assms(17,18) by auto
  note ri = rename_inventory [OF assms(1,9), of "trimSpace name", folded u(2)]
  have none: "pendingAfterCommittedSnapshot (pf_Pending ?profile) (sn_Pending snapshot) = []"
    unfolding cp(2) [symmetric] by (rule committed_all [OF assms(6)])
  have d: "distinct (map mw_Fingerprint (ms_Wallets state))" using b(2) assms(8) by simp
  have p1: "dv_profile dev1 = Some ?profile" using cp(1) by (simp add: u(2) put_info_def)
  note r = commit_result [OF p1 refl ri(1) d v(2) assms(19), unfolded none]
  have at: "wallet_at C L (dv_infos dev) ?f = Some info"
    using assms(9) inventory_at [OF assms(1,9)] by (simp add: wallet_at_iff [OF assms(1)])
  then obtain l where l: "map_of (sn_Wallets snapshot) ?f = Some l" using cp(5) [of ?f] by (cases "map_of (sn_Wallets snapshot) ?f") auto
  then have ln: "mw_Name l = wi_Name info" using cp(4) [of ?f l] at captured_name by auto
  have add: "asked accountMutationAddWallet (sn_Pending snapshot) ?f" using assms(10-13) by (auto simp: asked_def)
  then have "?f \<in> accountPendingFingerprints (sn_Pending snapshot)" by (auto simp: asked_def pending_fingerprints)
  then have "synced_wallet remote snapshot ?f = Some (stamp (ms_Revision remote + 1) l)"
    using assms(14) l add by (simp add: synced_wallet_def Let_def replayed_def)
  then have find: "findManagedWallet (ms_Wallets state) ?f = Some (stamp (ms_Revision remote + 1) l)" using b(1) assms(8) by simp
  have e0: "accountPendingFingerprints [] = {}" by (simp add: accountPendingFingerprints_def)
  have "item_applied C L salt (pf_RootFingerprint ?profile) (sn_Password snapshot) (stamp (ms_Revision remote + 1) l)
      (wallet_at C L (dv_infos dev1) ?f) (wallet_at C L (dv_infos dev2) ?f)"
    using r(2) [of ?f] unfolding find e0 empty_iff if_False option.case .
  then have "map_option wi_Name (wallet_at C L (dv_infos dev2) ?f) = Some (wi_Name info)"
    unfolding ri(2) by (simp add: item_applied_def stamp_def fill_info_def ln)
  moreover have "map_option pf_Pending (dv_profile dev2) = Some []"
    unfolding r(3) by (simp add: committed_profile_def Let_def none split: option.splits)
  ultimately show ?thesis using u(1) ri(2) by simp
qed

text \<open>
  A deletion whose queue entry could not be saved is reported as failed but stays queued in memory, and
  the next round deletes the wallet everywhere.
\<close>

lemma failed_deletion_queued:
  assumes "map_of (dv_infos dev) i = Some info" "dv_profile dev = Some profile" "1 < length (dv_infos dev)"
    and "\<not> isAccountManagementRootLocked C L dev info" "\<forall>p. \<not> psave p"
    and "infoFingerprint C L info \<noteq> ''''" "DeleteWallet C L wdelete psave ssave fresh i dev = (e, dev')"
  shows "e = Some ErrProfileStore \<and> dv_infos dev' = dv_infos dev
    \<and> (\<exists>p. dv_profile dev' = Some p \<and> asked accountMutationDeleteWallet (pf_Pending p) (infoFingerprint C L info))"
proof -
  have c: "coalesce m ms = Some None" if "mu_Type m = accountMutationDeleteWallet" for m ms
    using that types_distinct by (induction ms) (auto simp: same_metadata_def)
  show ?thesis
    using assms
    by (auto simp: DeleteWallet_def Let_def enqueue_def queueAccountMutationLocked_def c bumpGeneration_def asked_def)
qed


section \<open>A concrete round\<close>

text \<open>
  A wallet object is its mnemonic, the fingerprint its hexadecimal form.  The device holds the root
  \<open>r\<close>, a wallet \<open>cc\<close> that the other device renamed, and \<open>ddd\<close>, which it just added; the other device
  added \<open>eeee\<close>.
\<close>

definition demo_C :: crypto where
  "demo_C = \<lparr>hmacSHA256 = (\<lambda>k m. m), sha256 = (\<lambda>m. m), gcmSeal = (\<lambda>k n p a. p), gcmOpen = (\<lambda>k n p a. Some p),
     deflate = (\<lambda>x. x), inflate = Some, zlibPack = (\<lambda>x. x), zlibUnpack = Some\<rparr>"

definition demo_lib :: "string walletlib" where
  "demo_lib = \<lparr>GetNodePubKey = (\<lambda>w. Some (bytes_of w)), GetId = (\<lambda>w. int (length w)), fromMnemonic = Some,
     openSecret = (\<lambda>salt password cipher. Some (string_of cipher)), sealSecret = (\<lambda>salt password m. Some (bytes_of m, salt))\<rparr>"

definition demo_info :: "string \<Rightarrow> string \<Rightarrow> string WalletInfo" where
  "demo_info m name = \<lparr>wi_Id = int (length m), wi_Mnemonic = bytes_of m, wi_Salt = [], wi_Accounts = 1,
     wi_Type = WALLET_TYPE_MNEMONIC, wi_Name = name, wi_AccountNames = Some [0 \<mapsto> ''A''], wi_AccountDIDs = Some Map.empty,
     wi_Wallet = Some m\<rparr>"

definition demo_device :: "string Device" where
  "demo_device = \<lparr>dv_infos = [(1, demo_info ''r'' ''Main''), (2, demo_info ''cc'' ''Cold''), (3, demo_info ''ddd'' ''New'')],
     dv_TotalWallet = 3, dv_CurrentWallet = 3, dv_CurrentAccount = 0,
     dv_profile = Some ((demo_profile [demo_mutation ''1'' accountMutationAddWallet ''646464'' 0])\<lparr>pf_RootFingerprint := ''72''\<rparr>),
     dv_secret = replicate 32 0, dv_password = ''p'', dv_wallet = Some ''ddd'', dv_sub = 0\<rparr>"

definition demo_shared_state :: ManagedState where
  "demo_shared_state = demo_remote\<lparr>ms_Wallets := [(demo_wallet ''72'' ''Main'' [''A''])\<lparr>mw_Mnemonic := ''r''\<rparr>,
     (demo_wallet ''6363'' ''Ice'' [''A''])\<lparr>mw_Mnemonic := ''cc''\<rparr>, (demo_wallet ''65656565'' ''Far'' [''A''])\<lparr>mw_Mnemonic := ''eeee''\<rparr>]\<rparr>"

definition demo_captured :: accountManagementSyncSnapshot where
  "demo_captured = (case captureAccountManagementSyncSnapshotLocked demo_C demo_lib demo_device of Inr (Some s) \<Rightarrow> s | _ \<Rightarrow> demo_snapshot)"

definition demo_next :: ManagedState where
  "demo_next = demo_shared_state\<lparr>ms_Revision := 5, ms_Wallets := ms_Wallets demo_shared_state
     @ [(demo_wallet ''646464'' ''New'' [''A''])\<lparr>mw_Mnemonic := ''ddd'', mw_Revision := 5\<rparr>]\<rparr>"

definition demo_commit :: "string Device \<Rightarrow> (sync_error + (bool \<times> bool)) \<times> string Device" where
  "demo_commit = commitAccountManagedStateLocked demo_C demo_lib (\<lambda>ws. ws) [] (\<lambda>b. True) demo_next demo_captured [] None"

lemma demo_capture: "captureAccountManagementSyncSnapshotLocked demo_C demo_lib demo_device = Inr (Some demo_captured)"
  by code_simp

lemma demo_round: "buildAccountManagedStateTarget (\<lambda>ks. ks) demo_shared_state demo_captured = Inr (demo_next, True)"
  by code_simp

lemma demo_committed: "fst (demo_commit demo_device) = Inr (False, True)"
  by code_simp

definition demo_again :: accountManagementSyncSnapshot where
  "demo_again = (case captureAccountManagementSyncSnapshotLocked demo_C demo_lib (snd (demo_commit demo_device)) of
     Inr (Some s) \<Rightarrow> s | _ \<Rightarrow> demo_snapshot)"

lemma demo_recapture: "captureAccountManagementSyncSnapshotLocked demo_C demo_lib (snd (demo_commit demo_device)) = Inr (Some demo_again)"
  by code_simp


lemma demo_inventory: "inventory_ok demo_C demo_lib (dv_infos demo_device)"
  by code_simp

lemma demo_shared_inventory: "shared_inventory (ms_Wallets demo_shared_state)"
  by code_simp

lemma sync_converges_witness:
  "sn_Pending demo_again = [] \<and> buildAccountManagedStateTarget rev demo_next demo_again = Inr (demo_next, False)"
proof -
  have c: "commitAccountManagedStateLocked demo_C demo_lib (\<lambda>ws. ws) [] (\<lambda>b. True) demo_next demo_captured [] None demo_device
      = (Inr (False, True), snd (demo_commit demo_device))"
    using demo_committed by (simp add: demo_commit_def prod_eq_iff)
  have root: "wallet_at demo_C demo_lib (dv_infos demo_device) (pf_RootFingerprint (sn_Profile demo_captured)) \<noteq> None"
    "distinct (map mu_ID (sn_Pending demo_captured))" by code_simp+
  show ?thesis
    using sync_converges [OF demo_inventory demo_shared_inventory _ _ _ demo_capture root(2,1) demo_round refl c demo_recapture, of rev]
    by simp
qed

lemma commit_applies_witness:
  "map_option wi_Name (wallet_at demo_C demo_lib (dv_infos (snd (demo_commit demo_device))) ''6363'') = Some ''Ice''"
proof -
  have c: "commitAccountManagedStateLocked demo_C demo_lib (\<lambda>ws. ws) [] (\<lambda>b. True) demo_next demo_captured [] None demo_device
      = (Inr (False, True), snd (demo_commit demo_device))"
    using demo_committed by (simp add: demo_commit_def prod_eq_iff)
  have p: "dv_profile demo_device = Some (sn_Profile demo_captured)"
    by (rule captured(1) [OF demo_capture demo_inventory])
  have d: "distinct (map mw_Fingerprint (ms_Wallets demo_next))"
    "pendingAfterCommittedSnapshot (pf_Pending (sn_Profile demo_captured)) (sn_Pending demo_captured) = []"
    "findManagedWallet (ms_Wallets demo_next) ''6363'' = Some ((demo_wallet ''6363'' ''Ice'' [''A''])\<lparr>mw_Mnemonic := ''cc''\<rparr>)" by code_simp+
  have b: "wallet_at demo_C demo_lib (dv_infos demo_device) ''6363'' = Some (demo_info ''cc'' ''Cold'')"
    unfolding wallet_at_iff [OF demo_inventory]
    by (simp add: demo_device_def demo_info_def infoFingerprint_def walletFingerprint_def demo_lib_def demo_C_def) code_simp
  have "item_applied demo_C demo_lib [] (pf_RootFingerprint (sn_Profile demo_captured)) (sn_Password demo_captured)
      ((demo_wallet ''6363'' ''Ice'' [''A''])\<lparr>mw_Mnemonic := ''cc''\<rparr>) (Some (demo_info ''cc'' ''Cold''))
      (wallet_at demo_C demo_lib (dv_infos (snd (demo_commit demo_device))) ''6363'')"
    using commit_applies [OF p refl demo_inventory d(1) _ c] unfolding sum.case prod.case Let_def d(2)
    by (auto simp: d(3) b accountPendingFingerprints_def dest!: spec [of _ "''6363''"])
  then show ?thesis by (simp add: item_applied_def fill_info_def demo_wallet_def)
qed

lemma rename_lost_witness:
  "\<exists>dev1 dev2. UpdateWalletName demo_C demo_lib (\<lambda>w. True) (\<lambda>p. True) ''9'' 3 ''Mine'' demo_device = (None, dev1)
    \<and> map_option wi_Name (wallet_at demo_C demo_lib (dv_infos dev1) ''646464'') = Some ''Mine''
    \<and> snd (demo_commit dev1) = dev2 \<and> map_option wi_Name (wallet_at demo_C demo_lib (dv_infos dev2) ''646464'') = Some ''New''"
proof -
  define dev1 where "dev1 = snd (UpdateWalletName demo_C demo_lib (\<lambda>w. True) (\<lambda>p. True) ''9'' 3 ''Mine'' demo_device)"
  obtain e where u: "UpdateWalletName demo_C demo_lib (\<lambda>w. True) (\<lambda>p. True) ''9'' 3 ''Mine'' demo_device = (e, dev1)"
    by (simp add: dev1_def prod_eq_iff)
  have "fst (demo_commit dev1) = Inr (False, True)" unfolding dev1_def by code_simp
  then have c: "commitAccountManagedStateLocked demo_C demo_lib (\<lambda>ws. ws) [] (\<lambda>b. True) demo_next demo_captured [] None dev1
      = (Inr (False, True), snd (demo_commit dev1))"
    by (simp add: demo_commit_def prod_eq_iff)
  have i: "map_of (dv_infos demo_device) 3 = Some (demo_info ''ddd'' ''New'')" by (simp add: demo_device_def)
  have f: "infoFingerprint demo_C demo_lib (demo_info ''ddd'' ''New'') = ''646464''" by code_simp
  have n: "wi_Name (demo_info ''ddd'' ''New'') = ''New''" by (simp add: demo_info_def)
  have q: "sn_Pending demo_captured = [] @ [demo_mutation ''1'' accountMutationAddWallet ''646464'' 0]" by code_simp
  have t: "trimSpace ''Mine'' = ''Mine''" "trimSpace ''New'' = ''New''" by code_simp+
  have m: "mu_Type (demo_mutation ''1'' accountMutationAddWallet ''646464'' 0) = accountMutationAddWallet"
    "mu_Fingerprint (demo_mutation ''1'' accountMutationAddWallet ''646464'' 0) = ''646464''" by (simp_all add: demo_mutation_def)
  have a: "\<not> asked accountMutationDeleteWallet (sn_Pending demo_captured) ''646464''" unfolding q using m types_distinct by (simp add: asked_def)
  show ?thesis
    using rename_lost [OF demo_inventory demo_shared_inventory _ _ demo_capture _ demo_round refl i, of "\<lambda>ws. ws", unfolded f, OF _ _ _ _ q m a _ _ _ u c]
      u by (simp add: t n q)
qed

end
