(* ===== verification/AccountRound.thy ===== *)
theory AccountRound
  imports AccountStorage AccountRounds
begin

text \<open>
  \<open>syncAccountManagementState\<close> as a whole: reading the shared records, planning the next state and data,
  publishing them with a check that nobody wrote in between, committing them to this device, and the
  retries.  What other devices, the user and the modules do meanwhile is a parameter.
\<close>

section \<open>Reading the shared state\<close>

definition accountManagedStatePath :: string where "accountManagedStatePath = ''account/state''"
definition accountManagedDataBlobName :: string where "accountManagedDataBlobName = ''account-managed-data''"

definition accountManagedStateKey :: "'w dkvslib \<Rightarrow> 'w \<Rightarrow> 'e round_error + string" where
  "accountManagedStateKey D root =
     (case GetPubKey D root of
        None \<Rightarrow> Inl ErrAccountWalletUnavailable
      | Some key \<Rightarrow> liftErr RoundStore (PersonalKey D key accountManagedStatePath))"

definition AccountID :: "'w dkvslib \<Rightarrow> 'w option \<Rightarrow> dkvs_error + string" where
  "AccountID D wallet =
     (case Option.bind wallet (GetPubKey D) of
        None \<Rightarrow> Inl DkvsInvalidSignature
      | Some key \<Rightarrow> CanonicalAccountID D key)"

definition accountManagedDataBlobKey :: "'w dkvslib \<Rightarrow> 'w \<Rightarrow> 'e round_error + string" where
  "accountManagedDataBlobKey D root =
     liftErr RoundStore (rbind (AccountID D (Some root)) (\<lambda>accountID. BlobKey D accountID accountManagedDataBlobName))"

definition cloneWalletAtAccountZero :: "'w dkvslib \<Rightarrow> 'w option \<Rightarrow> 'w option" where
  "cloneWalletAtAccountZero D value = map_option (SetSubAccount D 0) (Option.bind value (Clone D))"

definition accountManagementCandidateRootLocked :: "'w dkvslib \<Rightarrow> 'w Device \<Rightarrow> 'e round_error + 'w WalletInfo" where
  "accountManagementCandidateRootLocked D dev =
     (case firstWalletLocked dev of
        None \<Rightarrow> Inl ErrAccountWalletUnavailable
      | Some root \<Rightarrow>
          check (wi_Wallet root = None \<or> wi_Type root \<noteq> WALLET_TYPE_MNEMONIC \<or> Option.bind (wi_Wallet root) (Clone D) = None)
            ErrAccountWalletUnavailable (Inr root))"

definition accountManagementRootWalletLocked :: "crypto \<Rightarrow> 'w walletlib \<Rightarrow> 'w Device \<Rightarrow> 'e round_error + 'w WalletInfo" where
  "accountManagementRootWalletLocked C L dev =
     (case dv_profile dev of
        None \<Rightarrow> Inl ErrAccountWalletUnavailable
      | Some profile \<Rightarrow>
          (case find (\<lambda>info. wi_Wallet info \<noteq> None \<and> infoFingerprint C L info = pf_RootFingerprint profile)
                  (canonicalWalletInfosLocked C L dev) of
             None \<Rightarrow> Inl ErrAccountWalletUnavailable
           | Some info \<Rightarrow> Inr info))"

definition accountManagementRootWallet :: "crypto \<Rightarrow> 'w walletlib \<Rightarrow> 'w dkvslib \<Rightarrow> 'w Device \<Rightarrow> 'e round_error + 'w" where
  "accountManagementRootWallet C L D dev =
     rbind (if dv_profile dev = None then accountManagementCandidateRootLocked D dev else accountManagementRootWalletLocked C L dev) (\<lambda>info.
       case cloneWalletAtAccountZero D (wi_Wallet info) of
         None \<Rightarrow> Inl ErrAccountWalletUnavailable
       | Some root \<Rightarrow> Inr root)"

definition accountKeys :: "crypto \<Rightarrow> 'w walletlib \<Rightarrow> 'w dkvslib \<Rightarrow> 'w Device \<Rightarrow> 'e round_error + (string \<times> string)" where
  "accountKeys C L D dev =
     rbind (accountManagementRootWallet C L D dev) (\<lambda>root.
     rbind (accountManagedStateKey D root) (\<lambda>stateKey.
     rbind (accountManagedDataBlobKey D root) (\<lambda>dataKey. Inr (stateKey, dataKey))))"

definition accountManagedDataCatalog :: "crypto \<Rightarrow> 'w walletlib \<Rightarrow> 'w dkvslib \<Rightarrow> string \<Rightarrow> 'w Device
    \<Rightarrow> 'e round_error + AccountManagedDataCatalog" where
  "accountManagedDataCatalog C L D chain dev =
     rbind (case dv_profile dev of
              Some profile \<Rightarrow> Inr (pf_AccountID profile)
            | None \<Rightarrow> rbind (accountManagementCandidateRootLocked D dev) (\<lambda>root.
                liftErr RoundStore (AccountID D (cloneWalletAtAccountZero D (wi_Wallet root))))) (\<lambda>accountID.
       Inr \<lparr>cat_AccountID = accountID, cat_Network = chain, cat_Scopes = sort_key scopeID
         (concat (map (\<lambda>info. map (\<lambda>index. \<lparr>sc_WalletID = wi_Id info, sc_WalletFingerprint = infoFingerprint C L info,
              sc_AccountIndex = of_nat index, sc_Network = chain\<rparr>) [0..<accounts32 info])
           (filter (\<lambda>info. wi_Wallet info \<noteq> None \<and> wi_Type info = WALLET_TYPE_MNEMONIC) (canonicalWalletInfosLocked C L dev))))\<rparr>)"

text \<open>The state a round starts from, its envelope, and whether it is the one this device committed last.\<close>

definition openRemoteState :: "crypto \<Rightarrow> (string \<Rightarrow> bool) \<Rightarrow> byte list \<Rightarrow> accountManagementProfile \<Rightarrow> dkvsValue option
    \<Rightarrow> 'e round_error + (ManagedState \<times> byte list \<times> bool)" where
  "openRemoteState C bip39 secret profile stateValue =
     (let open = (\<lambda>envelope. liftErr RoundAccount (OpenManagedState C bip39 secret (pf_AccountID profile) envelope))
      in rbind (case stateValue of
            None \<Rightarrow> check (length (pf_StateEnvelope profile) = 0) ErrStateUnavailable
              (rbind (open (pf_StateEnvelope profile)) (\<lambda>state. Inr (state, pf_StateEnvelope profile)))
          | Some value \<Rightarrow> rbind (open (dk_Value value)) (\<lambda>state. Inr (state, dk_Value value))) (\<lambda>(remoteState, envelope).
         if pf_StateSeq profile > ms_Revision remoteState \<and> length (pf_StateEnvelope profile) \<noteq> 0
         then rbind (open (pf_StateEnvelope profile)) (\<lambda>state. Inr (state, pf_StateEnvelope profile, True))
         else Inr (remoteState, envelope, False)))"

definition openRemoteData :: "crypto \<Rightarrow> byte list \<Rightarrow> accountManagementProfile \<Rightarrow> ManagedState \<Rightarrow> bool \<Rightarrow> dkvsValue option
    \<Rightarrow> ManagedDataBundle \<Rightarrow> 'e round_error + accountManagedDataSnapshot" where
  "openRemoteData C secret profile remoteState usingLocalState dataValue baseBundle =
     (if usingLocalState
      then Inr \<lparr>as_Bundle = baseBundle, as_Hash = pf_ManagedDataHash profile, as_Envelope = pf_ManagedDataEnvelope profile,
                as_Compressed = False\<rparr>
      else openAccountManagedDataValue C secret (pf_AccountID profile) dataValue remoteState)"

section \<open>Planning the next state\<close>

text \<open>The merged data, whether it has to be sealed anew, and the rest of the random source.\<close>

definition nextManagedData :: "crypto \<Rightarrow> (string list \<Rightarrow> string list) \<Rightarrow> byte list \<Rightarrow> accountManagementProfile \<Rightarrow> ManagedState
    \<Rightarrow> ManagedDataBundle \<Rightarrow> accountManagedDataSnapshot \<Rightarrow> ManagedDataBundle \<Rightarrow> AccountManagedDataCatalog \<Rightarrow> reader
    \<Rightarrow> 'e round_error + (accountManagedDataSnapshot \<times> bool \<times> reader)" where
  "nextManagedData C visit secret profile remoteState baseBundle remoteManaged localBundle targetCatalog random =
     (let maxDataRevision = pf_ManagedDataRevision profile;
          maxDataRevision = (if ms_DataRevision remoteState > maxDataRevision then ms_DataRevision remoteState else maxDataRevision);
          maxDataRevision = (if mb_Revision (as_Bundle remoteManaged) > maxDataRevision then mb_Revision (as_Bundle remoteManaged)
            else maxDataRevision);
          candidateRevision = maxDataRevision + 1
      in check (candidateRevision = 0) ErrDataRevisionOverflow
         (rbind (liftErr RoundMerge (mergeAccountManagedDataBundles visit baseBundle (as_Bundle remoteManaged) localBundle
              targetCatalog candidateRevision)) (\<lambda>mergedBundle.
          rbind (liftErr RoundAccount (accountManagedDataContentHash C (mb_Items mergedBundle))) (\<lambda>mergedHash.
          rbind (liftErr RoundAccount (ManagedDataBundleCompressionBeneficial C mergedBundle)) (\<lambda>compressionBeneficial.
            if shouldReuseRemoteManagedDataEnvelope remoteState mergedHash (Some remoteManaged) compressionBeneficial
            then rbind (liftErr RoundAccount (NormalizeManagedDataBundle (mergedBundle\<lparr>mb_Revision := ms_DataRevision remoteState\<rparr>))) (\<lambda>mergedBundle.
                   Inr (\<lparr>as_Bundle = mergedBundle, as_Hash = mergedHash, as_Envelope = as_Envelope remoteManaged,
                         as_Compressed = False\<rparr>, False, random))
            else rbind (liftErr RoundAccount (SealManagedDataBundleWithInfo C secret (pf_AccountID profile) mergedBundle random))
                   (\<lambda>(envelope, compressed, random).
                   Inr (\<lparr>as_Bundle = mergedBundle, as_Hash = mergedHash, as_Envelope = envelope, as_Compressed = compressed\<rparr>,
                        True, random)))))))"

text \<open>The next state, its envelope, whether it differs from the remote one, and the rest of the random source.\<close>

definition nextManagedState :: "crypto \<Rightarrow> (string \<Rightarrow> bool) \<Rightarrow> byte list \<Rightarrow> string \<Rightarrow> ManagedState \<Rightarrow> byte list \<Rightarrow> ManagedState \<Rightarrow> bool
    \<Rightarrow> accountManagedDataSnapshot \<Rightarrow> reader \<Rightarrow> 'e round_error + (ManagedState \<times> byte list \<times> bool \<times> reader)" where
  "nextManagedState C bip39 secret accountID remoteState remoteEnvelope target walletChanged finalManaged random =
     (let target = target\<lparr>ms_DataRevision := mb_Revision (as_Bundle finalManaged), ms_DataHash := as_Hash finalManaged\<rparr>;
          dataReferenceChanged = (ms_DataRevision target \<noteq> ms_DataRevision remoteState \<or> ms_DataHash target \<noteq> ms_DataHash remoteState);
          bump = (dataReferenceChanged \<and> \<not> walletChanged);
          target = (if bump then target\<lparr>ms_Revision := ms_Revision target + 1\<rparr> else target)
      in check (bump \<and> ms_Revision target = 0) ErrStateRevisionOverflow
         (if walletChanged \<or> dataReferenceChanged
          then rbind (liftErr RoundAccount (SealManagedState C bip39 secret accountID target random)) (\<lambda>(envelope, random).
                 Inr (target, envelope, True, random))
          else Inr (target, remoteEnvelope, False, random)))"

record round_plan =
  rp_Target :: ManagedState
  rp_Envelope :: "byte list"
  rp_Data :: accountManagedDataSnapshot
  rp_NeedsPublish :: bool
  rp_WriteData :: bool
  rp_StateHash :: string
  rp_DataHash :: string

definition recordHash :: "dkvsValue option \<Rightarrow> string" where
  "recordHash value = (case value of None \<Rightarrow> '''' | Some value \<Rightarrow> dk_Hash value)"

definition planRound :: "crypto \<Rightarrow> (string \<Rightarrow> bool) \<Rightarrow> 'w dkvslib \<Rightarrow> (string list \<Rightarrow> string list) \<Rightarrow> string \<Rightarrow> byte list \<Rightarrow> accountManagementProfile
    \<Rightarrow> dkvsValue option \<Rightarrow> dkvsValue option \<Rightarrow> ManagedState \<Rightarrow> byte list \<Rightarrow> bool \<Rightarrow> ManagedDataBundle \<Rightarrow> accountManagedDataSnapshot
    \<Rightarrow> ManagedState \<Rightarrow> bool \<Rightarrow> ManagedDataBundle \<Rightarrow> reader \<Rightarrow> 'e round_error + (round_plan \<times> reader)" where
  "planRound C bip39 D visit chain secret profile stateValue dataValue remoteState remoteEnvelope usingLocalState baseBundle
     remoteManaged target walletChanged localBundle random =
     rbind (nextManagedData C visit secret profile remoteState baseBundle remoteManaged localBundle
         (accountManagedDataCatalogFromState (pf_AccountID profile) chain target) random) (\<lambda>(finalManaged, dataChanged, random).
     rbind (nextManagedState C bip39 secret (pf_AccountID profile) remoteState remoteEnvelope target walletChanged finalManaged random)
         (\<lambda>(target, envelope, logicalStateChanged, random).
       let statePolicyMismatch = (\<not> accountRecordMatchesStorage D stateValue profile);
           dataPolicyMismatch = (\<not> accountRecordMatchesStorage D dataValue profile)
       in Inr (\<lparr>rp_Target = target, rp_Envelope = envelope, rp_Data = finalManaged,
            rp_NeedsPublish = (logicalStateChanged \<or> usingLocalState \<or> stateValue = None \<or> statePolicyMismatch
              \<or> dataValue = None \<or> dataPolicyMismatch),
            rp_WriteData = (dataChanged \<or> dataValue = None \<or> dataPolicyMismatch),
            rp_StateHash = recordHash stateValue, rp_DataHash = recordHash dataValue\<rparr>, random)))"

section \<open>Publishing\<close>

definition publishRound :: "'w dkvslib \<Rightarrow> 'r dkvsReplica \<Rightarrow> accountManagementProfile \<Rightarrow> string \<Rightarrow> string \<Rightarrow> round_plan \<Rightarrow> 'r
    \<Rightarrow> dkvs_error option \<times> 'r" where
  "publishRound D S profile stateKey dataKey plan r =
     (if \<not> rp_NeedsPublish plan then (None, r)
      else updateValues S [stateKey, dataKey] (\<lambda>current.
        check (recordHash (current stateKey) \<noteq> rp_StateHash plan \<or> recordHash (current dataKey) \<noteq> rp_DataHash plan) DkvsWriteConflict
          (accountManagementMutations D profile stateKey (rp_Envelope plan) dataKey (as_Envelope (rp_Data plan)) (rp_WriteData plan))) r)"

section \<open>Checks against the store\<close>

definition verifyAccountManagedStorage :: "'w dkvslib \<Rightarrow> 'r dkvsReplica \<Rightarrow> accountManagementProfile \<Rightarrow> string \<Rightarrow> string
    \<Rightarrow> byte list \<Rightarrow> byte list \<Rightarrow> 'r \<Rightarrow> 'e round_error option \<times> 'r" where
  "verifyAccountManagedStorage D S profile stateKey dataKey stateEnvelope dataEnvelope r =
     (case Refresh S [stateKey, dataKey] r of
        (Some e, r) \<Rightarrow> (Some (RoundStore e), r)
      | (None, r) \<Rightarrow>
     (case WaitReady S [stateKey, dataKey] r of
        (Some e, r) \<Rightarrow> (Some (RoundStore e), r)
      | (None, r) \<Rightarrow>
     (case GetVerified S stateKey r of
        (Inl e, r) \<Rightarrow> (Some (RoundStore e), r)
      | (Inr stateValue, r) \<Rightarrow>
     (case GetVerified S dataKey r of
        (Inl e, r) \<Rightarrow> (Some (RoundStore e), r)
      | (Inr dataValue, r) \<Rightarrow>
          if dk_Value stateValue \<noteq> stateEnvelope \<or> \<not> accountRecordMatchesStorage D (Some stateValue) profile
            \<or> \<not> accountRecordMatchesStorage D (Some dataValue) profile
          then (Some ErrStorageReadback, r)
          else (case DecodeBlobValue (dk_Value dataValue) of
                  Inl e \<Rightarrow> (Some ErrBlobReadback, r)
                | Inr (data, _) \<Rightarrow> (if data \<noteq> dataEnvelope then Some ErrBlobReadback else None, r))))))"

text \<open>The guard of operations that need the account's data to be published.\<close>

definition requireCurrentAccountManagedData :: "crypto \<Rightarrow> (string \<Rightarrow> bool) \<Rightarrow> 'w walletlib \<Rightarrow> 'w dkvslib \<Rightarrow> 'r dkvsReplica
    \<Rightarrow> 'w Device \<Rightarrow> 'r \<Rightarrow> 'e round_error option \<times> 'r" where
  "requireCurrentAccountManagedData C bip39 L D S dev r =
     (case dv_profile dev of
        None \<Rightarrow> (None, r)
      | Some profile \<Rightarrow>
          if pf_ManagedDataDirty profile \<or> pf_StateSeq profile = 0 \<or> pf_ManagedDataRevision profile = 0
          then (Some (RoundStore DkvsPathNotSynced), r)
          else (case accountKeys C L D dev of
                  Inl e \<Rightarrow> (Some e, r)
                | Inr (stateKey, dataKey) \<Rightarrow>
               (case storeError S r of
                  Some e \<Rightarrow> (Some (RoundStore e), r)
                | None \<Rightarrow>
               (case WaitReady S [stateKey, dataKey] r of
                  (Some e, r) \<Rightarrow> (Some (RoundStore e), r)
                | (None, r) \<Rightarrow>
               (case GetVerified S stateKey r of
                  (Inl e, r) \<Rightarrow> (Some (RoundStore e), r)
                | (Inr stateValue, r) \<Rightarrow>
               (case GetVerified S dataKey r of
                  (Inl e, r) \<Rightarrow> (Some (RoundStore e), r)
                | (Inr dataValue, r) \<Rightarrow>
                    if hexEncode (sha256 C (dk_Value stateValue)) \<noteq> pf_StateHash profile \<or> dk_Value stateValue \<noteq> pf_StateEnvelope profile
                    then (Some (RoundStore DkvsWriteConflict), r)
                    else (case DecodeBlobValue (dk_Value dataValue) of
                            Inl e \<Rightarrow> (Some (RoundStore DkvsWriteConflict), r)
                          | Inr (data, _) \<Rightarrow>
                              if data \<noteq> pf_ManagedDataEnvelope profile then (Some (RoundStore DkvsWriteConflict), r)
                              else (case OpenManagedState C bip39 (dv_secret dev) (pf_AccountID profile) (dk_Value stateValue) of
                                      Inl e \<Rightarrow> (Some (RoundStore DkvsWriteConflict), r)
                                    | Inr state \<Rightarrow>
                                        (if ms_DataRevision state \<noteq> pf_ManagedDataRevision profile
                                           \<or> ms_DataHash state \<noteq> pf_ManagedDataHash profile
                                         then Some (RoundStore DkvsWriteConflict) else None, r)))))))))"

section \<open>A round\<close>

text \<open>
  What a round works on: the device, the state of the modules, the replica of the store, the random source,
  and whether the background loop was woken.  The code outside it: cryptography, wallet objects, the store,
  the providers, the write batch of the data base, and the orders in which \<open>range\<close> visits maps.
\<close>

record ('w, 's, 'r) world =
  wo_device :: "'w Device"
  wo_modules :: 's
  wo_replica :: 'r
  wo_random :: reader
  wo_woken :: bool

record ('w, 's, 'e, 'r) platform =
  pl_crypto :: crypto
  pl_wallets :: "'w walletlib"
  pl_dkvs :: "'w dkvslib"
  pl_store :: "'r dkvsReplica"
  pl_bip39 :: "string \<Rightarrow> bool"
  pl_chain :: string
  pl_providers :: "('s, 'e) providers"
  pl_flush :: "'w commit_batch \<Rightarrow> bool"
  pl_salt :: "byte list"
  pl_visitKeys :: "string list \<Rightarrow> string list"
  pl_visitInfos :: "(int \<times> 'w WalletInfo) list \<Rightarrow> (int \<times> 'w WalletInfo) list"

text \<open>Steps that may fail and change the world, in sequence.\<close>

definition sbind :: "('x \<Rightarrow> ('e + 'a) \<times> 'x) \<Rightarrow> ('a \<Rightarrow> 'x \<Rightarrow> ('e + 'b) \<times> 'x) \<Rightarrow> 'x \<Rightarrow> ('e + 'b) \<times> 'x" where
  "sbind m f x = (case m x of (Inl e, x) \<Rightarrow> (Inl e, x) | (Inr a, x) \<Rightarrow> f a x)"

definition reading :: "('x \<Rightarrow> 'e + 'a) \<Rightarrow> 'x \<Rightarrow> ('e + 'a) \<times> 'x" where
  "reading f x = (f x, x)"

definition changing :: "('x \<Rightarrow> 'x) \<Rightarrow> 'x \<Rightarrow> ('e + unit) \<times> 'x" where
  "changing f x = (Inr (), f x)"

definition onReplica :: "('r \<Rightarrow> (dkvs_error + 'a) \<times> 'r) \<Rightarrow> ('w, 's, 'r) world \<Rightarrow> ('e round_error + 'a) \<times> ('w, 's, 'r) world" where
  "onReplica f w = (case f (wo_replica w) of (m, r) \<Rightarrow> (liftErr RoundStore m, w\<lparr>wo_replica := r\<rparr>))"

definition drawing :: "(reader \<Rightarrow> 'e + ('a \<times> reader)) \<Rightarrow> ('w, 's, 'r) world \<Rightarrow> ('e + 'a) \<times> ('w, 's, 'r) world" where
  "drawing f w = (case f (wo_random w) of Inl e \<Rightarrow> (Inl e, w) | Inr (a, random) \<Rightarrow> (Inr a, w\<lparr>wo_random := random\<rparr>))"

definition refreshReplica :: "'r dkvsReplica \<Rightarrow> string list \<Rightarrow> 'r \<Rightarrow> (dkvs_error + unit) \<times> 'r" where
  "refreshReplica S keys r = (case Refresh S keys r of (Some e, r) \<Rightarrow> (Inl e, r) | (None, r) \<Rightarrow> (Inr (), r))"

definition getOptional :: "'r dkvsReplica \<Rightarrow> string \<Rightarrow> 'r \<Rightarrow> (dkvs_error + dkvsValue option) \<times> 'r" where
  "getOptional S key r =
     (case GetVerified S key r of
        (Inr value, r) \<Rightarrow> (Inr (Some value), r)
      | (Inl e, r) \<Rightarrow> (if e = DkvsRecordNotFound then Inr None else Inl e, r))"

text \<open>
  What a round read: the snapshot with the retention of its profile, the secret, the keys, the records,
  the remote state with its envelope, and the data of the profile and of the store.
\<close>

record round_input =
  ri_Snapshot :: accountManagementSyncSnapshot
  ri_Secret :: "byte list"
  ri_StateKey :: string
  ri_DataKey :: string
  ri_StateValue :: "dkvsValue option"
  ri_DataValue :: "dkvsValue option"
  ri_RemoteState :: ManagedState
  ri_RemoteEnvelope :: "byte list"
  ri_UsingLocalState :: bool
  ri_BaseBundle :: ManagedDataBundle
  ri_RemoteManaged :: accountManagedDataSnapshot

text \<open>The result is \<open>None\<close> when the account is not active on this device, and the round has nothing to do.\<close>

definition readRound :: "('w, 's, 'e, 'r) platform \<Rightarrow> (('w, 's, 'r) world \<Rightarrow> ('w, 's, 'r) world) \<Rightarrow> ('w, 's, 'r) world
    \<Rightarrow> ('e round_error + round_input option) \<times> ('w, 's, 'r) world" where
  "readRound P meanwhile =
     sbind (reading (\<lambda>w. liftErr RoundSync (captureAccountManagementSyncSnapshotLocked (pl_crypto P) (pl_wallets P) (wo_device w)))) (\<lambda>captured.
       case captured of
         None \<Rightarrow> reading (\<lambda>w. Inr None)
       | Some snapshot \<Rightarrow>
           sbind (reading (\<lambda>w. Inr (dv_secret (wo_device w)))) (\<lambda>secret.
           sbind (reading (\<lambda>w. accountKeys (pl_crypto P) (pl_wallets P) (pl_dkvs P) (wo_device w))) (\<lambda>(stateKey, dataKey).
           sbind (reading (\<lambda>w. case storeError (pl_store P) (wo_replica w) of Some e \<Rightarrow> Inl (RoundStore e) | None \<Rightarrow> Inr ())) (\<lambda>_.
           sbind (reading (\<lambda>w. liftErr RoundStore (configureAccountTemporaryRetention (pl_store P) (wo_replica w) (sn_Profile snapshot)))) (\<lambda>profile.
           sbind (changing meanwhile) (\<lambda>_.
           sbind (onReplica (refreshReplica (pl_store P) [stateKey, dataKey])) (\<lambda>_.
           sbind (onReplica (getOptional (pl_store P) stateKey)) (\<lambda>stateValue.
           sbind (reading (\<lambda>w. openRemoteState (pl_crypto P) (pl_bip39 P) secret profile stateValue)) (\<lambda>(remoteState, remoteEnvelope, usingLocalState).
           sbind (if ms_DataRevision remoteState \<noteq> 0 \<and> \<not> usingLocalState
                  then sbind (onReplica (GetVerified (pl_store P) dataKey)) (\<lambda>value. reading (\<lambda>w. Inr (Some value)))
                  else reading (\<lambda>w. Inr None)) (\<lambda>dataValue.
           sbind (reading (\<lambda>w. openProfileManagedDataBundle (pl_crypto P) profile secret)) (\<lambda>baseBundle.
           sbind (reading (\<lambda>w. openRemoteData (pl_crypto P) secret profile remoteState usingLocalState dataValue baseBundle)) (\<lambda>remoteManaged.
             reading (\<lambda>w. Inr (Some \<lparr>ri_Snapshot = snapshot\<lparr>sn_Profile := profile\<rparr>, ri_Secret = secret, ri_StateKey = stateKey,
               ri_DataKey = dataKey, ri_StateValue = stateValue, ri_DataValue = dataValue, ri_RemoteState = remoteState,
               ri_RemoteEnvelope = remoteEnvelope, ri_UsingLocalState = usingLocalState, ri_BaseBundle = baseBundle,
               ri_RemoteManaged = remoteManaged\<rparr>))))))))))))))"

text \<open>The plan, from what was read and what the modules export now.\<close>

definition planFor :: "('w, 's, 'e, 'r) platform \<Rightarrow> round_input \<Rightarrow> ('w, 's, 'r) world
    \<Rightarrow> ('e round_error + round_plan) \<times> ('w, 's, 'r) world" where
  "planFor P i =
     sbind (reading (\<lambda>w. liftErr RoundSync (buildAccountManagedStateTarget (pl_visitKeys P) (ri_RemoteState i) (ri_Snapshot i)))) (\<lambda>(target, walletChanged).
     sbind (reading (\<lambda>w. rbind (accountManagedDataCatalog (pl_crypto P) (pl_wallets P) (pl_dkvs P) (pl_chain P) (wo_device w)) (\<lambda>catalog.
              liftErr RoundManaged (exportAccountManagedData (pl_crypto P) (pl_providers P) (wo_modules w) catalog 1)))) (\<lambda>(localBundle, _).
     drawing (planRound (pl_crypto P) (pl_bip39 P) (pl_dkvs P) (pl_visitKeys P) (pl_chain P) (ri_Secret i) (sn_Profile (ri_Snapshot i))
       (ri_StateValue i) (ri_DataValue i) (ri_RemoteState i) (ri_RemoteEnvelope i) (ri_UsingLocalState i) (ri_BaseBundle i)
       (ri_RemoteManaged i) target walletChanged localBundle)))"

definition refreshDKVSRegistrations :: "('w, 's, 'e, 'r) platform \<Rightarrow> ('w, 's, 'r) world \<Rightarrow> ('w, 's, 'r) world" where
  "refreshDKVSRegistrations P w =
     (let active = (dv_profile (wo_device w) \<noteq> None \<and> length (dv_secret (wo_device w)) = 32);
          keys = (if active then rbind (accountKeys (pl_crypto P) (pl_wallets P) (pl_dkvs P) (wo_device w))
                    (\<lambda>(stateKey, dataKey). Inr [stateKey, dataKey]) else Inr [])
      in case keys of
           Inl (e :: 'e round_error) \<Rightarrow> w
         | Inr keys \<Rightarrow> w\<lparr>wo_replica := rememberPaths (pl_store P) keys (wo_replica w), wo_woken := True\<rparr>)"

definition importAccountManagedDataSnapshot :: "('w, 's, 'e, 'r) platform \<Rightarrow> accountManagedDataSnapshot \<Rightarrow> ('w, 's, 'r) world
    \<Rightarrow> ('e round_error + unit) \<times> ('w, 's, 'r) world" where
  "importAccountManagedDataSnapshot P snapshot w =
     (case accountManagedDataCatalog (pl_crypto P) (pl_wallets P) (pl_dkvs P) (pl_chain P) (wo_device w) of
        Inl e \<Rightarrow> (Inl e, w)
      | Inr catalog \<Rightarrow>
          (case importAccountManagedData (pl_providers P) catalog (as_Bundle snapshot) (wo_modules w) of
             (Some e, modules) \<Rightarrow> (Inl (RoundManaged e), w\<lparr>wo_modules := modules\<rparr>)
           | (None, modules) \<Rightarrow> (Inr (), w\<lparr>wo_modules := modules\<rparr>)))"

definition commitRound :: "('w, 's, 'e, 'r) platform \<Rightarrow> round_input \<Rightarrow> round_plan \<Rightarrow> (('w, 's, 'r) world \<Rightarrow> ('w, 's, 'r) world)
    \<Rightarrow> ('w, 's, 'r) world \<Rightarrow> ('e round_error + unit) \<times> ('w, 's, 'r) world" where
  "commitRound P i plan meanwhile =
     sbind (\<lambda>w. case commitAccountManagedStateLocked (pl_crypto P) (pl_wallets P) (pl_visitInfos P) (pl_salt P) (pl_flush P)
              (rp_Target plan) (ri_Snapshot i) (rp_Envelope plan)
              (Some \<lparr>md_Revision = mb_Revision (as_Bundle (rp_Data plan)), md_Hash = as_Hash (rp_Data plan),
                    md_Envelope = as_Envelope (rp_Data plan)\<rparr>) (wo_device w) of
              (m, device) \<Rightarrow> (liftErr RoundSync m, w\<lparr>wo_device := device\<rparr>)) (\<lambda>(pendingRemains, importManagedData).
     sbind (changing meanwhile) (\<lambda>_.
     sbind (if importManagedData then importAccountManagedDataSnapshot P (rp_Data plan) else reading (\<lambda>w. Inr ())) (\<lambda>_.
     sbind (changing (\<lambda>w. if pendingRemains \<or> \<not> importManagedData then w\<lparr>wo_woken := True\<rparr> else w)) (\<lambda>_.
     changing (refreshDKVSRegistrations P)))))"

text \<open>
  One attempt: the result is the error of the update, if there is one.  \<open>others k\<close> is what happens
  besides the round between its steps.
\<close>

definition attemptRound :: "('w, 's, 'e, 'r) platform \<Rightarrow> (nat \<Rightarrow> ('w, 's, 'r) world \<Rightarrow> ('w, 's, 'r) world) \<Rightarrow> ('w, 's, 'r) world
    \<Rightarrow> ('e round_error + dkvs_error option) \<times> ('w, 's, 'r) world" where
  "attemptRound P others =
     sbind (changing (others 0)) (\<lambda>_.
     sbind (readRound P (others 1)) (\<lambda>input.
       case input of
         None \<Rightarrow> reading (\<lambda>w. Inr None)
       | Some i \<Rightarrow>
           sbind (changing (others 2)) (\<lambda>_.
           sbind (planFor P i) (\<lambda>plan.
           sbind (changing (others 3)) (\<lambda>_.
           sbind (\<lambda>w. case publishRound (pl_dkvs P) (pl_store P) (sn_Profile (ri_Snapshot i)) (ri_StateKey i) (ri_DataKey i) plan (wo_replica w) of
                    (e, r) \<Rightarrow> (Inr e, w\<lparr>wo_replica := r\<rparr>)) (\<lambda>failed.
             case failed of
               Some e \<Rightarrow> reading (\<lambda>w. Inr (Some e))
             | None \<Rightarrow>
                 sbind (changing (others 4)) (\<lambda>_.
                 sbind (commitRound P i plan (others 5)) (\<lambda>_. reading (\<lambda>w. Inr None)))))))))"

definition retried :: "dkvs_error \<Rightarrow> bool" where
  "retried e \<longleftrightarrow> e \<in> {DkvsWriteConflict, DkvsStaleGeneration, DkvsPathDiverged, DkvsInvalidSequence}"

function syncAttempt :: "('w, 's, 'e, 'r) platform \<Rightarrow> (nat \<Rightarrow> nat \<Rightarrow> ('w, 's, 'r) world \<Rightarrow> ('w, 's, 'r) world) \<Rightarrow> nat \<Rightarrow> ('w, 's, 'r) world
    \<Rightarrow> 'e round_error option \<times> ('w, 's, 'r) world" where
  "syncAttempt P others attempt w =
     (case attemptRound P (others attempt) w of
        (Inl e, w) \<Rightarrow> (Some e, w)
      | (Inr None, w) \<Rightarrow> (None, w)
      | (Inr (Some e), w) \<Rightarrow>
          if attempt < 2 \<and> retried e then syncAttempt P others (attempt + 1) w else (Some (RoundStore e), w))"
  by pat_completeness auto
termination by (relation "measure (\<lambda>(P, others, attempt, w). 2 - attempt)") auto

declare syncAttempt.simps [simp del]

definition SyncAccountManagementState :: "('w, 's, 'e, 'r) platform \<Rightarrow> (nat \<Rightarrow> nat \<Rightarrow> ('w, 's, 'r) world \<Rightarrow> ('w, 's, 'r) world)
    \<Rightarrow> ('w, 's, 'r) world \<Rightarrow> 'e round_error option \<times> ('w, 's, 'r) world" where
  "SyncAccountManagementState P others = syncAttempt P others 0"

end
