(* ===== verification/AccountReadable.thy ===== *)
theory AccountReadable
  imports AccountRound
begin

text \<open>
  What a round publishes: the next state and the data it refers to can be opened again by any device that
  knows the secret, and the device that published them keeps a consistent copy.
\<close>

section \<open>Envelopes and blobs\<close>

lemma OpenInfo_prefix:
  assumes "OpenManagedDataBundleWithInfo C secret accountID value = Inr r"
  shows "length value \<ge> 31" "take 3 value = managedDataEnvelopeMagic"
  using assms
  by (auto simp: OpenManagedDataBundleWithInfo_def result_simps managedDataEnvelopeMagic_def gcmNonceSize_def gcmOverhead_def
      numeral_3_eq_3)

lemma DecodeBlob_envelope:
  assumes "OpenManagedDataBundleWithInfo C secret accountID value = Inr r"
  shows "DecodeBlobValue value = Inr (value, [])"
proof -
  have "take 3 (take 4 value) = managedDataEnvelopeMagic" using OpenInfo_prefix [OF assms] by (simp add: min_def)
  moreover have "take 3 blobEnvelopeMagic \<noteq> managedDataEnvelopeMagic" by code_simp
  ultimately have "take 4 value \<noteq> blobEnvelopeMagic" by metis
  then show ?thesis using OpenInfo_prefix(1) [OF assms] by (auto simp: DecodeBlobValue_def check_def)
qed

lemma EncodeBlob_plain: "EncodeBlobValue D data [] = Inr stored \<Longrightarrow> stored = data"
  by (simp add: EncodeBlobValue_def result_simps)

lemma OpenState_normal:
  assumes "OpenManagedState C bip39 secret accountID value = Inr st"
  shows "length value \<noteq> 0" "\<exists>v. normalizedManagedState bip39 v = Inr st"
  using assms
  by (auto simp: OpenManagedState_def decodeManagedState_def result_simps gcmNonceSize_def Let_def split: option.splits)

lemma normalized_hash:
  assumes "normalizedManagedState bip39 v = Inr st" "ms_DataRevision st \<noteq> 0"
  shows "ms_DataHash st \<noteq> ''''" "ms_DataHash v = hexEncode bs \<Longrightarrow> ms_DataHash st = hexEncode bs"
proof -
  have "length (hexEncode xs) = 2 * length xs" for xs by (induction xs) (auto simp: Let_def)
  then have "length xs = 32 \<Longrightarrow> hexEncode xs \<noteq> ''''" for xs by (metis list.size(3) mult_eq_0_iff zero_neq_numeral)
  then show "ms_DataHash st \<noteq> ''''" "ms_DataHash v = hexEncode bs \<Longrightarrow> ms_DataHash st = hexEncode bs"
    using assms by (auto simp: normalizedManagedState_def normalizeDataHash_def result_simps Let_def split: option.splits)
qed

lemma contentHash_hex: "accountManagedDataContentHash C items = Inr h \<Longrightarrow> \<exists>bs. h = hexEncode bs"
  by (auto simp: accountManagedDataContentHash_def result_simps)

lemma merged_normal:
  assumes "mergeAccountManagedDataBundles visit base remote local catalog revision = Inr m"
  shows "normal_bundle m" "mb_Revision m = revision"
proof -
  have w: "wrapMerged x = Inr m \<longleftrightarrow> x = Inr m" for x by (cases x) (simp_all add: wrapMerged_def)
  obtain items where v: "NormalizeManagedDataBundle \<lparr>mb_Version = 1, mb_Revision = revision, mb_Items = items\<rparr> = Inr m"
    using assms unfolding mergeAccountManagedDataBundles_def by (auto simp: result_simps Let_def w)
  then show "normal_bundle m" by (auto intro: Normalize_normal)
  show "mb_Revision m = revision" using v by (auto simp: NormalizeManagedDataBundle_def result_simps)
qed

section \<open>Consistent profiles\<close>

text \<open>
  The device's copy of the shared state: its envelope holds the revision and the data reference that the
  profile names, and its data envelope holds the data of that reference.
\<close>

definition profile_ok :: "crypto \<Rightarrow> (string \<Rightarrow> bool) \<Rightarrow> byte list \<Rightarrow> accountManagementProfile \<Rightarrow> bool" where
  "profile_ok C bip39 secret profile \<longleftrightarrow>
     (case OpenManagedState C bip39 secret (pf_AccountID profile) (pf_StateEnvelope profile) of
        Inl e \<Rightarrow> False
      | Inr st \<Rightarrow> ms_Revision st = pf_StateSeq profile \<and> ms_DataRevision st = pf_ManagedDataRevision profile
          \<and> ms_DataHash st = pf_ManagedDataHash profile)
     \<and> is_ok (openProfileManagedDataBundle C profile secret :: unit round_error + ManagedDataBundle)"

text \<open>A state within the limits that its decoder checks and its encoder does not.\<close>

definition state_storable :: "(string \<Rightarrow> bool) \<Rightarrow> ManagedState \<Rightarrow> bool" where
  "state_storable bip39 v \<longleftrightarrow>
     (\<forall>w\<in>set (ms_Wallets v). fingerprint_ok (mw_Fingerprint w))
     \<and> (case normalizedManagedState bip39 v of
          Inl e \<Rightarrow> True
        | Inr st \<Rightarrow> length (stateBytes st) \<le> MaxRecoveryObjectSize
            \<and> (\<forall>w\<in>set (ms_Wallets st). unat (mw_AccountCount w) \<le> managedStateMaxItems))"

text \<open>An envelope that holds a bundle of a revision and a content hash.\<close>

definition data_opens :: "crypto \<Rightarrow> byte list \<Rightarrow> string \<Rightarrow> byte list \<Rightarrow> 64 word \<Rightarrow> string \<Rightarrow> bool" where
  "data_opens C secret accountID envelope revision hash \<longleftrightarrow>
     (case OpenManagedDataBundleWithInfo C secret accountID envelope of
        Inl e \<Rightarrow> False
      | Inr (b, c) \<Rightarrow> mb_Revision b = revision \<and> accountManagedDataContentHash C (mb_Items b) = Inr hash)"

lemma openValue_opens:
  assumes "openAccountManagedDataValue C secret accountID value st = Inr m" "ms_DataRevision st \<noteq> 0"
  shows "data_opens C secret accountID (as_Envelope m) (ms_DataRevision st) (ms_DataHash st)"
  using assms
  by (auto simp: openAccountManagedDataValue_def data_opens_def result_simps verifyAccountManagedDataReference_def split: option.splits)

lemma openValue_reference:
  assumes "openAccountManagedDataValue C secret accountID value st = Inr m" "ms_DataRevision st \<noteq> 0"
  shows "as_Hash m = ms_DataHash st \<and> mb_Revision (as_Bundle m) = ms_DataRevision st"
  using assms
  by (auto simp: openAccountManagedDataValue_def result_simps verifyAccountManagedDataReference_def split: option.splits)

lemma opens_openValue:
  assumes "data_opens C secret accountID (dk_Value value) (ms_DataRevision st) (ms_DataHash st)"
    and "ms_DataRevision st \<noteq> 0" "ms_DataHash st \<noteq> ''''"
  shows "\<exists>m. openAccountManagedDataValue C secret accountID (Some value) st = Inr m \<and> as_Hash m = ms_DataHash st
    \<and> mb_Revision (as_Bundle m) = ms_DataRevision st"
proof -
  obtain b c where o: "OpenManagedDataBundleWithInfo C secret accountID (dk_Value value) = Inr (b, c)"
    and b: "mb_Revision b = ms_DataRevision st" "accountManagedDataContentHash C (mb_Items b) = Inr (ms_DataHash st)"
    using assms(1) by (auto simp: data_opens_def split: sum.splits)
  show ?thesis
    using assms(2,3) b by (simp add: openAccountManagedDataValue_def DecodeBlob_envelope [OF o] o verifyAccountManagedDataReference_def)
qed

lemma openProfile_iff:
  "is_ok (openProfileManagedDataBundle C profile secret :: 'e round_error + ManagedDataBundle) \<longleftrightarrow>
     pf_ManagedDataRevision profile = 0
     \<or> data_opens C secret (pf_AccountID profile) (pf_ManagedDataEnvelope profile) (pf_ManagedDataRevision profile) (pf_ManagedDataHash profile)"
proof -
  have "length (pf_ManagedDataEnvelope profile) \<noteq> 0" if "OpenManagedDataBundleWithInfo C secret (pf_AccountID profile) (pf_ManagedDataEnvelope profile) = Inr r" for r
    using OpenInfo_prefix(1) [OF that] by linarith
  then show ?thesis
    by (cases "OpenManagedDataBundleWithInfo C secret (pf_AccountID profile) (pf_ManagedDataEnvelope profile)")
      (auto simp: openProfileManagedDataBundle_def data_opens_def OpenManagedDataBundle_def check_def is_ok_def rbind_def split: sum.splits)
qed

section \<open>The plan of a round\<close>

lemma base_revision:
  "openProfileManagedDataBundle C profile secret = Inr b \<Longrightarrow> pf_ManagedDataRevision profile \<noteq> 0 \<Longrightarrow>
     mb_Revision b = pf_ManagedDataRevision profile"
  by (auto simp: openProfileManagedDataBundle_def check_def rbind_def liftErr_def split: sum.splits if_splits)

lemma word_step: "(x :: 64 word) + 1 \<noteq> 0 \<Longrightarrow> x < x + 1"
  by uint_arith

lemma next_data:
  assumes C: "crypto_laws C"
    and n: "nextManagedData C visit secret profile rs base rm local catalog random
      = (Inr (data, changed, random') :: 'e round_error + (accountManagedDataSnapshot \<times> bool \<times> reader))"
    and r: "ms_DataRevision rs \<noteq> 0 \<Longrightarrow> length (as_Envelope rm) \<noteq> 0 \<Longrightarrow>
      data_opens C secret (pf_AccountID profile) (as_Envelope rm) (ms_DataRevision rs) (ms_DataHash rs)"
  shows "data_opens C secret (pf_AccountID profile) (as_Envelope data) (mb_Revision (as_Bundle data)) (as_Hash data)"
    and "mb_Revision (as_Bundle data) \<noteq> 0" "\<exists>bs. as_Hash data = hexEncode bs" "normal_bundle (as_Bundle data)"
    and "\<not> changed \<Longrightarrow> mb_Revision (as_Bundle data) = ms_DataRevision rs \<and> as_Hash data = ms_DataHash rs"
    and "changed \<Longrightarrow> mb_Revision (as_Bundle data) \<noteq> ms_DataRevision rs"
proof -
  let ?m1 = "if ms_DataRevision rs > pf_ManagedDataRevision profile then ms_DataRevision rs else pf_ManagedDataRevision profile"
  let ?m2 = "if mb_Revision (as_Bundle rm) > ?m1 then mb_Revision (as_Bundle rm) else ?m1"
  obtain merged hash beneficial where rev: "?m2 + 1 \<noteq> 0"
    and m: "mergeAccountManagedDataBundles visit base (as_Bundle rm) local catalog (?m2 + 1) = Inr merged"
    and h: "accountManagedDataContentHash C (mb_Items merged) = Inr hash"
    and cases: "(if shouldReuseRemoteManagedDataEnvelope rs hash (Some rm) beneficial
            then rbind (liftErr RoundAccount (NormalizeManagedDataBundle (merged\<lparr>mb_Revision := ms_DataRevision rs\<rparr>))) (\<lambda>merged.
                   Inr (\<lparr>as_Bundle = merged, as_Hash = hash, as_Envelope = as_Envelope rm, as_Compressed = False\<rparr>, False, random))
            else rbind (liftErr RoundAccount (SealManagedDataBundleWithInfo C secret (pf_AccountID profile) merged random))
                   (\<lambda>(envelope, compressed, random).
                   Inr (\<lparr>as_Bundle = merged, as_Hash = hash, as_Envelope = envelope, as_Compressed = compressed\<rparr>, True, random)))
          = (Inr (data, changed, random') :: 'e round_error + (accountManagedDataSnapshot \<times> bool \<times> reader))"
    using n unfolding nextManagedData_def Let_def check_eq_Inr rbind_eq_Inr liftErr_eq_Inr by blast
  note nm = merged_normal [OF m]
  have hex: "\<exists>bs. hash = hexEncode bs" by (rule contentHash_hex [OF h])
  let ?all = "data_opens C secret (pf_AccountID profile) (as_Envelope data) (mb_Revision (as_Bundle data)) (as_Hash data)
      \<and> mb_Revision (as_Bundle data) \<noteq> 0 \<and> (\<exists>bs. as_Hash data = hexEncode bs) \<and> normal_bundle (as_Bundle data)
      \<and> (\<not> changed \<longrightarrow> mb_Revision (as_Bundle data) = ms_DataRevision rs \<and> as_Hash data = ms_DataHash rs)
      \<and> (changed \<longrightarrow> mb_Revision (as_Bundle data) \<noteq> ms_DataRevision rs)"
  have all: ?all
  proof (cases "shouldReuseRemoteManagedDataEnvelope rs hash (Some rm) beneficial")
    case True
    then have rs: "ms_DataRevision rs \<noteq> 0" "ms_DataHash rs = hash" "length (as_Envelope rm) \<noteq> 0"
      by (auto simp: shouldReuseRemoteManagedDataEnvelope_def)
    obtain b where b: "NormalizeManagedDataBundle (merged\<lparr>mb_Revision := ms_DataRevision rs\<rparr>) = Inr b"
      and d: "data = \<lparr>as_Bundle = b, as_Hash = hash, as_Envelope = as_Envelope rm, as_Compressed = False\<rparr>" "\<not> changed"
      using cases unfolding if_P [OF True] by (auto simp: result_simps)
    have "mb_Revision b = ms_DataRevision rs" using b by (auto simp: NormalizeManagedDataBundle_def result_simps)
    then show ?all
      using r [OF rs(1,3)] rs(1,2) hex d Normalize_normal [OF b] by simp
  next
    case False
    obtain envelope c where s: "SealManagedDataBundleWithInfo C secret (pf_AccountID profile) merged random = Inr (envelope, c, random')"
      and d: "data = \<lparr>as_Bundle = merged, as_Hash = hash, as_Envelope = envelope, as_Compressed = c\<rparr>" "changed"
      using cases unfolding if_not_P [OF False] by (auto simp: result_simps)
    have "NormalizeManagedDataBundle merged = Inr merged" by (rule normal_bundle_fixed [OF nm(1)])
    then have "OpenManagedDataBundleWithInfo C secret (pf_AccountID profile) envelope = Inr (merged, c)"
      using managed_data_open [OF C s] by auto
    moreover have "?m2 + 1 \<noteq> ms_DataRevision rs"
    proof
      assume e: "?m2 + 1 = ms_DataRevision rs"
      have "ms_DataRevision rs \<le> ?m2" by auto
      moreover have "?m2 < ?m2 + 1" using rev by (rule word_step)
      ultimately show False using e by (metis leD)
    qed
    ultimately show ?all
      using h hex rev nm d unfolding data_opens_def by simp
  qed
  show "data_opens C secret (pf_AccountID profile) (as_Envelope data) (mb_Revision (as_Bundle data)) (as_Hash data)"
    "mb_Revision (as_Bundle data) \<noteq> 0" "\<exists>bs. as_Hash data = hexEncode bs" "normal_bundle (as_Bundle data)"
    "\<not> changed \<Longrightarrow> mb_Revision (as_Bundle data) = ms_DataRevision rs \<and> as_Hash data = ms_DataHash rs"
    "changed \<Longrightarrow> mb_Revision (as_Bundle data) \<noteq> ms_DataRevision rs"
    using all by blast+
qed

lemma sealed_state_opens:
  assumes "crypto_laws C" "SealManagedState C bip39 secret accountID v random = Inr (blob, random')" "state_storable bip39 v"
    and "ms_DataRevision v \<noteq> 0" "ms_DataHash v = hexEncode bs"
  shows "\<exists>st. OpenManagedState C bip39 secret accountID blob = Inr st \<and> ms_Revision st = ms_Revision v
    \<and> ms_DataRevision st = ms_DataRevision v \<and> ms_DataHash st = ms_DataHash v"
proof -
  obtain st where n: "normalizedManagedState bip39 v = Inr st"
    using assms(2) by (auto simp: SealManagedState_def encodeManagedState_def result_simps)
  note N = normalized_state_normal(3,4) [OF n]
  have "OpenManagedState C bip39 secret accountID blob = Inr st"
    using assms(3) n by (intro managed_state_open [OF assms(1,2) n]) (auto simp: state_storable_def)
  moreover have "ms_DataHash st = ms_DataHash v" using normalized_hash(2) [OF n _ assms(5)] N(2) assms(4,5) by simp
  ultimately show ?thesis using N by blast
qed

lemma next_state:
  assumes "crypto_laws C"
    and n: "nextManagedState C bip39 secret accountID rs re target walletChanged data random
      = (Inr (t, envelope, changed, random') :: 'e round_error + (ManagedState \<times> byte list \<times> bool \<times> reader))"
    and "\<not> walletChanged \<Longrightarrow> target = rs" "OpenManagedState C bip39 secret accountID re = Inr rs" "state_storable bip39 t"
    and "mb_Revision (as_Bundle data) \<noteq> 0" "as_Hash data = hexEncode bs"
  shows "\<exists>st. OpenManagedState C bip39 secret accountID envelope = Inr st \<and> ms_Revision st = ms_Revision t
    \<and> ms_DataRevision st = mb_Revision (as_Bundle data) \<and> ms_DataHash st = as_Hash data"
proof -
  let ?t = "target\<lparr>ms_DataRevision := mb_Revision (as_Bundle data), ms_DataHash := as_Hash data\<rparr>"
  have t: "ms_DataRevision t = mb_Revision (as_Bundle data)" "ms_DataHash t = as_Hash data"
    using n by (auto simp: nextManagedState_def Let_def result_simps split: if_splits)
  show ?thesis
  proof (cases "SealManagedState C bip39 secret accountID t random = Inr (envelope, random')")
    case True
    then show ?thesis using sealed_state_opens [OF assms(1) True assms(5)] t assms(6,7) by simp
  next
    case False
    then have c: "\<not> walletChanged" "envelope = re" "t = ?t" "ms_DataRevision ?t = ms_DataRevision rs" "ms_DataHash ?t = ms_DataHash rs"
      using n by (auto simp: nextManagedState_def Let_def result_simps split: if_splits)
    then have "t = rs" using assms(3) by simp
    then show ?thesis using c assms(4) t by simp
  qed
qed

lemma build_unchanged: "buildAccountManagedStateTarget visit remote snapshot = Inr (t, False) \<Longrightarrow> t = remote"
  by (auto simp: buildAccountManagedStateTarget_def Let_def result_simps split: if_splits)

lemma openRemoteState_facts:
  assumes "openRemoteState C bip39 secret profile value = (Inr (rs, re, ul) :: 'e round_error + (ManagedState \<times> byte list \<times> bool))"
  shows "OpenManagedState C bip39 secret (pf_AccountID profile) re = Inr rs" "ul \<Longrightarrow> re = pf_StateEnvelope profile"
    and "\<not> ul \<Longrightarrow> re = (case value of None \<Rightarrow> pf_StateEnvelope profile | Some value \<Rightarrow> dk_Value value)"
  using assms by (auto simp: openRemoteState_def Let_def result_simps split: option.splits if_splits)

section \<open>Reading\<close>

lemma sbind_eq_Inr [result_simps]: "sbind m f x = (Inr b, z) \<longleftrightarrow> (\<exists>a y. m x = (Inr a, y) \<and> f a y = (Inr b, z))"
  by (auto simp: sbind_def split: prod.splits sum.splits)

lemma reading_eq [result_simps]: "reading f x = (m, y) \<longleftrightarrow> f x = m \<and> y = x"
  by (auto simp: reading_def)

lemma changing_eq [result_simps]: "changing f x = (m, y) \<longleftrightarrow> m = Inr () \<and> y = f x"
  by (auto simp: changing_def)

lemma drawing_eq_Inr [result_simps]:
  "drawing f w = (Inr a, w') \<longleftrightarrow> (\<exists>random. f (wo_random w) = Inr (a, random) \<and> w' = w\<lparr>wo_random := random\<rparr>)"
  by (auto simp: drawing_def split: sum.splits)

lemma readRound_facts:
  fixes P :: "('w, 's, 'e, 'r) platform"
  assumes "readRound P meanwhile w = (Inr (Some i), w')"
  shows "openRemoteState (pl_crypto P) (pl_bip39 P) (ri_Secret i) (sn_Profile (ri_Snapshot i)) (ri_StateValue i)
      = (Inr (ri_RemoteState i, ri_RemoteEnvelope i, ri_UsingLocalState i) :: 'e round_error + (ManagedState \<times> byte list \<times> bool))"
    and "ri_DataValue i \<noteq> None \<longleftrightarrow> ms_DataRevision (ri_RemoteState i) \<noteq> 0 \<and> \<not> ri_UsingLocalState i"
    and "openProfileManagedDataBundle (pl_crypto P) (sn_Profile (ri_Snapshot i)) (ri_Secret i)
      = (Inr (ri_BaseBundle i) :: 'e round_error + ManagedDataBundle)"
    and "openRemoteData (pl_crypto P) (ri_Secret i) (sn_Profile (ri_Snapshot i)) (ri_RemoteState i) (ri_UsingLocalState i)
      (ri_DataValue i) (ri_BaseBundle i) = (Inr (ri_RemoteManaged i) :: 'e round_error + accountManagedDataSnapshot)"
  using assms by (auto simp: readRound_def result_simps split: option.splits if_splits prod.splits)

lemma readRound_data:
  fixes P :: "('w, 's, 'e, 'r) platform"
  assumes r: "readRound P meanwhile w = (Inr (Some i), w')"
    and ok: "ri_UsingLocalState i \<Longrightarrow> profile_ok (pl_crypto P) (pl_bip39 P) (ri_Secret i) (sn_Profile (ri_Snapshot i))"
    and rev: "ms_DataRevision (ri_RemoteState i) \<noteq> 0"
  shows "data_opens (pl_crypto P) (ri_Secret i) (pf_AccountID (sn_Profile (ri_Snapshot i))) (as_Envelope (ri_RemoteManaged i))
    (ms_DataRevision (ri_RemoteState i)) (ms_DataHash (ri_RemoteState i))"
proof (cases "ri_UsingLocalState i")
  case True
  note f = readRound_facts [OF r]
  have "data_opens (pl_crypto P) (ri_Secret i) (pf_AccountID (sn_Profile (ri_Snapshot i))) (pf_ManagedDataEnvelope (sn_Profile (ri_Snapshot i)))
      (pf_ManagedDataRevision (sn_Profile (ri_Snapshot i))) (pf_ManagedDataHash (sn_Profile (ri_Snapshot i)))"
    and "ms_DataRevision (ri_RemoteState i) = pf_ManagedDataRevision (sn_Profile (ri_Snapshot i))"
    and "ms_DataHash (ri_RemoteState i) = pf_ManagedDataHash (sn_Profile (ri_Snapshot i))"
    using ok [OF True] openRemoteState_facts(1,2) [OF f(1)] True rev by (auto simp: profile_ok_def openProfile_iff)
  moreover have "ri_RemoteManaged i = \<lparr>as_Bundle = ri_BaseBundle i, as_Hash = pf_ManagedDataHash (sn_Profile (ri_Snapshot i)),
      as_Envelope = pf_ManagedDataEnvelope (sn_Profile (ri_Snapshot i)), as_Compressed = False\<rparr>"
    using f(4) True by (simp add: openRemoteData_def)
  ultimately show ?thesis by simp
next
  case False
  then show ?thesis using openValue_opens [OF _ rev] readRound_facts(4) [OF r] by (auto simp: openRemoteData_def)
qed

lemma openValue_cong:
  "ms_DataRevision a = ms_DataRevision b \<Longrightarrow> ms_DataHash a = ms_DataHash b \<Longrightarrow>
     openAccountManagedDataValue C secret accountID value a = openAccountManagedDataValue C secret accountID value b"
proof -
  assume e: "ms_DataRevision a = ms_DataRevision b" "ms_DataHash a = ms_DataHash b"
  then have v: "verifyAccountManagedDataReference a = verifyAccountManagedDataReference b"
    by (intro ext) (simp add: verifyAccountManagedDataReference_def)
  show ?thesis unfolding openAccountManagedDataValue_def e(1) v ..
qed

lemma planFor_facts:
  fixes P :: "('w, 's, 'e, 'r) platform"
  assumes "planFor P i w = (Inr plan, w')"
  shows "\<exists>target walletChanged localBundle dataChanged logicalStateChanged random random'.
      buildAccountManagedStateTarget (pl_visitKeys P) (ri_RemoteState i) (ri_Snapshot i) = Inr (target, walletChanged)
    \<and> nextManagedData (pl_crypto P) (pl_visitKeys P) (ri_Secret i) (sn_Profile (ri_Snapshot i)) (ri_RemoteState i) (ri_BaseBundle i)
        (ri_RemoteManaged i) localBundle (accountManagedDataCatalogFromState (pf_AccountID (sn_Profile (ri_Snapshot i))) (pl_chain P) target)
        (wo_random w) = (Inr (rp_Data plan, dataChanged, random) :: 'e round_error + (accountManagedDataSnapshot \<times> bool \<times> reader))
    \<and> nextManagedState (pl_crypto P) (pl_bip39 P) (ri_Secret i) (pf_AccountID (sn_Profile (ri_Snapshot i))) (ri_RemoteState i)
        (ri_RemoteEnvelope i) target walletChanged (rp_Data plan) random
        = (Inr (rp_Target plan, rp_Envelope plan, logicalStateChanged, random') :: 'e round_error + (ManagedState \<times> byte list \<times> bool \<times> reader))
    \<and> (\<not> rp_WriteData plan \<longrightarrow> \<not> dataChanged \<and> ri_DataValue i \<noteq> None)
    \<and> rp_StateHash plan = recordHash (ri_StateValue i) \<and> rp_DataHash plan = recordHash (ri_DataValue i)
    \<and> (ri_DataValue i = None \<longrightarrow> rp_NeedsPublish plan)"
proof -
  let ?profile = "sn_Profile (ri_Snapshot i)"
  obtain target walletChanged localBundle random' where
    b: "buildAccountManagedStateTarget (pl_visitKeys P) (ri_RemoteState i) (ri_Snapshot i) = Inr (target, walletChanged)"
    and p: "planRound (pl_crypto P) (pl_bip39 P) (pl_dkvs P) (pl_visitKeys P) (pl_chain P) (ri_Secret i) ?profile
              (ri_StateValue i) (ri_DataValue i) (ri_RemoteState i) (ri_RemoteEnvelope i) (ri_UsingLocalState i) (ri_BaseBundle i)
              (ri_RemoteManaged i) target walletChanged localBundle (wo_random w) = (Inr (plan, random') :: 'e round_error + (round_plan \<times> reader))"
    using assms by (auto simp: planFor_def result_simps)
  obtain data dataChanged random where
    d: "nextManagedData (pl_crypto P) (pl_visitKeys P) (ri_Secret i) ?profile (ri_RemoteState i) (ri_BaseBundle i)
        (ri_RemoteManaged i) localBundle (accountManagedDataCatalogFromState (pf_AccountID ?profile) (pl_chain P) target)
        (wo_random w) = (Inr (data, dataChanged, random) :: 'e round_error + (accountManagedDataSnapshot \<times> bool \<times> reader))"
    using p by (auto simp: planRound_def result_simps)
  obtain t envelope logical random2 where
    s: "nextManagedState (pl_crypto P) (pl_bip39 P) (ri_Secret i) (pf_AccountID ?profile) (ri_RemoteState i)
        (ri_RemoteEnvelope i) target walletChanged data random
        = (Inr (t, envelope, logical, random2) :: 'e round_error + (ManagedState \<times> byte list \<times> bool \<times> reader))"
    using p by (auto simp: planRound_def d result_simps)
  have q: "plan = \<lparr>rp_Target = t, rp_Envelope = envelope, rp_Data = data,
      rp_NeedsPublish = (logical \<or> ri_UsingLocalState i \<or> ri_StateValue i = None \<or> \<not> accountRecordMatchesStorage (pl_dkvs P) (ri_StateValue i) ?profile
        \<or> ri_DataValue i = None \<or> \<not> accountRecordMatchesStorage (pl_dkvs P) (ri_DataValue i) ?profile),
      rp_WriteData = (dataChanged \<or> ri_DataValue i = None \<or> \<not> accountRecordMatchesStorage (pl_dkvs P) (ri_DataValue i) ?profile),
      rp_StateHash = recordHash (ri_StateValue i), rp_DataHash = recordHash (ri_DataValue i)\<rparr>"
    using p by (simp add: planRound_def d s Let_def)
  show ?thesis using b d s by (intro exI [of _ target] exI [of _ walletChanged] exI [of _ localBundle] exI [of _ dataChanged]
        exI [of _ logical] exI [of _ random] exI [of _ random2]) (simp add: q)
qed

lemma round_opens:
  fixes P :: "('w, 's, 'e, 'r) platform"
  assumes C: "crypto_laws (pl_crypto P)"
    and r: "readRound P meanwhile w = (Inr (Some i), w')" and p: "planFor P i w2 = (Inr plan, w3)"
    and t: "state_storable (pl_bip39 P) (rp_Target plan)"
    and ok: "ri_UsingLocalState i \<longrightarrow> profile_ok (pl_crypto P) (pl_bip39 P) (ri_Secret i) (sn_Profile (ri_Snapshot i))"
  shows "\<exists>st. OpenManagedState (pl_crypto P) (pl_bip39 P) (ri_Secret i) (pf_AccountID (sn_Profile (ri_Snapshot i))) (rp_Envelope plan) = Inr st
      \<and> ms_Revision st = ms_Revision (rp_Target plan) \<and> ms_DataRevision st = mb_Revision (as_Bundle (rp_Data plan))
      \<and> ms_DataHash st = as_Hash (rp_Data plan)"
    and "data_opens (pl_crypto P) (ri_Secret i) (pf_AccountID (sn_Profile (ri_Snapshot i))) (as_Envelope (rp_Data plan))
      (mb_Revision (as_Bundle (rp_Data plan))) (as_Hash (rp_Data plan))"
    and "mb_Revision (as_Bundle (rp_Data plan)) \<noteq> 0" "as_Hash (rp_Data plan) \<noteq> ''''"
    and "\<not> rp_WriteData plan \<Longrightarrow> mb_Revision (as_Bundle (rp_Data plan)) = ms_DataRevision (ri_RemoteState i)
      \<and> as_Hash (rp_Data plan) = ms_DataHash (ri_RemoteState i)"
proof -
  let ?aid = "pf_AccountID (sn_Profile (ri_Snapshot i))"
  obtain target walletChanged localBundle dataChanged logical random random' where
    b: "buildAccountManagedStateTarget (pl_visitKeys P) (ri_RemoteState i) (ri_Snapshot i) = Inr (target, walletChanged)"
    and d: "nextManagedData (pl_crypto P) (pl_visitKeys P) (ri_Secret i) (sn_Profile (ri_Snapshot i)) (ri_RemoteState i) (ri_BaseBundle i)
        (ri_RemoteManaged i) localBundle (accountManagedDataCatalogFromState ?aid (pl_chain P) target)
        (wo_random w2) = (Inr (rp_Data plan, dataChanged, random) :: 'e round_error + (accountManagedDataSnapshot \<times> bool \<times> reader))"
    and s: "nextManagedState (pl_crypto P) (pl_bip39 P) (ri_Secret i) ?aid (ri_RemoteState i)
        (ri_RemoteEnvelope i) target walletChanged (rp_Data plan) random
        = (Inr (rp_Target plan, rp_Envelope plan, logical, random') :: 'e round_error + (ManagedState \<times> byte list \<times> bool \<times> reader))"
    and w: "\<not> rp_WriteData plan \<Longrightarrow> \<not> dataChanged"
    using planFor_facts [OF p] by blast
  note nd = next_data [OF C d readRound_data [OF r ok [rule_format]]]
  show "data_opens (pl_crypto P) (ri_Secret i) ?aid (as_Envelope (rp_Data plan)) (mb_Revision (as_Bundle (rp_Data plan))) (as_Hash (rp_Data plan))"
    "mb_Revision (as_Bundle (rp_Data plan)) \<noteq> 0" by (rule nd; assumption)+
  show "\<not> rp_WriteData plan \<Longrightarrow> mb_Revision (as_Bundle (rp_Data plan)) = ms_DataRevision (ri_RemoteState i)
      \<and> as_Hash (rp_Data plan) = ms_DataHash (ri_RemoteState i)" using nd(5) w by blast
  obtain bs where bs: "as_Hash (rp_Data plan) = hexEncode bs" using nd(3) by blast
  have u: "\<not> walletChanged \<Longrightarrow> target = ri_RemoteState i" using b build_unchanged by (cases walletChanged) auto
  show e: "\<exists>st. OpenManagedState (pl_crypto P) (pl_bip39 P) (ri_Secret i) ?aid (rp_Envelope plan) = Inr st
      \<and> ms_Revision st = ms_Revision (rp_Target plan) \<and> ms_DataRevision st = mb_Revision (as_Bundle (rp_Data plan))
      \<and> ms_DataHash st = as_Hash (rp_Data plan)"
    by (rule next_state [OF C s u openRemoteState_facts(1) [OF readRound_facts(1) [OF r]] t nd(2) bs])
  then obtain st where "OpenManagedState (pl_crypto P) (pl_bip39 P) (ri_Secret i) ?aid (rp_Envelope plan) = Inr st"
    "ms_DataRevision st \<noteq> 0" "ms_DataHash st = as_Hash (rp_Data plan)" using nd(2) by auto
  then show "as_Hash (rp_Data plan) \<noteq> ''''" using OpenState_normal(2) normalized_hash(1) by metis
qed

section \<open>The guard of published data\<close>

text \<open>
  When the guard passes on a consistent profile, nothing of this device is waiting to be published, and the
  records in the store are the state and the data it committed, open to every device with the secret.
\<close>

lemma require_current_sound:
  fixes D :: "'w dkvslib"
  assumes "requireCurrentAccountManagedData C bip39 L D S dev r = (None :: 'e round_error option, r')"
    and p: "dv_profile dev = Some profile" and ok: "profile_ok C bip39 (dv_secret dev) profile"
  shows "\<not> pf_ManagedDataDirty profile"
    and "\<exists>stateKey dataKey sv dv r1 r2 st m. accountKeys C L D dev = (Inr (stateKey, dataKey) :: 'e round_error + (string \<times> string))
      \<and> GetVerified S stateKey r1 = (Inr sv, r2) \<and> GetVerified S dataKey r2 = (Inr dv, r')
      \<and> OpenManagedState C bip39 (dv_secret dev) (pf_AccountID profile) (dk_Value sv) = Inr st \<and> ms_Revision st = pf_StateSeq profile
      \<and> openAccountManagedDataValue C (dv_secret dev) (pf_AccountID profile) (Some dv) st
          = (Inr m :: 'e round_error + accountManagedDataSnapshot)"
proof -
  show "\<not> pf_ManagedDataDirty profile" using assms(1) p by (auto simp: requireCurrentAccountManagedData_def split: if_splits)
  have n: "\<not> pf_ManagedDataDirty profile" "pf_StateSeq profile \<noteq> 0" "pf_ManagedDataRevision profile \<noteq> 0"
    using assms(1) p by (auto simp: requireCurrentAccountManagedData_def split: if_splits)
  obtain stateKey dataKey sv dv r1 r2 meta where k: "accountKeys C L D dev = (Inr (stateKey, dataKey) :: 'e round_error + (string \<times> string))"
    "GetVerified S stateKey r1 = (Inr sv, r2)" "GetVerified S dataKey r2 = (Inr dv, r')"
    and v: "dk_Value sv = pf_StateEnvelope profile" "DecodeBlobValue (dk_Value dv) = Inr (pf_ManagedDataEnvelope profile, meta)"
    using assms(1) p n
    by (auto simp: requireCurrentAccountManagedData_def split: sum.splits prod.splits option.splits if_splits)
  obtain st where st: "OpenManagedState C bip39 (dv_secret dev) (pf_AccountID profile) (dk_Value sv) = Inr st"
    "ms_Revision st = pf_StateSeq profile" "ms_DataRevision st = pf_ManagedDataRevision profile" "ms_DataHash st = pf_ManagedDataHash profile"
    using ok v(1) by (auto simp: profile_ok_def split: sum.splits)
  have "data_opens C (dv_secret dev) (pf_AccountID profile) (pf_ManagedDataEnvelope profile) (ms_DataRevision st) (ms_DataHash st)"
    using ok n(3) st(3,4) by (auto simp: profile_ok_def openProfile_iff)
  moreover have "ms_DataHash st \<noteq> ''''" using OpenState_normal(2) [OF st(1)] normalized_hash(1) n(3) st(3) by metis
  ultimately have "\<exists>m. openAccountManagedDataValue C (dv_secret dev) (pf_AccountID profile) (Some dv) st
      = (Inr m :: 'e round_error + accountManagedDataSnapshot)"
    using n(3) st(3) by (auto simp: openAccountManagedDataValue_def v(2) data_opens_def verifyAccountManagedDataReference_def split: sum.splits)
  then show "\<exists>stateKey dataKey sv dv r1 r2 st m. accountKeys C L D dev = (Inr (stateKey, dataKey) :: 'e round_error + (string \<times> string))
      \<and> GetVerified S stateKey r1 = (Inr sv, r2) \<and> GetVerified S dataKey r2 = (Inr dv, r')
      \<and> OpenManagedState C bip39 (dv_secret dev) (pf_AccountID profile) (dk_Value sv) = Inr st \<and> ms_Revision st = pf_StateSeq profile
      \<and> openAccountManagedDataValue C (dv_secret dev) (pf_AccountID profile) (Some dv) st
          = (Inr m :: 'e round_error + accountManagedDataSnapshot)"
    using k st(1,2) by blast
qed

section \<open>Properties\<close>


end
