(* ===== verification/AccountConflicts.thy ===== *)
theory AccountConflicts
  imports AccountReadable
begin

text \<open>
  When a round writes: only over the records it was planned from, and in two situations never, although
  the device holds everything it would need.
\<close>

section \<open>Attempts that do not write\<close>

lemma sbind_Inl: "m x = (Inl e, y) \<Longrightarrow> sbind m f x = (Inl e, y)"
  by (simp add: sbind_def)

lemma sbind_Inr: "m x = (Inr a, y) \<Longrightarrow> sbind m f x = f a y"
  by (simp add: sbind_def)

lemma publish_conflict:
  assumes "rp_NeedsPublish plan" "stateKey \<noteq> dataKey"
    and "WaitReady S [stateKey, dataKey] r = (None, r)" "confirmedRecord S r stateKey = Inr sv" "confirmedRecord S r dataKey = Inr dv"
    and "recordHash dv \<noteq> rp_DataHash plan"
  shows "publishRound D S profile stateKey dataKey plan r = (Some DkvsWriteConflict, r)"
  using assms by (simp add: publishRound_def updateValues_def)

text \<open>The parts of the world a round could change for anybody.\<close>

definition same_world :: "('w, 's, 'r) world \<Rightarrow> ('w, 's, 'r) world \<Rightarrow> bool" where
  "same_world w w' \<longleftrightarrow> wo_device w' = wo_device w \<and> wo_modules w' = wo_modules w \<and> wo_replica w' = wo_replica w
     \<and> wo_woken w' = wo_woken w"

lemma same_world_refl [simp]: "same_world w w"
  by (simp add: same_world_def)

lemma same_world_trans: "same_world u v \<Longrightarrow> same_world v w \<Longrightarrow> same_world u w"
  by (simp add: same_world_def)

text \<open>The replica is up to date, and nothing happens besides the round.\<close>

definition quiet_replica :: "'r dkvsReplica \<Rightarrow> 'r \<Rightarrow> bool" where
  "quiet_replica S r \<longleftrightarrow> (\<forall>keys. Refresh S keys r = (None, r) \<and> WaitReady S keys r = (None, r))"

lemma quiet_refresh: "quiet_replica S (wo_replica w) \<Longrightarrow> onReplica (refreshReplica S keys) w = (Inr (), w)"
  by (simp add: quiet_replica_def onReplica_def refreshReplica_def)

lemma quiet_missing:
  assumes "quiet_replica S (wo_replica w)" "confirmedRecord S (wo_replica w) key = Inr None"
  shows "onReplica (getOptional S key) w = (Inr None, w)" "onReplica (GetVerified S key) w = (Inl (RoundStore DkvsRecordNotFound), w)"
  using assms by (simp_all add: quiet_replica_def onReplica_def getOptional_def GetVerified_def)

lemma quiet_present:
  assumes "quiet_replica S (wo_replica w)" "confirmedRecord S (wo_replica w) key = Inr (Some v)" "verifyRecord S (wo_replica w) key v = None"
  shows "onReplica (getOptional S key) w = (Inr (Some v), w)"
  using assms by (simp add: quiet_replica_def onReplica_def getOptional_def GetVerified_def)

lemma keeps_sbind: "snd (m w) = w \<Longrightarrow> (\<And>a. snd (f a w) = w) \<Longrightarrow> snd (sbind m f w) = w"
  by (auto simp: sbind_def split: prod.splits sum.splits)

lemma keeps_reading: "snd (reading f w) = w"
  by (simp add: reading_def)

lemma keeps_changing: "snd (changing (\<lambda>w. w) w) = w"
  by (simp add: changing_def)

lemma keeps_replica:
  assumes "quiet_replica S (wo_replica w)"
  shows "snd (onReplica (refreshReplica S keys) w) = w" "snd (onReplica (GetVerified S key) w) = w" "snd (onReplica (getOptional S key) w) = w"
  using assms by (auto simp: quiet_replica_def onReplica_def refreshReplica_def getOptional_def GetVerified_def split: prod.splits sum.splits)

lemma readRound_quiet:
  assumes "quiet_replica (pl_store P) (wo_replica w)"
  shows "snd (readRound P (\<lambda>w. w) w) = w"
  unfolding readRound_def
  by (intro keeps_sbind keeps_reading keeps_changing keeps_replica [OF assms])
    (auto intro!: keeps_sbind keeps_reading keeps_changing keeps_replica [OF assms] split: option.splits prod.splits)

lemma planFor_same: "same_world w (snd (planFor P i w))"
  by (auto simp: planFor_def sbind_def reading_def drawing_def same_world_def split: prod.splits sum.splits)

section \<open>A device ahead of the store\<close>

text \<open>The store holds both records, but its state is older than the one this device committed last.\<close>

definition device_ahead :: "('w, 's, 'e, 'r) platform \<Rightarrow> string \<Rightarrow> string \<Rightarrow> accountManagementProfile \<Rightarrow> byte list \<Rightarrow> 'r \<Rightarrow> bool" where
  "device_ahead P stateKey dataKey profile secret r \<longleftrightarrow>
     (\<exists>sv dv rs. stateKey \<noteq> dataKey \<and> confirmedRecord (pl_store P) r stateKey = Inr (Some sv)
      \<and> verifyRecord (pl_store P) r stateKey sv = None \<and> confirmedRecord (pl_store P) r dataKey = Inr (Some dv) \<and> dk_Hash dv \<noteq> ''''
      \<and> OpenManagedState (pl_crypto P) (pl_bip39 P) secret (pf_AccountID profile) (dk_Value sv) = Inr rs
      \<and> ms_Revision rs < pf_StateSeq profile \<and> pf_StateEnvelope profile \<noteq> [])"

lemma configured_profile:
  "configureAccountTemporaryRetention S r profile = Inr profile' \<Longrightarrow> \<exists>ttl. profile' = profile\<lparr>pf_RecordTTL := ttl\<rparr>"
  by (auto simp: configureAccountTemporaryRetention_def result_simps split: if_splits intro: exI [of _ "pf_RecordTTL profile"])

lemma captured_profile:
  "captureAccountManagementSyncSnapshotLocked C L dev = Inr (Some snapshot) \<Longrightarrow> dv_profile dev = Some (sn_Profile snapshot)"
  by (auto simp: captureAccountManagementSyncSnapshotLocked_def result_simps split: option.splits if_splits)

lemma ahead_state:
  assumes "OpenManagedState C bip39 secret (pf_AccountID profile) (dk_Value sv) = Inr rs" "ms_Revision rs < pf_StateSeq profile"
    "pf_StateEnvelope profile \<noteq> []" "openRemoteState C bip39 secret profile (Some sv) = Inr (st, envelope, ul)"
  shows "ul"
  using assms by (auto simp: openRemoteState_def Let_def result_simps)

lemma ahead_read:
  fixes P :: "('w, 's, 'e, 'r) platform"
  assumes "dv_profile (wo_device w) = Some profile"
    and "accountKeys (pl_crypto P) (pl_wallets P) (pl_dkvs P) (wo_device w) = (Inr (stateKey, dataKey) :: 'e round_error + (string \<times> string))"
    and "device_ahead P stateKey dataKey profile (dv_secret (wo_device w)) (wo_replica w)" "quiet_replica (pl_store P) (wo_replica w)"
    and "readRound P (\<lambda>w. w) w = (Inr (Some i), w')"
  shows "w' = w" "ri_DataValue i = None" "ri_UsingLocalState i" "ri_StateKey i = stateKey" "ri_DataKey i = dataKey"
proof -
  obtain sv dv rs where k: "stateKey \<noteq> dataKey" and sv: "confirmedRecord (pl_store P) (wo_replica w) stateKey = Inr (Some sv)"
      "verifyRecord (pl_store P) (wo_replica w) stateKey sv = None"
    and rs: "OpenManagedState (pl_crypto P) (pl_bip39 P) (dv_secret (wo_device w)) (pf_AccountID profile) (dk_Value sv) = Inr rs"
      "ms_Revision rs < pf_StateSeq profile" "pf_StateEnvelope profile \<noteq> []"
    using assms(3) unfolding device_ahead_def by blast
  obtain snapshot profile' st envelope ul where c: "captureAccountManagementSyncSnapshotLocked (pl_crypto P) (pl_wallets P) (wo_device w) = Inr (Some snapshot)"
    and p: "configureAccountTemporaryRetention (pl_store P) (wo_replica w) (sn_Profile snapshot) = Inr profile'"
    and o: "openRemoteState (pl_crypto P) (pl_bip39 P) (dv_secret (wo_device w)) profile' (Some sv)
      = (Inr (st, envelope, ul) :: 'e round_error + (ManagedState \<times> byte list \<times> bool))"
    and i: "ri_UsingLocalState i = ul" "ri_StateKey i = stateKey" "ri_DataKey i = dataKey" "ul \<longrightarrow> w' = w"
    using assms(5)
    by (auto simp: readRound_def result_simps assms(2) quiet_refresh [OF assms(4)] quiet_present [OF assms(4) sv] split: option.splits if_splits)
  obtain ttl where "profile' = profile\<lparr>pf_RecordTTL := ttl\<rparr>" using configured_profile [OF p] captured_profile [OF c] assms(1) by auto
  then have ul by (intro ahead_state [OF _ _ _ o]) (use rs in simp_all)
  then show "w' = w" "ri_DataValue i = None" "ri_UsingLocalState i" "ri_StateKey i = stateKey" "ri_DataKey i = dataKey"
    using i readRound_facts(2) [OF assms(5)] by auto
qed

lemma readRound_active:
  assumes "captureAccountManagementSyncSnapshotLocked (pl_crypto P) (pl_wallets P) (wo_device w) = Inr (Some snapshot)"
  shows "readRound P meanwhile w \<noteq> (Inr None, w')"
  using assms by (auto simp: readRound_def result_simps split: prod.splits)

text \<open>The steps of an attempt besides which nothing happens.\<close>

lemma attempt_steps:
  assumes "\<forall>k w. others k w = w" "readRound P (\<lambda>w. w) w = (Inr (Some i), w1)" "planFor P i w1 = (Inr plan, w2)"
    and "publishRound (pl_dkvs P) (pl_store P) (sn_Profile (ri_Snapshot i)) (ri_StateKey i) (ri_DataKey i) plan (wo_replica w2) = (Some e, r)"
  shows "attemptRound P others w = (Inr (Some e), w2\<lparr>wo_replica := r\<rparr>)"
proof -
  have o: "others k = (\<lambda>w. w)" for k using assms(1) by (intro ext) simp
  show ?thesis by (simp add: attemptRound_def o sbind_def changing_def reading_def assms(2-4))
qed

lemma attempt_errors:
  assumes "\<forall>k w. others k w = w"
  shows "readRound P (\<lambda>w. w) w = (Inl e, w1) \<Longrightarrow> attemptRound P others w = (Inl e, w1)"
    and "readRound P (\<lambda>w. w) w = (Inr (Some i), w1) \<Longrightarrow> planFor P i w1 = (Inl e, w2) \<Longrightarrow> attemptRound P others w = (Inl e, w2)"
proof -
  have o: "others k = (\<lambda>w. w)" for k using assms(1) by (intro ext) simp
  show "readRound P (\<lambda>w. w) w = (Inl e, w1) \<Longrightarrow> attemptRound P others w = (Inl e, w1)"
    and "readRound P (\<lambda>w. w) w = (Inr (Some i), w1) \<Longrightarrow> planFor P i w1 = (Inl e, w2) \<Longrightarrow> attemptRound P others w = (Inl e, w2)"
    by (simp_all add: attemptRound_def o sbind_def changing_def)
qed

lemma ahead_attempt:
  fixes P :: "('w, 's, 'e, 'r) platform"
  assumes o: "\<forall>k w. others k w = w"
    and c: "captureAccountManagementSyncSnapshotLocked (pl_crypto P) (pl_wallets P) (wo_device w) = Inr (Some snapshot)"
    and k: "accountKeys (pl_crypto P) (pl_wallets P) (pl_dkvs P) (wo_device w) = (Inr (stateKey, dataKey) :: 'e round_error + (string \<times> string))"
    and a: "device_ahead P stateKey dataKey (sn_Profile snapshot) (dv_secret (wo_device w)) (wo_replica w)"
    and q: "quiet_replica (pl_store P) (wo_replica w)"
  shows "\<exists>m w'. attemptRound P others w = (m, w') \<and> m \<noteq> Inr None \<and> same_world w w'"
proof (cases "readRound P (\<lambda>w. w) w")
  case (Pair m w1)
  then have w1: "w1 = w" using readRound_quiet [OF q] by (metis snd_conv)
  show ?thesis
  proof (cases m)
    case (Inl e)
    then show ?thesis using attempt_errors(1) [OF o] Pair w1 by fastforce
  next
    case (Inr input)
    then obtain i where i: "readRound P (\<lambda>w. w) w = (Inr (Some i), w)"
      using Pair w1 readRound_active [OF c] by (cases input) auto
    note ar = ahead_read [OF captured_profile [OF c] k a q i]
    obtain pm w2 where p: "planFor P i w = (pm, w2)" by fastforce
    then have s: "same_world w w2" using planFor_same by (metis snd_conv)
    show ?thesis
    proof (cases pm)
      case (Inl e)
      then show ?thesis using attempt_errors(2) [OF o i] p s by fastforce
    next
      case (Inr plan)
      obtain sv dv where v: "stateKey \<noteq> dataKey" "confirmedRecord (pl_store P) (wo_replica w) stateKey = Inr (Some sv)"
          "confirmedRecord (pl_store P) (wo_replica w) dataKey = Inr (Some dv)" "dk_Hash dv \<noteq> ''''"
        using a unfolding device_ahead_def by blast
      have "rp_NeedsPublish plan" "rp_DataHash plan = ''''"
        using planFor_facts [OF p [unfolded Inr]] ar(2) by (auto simp: recordHash_def)
      then have "publishRound (pl_dkvs P) (pl_store P) (sn_Profile (ri_Snapshot i)) (ri_StateKey i) (ri_DataKey i) plan (wo_replica w2)
          = (Some DkvsWriteConflict, wo_replica w2)"
        using v q s ar(4,5) by (intro publish_conflict) (auto simp: same_world_def quiet_replica_def recordHash_def)
      note at = attempt_steps [OF o i p [unfolded Inr] this]
      have "same_world w (w2\<lparr>wo_replica := wo_replica w2\<rparr>)" using s by simp
      then show ?thesis using at by (intro exI conjI) auto
    qed
  qed
qed

lemma ahead_sync:
  fixes P :: "('w, 's, 'e, 'r) platform"
  assumes o: "\<forall>n k w. others n k w = w"
    and "captureAccountManagementSyncSnapshotLocked (pl_crypto P) (pl_wallets P) (wo_device w) = Inr (Some snapshot)"
    and "accountKeys (pl_crypto P) (pl_wallets P) (pl_dkvs P) (wo_device w) = (Inr (stateKey, dataKey) :: 'e round_error + (string \<times> string))"
    and "device_ahead P stateKey dataKey (sn_Profile snapshot) (dv_secret (wo_device w)) (wo_replica w)"
    and "quiet_replica (pl_store P) (wo_replica w)"
  shows "\<exists>e w'. syncAttempt P others n w = (Some e, w') \<and> same_world w w'"
  using assms(2-)
proof (induction "2 - n" arbitrary: n w rule: less_induct)
  case (less n w)
  obtain m w1 where a: "attemptRound P (others n) w = (m, w1)" "m \<noteq> Inr None" "same_world w w1"
    using ahead_attempt [of "others n" P w, OF _ less.prems] o by blast
  show ?case
  proof (cases m)
    case (Inl e)
    then show ?thesis using a by (subst syncAttempt.simps) simp
  next
    case (Inr f)
    then obtain e where e: "f = Some e" using a(2) by (cases f) auto
    show ?thesis
    proof (cases "n < 2 \<and> retried e")
      case True
      have "\<exists>e w'. syncAttempt P others (n + 1) w1 = (Some e, w') \<and> same_world w1 w'"
        using less.prems a(3) True by (intro less.hyps) (auto simp: same_world_def)
      then show ?thesis using a Inr e True same_world_trans by (subst syncAttempt.simps) fastforce
    next
      case False
      then show ?thesis using a Inr e by (subst syncAttempt.simps) auto
    qed
  qed
qed

section \<open>Records that are gone\<close>

lemma missing_read:
  fixes P :: "('w, 's, 'e, 'r) platform"
  assumes q: "quiet_replica (pl_store P) (wo_replica w)"
    and c: "captureAccountManagementSyncSnapshotLocked (pl_crypto P) (pl_wallets P) (wo_device w) = Inr (Some snapshot)"
    and k: "accountKeys (pl_crypto P) (pl_wallets P) (pl_dkvs P) (wo_device w) = (Inr (stateKey, dataKey) :: 'e round_error + (string \<times> string))"
    and "storeError (pl_store P) (wo_replica w) = None"
    and p: "configureAccountTemporaryRetention (pl_store P) (wo_replica w) (sn_Profile snapshot) = Inr profile"
    and "confirmedRecord (pl_store P) (wo_replica w) stateKey = Inr None" "confirmedRecord (pl_store P) (wo_replica w) dataKey = Inr None"
    and ok: "profile_ok (pl_crypto P) (pl_bip39 P) (dv_secret (wo_device w)) (sn_Profile snapshot)" "pf_ManagedDataRevision (sn_Profile snapshot) \<noteq> 0"
  shows "readRound P (\<lambda>w. w) w = (Inl (RoundStore DkvsRecordNotFound), w)"
proof -
  let ?open = "OpenManagedState (pl_crypto P) (pl_bip39 P) (dv_secret (wo_device w)) (pf_AccountID profile) (pf_StateEnvelope profile)"
  obtain ttl where "profile = (sn_Profile snapshot)\<lparr>pf_RecordTTL := ttl\<rparr>" using configured_profile [OF p] by blast
  then obtain st where st: "?open = Inr st" "ms_Revision st = pf_StateSeq profile" "ms_DataRevision st \<noteq> 0"
    using ok by (auto simp: profile_ok_def split: sum.splits)
  have "openRemoteState (pl_crypto P) (pl_bip39 P) (dv_secret (wo_device w)) profile None
      = (Inr (st, pf_StateEnvelope profile, False) :: 'e round_error + (ManagedState \<times> byte list \<times> bool))"
    using st OpenState_normal(1) [OF st(1)] by (simp add: openRemoteState_def)
  then show ?thesis
    using assms(4) st(3)
    by (simp add: readRound_def sbind_def reading_def changing_def c k p quiet_refresh [OF q] quiet_missing [OF q assms(6)] quiet_missing [OF q assms(7)])
qed

section \<open>Publishing over what was read\<close>

lemma mutation_keys:
  "accountManagementMutations D profile stateKey envelope dataKey dataEnvelope writeData = Inr ms \<Longrightarrow>
     map mt_Key ms = (if writeData then [stateKey, dataKey] else [stateKey])"
  by (auto simp: accountManagementMutations_def accountManagedDataMutation_def accountStateMutation_def result_simps Let_def split: if_splits)

lemma update_committed:
  assumes "updateValues S [stateKey, dataKey] builder r = (None, r')" "stateKey \<noteq> dataKey"
  shows "\<exists>r1 sv dv ms. WaitReady S [stateKey, dataKey] r = (None, r1) \<and> confirmedRecord S r1 stateKey = Inr sv
    \<and> confirmedRecord S r1 dataKey = Inr dv
    \<and> builder (\<lambda>key. if key = stateKey then sv else if key = dataKey then dv else None) = Inr ms
    \<and> (ms = [] \<or> commitValues S (map (\<lambda>m. (m, if mt_Key m = stateKey then sv else dv)) ms) r1 = (None, r'))"
proof -
  obtain r1 where r1: "WaitReady S [stateKey, dataKey] r = (None, r1)"
    using assms(1) by (auto simp: updateValues_def split: prod.splits option.splits)
  obtain sv dv where v: "confirmedRecord S r1 stateKey = Inr sv" "confirmedRecord S r1 dataKey = Inr dv"
    using assms(1) r1 by (cases "confirmedRecord S r1 stateKey"; cases "confirmedRecord S r1 dataKey") (auto simp: updateValues_def)
  let ?current = "\<lambda>key. if key = stateKey then sv else if key = dataKey then dv else None"
  have "(\<lambda>key. case map_of (zip [stateKey, dataKey] [sv, dv]) key of None \<Rightarrow> None | Some v \<Rightarrow> v) = ?current" using assms(2) by auto
  then have u: "(case builder ?current of Inl e \<Rightarrow> (Some e, r1)
      | Inr ms \<Rightarrow> if ms = [] then (None, r1)
          else (case find (\<lambda>m. mt_Key m \<notin> set [stateKey, dataKey]) ms of Some m \<Rightarrow> (Some (DkvsUnregisteredKey (mt_Key m)), r1)
             | None \<Rightarrow> commitValues S (map (\<lambda>m. (m, ?current (mt_Key m))) ms) r1)) = (None, r')"
    using assms(1) r1 v by (simp add: updateValues_def del: set_simps)
  then obtain ms where ms: "builder ?current = Inr ms" by (auto split: sum.splits)
  have "ms = [] \<or> commitValues S (map (\<lambda>m. (m, if mt_Key m = stateKey then sv else dv)) ms) r1 = (None, r')"
  proof (cases "ms = []")
    case False
    then have n: "find (\<lambda>m. mt_Key m \<notin> set [stateKey, dataKey]) ms = None" using u ms by (auto split: option.splits)
    then have e: "map (\<lambda>m. (m, ?current (mt_Key m))) ms = map (\<lambda>m. (m, if mt_Key m = stateKey then sv else dv)) ms"
      by (auto simp: find_None_iff)
    have "commitValues S (map (\<lambda>m. (m, ?current (mt_Key m))) ms) r1 = (None, r')" using u ms n False by simp
    then show ?thesis unfolding e ..
  qed simp
  then show ?thesis using r1 v ms by blast
qed

section \<open>Properties\<close>


text \<open>
  C39: A device whose own copy is newer than the store never publishes it.  When the store holds both
  records and its state is older than the one this device committed last, the synchronisation fails,
  however often it is called: the data record is not read in this case, so the update takes it for a
  record that somebody else has just written.
\<close>

theorem ahead_never_published:
  fixes P :: "('w, 's, 'e, 'r) platform"
  assumes "\<forall>n k w. others n k w = w" and "quiet_replica (pl_store P) (wo_replica w)"
    and "captureAccountManagementSyncSnapshotLocked (pl_crypto P) (pl_wallets P) (wo_device w) = Inr (Some snapshot)"
    and "accountKeys (pl_crypto P) (pl_wallets P) (pl_dkvs P) (wo_device w) = (Inr (stateKey, dataKey) :: 'e round_error + (string \<times> string))"
    and "device_ahead P stateKey dataKey (sn_Profile snapshot) (dv_secret (wo_device w)) (wo_replica w)"
  shows "\<exists>e w'. SyncAccountManagementState P others w = (Some e, w') \<and> same_world w w'"
  unfolding SyncAccountManagementState_def by (rule ahead_sync [OF assms(1,3,4,5,2)])

text \<open>
  C40: Records that the store has lost (after the retention of temporary storage, for instance) are never
  written again: the device holds a consistent copy of both, but the synchronisation stops at the missing
  data record and changes nothing.
\<close>

theorem lost_records_stay_lost:
  fixes P :: "('w, 's, 'e, 'r) platform"
  assumes "\<forall>n k w. others n k w = w" and "quiet_replica (pl_store P) (wo_replica w)"
    and "captureAccountManagementSyncSnapshotLocked (pl_crypto P) (pl_wallets P) (wo_device w) = Inr (Some snapshot)"
    and "accountKeys (pl_crypto P) (pl_wallets P) (pl_dkvs P) (wo_device w) = (Inr (stateKey, dataKey) :: 'e round_error + (string \<times> string))"
    and "storeError (pl_store P) (wo_replica w) = None"
    and "configureAccountTemporaryRetention (pl_store P) (wo_replica w) (sn_Profile snapshot) = Inr profile"
    and "confirmedRecord (pl_store P) (wo_replica w) stateKey = Inr None" and "confirmedRecord (pl_store P) (wo_replica w) dataKey = Inr None"
    and "profile_ok (pl_crypto P) (pl_bip39 P) (dv_secret (wo_device w)) (sn_Profile snapshot)"
    and "pf_ManagedDataRevision (sn_Profile snapshot) \<noteq> 0"
  shows "SyncAccountManagementState P others w = (Some (RoundStore DkvsRecordNotFound), w)"
proof -
  have o: "\<forall>k w. others 0 k w = w" using assms(1) by blast
  show ?thesis
    using attempt_errors(1) [OF o missing_read [OF assms(2-10)]]
    by (simp add: SyncAccountManagementState_def syncAttempt.simps [of _ _ 0])
qed

end
