(* ===== verification/AccountRoundDemo.thy ===== *)
theory AccountRoundDemo
  imports AccountConflicts
begin

text \<open>
  Concrete rounds: one device with one wallet, and a store that is a list of records and always up to
  date.  The hash is constant, so every wallet has the fingerprint of zeros.
\<close>

section \<open>Evaluation\<close>

text \<open>The tests of sizes against large limits, on binary integers.\<close>

primrec len_int :: "'a list \<Rightarrow> int" where
  "len_int [] = 0"
| "len_int (x # xs) = len_int xs + 1"

lemma len_int: "len_int xs = int (length xs)"
  by (induction xs) simp_all

lemma size_tests [code_unfold]:
  "MaxRecoveryObjectSize < length xs \<longleftrightarrow> 10240 < len_int xs" "ManagedDataMaxPayload < length xs \<longleftrightarrow> 1048576 < len_int xs"
  "managedStateMaxString < length xs \<longleftrightarrow> 4096 < len_int xs" "managedDataMaxItems < length xs \<longleftrightarrow> 4096 < len_int xs"
  "managedStateMaxItems < length xs \<longleftrightarrow> 1024 < len_int xs"
  by (simp_all add: len_int MaxRecoveryObjectSize_def ManagedDataMaxPayload_def managedStateMaxString_def managedDataMaxItems_def
      managedStateMaxItems_def)

lemma decodeItem_code [code]:
  "decodeItem r =
     rbind (readStateString r) (\<lambda>(provider, r).
       rbind (readStateString r) (\<lambda>(scope, r).
         rbind (readManagedDataBytes 1048576 r) (\<lambda>(payload, r).
           Inr (\<lparr>mi_Provider = provider, mi_Scope = scope, mi_Payload = payload\<rparr>, r))))"
  by (simp add: decodeItem_def ManagedDataMaxPayload_def)

lemma fingerprint_ok_code [code]:
  "fingerprint_ok s \<longleftrightarrow> (case hexDecode s of None \<Rightarrow> False | Some bs \<Rightarrow> s = hexEncode bs \<and> length bs = 32)"
  by (auto simp: fingerprint_ok_def split: option.splits)

section \<open>A platform\<close>

definition demo_zeros :: string where
  "demo_zeros = hexEncode (replicate 32 0)"

definition demo_dkvs :: "string dkvslib" where
  "demo_dkvs = \<lparr>Clone = Some, SetSubAccount = (\<lambda>i w. w), GetPubKey = (\<lambda>w. Some (bytes_of w)),
     PersonalKey = (\<lambda>key path. Inr (''p'' @ path)), CanonicalAccountID = (\<lambda>key. Inr (string_of key)),
     BlobKey = (\<lambda>account name. Inr (''b'' @ account)), ParseFeeProof = (\<lambda>proof. Some (0, '''')),
     FeeModeFreeLocal = 0, FeeModeAutopay = 1, MaxDKVSBlobValueSize = 100\<rparr>"

definition demo_put :: "dkvsValueMutation \<Rightarrow> (string \<times> dkvsValue) list \<Rightarrow> (string \<times> dkvsValue) list" where
  "demo_put m r = (mt_Key m, \<lparr>dk_Value = mt_Value m, dk_TTL = mt_TTL m, dk_Hash = ''h'', dk_FeeProof = []\<rparr>) # r"

definition demo_replica :: "(string \<times> dkvsValue) list dkvsReplica" where
  "demo_replica = \<lparr>storeError = (\<lambda>r. None), GetConfig = (\<lambda>r. Inr (True, 100)), Refresh = (\<lambda>keys r. (None, r)),
     WaitReady = (\<lambda>keys r. (None, r)), confirmedRecord = (\<lambda>r key. Inr (map_of r key)), verifyRecord = (\<lambda>r key value. None),
     commitValues = (\<lambda>ms r. (None, fold (\<lambda>m r. demo_put (fst m) r) ms r)), rememberPaths = (\<lambda>keys r. r)\<rparr>"

definition demo_exporter :: "(nat, unit) AccountManagedDataProvider" where
  "demo_exporter = demo_provider\<lparr>Export := (\<lambda>st catalog. Inr [\<lparr>pl_Scope = ''global'', pl_Payload = [7]\<rparr>])\<rparr>"

definition demo_platform :: "(string, nat, unit, (string \<times> dkvsValue) list) platform" where
  "demo_platform = \<lparr>pl_crypto = demo_crypto [], pl_wallets = demo_lib, pl_dkvs = demo_dkvs, pl_store = demo_replica,
     pl_bip39 = (\<lambda>m. True), pl_chain = ''test'', pl_providers = [(''rgb'', demo_exporter)], pl_flush = (\<lambda>b. True), pl_salt = [],
     pl_visitKeys = (\<lambda>ks. ks), pl_visitInfos = (\<lambda>ws. ws)\<rparr>"

definition demo_first :: ManagedState where
  "demo_first = \<lparr>ms_Version = 2, ms_RootFingerprint = demo_zeros, ms_Revision = 1, ms_DataRevision = 0, ms_DataHash = '''',
     ms_Wallets = [(demo_wallet demo_zeros ''Main'' [''A''])\<lparr>mw_Mnemonic := ''r''\<rparr>]\<rparr>"

text \<open>The envelope of \<open>demo_first\<close>: magic, nonce, the compressed encoding and the tag.\<close>

definition demo_first_envelope :: "byte list" where
  "demo_first_envelope = [65, 77, 69, 50] @ replicate 12 0 @ [1, 65, 77, 83, 50, 2] @ replicate 32 0 @ [1, 0, 0, 1] @ replicate 32 0
     @ [1, 0, 4, 77, 97, 105, 110, 1, 114, 1, 0, 1, 65, 0] @ replicate 16 0"

definition demo_record :: "byte list \<Rightarrow> dkvsValue" where
  "demo_record v = \<lparr>dk_Value = v, dk_TTL = 100, dk_Hash = ''h'', dk_FeeProof = []\<rparr>"

definition demo_world :: "64 word \<Rightarrow> byte list \<Rightarrow> (string \<times> dkvsValue) list \<Rightarrow> (string, nat, (string \<times> dkvsValue) list) world" where
  "demo_world seqno envelope records = \<lparr>wo_device = \<lparr>dv_infos = [(1, demo_info ''r'' ''Main'')], dv_TotalWallet = 1,
       dv_CurrentWallet = 1, dv_CurrentAccount = 0,
       dv_profile = Some ((demo_profile [])\<lparr>pf_RootFingerprint := demo_zeros, pf_AccountID := demo_zeros, pf_StateSeq := seqno,
         pf_StateEnvelope := envelope\<rparr>),
       dv_secret = replicate 32 0, dv_password = ''p'', dv_wallet = Some ''r'', dv_sub = 0\<rparr>,
     wo_modules = 0, wo_replica = records, wo_random = replicate 100 0, wo_woken = False\<rparr>"

definition demo_start :: "(string, nat, (string \<times> dkvsValue) list) world" where
  "demo_start = demo_world 1 demo_first_envelope [(''paccount/state'', demo_record demo_first_envelope)]"

section \<open>A round that succeeds\<close>

definition demo_input :: round_input where
  "demo_input = (case fst (readRound demo_platform (\<lambda>w. w) demo_start) of Inr (Some i) \<Rightarrow> i)"

definition demo_plan :: round_plan where
  "demo_plan = (case fst (planFor demo_platform demo_input demo_start) of Inr plan \<Rightarrow> plan)"

definition demo_plan_ok :: "round_input \<Rightarrow> round_plan \<Rightarrow> bool" where
  "demo_plan_ok i plan \<longleftrightarrow> rp_NeedsPublish plan \<and> rp_WriteData plan \<and> state_storable (\<lambda>m. True) (rp_Target plan)
     \<and> EncodeBlobValue demo_dkvs (as_Envelope (rp_Data plan)) [] = Inr (as_Envelope (rp_Data plan))
     \<and> fst (publishRound demo_dkvs demo_replica (sn_Profile (ri_Snapshot i)) (ri_StateKey i) (ri_DataKey i) plan (wo_replica demo_start)) = None
     \<and> \<not> ri_UsingLocalState i \<and> ri_StateKey i = ''paccount/state'' \<and> ri_DataKey i = ''br''"

lemma demo_evaluated:
  "case fst (readRound demo_platform (\<lambda>w. w) demo_start) of
     Inl e \<Rightarrow> False
   | Inr None \<Rightarrow> False
   | Inr (Some i) \<Rightarrow> (case fst (planFor demo_platform i demo_start) of Inl e \<Rightarrow> False | Inr plan \<Rightarrow> demo_plan_ok i plan)"
  by code_simp

lemma demo_read: "fst (readRound demo_platform (\<lambda>w. w) demo_start) = Inr (Some demo_input)"
  using demo_evaluated by (auto simp: demo_input_def split: sum.splits option.splits)

lemma demo_planned: "fst (planFor demo_platform demo_input demo_start) = Inr demo_plan" "demo_plan_ok demo_input demo_plan"
  using demo_evaluated unfolding demo_read by (auto simp: demo_plan_def split: sum.splits)

lemma demo_succeeds: "fst (SyncAccountManagementState demo_platform (\<lambda>n k w. w) demo_start) = None"
  by code_simp

lemma demo_platform_simps [simp]:
  "pl_crypto demo_platform = demo_crypto []" "pl_store demo_platform = demo_replica" "pl_dkvs demo_platform = demo_dkvs"
  "pl_bip39 demo_platform = (\<lambda>m. True)" "pl_wallets demo_platform = demo_lib"
  by (simp_all add: demo_platform_def)

lemmas demo_reads = prod.collapse [of "readRound demo_platform (\<lambda>w. w) demo_start", unfolded demo_read, symmetric]

lemmas demo_plans = prod.collapse [of "planFor demo_platform demo_input demo_start", unfolded demo_planned(1), symmetric]



section \<open>Rounds that never succeed\<close>

text \<open>A store with both records and a device that has committed a later state, which it kept.\<close>

definition demo_ahead :: "(string, nat, (string \<times> dkvsValue) list) world" where
  "demo_ahead = demo_world 5 [1] [(''paccount/state'', demo_record demo_first_envelope), (''br'', demo_record [1])]"

lemma demo_quiet: "quiet_replica demo_replica r"
  by (simp add: quiet_replica_def demo_replica_def)

lemma demo_opens: "OpenManagedState (demo_crypto []) (\<lambda>m. True) (replicate 32 0) demo_zeros demo_first_envelope = Inr demo_first"
  by code_simp

definition demo_captured_in :: "(string, nat, (string \<times> dkvsValue) list) world \<Rightarrow> accountManagementSyncSnapshot" where
  "demo_captured_in w = (case captureAccountManagementSyncSnapshotLocked (demo_crypto []) demo_lib (wo_device w) of Inr (Some s) \<Rightarrow> s)"

definition demo_active :: "(string, nat, (string \<times> dkvsValue) list) world \<Rightarrow> bool" where
  "demo_active w \<longleftrightarrow> (case captureAccountManagementSyncSnapshotLocked (demo_crypto []) demo_lib (wo_device w) of Inr (Some s) \<Rightarrow> True | _ \<Rightarrow> False)
     \<and> accountKeys (demo_crypto []) demo_lib demo_dkvs (wo_device w) = (Inr (''paccount/state'', ''br'') :: unit round_error + (string \<times> string))"

lemma demo_active_facts:
  assumes "demo_active w"
  shows "captureAccountManagementSyncSnapshotLocked (pl_crypto demo_platform) (pl_wallets demo_platform) (wo_device w)
      = Inr (Some (demo_captured_in w))"
    and "accountKeys (pl_crypto demo_platform) (pl_wallets demo_platform) (pl_dkvs demo_platform) (wo_device w)
      = (Inr (''paccount/state'', ''br'') :: unit round_error + (string \<times> string))"
    and "dv_profile (wo_device w) = Some (sn_Profile (demo_captured_in w))"
proof -
  show c: "captureAccountManagementSyncSnapshotLocked (pl_crypto demo_platform) (pl_wallets demo_platform) (wo_device w)
      = Inr (Some (demo_captured_in w))"
    using assms by (auto simp: demo_active_def demo_captured_in_def split: sum.splits option.splits)
  show "dv_profile (wo_device w) = Some (sn_Profile (demo_captured_in w))" by (rule captured_profile [OF c])
qed (use assms in \<open>simp add: demo_active_def\<close>)

lemma ahead_never_published_witness:
  "\<exists>e w'. SyncAccountManagementState demo_platform (\<lambda>n k w. w) demo_ahead = (Some e, w') \<and> same_world demo_ahead w'"
proof -
  have a: "demo_active demo_ahead" by code_simp
  note f = demo_active_facts [OF a]
  have p: "sn_Profile (demo_captured_in demo_ahead) = (demo_profile [])\<lparr>pf_RootFingerprint := demo_zeros, pf_AccountID := demo_zeros,
      pf_StateSeq := 5, pf_StateEnvelope := [1]\<rparr>"
    using f(3) by (simp add: demo_ahead_def demo_world_def)
  have "device_ahead demo_platform ''paccount/state'' ''br'' (sn_Profile (demo_captured_in demo_ahead)) (dv_secret (wo_device demo_ahead))
      (wo_replica demo_ahead)"
    unfolding device_ahead_def p
    by (rule exI [of _ "demo_record demo_first_envelope"], rule exI [of _ "demo_record [1]"], rule exI [of _ demo_first])
      (simp add: demo_ahead_def demo_world_def demo_replica_def demo_record_def demo_opens, simp add: demo_first_def)
  then show ?thesis using ahead_never_published [OF _ _ f(1,2)] demo_quiet by simp
qed

text \<open>A device that committed \<open>demo_second\<close> and its data, and a store that is empty again.\<close>

definition demo_second_envelope :: "byte list" where
  "demo_second_envelope = [65, 77, 69, 50] @ replicate 12 0 @ [1, 65, 77, 83, 50, 2] @ replicate 32 0 @ [2, 2, 64] @ replicate 64 48
     @ [1] @ replicate 32 0 @ [1, 0, 4, 77, 97, 105, 110, 1, 114, 1, 0, 1, 65, 0] @ replicate 16 0"

definition demo_data_envelope :: "byte list" where
  "demo_data_envelope = [65, 68, 69] @ replicate 12 0 @ [65, 77, 68, 1, 2, 1, 3, 114, 103, 98, 6, 103, 108, 111, 98, 97, 108, 1, 7] @ replicate 16 0"

definition demo_lost :: "(string, nat, (string \<times> dkvsValue) list) world" where
  "demo_lost = (demo_world 2 demo_second_envelope [])\<lparr>wo_device := (wo_device (demo_world 2 demo_second_envelope []))\<lparr>dv_profile :=
     Some ((demo_profile [])\<lparr>pf_RootFingerprint := demo_zeros, pf_AccountID := demo_zeros, pf_StateSeq := 2,
       pf_StateEnvelope := demo_second_envelope, pf_ManagedDataRevision := 2, pf_ManagedDataHash := demo_zeros,
       pf_ManagedDataEnvelope := demo_data_envelope\<rparr>)\<rparr>\<rparr>"

lemma demo_lost_ok: "case dv_profile (wo_device demo_lost) of None \<Rightarrow> False
    | Some profile \<Rightarrow> profile_ok (demo_crypto []) (\<lambda>m. True) (replicate 32 0) profile"
  by code_simp

lemma lost_records_stay_lost_witness:
  "SyncAccountManagementState demo_platform (\<lambda>n k w. w) demo_lost = (Some (RoundStore DkvsRecordNotFound), demo_lost)"
proof -
  have a: "demo_active demo_lost" by code_simp
  note f = demo_active_facts [OF a]
  have p: "sn_Profile (demo_captured_in demo_lost) = (demo_profile [])\<lparr>pf_RootFingerprint := demo_zeros, pf_AccountID := demo_zeros,
      pf_StateSeq := 2, pf_StateEnvelope := demo_second_envelope, pf_ManagedDataRevision := 2, pf_ManagedDataHash := demo_zeros,
       pf_ManagedDataEnvelope := demo_data_envelope\<rparr>"
    using f(3) by (simp add: demo_lost_def)
  have s: "wo_replica demo_lost = []" "dv_secret (wo_device demo_lost) = replicate 32 0" by (simp_all add: demo_lost_def demo_world_def)
  have ok: "profile_ok (pl_crypto demo_platform) (pl_bip39 demo_platform) (dv_secret (wo_device demo_lost)) (sn_Profile (demo_captured_in demo_lost))"
    using demo_lost_ok unfolding f(3) by (simp add: s(2))
  have c: "configureAccountTemporaryRetention (pl_store demo_platform) (wo_replica demo_lost) (sn_Profile (demo_captured_in demo_lost))
      = Inr ((sn_Profile (demo_captured_in demo_lost))\<lparr>pf_RecordTTL := 100\<rparr>)"
    by (simp add: p configureAccountTemporaryRetention_def AccountStorageTemporary_def demo_profile_def demo_replica_def
        ApplyFreeLocalRetention_def)
  show ?thesis
    by (rule lost_records_stay_lost [OF _ _ f(1,2) _ c _ _ ok]) (simp_all add: demo_quiet, simp_all add: demo_replica_def s(1) p)
qed

end
