(* ===== verification/Spec2Isabelle.thy ===== *)
theory Spec2Isabelle
  imports ManagedData StorageProperties LockDemo MerkleRoot AccountRoundDemo
begin

text \<open>
  A verification library for the SDK of the sat20 wallet (the Go code under \<open>src/sdk\<close>).  It models the
  parts that guard secrets and funds on the user's own devices: the backup and recovery of an
  account, the inventory of wallets and module data that several devices share, the locks on unspent
  outputs, and the Merkle roots that commit a channel to its balances.

  \<^bold>\<open>The program and how its parts interact.\<close>  The package \<open>account\<close> creates a recovery package: a random
  account secret is split into shares (\<open>internal/shamir\<close>), one share is locked behind knowledge
  questions through a fuzzy vault (\<open>fuzzy\<close>, \<open>questions.go\<close>), one is sealed to a guardian
  (\<open>guardian.go\<close>), one stays with the user (\<open>share.go\<close>); the backup and the locator are sealed under the
  secret (\<open>crypto.go\<close>, \<open>codec.go\<close>, \<open>types.go\<close>), and \<open>manager.go\<close> joins all of it.  Packages are stored with
  \<open>recovery_storage_codec.go\<close>.  The state of an account (\<open>state.go\<close>) and the data of its modules
  (\<open>managed_data.go\<close>) are normalised, encoded, compressed and sealed with the same secret.  In the
  package \<open>wallet\<close>, \<open>wallet_catalog.go\<close> changes wallets and accounts on one device and queues each change;
  \<open>account_management_state.go\<close> merges the queue into the shared state and commits the result;
  \<open>account_managed_data.go\<close> merges the data of the modules; \<open>utxolocker.go\<close> keeps locks and
  reservations on outputs in a key-value store (\<open>lightnode/kvdb.go\<close> in the browser); \<open>merkle.go\<close> and
  \<open>channel_merkle.go\<close> compute the roots both sides of a channel sign.

  \<^bold>\<open>Shared vocabulary.\<close>  \<open>Prelude\<close> holds the result type, the sequencing of fallible calls (\<open>rbind\<close>, \<open>check\<close>,
  \<open>rmap\<close>, \<open>rfold\<close>) and Go's integer operations; \<open>Encoding\<close>, \<open>Base64\<close> and \<open>Runes\<close> the encodings, white space
  and UTF-8 of Go's library, with the locale \<open>codec\<close> (what is written is read back, with the rest of
  the input left over), interpreted for every field codec of the model.  \<open>PolyRoots\<close> bounds the number
  of roots of a polynomial in the locale \<open>vanishing\<close>, interpreted for the field of bytes and for the
  integers modulo a prime.

  \<^bold>\<open>Secret sharing.\<close>  \<open>GF256\<close> models the branch-free byte arithmetic of \<open>shamir.go\<close> and shows that it is the
  field of bytes (an instance of the class \<open>field\<close>); \<open>Shamir\<close> models \<open>Split\<close> and \<open>Combine\<close> and shows that
  enough parts restore the secret, that fewer are consistent with every secret, and that \<open>Combine\<close>
  never panics.

  \<^bold>\<open>Fuzzy vault.\<close>  \<open>FuzzyMath\<close> models \<open>math.go\<close> (arithmetic on \<open>int64\<close>, polynomials, Gauss-Jordan elimination,
  Berlekamp-Welch decoding), \<open>PrimeField\<close>, \<open>FuzzyPoly\<close> and \<open>FuzzyLinear\<close> show what each routine computes;
  \<open>FuzzyVault\<close> models \<open>fuzzy.go\<close> and \<open>types.go\<close>; \<open>FuzzyRecovery\<close> and \<open>FuzzyTotal\<close> show that a key is recovered
  from every set close enough, that recovery ends on every input, and that what it accepts is the
  locked set or exhibits a collision of the slow hash.

  \<^bold>\<open>Accounts.\<close>  \<open>AccountBackup\<close> models the records and the normalisation of backups; \<open>ManagedState\<close>,
  \<open>ManagedStateCodec\<close> and \<open>ManagedData\<close> the sealed state and data, with normal forms and round trips;
  \<open>RecoveryShare\<close>, \<open>ShareProperties\<close>, \<open>Questions\<close>, \<open>QuestionsRecovery\<close>, \<open>QuestionsDemo\<close>, \<open>RecoveryManager\<close> and
  \<open>RecoveryEndToEnd\<close> the shares, the questions, the guardian and the whole recovery, up to the theorem
  that an account that was backed up comes back; \<open>RecoveryStorage\<close> and \<open>StorageProperties\<close> the storage
  codec.

  \<^bold>\<open>Locks.\<close>  \<open>KeyValue\<close> models the browser store and its write batches and states the locale \<open>kvdb_store\<close>
  that the locker needs of a store; \<open>UtxoLocker\<close> models every operation of the locker on cache and store;
  \<open>LockSpec\<close> and \<open>LockTable\<close> give the abstract table of locks and its operations; \<open>LockProperties\<close> the
  simulation and the reachable traces; \<open>LockGuarantees\<close> and \<open>LockDemo\<close> the guarantees and a concrete run.

  \<^bold>\<open>Synchronisation.\<close>  \<open>ManagedDataSync\<close> models providers, export, import and the three-way merge of module
  data.  \<open>AccountSync\<close> models the queue of local changes and the pure function that builds the next
  shared state; \<open>AccountSyncTarget\<close> shows what that state is, wallet by wallet, and exactly when it
  can be built.  \<open>WalletCatalog\<close> models the wallets of a device and the user's operations on them;
  \<open>AccountCommit\<close> the commit of a shared state, with its effect on each wallet and on the stored
  wallets; \<open>AccountRounds\<close> building and committing together: without interference rounds converge, and a
  rename during a round can be lost.  \<open>AccountStorage\<close> models the records of the shared store and how
  state and data are held in them, read and replaced; \<open>AccountRound\<close> the whole round of
  \<open>SyncAccountManagementState\<close>, with its attempts, the device and the other writers of the store;
  \<open>AccountReadable\<close> shows that any device can open what a round publishes and that the committed profile
  is consistent; \<open>AccountConflicts\<close> that a round replaces only what it has read, and two situations in
  which a device never publishes again; \<open>AccountRoundDemo\<close> concrete rounds.

  \<^bold>\<open>Channels.\<close>  \<open>MerkleRoot\<close> models the rolling tree and the three roots of a channel; it computes the root
  of the reference tree, independently of the order in which balances are visited, and binds its
  leaves up to collisions of the hash.

  \<^bold>\<open>Conventions.\<close>  Machine integers are words of their width, or \<open>int\<close> with the wrap-around written out
  (\<open>i64\<close>).  Errors are constructors of one datatype per component; an index out of range or a nil
  dereference that the source can reach is an error of its own.  Maps are functions where their order
  does not matter and association lists where they are iterated; the order in which Go visits a map
  is a parameter (\<open>visit\<close>), of which the theorems assume only that it is a permutation.  Random
  bytes, clocks and the success of storage writes are arguments.

  \<^bold>\<open>Fuel and loops.\<close>  Only \<open>hkdf_loop\<close> has fuel, the number of bytes asked for, which is enough because each
  round adds a byte (\<open>hkdf_length\<close>).  The loops with no bound in the source (\<open>isPrime_loop\<close>, the search for
  the next prime, \<open>divRem_loop\<close>, \<open>shift_loop\<close>, \<open>calcRoot\<close>) are partial functions with the value \<open>None\<close> for a run
  that does not end; the theorems about them state that they return.  A synchronisation makes at most
  three attempts (\<open>syncAttempt\<close>, by a measure).

  \<^bold>\<open>Parameters.\<close>  HMAC, SHA-256, AES-GCM, scrypt, X25519, compression, JSON and gob marshalling, strict
  encoding (package \<open>rgb11\<close>), BIP-39, Unicode normalisation, decimals, keys and wallet objects are not
  part of this repository.  They are records of functions (\<open>crypto\<close>, \<open>knowledge\<close>, \<open>strict\<close>, \<open>gob\<close>,
  \<open>chanlib\<close>, \<open>walletlib\<close>, \<open>dkvslib\<close>, and \<open>dkvsReplica\<close> and \<open>platform\<close> for the store and the device a round
  runs on); what is used of them is stated as laws (\<open>crypto_laws\<close>, \<open>strict_laws\<close>, ...), each with
  a concrete instance in a witness.

  \<^bold>\<open>Not modelled.\<close>  The channel protocol and its transactions, contracts, RGB11 assets, the DKVS client and
  the REST and node clients work on transactions, records and messages of other repositories
  (\<open>btcd\<close>, \<open>satoshinet\<close>, \<open>indexer\<close>, \<open>rgb11\<close>) or are network calls; their logic is in what they exchange with code
  that can not be read here.  \<open>wasm\<close>, \<open>plugin\<close>, \<open>e2e\<close> and \<open>config\<close> are bindings and glue.  Within the
  modelled components: activation and restoration of account management, the building, signing and
  sending of DKVS records and the background loop of their replica, \<open>CalcChannelHash\<close> (it hashes printed
  transactions), and the extension mode of the browser store (JavaScript promises).
\<close>

end
